(* ===== verification/Camkes_Prelude.thy ===== *)
theory Camkes_Prelude
  imports Main "HOL-Library.Word"
begin

text \<open>
  Shared vocabulary of the development: machine integers and bytes by their C names, the
  faults a C component can stop with, the result type and its sequencing, checked array
  access, the two number formats of \<open>printf\<close> the applications print with, and the
  lemmas on them that the component theories use through the simplifier and the
  collections below.
\<close>

unbundle bit_operations_syntax

section \<open>Types\<close>

type_synonym u8 = "8 word"
type_synonym u16 = "16 word"
type_synonym u32 = "32 word"
type_synonym u64 = "64 word"
type_synonym bytes = "8 word list"

text \<open>
  How a component stops: a failed \<open>assert\<close>, a call of \<open>abort\<close>, an array access outside the array, the use
  of a null pointer or of one that points to no allocated block, or a log at the fatal level (\<open>ZF_LOGF\<close>), after which the code
  does not mean to go on.
\<close>

datatype fault = AssertionFailed | Aborted | IndexError | NullDereference | BadPointer | FatalLog

type_synonym 'a result = "fault + 'a"

named_theorems succeeds \<open>when a fallible step returns a value, and which\<close>

section \<open>Words as numbers\<close>

lemma unat_u8_less [simp]: "unat (b :: u8) < 256"
  using unsigned_less [of b] by simp

lemma unat_u16_less [simp]: "unat (b :: u16) < 65536"
  using unsigned_less [of b] by simp

lemma unat_u32_less [simp]: "unat (b :: u32) < 4294967296"
  using unsigned_less [of b] by simp

lemma unat_of_nat_u32: "n < 4294967296 \<Longrightarrow> unat (of_nat n :: u32) = n"
  by (simp add: unat_of_nat take_bit_nat_eq_self)

lemma unat_of_nat_u8: "n < 256 \<Longrightarrow> unat (of_nat n :: u8) = n"
  by (simp add: unat_of_nat take_bit_nat_eq_self)

lemma unat_ucast_u8_u32: "unat (ucast (b :: u8) :: u32) = unat b"
proof -
  have "unat b < 2 ^ 32" by (rule less_trans [OF unat_u8_less]) simp
  then show ?thesis by (simp add: unsigned_ucast_eq take_bit_nat_eq_self)
qed

lemma sint_small: "n < 2 ^ 31 \<Longrightarrow> sint (of_nat n :: u32) = int n"
  by (simp add: signed_of_nat signed_take_bit_int_eq_self)

lemma sint_u32_less: "sint (w :: u32) < 2 ^ 31"
  using sint_less [of w] by simp

section \<open>Results\<close>

definition rbind :: "'a result \<Rightarrow> ('a \<Rightarrow> 'b result) \<Rightarrow> 'b result" where
  "rbind r f = (case r of Inl e \<Rightarrow> Inl e | Inr x \<Rightarrow> f x)"

lemma rbind_Inl [simp]: "rbind (Inl e) f = Inl e"
  by (simp add: rbind_def)

lemma rbind_Inr [simp]: "rbind (Inr x) f = f x"
  by (simp add: rbind_def)

lemma rbind_eq_Inr [succeeds]: "rbind r f = Inr y \<longleftrightarrow> (\<exists>x. r = Inr x \<and> f x = Inr y)"
  by (cases r) auto

definition c_assert :: "bool \<Rightarrow> unit result" where
  "c_assert b = (if b then Inr () else Inl AssertionFailed)"

lemma c_assert_True [simp]: "c_assert True = Inr ()"
  by (simp add: c_assert_def)

lemma c_assert_False [simp]: "c_assert False = Inl AssertionFailed"
  by (simp add: c_assert_def)

lemma c_assert_eq_Inr [simp]: "c_assert b = Inr u \<longleftrightarrow> b"
  by (simp add: c_assert_def)

text \<open>An array read and an array write with the bound checked.\<close>

definition array_read :: "'a list \<Rightarrow> nat \<Rightarrow> 'a result" where
  "array_read xs i = (if i < length xs then Inr (xs ! i) else Inl IndexError)"

definition array_write :: "'a list \<Rightarrow> nat \<Rightarrow> 'a \<Rightarrow> 'a list result" where
  "array_write xs i x = (if i < length xs then Inr (xs[i := x]) else Inl IndexError)"

lemma array_read_ok [simp]: "i < length xs \<Longrightarrow> array_read xs i = Inr (xs ! i)"
  by (simp add: array_read_def)

lemma array_write_ok [simp]: "i < length xs \<Longrightarrow> array_write xs i x = Inr (xs[i := x])"
  by (simp add: array_write_def)

lemma array_read_eq_Inr [succeeds]: "array_read xs i = Inr x \<longleftrightarrow> i < length xs \<and> x = xs ! i"
  by (auto simp: array_read_def)

lemma array_write_eq_Inr [succeeds]: "array_write xs i x = Inr ys \<longleftrightarrow> i < length xs \<and> ys = xs[i := x]"
  by (auto simp: array_write_def)

text \<open>A loop that collects one result per element and stops at the first fault.\<close>

fun rmap :: "('a \<Rightarrow> 'b result) \<Rightarrow> 'a list \<Rightarrow> 'b list result" where
  "rmap f [] = Inr []"
| "rmap f (x # xs) = rbind (f x) (\<lambda>y. rbind (rmap f xs) (\<lambda>ys. Inr (y # ys)))"

lemma rmap_total:
  assumes "\<And>x. x \<in> set xs \<Longrightarrow> f x = Inr (g x)"
  shows "rmap f xs = Inr (map g xs)"
  using assms by (induction xs) auto

text \<open>A loop that threads a state through a list and stops at the first fault.\<close>

fun rfold :: "('a \<Rightarrow> 's \<Rightarrow> 's result) \<Rightarrow> 'a list \<Rightarrow> 's \<Rightarrow> 's result" where
  "rfold f [] s = Inr s"
| "rfold f (x # xs) s = rbind (f x s) (rfold f xs)"

lemma rfold_invariant:
  assumes "rfold f xs s = Inr t" and "P s"
    and "\<And>x s t. x \<in> set xs \<Longrightarrow> P s \<Longrightarrow> f x s = Inr t \<Longrightarrow> P t"
  shows "P t"
  using assms
proof (induction xs arbitrary: s)
  case (Cons x xs)
  from Cons.prems(1) obtain u where u: "f x s = Inr u" "rfold f xs u = Inr t"
    by (auto simp: rbind_eq_Inr)
  show ?case
    by (rule Cons.IH [OF u(2)]) (use Cons.prems u(1) in auto)
qed simp

lemma rfold_append: "rfold f (xs @ ys) s = rbind (rfold f xs s) (rfold f ys)"
  by (induction xs arbitrary: s) (simp_all add: rbind_def split: sum.splits)

section \<open>Lists\<close>

lemma count_upt_length: "length (filter P [0..<n]) \<le> n"
  by (metis diff_zero length_filter_le length_upt)

lemma map_nth_upd_other:
  "i \<notin> set js \<Longrightarrow> map ((!) (xs[i := x])) js = map ((!) xs) js"
  by (induction js) auto

lemma list_all_update: "list_all P xs \<Longrightarrow> P x \<Longrightarrow> list_all P (xs[i := x])"
  by (cases "i < length xs") (auto simp: list_all_length nth_list_update)

lemma distinct_list_update_notin:
  "distinct xs \<Longrightarrow> x \<notin> set xs \<Longrightarrow> distinct (xs[i := x])"
  by (rule distinct_list_update) auto

section \<open>Decimal and hexadecimal output\<close>

text \<open>\<open>%u\<close> and \<open>%d\<close> on the numbers that are printed, and one hexadecimal digit.\<close>

fun show_nat :: "nat \<Rightarrow> string" where
  "show_nat n =
     (if n < 10 then [char_of (48 + n)] else show_nat (n div 10) @ [char_of (48 + n mod 10)])"

declare show_nat.simps [simp del]

definition show_int :: "int \<Rightarrow> string" where
  "show_int i = (if i < 0 then CHR ''-'' # show_nat (nat (- i)) else show_nat (nat i))"

definition hex_digit :: "nat \<Rightarrow> char" where
  "hex_digit d = (if d < 10 then char_of (48 + d) else char_of (87 + d))"

definition show_hex2 :: "nat \<Rightarrow> string" where
  "show_hex2 n = [hex_digit (n div 16 mod 16), hex_digit (n mod 16)]"

lemma length_show_hex2 [simp]: "length (show_hex2 n) = 2"
  by (simp add: show_hex2_def)

lemma show_nat_small: "n < 10 \<Longrightarrow> show_nat n = [char_of (48 + n)]"
  by (subst show_nat.simps) simp

lemma length_show_nat_bound: "n < 10 ^ Suc k \<Longrightarrow> length (show_nat n) \<le> Suc k"
proof (induction k arbitrary: n)
  case 0
  then show ?case by (simp add: show_nat_small)
next
  case (Suc k)
  show ?case
  proof (cases "n < 10")
    case True
    then show ?thesis by (simp add: show_nat_small)
  next
    case False
    from Suc.prems have "n div 10 < 10 ^ Suc k" by (simp add: less_mult_imp_div_less)
    then have "length (show_nat (n div 10)) \<le> Suc k" by (rule Suc.IH)
    with False show ?thesis by (subst show_nat.simps) simp
  qed
qed

lemma length_show_nat_byte: "n < 256 \<Longrightarrow> length (show_nat n) \<le> 3"
  using length_show_nat_bound [of n 2] by simp

lemma show_nat_nonempty [simp]: "show_nat n \<noteq> []"
  by (subst show_nat.simps) simp

lemma show_nat_digits: "c \<in> set (show_nat n) \<Longrightarrow> 48 \<le> (of_char c :: nat) \<and> (of_char c :: nat) < 58"
proof (induction n rule: show_nat.induct)
  case (1 n)
  have digit: "48 \<le> (of_char (char_of (48 + d) :: char) :: nat) \<and>
      (of_char (char_of (48 + d) :: char) :: nat) < 58" if "d < 10" for d :: nat
    using that by simp
  show ?case
  proof (cases "n < 10")
    case True
    with "1.prems" digit show ?thesis by (auto simp: show_nat_small)
  next
    case False
    with "1.prems" consider "c \<in> set (show_nat (n div 10))" | "c = char_of (48 + n mod 10)"
      by (subst (asm) show_nat.simps) auto
    then show ?thesis
      using "1.IH" [OF False] digit [of "n mod 10"] by cases auto
  qed
qed

text \<open>\<open>%x\<close>.\<close>

fun show_hex :: "nat \<Rightarrow> string" where
  "show_hex n =
     (if n < 16 then [hex_digit n] else show_hex (n div 16) @ [hex_digit (n mod 16)])"

declare show_hex.simps [simp del]

lemma length_show_hex_bound: "n < 16 ^ Suc k \<Longrightarrow> length (show_hex n) \<le> Suc k"
proof (induction k arbitrary: n)
  case 0
  then show ?case by (subst show_hex.simps) simp
next
  case (Suc k)
  show ?case
  proof (cases "n < 16")
    case True
    then show ?thesis by (subst show_hex.simps) simp
  next
    case False
    from Suc.prems have "n div 16 < 16 ^ Suc k" by (simp add: less_mult_imp_div_less)
    then have "length (show_hex (n div 16)) \<le> Suc k" by (rule Suc.IH)
    with False show ?thesis by (subst show_hex.simps) simp
  qed
qed

section \<open>Byte buffers of C\<close>

text \<open>
  The first \<open>n\<close> bytes of the source as \<open>strncpy\<close> leaves them in the destination: what stands
  before the first null byte, then null bytes. \<open>overwrite\<close> puts bytes at the start of a
  buffer and keeps the rest, \<open>c_memcpy\<close> is the same with the bound of the destination checked, \<open>c_bytes\<close> reads the first bytes of
  a buffer with its bound checked,
  and \<open>memset0\<close> clears the first \<open>n\<close> bytes of a buffer.
\<close>

definition strncpy_bytes :: "nat \<Rightarrow> bytes \<Rightarrow> bytes" where
  "strncpy_bytes n src =
     (let s = takeWhile (\<lambda>c. c \<noteq> 0) (take n src) in s @ replicate (n - length s) 0)"

definition overwrite :: "'a list \<Rightarrow> 'a list \<Rightarrow> 'a list" where
  "overwrite buf xs = xs @ drop (length xs) buf"

definition memset0 :: "nat \<Rightarrow> bytes \<Rightarrow> bytes" where
  "memset0 n buf = overwrite buf (replicate n 0)"

lemma length_strncpy_bytes [simp]: "length (strncpy_bytes n src) = n"
proof -
  have "length (takeWhile (\<lambda>c. c \<noteq> 0) (take n src)) \<le> n"
    by (rule le_trans [OF length_takeWhile_le]) simp
  then show ?thesis by (simp add: strncpy_bytes_def Let_def)
qed

lemma strncpy_bytes_no_null:
  assumes "0 \<notin> set (take n src)" "n \<le> length src"
  shows "strncpy_bytes n src = take n src"
proof -
  have eq: "takeWhile (\<lambda>c. c \<noteq> 0) (take n src) = take n src"
    using assms(1) by (auto simp: takeWhile_eq_all_conv)
  show ?thesis unfolding strncpy_bytes_def Let_def eq using assms(2) by simp
qed

lemma length_overwrite: "length xs \<le> length buf \<Longrightarrow> length (overwrite buf xs) = length buf"
  by (simp add: overwrite_def)

lemma take_overwrite: "length xs = n \<Longrightarrow> take n (overwrite buf xs) = xs"
  by (simp add: overwrite_def)

definition c_memcpy :: "'a list \<Rightarrow> 'a list \<Rightarrow> 'a list result" where
  "c_memcpy buf xs = (if length xs \<le> length buf then Inr (overwrite buf xs) else Inl IndexError)"

lemma c_memcpy_ok [simp]: "length xs \<le> length buf \<Longrightarrow> c_memcpy buf xs = Inr (overwrite buf xs)"
  by (simp add: c_memcpy_def)

definition c_bytes :: "'a list \<Rightarrow> nat \<Rightarrow> 'a list result" where
  "c_bytes buf n = (if n \<le> length buf then Inr (take n buf) else Inl IndexError)"

lemma c_bytes_ok [simp]: "n \<le> length buf \<Longrightarrow> c_bytes buf n = Inr (take n buf)"
  by (simp add: c_bytes_def)

lemma length_memset0: "n \<le> length buf \<Longrightarrow> length (memset0 n buf) = length buf"
  by (simp add: memset0_def length_overwrite)

text \<open>Appending one element to the used part of a buffer.\<close>

lemma take_Suc_update: "i < length xs \<Longrightarrow> take (Suc i) (xs[i := x]) = take i xs @ [x]"
  by (simp add: take_Suc_conv_app_nth)

lemma take_last:
  "0 < n \<Longrightarrow> n \<le> length xs \<Longrightarrow> take n xs = take (n - 1) xs @ [xs ! (n - 1)]"
  using take_Suc_conv_app_nth [of "n - 1" xs] by simp

text \<open>The size of a page, from the kernel library.\<close>

definition PAGE_SIZE_4K :: nat where "PAGE_SIZE_4K = 4096"

section \<open>Runs that end\<close>

text \<open>
  Steps of a system of components that keep an invariant and what is still to come of them, its \<open>result\<close>, and make a number
  smaller: the result is there from the start, no run goes on for ever, and from each state a last one is reached.
\<close>

locale ending_runs =
  fixes step :: "'s \<Rightarrow> 's \<Rightarrow> bool" and keep :: "'s \<Rightarrow> bool" and rank :: "'s \<Rightarrow> nat" and res :: "'s \<Rightarrow> 'r"
  assumes kept: "step s t \<Longrightarrow> keep s \<Longrightarrow> keep t"
    and descends: "step s t \<Longrightarrow> keep s \<Longrightarrow> rank t < rank s"
    and same_res: "step s t \<Longrightarrow> keep s \<Longrightarrow> res t = res s"
begin

lemma reachable:
  assumes "step\<^sup>*\<^sup>* s t" "keep s"
  shows "keep t \<and> res t = res s"
  using assms by (induction rule: rtranclp_induct) (auto intro: kept simp: same_res)

lemma no_infinite_run:
  assumes "keep s"
  shows "\<nexists>f. f 0 = s \<and> (\<forall>n. step (f n) (f (Suc n)))"
proof
  assume "\<exists>f. f 0 = s \<and> (\<forall>n. step (f n) (f (Suc n)))"
  then obtain f where f: "f 0 = s" "\<And>n. step (f n) (f (Suc n))" by blast
  have keeps: "keep (f n)" for n by (induction n) (use f assms kept in auto)
  have "rank (f n) + n \<le> rank (f 0)" for n
  proof (induction n)
    case (Suc n)
    have "rank (f (Suc n)) < rank (f n)" by (rule descends [OF f(2) keeps])
    with Suc show ?case by simp
  qed simp
  from this [of "Suc (rank (f 0))"] show False by simp
qed

lemma reaches_end: "keep s \<Longrightarrow> \<exists>t. step\<^sup>*\<^sup>* s t \<and> (\<nexists>u. step t u)"
proof (induction "rank s" arbitrary: s rule: less_induct)
  case less
  show ?case
  proof (cases "\<exists>u. step s u")
    case True
    then obtain u where u: "step s u" by blast
    from less.hyps [OF descends [OF u less.prems] kept [OF u less.prems]] u show ?thesis
      by (meson converse_rtranclp_into_rtranclp)
  qed blast
qed

end

end
