(* ===== verification/Ring_Buffer.thy ===== *)
theory Ring_Buffer
  imports Camkes_Prelude
begin

text \<open>
  The abstract contract of the bounded queues of the applications, and the generic model of
  a cyclic buffer. The same pattern occurs in four components: an array, an index \<open>head\<close>
  of the next free slot and an index \<open>tail\<close> of the oldest element, both advancing modulo
  the size, with one slot kept free so that equal indexes mean empty. Each component defines
  its own operations from its own source; they meet here, in the list \<open>ring_list\<close> the
  indexes delimit and in the locales \<open>drop_fifo\<close> and \<open>drain_fifo\<close> they interpret.
\<close>

section \<open>The elements between two cyclic indexes\<close>

definition ring_len :: "nat \<Rightarrow> nat \<Rightarrow> nat \<Rightarrow> nat" where
  "ring_len n h t = (h + n - t) mod n"

definition ring_list :: "nat \<Rightarrow> (nat \<Rightarrow> 'a) \<Rightarrow> nat \<Rightarrow> nat \<Rightarrow> 'a list" where
  "ring_list n f h t = map (\<lambda>i. f ((t + i) mod n)) [0..<ring_len n h t]"

lemma length_ring_list [simp]: "length (ring_list n f h t) = ring_len n h t"
  by (simp add: ring_list_def)

lemma ring_len_cases:
  assumes "h < n" "t < n"
  shows "ring_len n h t = (if t \<le> h then h - t else h + n - t)"
proof (cases "t \<le> h")
  case True
  then have "h + n - t = (h - t) + n" by simp
  then have "(h + n - t) mod n = (h - t) mod n" by (metis mod_add_self2)
  also have "(h - t) mod n = h - t" using assms by (intro mod_less) simp
  finally show ?thesis using True by (simp add: ring_len_def)
next
  case False
  with assms show ?thesis by (simp add: ring_len_def)
qed

lemma ring_len_less: "h < n \<Longrightarrow> t < n \<Longrightarrow> ring_len n h t < n"
  by (simp add: ring_len_def)

lemma ring_len_0_iff: "h < n \<Longrightarrow> t < n \<Longrightarrow> ring_len n h t = 0 \<longleftrightarrow> h = t"
  by (auto simp: ring_len_cases)

lemma ring_list_Nil_iff: "h < n \<Longrightarrow> t < n \<Longrightarrow> ring_list n f h t = [] \<longleftrightarrow> h = t"
  using ring_len_0_iff [of h n t] by (simp add: ring_list_def)

lemma ring_full_iff:
  assumes "h < n" "t < n"
  shows "(h + 1) mod n = t \<longleftrightarrow> ring_len n h t = n - 1"
proof (cases "Suc h = n")
  case True
  with assms show ?thesis by (auto simp: ring_len_cases)
next
  case False
  with assms have "(h + 1) mod n = h + 1" by simp
  with assms False show ?thesis by (auto simp: ring_len_cases)
qed

lemma ring_index_tail_len: "h < n \<Longrightarrow> t < n \<Longrightarrow> (t + ring_len n h t) mod n = h"
  by (auto simp: ring_len_cases)

lemma ring_index_inj:
  assumes "i < n" "j < n" "t < n" "(t + i) mod n = (t + j) mod (n::nat)"
  shows "i = j"
proof -
  have case_mod: "(t + k) mod n = (if t + k < n then t + k else t + k - n)" if "k < n" for k
    using that assms(3) by (simp add: mod_if)
  show ?thesis using assms case_mod [of i] case_mod [of j] by (auto split: if_splits)
qed

text \<open>Storing at \<open>head\<close> and advancing it appends; advancing \<open>tail\<close> drops the first.\<close>

lemma ring_list_push:
  assumes "h < n" "t < n" "(h + 1) mod n \<noteq> t"
  shows "ring_list n (f(h := x)) ((h + 1) mod n) t = ring_list n f h t @ [x]"
proof -
  let ?k = "ring_len n h t"
  have k: "Suc ?k < n" using assms ring_len_less [of h n t] ring_full_iff [of h n t] by linarith
  have len: "ring_len n ((h + 1) mod n) t = Suc ?k"
    using assms k by (auto simp: ring_len_cases mod_if split: if_splits)
  have old: "(t + i) mod n \<noteq> h" if "i < ?k" for i
    using ring_index_inj [of i n ?k t] ring_index_tail_len [of h n t] that k assms by auto
  show ?thesis
    unfolding ring_list_def len using old assms by (simp add: ring_index_tail_len)
qed

lemma ring_list_pop:
  assumes "h < n" "t < n" "h \<noteq> t"
  shows "ring_list n f h t = f t # ring_list n f h ((t + 1) mod n)"
proof -
  obtain k where k: "ring_len n h t = Suc k"
    using assms ring_len_0_iff [of h n t] by (cases "ring_len n h t") auto
  have len: "ring_len n h ((t + 1) mod n) = k"
    using assms k by (auto simp: ring_len_cases mod_if split: if_splits)
  have shift: "((t + 1) mod n + i) mod n = (t + Suc i) mod n" for i
    by (simp add: mod_add_left_eq)
  have "ring_list n f h t = f (t mod n) # map (\<lambda>i. f ((t + Suc i) mod n)) [0..<k]"
    unfolding ring_list_def k upt_conv_Cons [OF zero_less_Suc] by (simp add: map_Suc_upt [symmetric] o_def del: upt_Suc)
  moreover have "ring_list n f h ((t + 1) mod n) = map (\<lambda>i. f ((t + Suc i) mod n)) [0..<k]"
    unfolding ring_list_def len shift by (rule refl)
  ultimately show ?thesis using assms by simp
qed

lemma ring_list_update_other:
  assumes "h < n" "t < n"
  shows "ring_list n (f(h := x)) h t = ring_list n f h t"
proof -
  have "(t + i) mod n \<noteq> h" if "i < ring_len n h t" for i
    using ring_index_inj [of i n "ring_len n h t" t] ring_index_tail_len [of h n t]
      ring_len_less [of h n t] that assms by auto
  then show ?thesis by (simp add: ring_list_def)
qed

lemma ring_list_cong: "(\<And>i. i < n \<Longrightarrow> f i = g i) \<Longrightarrow> 0 < n \<Longrightarrow> ring_list n f h t = ring_list n g h t"
  by (simp add: ring_list_def)

lemma nth_fun_upd_list:
  assumes "i < length xs" "k < length xs"
  shows "(xs[i := x]) ! k = (((!) xs)(i := x)) k"
  using assms by simp

lemma ring_list_push_nth:
  assumes "length xs = n" "h < n" "t < n" "(h + 1) mod n \<noteq> t"
  shows "ring_list n ((!) (xs[h := x])) ((h + 1) mod n) t = ring_list n ((!) xs) h t @ [x]"
proof -
  have "ring_list n ((!) (xs[h := x])) ((h + 1) mod n) t
      = ring_list n (((!) xs)(h := x)) ((h + 1) mod n) t"
    using assms by (intro ring_list_cong) auto
  with ring_list_push [OF assms(2-4)] show ?thesis by simp
qed

section \<open>The contract of a queue that drops what does not fit\<close>

locale drop_fifo =
  fixes inv :: "'s \<Rightarrow> bool"
    and contents :: "'s \<Rightarrow> 'a list"
    and put :: "'a \<Rightarrow> 's \<Rightarrow> 's"
    and cap :: nat
  assumes inv_put: "inv s \<Longrightarrow> inv (put x s)"
    and contents_bound: "inv s \<Longrightarrow> length (contents s) \<le> cap"
    and put_room: "inv s \<Longrightarrow> length (contents s) < cap \<Longrightarrow> contents (put x s) = contents s @ [x]"
    and put_full: "inv s \<Longrightarrow> length (contents s) = cap \<Longrightarrow> contents (put x s) = contents s"
begin

lemma contents_put:
  "inv s \<Longrightarrow> contents (put x s) = contents s @ take (cap - length (contents s)) [x]"
  using contents_bound [of s] put_room [of s x] put_full [of s x]
  by (cases "length (contents s) < cap") auto

lemma inv_put_all: "inv s \<Longrightarrow> inv (fold put xs s)"
  by (induction xs arbitrary: s) (auto intro: inv_put)

lemma contents_put_all:
  "inv s \<Longrightarrow> contents (fold put xs s) = contents s @ take (cap - length (contents s)) xs"
proof (induction xs arbitrary: s)
  case (Cons x xs)
  show ?case
  proof (cases "length (contents s) < cap")
    case True
    then obtain k where "cap - length (contents s) = Suc k" "cap - Suc (length (contents s)) = k"
      by (metis Suc_diff_Suc)
    with True Cons show ?thesis by (simp add: inv_put put_room)
  next
    case False
    with Cons contents_bound [of s] show ?thesis by (simp add: inv_put put_full)
  qed
qed simp

lemma put_all_fits:
  "inv s \<Longrightarrow> length (contents s) + length xs \<le> cap \<Longrightarrow> contents (fold put xs s) = contents s @ xs"
  by (simp add: contents_put_all)

end

text \<open>A queue that can also be read, one element at a time.\<close>

locale drain_fifo = drop_fifo +
  fixes get :: "'s \<Rightarrow> ('a \<times> 's) option"
  assumes get_empty: "inv s \<Longrightarrow> contents s = [] \<Longrightarrow> get s = None"
    and get_head: "inv s \<Longrightarrow> contents s = x # xs \<Longrightarrow> \<exists>t. get s = Some (x, t) \<and> inv t \<and> contents t = xs"
begin

lemma get_None_iff: "inv s \<Longrightarrow> get s = None \<longleftrightarrow> contents s = []"
  using get_empty get_head by (cases "contents s") fastforce+

lemma get_SomeD: "inv s \<Longrightarrow> get s = Some (x, t) \<Longrightarrow> inv t \<and> contents s = x # contents t"
  using get_head [of s] get_empty [of s] by (cases "contents s") fastforce+

text \<open>What is put is got back, first in first out, when the queue starts empty.\<close>

lemma put_all_get:
  assumes "inv s" "contents s = []" "0 < cap"
  shows "\<exists>t. get (fold put (x # xs) s) = Some (x, t) \<and> inv t \<and> contents t = take (cap - 1) xs"
proof -
  have "contents (fold put (x # xs) s) = x # take (cap - 1) xs"
    using contents_put_all [OF assms(1), of "x # xs"] assms(2,3) by (simp add: take_Cons')
  with get_head [OF inv_put_all [OF assms(1)]] show ?thesis by blast
qed

end

end
