(* ===== verification/Aeroplage_Font.thy ===== *)
theory Aeroplage_Font
  imports Camkes_Prelude
begin

text \<open>
  \<^verbatim>\<open>apps/aeroplage/components/VESADriver/chars.c\<close>: the XBM bitmaps of the characters the
  video driver can draw, one definition per array of the source, and \<open>to_pixels\<close>, which
  maps a character to its bitmap or to the null pointer (\<open>None\<close>). Each bitmap is 26 rows
  of 14 pixels, each row padded to two bytes.
\<close>

section \<open>The bitmaps\<close>

definition a_bits :: bytes where
  "a_bits =
    [0x00, 0x00, 0x00, 0x00, 0x00, 0x00, 0x00, 0x00, 0x00, 0x00, 0x00, 0x00, 0x00,
     0x00, 0x00, 0x00, 0x00, 0x00, 0xF0, 0x00, 0x8C, 0x01, 0x00, 0x03, 0x60, 0x03,
     0xFC, 0x03, 0x06, 0x03, 0x03, 0x02, 0x82, 0x03, 0xDE, 0x07, 0x28, 0x06, 0x00,
     0x00, 0x00, 0x00, 0x00, 0x00, 0x00, 0x00, 0x00, 0x00, 0x00, 0x00, 0x00, 0x00]"

definition b_bits :: bytes where
  "b_bits =
    [0x00, 0x00, 0x00, 0x00, 0x00, 0x00, 0x00, 0x00, 0x00, 0x00, 0x06, 0x00, 0x0C,
     0x00, 0x04, 0x00, 0x04, 0x00, 0xEC, 0x01, 0x3C, 0x07, 0x0C, 0x04, 0x0C, 0x04,
     0x04, 0x0C, 0x0C, 0x0C, 0x0C, 0x04, 0x1C, 0x06, 0xFE, 0x03, 0x42, 0x00, 0x00,
     0x00, 0x00, 0x00, 0x00, 0x00, 0x00, 0x00, 0x00, 0x00, 0x00, 0x00, 0x00, 0x00]"

definition c_bits :: bytes where
  "c_bits =
    [0x00, 0x00, 0x00, 0x00, 0x00, 0x00, 0x00, 0x00, 0x00, 0x00, 0x00, 0x00, 0x00,
     0x00, 0x00, 0x00, 0x00, 0x00, 0xF8, 0x02, 0x8E, 0x03, 0x02, 0x03, 0x03, 0x00,
     0x01, 0x00, 0x01, 0x00, 0x03, 0x00, 0x06, 0x03, 0xFE, 0x01, 0x30, 0x00, 0x00,
     0x00, 0x00, 0x00, 0x00, 0x00, 0x00, 0x00, 0x00, 0x00, 0x00, 0x00, 0x00, 0x00]"

definition d_bits :: bytes where
  "d_bits =
    [0x00, 0x00, 0x00, 0x00, 0x00, 0x00, 0x00, 0x00, 0x00, 0x00, 0x00, 0x07, 0x00,
     0x06, 0x00, 0x06, 0x00, 0x06, 0xF0, 0x04, 0xAC, 0x07, 0x06, 0x07, 0x06, 0x06,
     0x02, 0x06, 0x02, 0x06, 0x02, 0x06, 0x06, 0x07, 0xFC, 0x0F, 0x60, 0x0C, 0x00,
     0x00, 0x00, 0x00, 0x00, 0x00, 0x00, 0x00, 0x00, 0x00, 0x00, 0x00, 0x00, 0x00]"

definition e_bits :: bytes where
  "e_bits =
    [0x00, 0x00, 0x00, 0x00, 0x00, 0x00, 0x00, 0x00, 0x00, 0x00, 0x00, 0x00, 0x00,
     0x00, 0x00, 0x00, 0x00, 0x00, 0xF8, 0x00, 0x8C, 0x01, 0x03, 0x03, 0x03, 0x02,
     0xFF, 0x07, 0x69, 0x01, 0x03, 0x00, 0x06, 0x02, 0xDE, 0x03, 0x60, 0x00, 0x00,
     0x00, 0x00, 0x00, 0x00, 0x00, 0x00, 0x00, 0x00, 0x00, 0x00, 0x00, 0x00, 0x00]"

definition f_bits :: bytes where
  "f_bits =
    [0x00, 0x00, 0x00, 0x00, 0x00, 0x00, 0x00, 0x00, 0x00, 0x00, 0xE0, 0x07, 0x30,
     0x00, 0x10, 0x00, 0x10, 0x00, 0xFE, 0x03, 0x38, 0x00, 0x10, 0x00, 0x10, 0x00,
     0x18, 0x00, 0x10, 0x00, 0x10, 0x00, 0x10, 0x00, 0xBA, 0x01, 0xEA, 0x01, 0x00,
     0x00, 0x00, 0x00, 0x00, 0x00, 0x00, 0x00, 0x00, 0x00, 0x00, 0x00, 0x00, 0x00]"

definition g_bits :: bytes where
  "g_bits =
    [0x00, 0x00, 0x00, 0x00, 0x00, 0x00, 0x00, 0x00, 0x00, 0x00, 0x00, 0x00, 0x00,
     0x00, 0x00, 0x00, 0x00, 0x00, 0x78, 0x06, 0xCC, 0x07, 0x06, 0x03, 0x02, 0x03,
     0x02, 0x02, 0x02, 0x03, 0x06, 0x03, 0x86, 0x03, 0xFC, 0x02, 0x20, 0x03, 0x00,
     0x02, 0x00, 0x01, 0xE0, 0x01, 0x78, 0x00, 0x00, 0x00, 0x00, 0x00, 0x00, 0x00]"

definition h_bits :: bytes where
  "h_bits =
    [0x00, 0x00, 0x00, 0x00, 0x00, 0x00, 0x00, 0x00, 0x00, 0x00, 0x06, 0x00, 0x0C,
     0x00, 0x04, 0x00, 0x0C, 0x00, 0xE4, 0x00, 0xBC, 0x01, 0x0C, 0x03, 0x04, 0x02,
     0x0C, 0x02, 0x04, 0x02, 0x0C, 0x02, 0x04, 0x02, 0x0C, 0x07, 0x1E, 0x05, 0x00,
     0x00, 0x00, 0x00, 0x00, 0x00, 0x00, 0x00, 0x00, 0x00, 0x00, 0x00, 0x00, 0x00]"

definition i_bits :: bytes where
  "i_bits =
    [0x00, 0x00, 0x00, 0x00, 0x00, 0x00, 0x00, 0x00, 0x00, 0x00, 0x20, 0x00, 0x30,
     0x00, 0x00, 0x00, 0x00, 0x00, 0x3C, 0x00, 0x30, 0x00, 0x20, 0x00, 0x30, 0x00,
     0x20, 0x00, 0x30, 0x00, 0x20, 0x00, 0x20, 0x00, 0xFA, 0x03, 0x7A, 0x01, 0x00,
     0x00, 0x00, 0x00, 0x00, 0x00, 0x00, 0x00, 0x00, 0x00, 0x00, 0x00, 0x00, 0x00]"

definition j_bits :: bytes where
  "j_bits =
    [0x00, 0x00, 0x00, 0x00, 0x00, 0x00, 0x00, 0x00, 0x00, 0x00, 0x40, 0x00, 0x40,
     0x00, 0x40, 0x00, 0x00, 0x00, 0xFE, 0x01, 0x82, 0x01, 0x00, 0x01, 0x00, 0x01,
     0x00, 0x01, 0x80, 0x01, 0x00, 0x01, 0x00, 0x01, 0x00, 0x01, 0x00, 0x01, 0x00,
     0x01, 0x80, 0x01, 0xD2, 0x00, 0x3E, 0x00, 0x00, 0x00, 0x00, 0x00, 0x00, 0x00]"

definition k_bits :: bytes where
  "k_bits =
    [0x00, 0x00, 0x00, 0x00, 0x00, 0x00, 0x00, 0x00, 0x00, 0x00, 0x0E, 0x00, 0x0C,
     0x00, 0x08, 0x00, 0x0C, 0x00, 0xC8, 0x03, 0xC4, 0x01, 0x4C, 0x00, 0x3C, 0x00,
     0x38, 0x00, 0x6C, 0x00, 0xCC, 0x00, 0x8C, 0x03, 0x0E, 0x07, 0x02, 0x05, 0x00,
     0x00, 0x00, 0x00, 0x00, 0x00, 0x00, 0x00, 0x00, 0x00, 0x00, 0x00, 0x00, 0x00]"

definition l_bits :: bytes where
  "l_bits =
    [0x00, 0x00, 0x00, 0x00, 0x00, 0x00, 0x00, 0x00, 0x00, 0x00, 0x3E, 0x00, 0x30,
     0x00, 0x10, 0x00, 0x30, 0x00, 0x10, 0x00, 0x10, 0x00, 0x30, 0x00, 0x30, 0x00,
     0x10, 0x00, 0x30, 0x00, 0x10, 0x00, 0x30, 0x00, 0xBA, 0x01, 0xEB, 0x01, 0x00,
     0x00, 0x00, 0x00, 0x00, 0x00, 0x00, 0x00, 0x00, 0x00, 0x00, 0x00, 0x00, 0x00]"

definition m_bits :: bytes where
  "m_bits =
    [0x00, 0x00, 0x00, 0x00, 0x00, 0x00, 0x00, 0x00, 0x00, 0x00, 0x00, 0x00, 0x00,
     0x00, 0x00, 0x00, 0x00, 0x00, 0x9B, 0x03, 0xFE, 0x06, 0x66, 0x04, 0x22, 0x04,
     0x62, 0x04, 0x66, 0x04, 0x22, 0x04, 0x26, 0x04, 0x66, 0x0C, 0x43, 0x08, 0x00,
     0x00, 0x00, 0x00, 0x00, 0x00, 0x00, 0x00, 0x00, 0x00, 0x00, 0x00, 0x00, 0x00]"

definition n_bits :: bytes where
  "n_bits =
    [0x00, 0x00, 0x00, 0x00, 0x00, 0x00, 0x00, 0x00, 0x00, 0x00, 0x00, 0x00, 0x00,
     0x00, 0x00, 0x00, 0x00, 0x00, 0xFE, 0x00, 0x8E, 0x01, 0x06, 0x01, 0x06, 0x01,
     0x04, 0x01, 0x06, 0x03, 0x04, 0x01, 0x04, 0x01, 0x0F, 0x03, 0x86, 0x01, 0x00,
     0x00, 0x00, 0x00, 0x00, 0x00, 0x00, 0x00, 0x00, 0x00, 0x00, 0x00, 0x00, 0x00]"

definition o_bits :: bytes where
  "o_bits =
    [0x00, 0x00, 0x00, 0x00, 0x00, 0x00, 0x00, 0x00, 0x00, 0x00, 0x00, 0x00, 0x00,
     0x00, 0x00, 0x00, 0x00, 0x00, 0xF0, 0x00, 0x9C, 0x03, 0x06, 0x06, 0x06, 0x0C,
     0x02, 0x04, 0x02, 0x0C, 0x06, 0x04, 0x0C, 0x06, 0xF8, 0x03, 0xA0, 0x00, 0x00,
     0x00, 0x00, 0x00, 0x00, 0x00, 0x00, 0x00, 0x00, 0x00, 0x00, 0x00, 0x00, 0x00]"

definition p_bits :: bytes where
  "p_bits =
    [0x00, 0x00, 0x00, 0x00, 0x00, 0x00, 0x00, 0x00, 0x00, 0x00, 0x00, 0x00, 0x00,
     0x00, 0x00, 0x00, 0x00, 0x00, 0xEE, 0x01, 0xBC, 0x07, 0x0C, 0x04, 0x0C, 0x04,
     0x0C, 0x0C, 0x04, 0x0C, 0x0C, 0x04, 0x1C, 0x06, 0xF4, 0x03, 0xCC, 0x00, 0x04,
     0x00, 0x04, 0x00, 0x1E, 0x00, 0x3E, 0x00, 0x00, 0x00, 0x00, 0x00, 0x00, 0x00]"

definition q_bits :: bytes where
  "q_bits =
    [0x00, 0x00, 0x00, 0x00, 0x00, 0x00, 0x00, 0x00, 0x00, 0x00, 0x00, 0x00, 0x00,
     0x00, 0x00, 0x00, 0x00, 0x00, 0xF0, 0x1C, 0xAC, 0x07, 0x06, 0x07, 0x06, 0x06,
     0x02, 0x06, 0x02, 0x06, 0x06, 0x06, 0x04, 0x07, 0xFC, 0x05, 0x60, 0x06, 0x00,
     0x06, 0x00, 0x06, 0x00, 0x06, 0x80, 0x0F, 0x00, 0x00, 0x00, 0x00, 0x00, 0x00]"

definition r_bits :: bytes where
  "r_bits =
    [0x00, 0x00, 0x00, 0x00, 0x00, 0x00, 0x00, 0x00, 0x00, 0x00, 0x00, 0x00, 0x00,
     0x00, 0x00, 0x00, 0x00, 0x00, 0x8E, 0x03, 0xF8, 0x06, 0x38, 0x00, 0x18, 0x00,
     0x18, 0x00, 0x08, 0x00, 0x18, 0x00, 0x08, 0x00, 0xBE, 0x00, 0xFE, 0x01, 0x00,
     0x00, 0x00, 0x00, 0x00, 0x00, 0x00, 0x00, 0x00, 0x00, 0x00, 0x00, 0x00, 0x00]"

definition s_bits :: bytes where
  "s_bits =
    [0x00, 0x00, 0x00, 0x00, 0x00, 0x00, 0x00, 0x00, 0x00, 0x00, 0x00, 0x00, 0x00,
     0x00, 0x00, 0x00, 0x00, 0x00, 0x7C, 0x01, 0xCE, 0x01, 0x02, 0x01, 0x06, 0x00,
     0xFC, 0x00, 0x80, 0x03, 0x01, 0x02, 0x03, 0x01, 0xFF, 0x01, 0x69, 0x00, 0x00,
     0x00, 0x00, 0x00, 0x00, 0x00, 0x00, 0x00, 0x00, 0x00, 0x00, 0x00, 0x00, 0x00]"

definition t_bits :: bytes where
  "t_bits =
    [0x00, 0x00, 0x00, 0x00, 0x00, 0x00, 0x00, 0x00, 0x00, 0x00, 0x00, 0x00, 0x00,
     0x00, 0x0C, 0x00, 0x0C, 0x00, 0xFF, 0x00, 0x14, 0x00, 0x0C, 0x00, 0x0C, 0x00,
     0x04, 0x00, 0x04, 0x00, 0x0C, 0x00, 0x0C, 0x00, 0xF8, 0x03, 0xA0, 0x00, 0x00,
     0x00, 0x00, 0x00, 0x00, 0x00, 0x00, 0x00, 0x00, 0x00, 0x00, 0x00, 0x00, 0x00]"

definition u_bits :: bytes where
  "u_bits =
    [0x00, 0x00, 0x00, 0x00, 0x00, 0x00, 0x00, 0x00, 0x00, 0x00, 0x00, 0x00, 0x00,
     0x00, 0x00, 0x00, 0x00, 0x00, 0x86, 0x03, 0x0C, 0x02, 0x04, 0x02, 0x0C, 0x02,
     0x04, 0x02, 0x04, 0x02, 0x0C, 0x03, 0x0C, 0x03, 0xF8, 0x07, 0x30, 0x06, 0x00,
     0x00, 0x00, 0x00, 0x00, 0x00, 0x00, 0x00, 0x00, 0x00, 0x00, 0x00, 0x00, 0x00]"

definition v_bits :: bytes where
  "v_bits =
    [0x00, 0x00, 0x00, 0x00, 0x00, 0x00, 0x00, 0x00, 0x00, 0x00, 0x00, 0x00, 0x00,
     0x00, 0x00, 0x00, 0x00, 0x00, 0xCF, 0x07, 0x06, 0x03, 0x04, 0x01, 0x8C, 0x01,
     0x88, 0x00, 0xC8, 0x00, 0x48, 0x00, 0x50, 0x00, 0x70, 0x00, 0x20, 0x00, 0x00,
     0x00, 0x00, 0x00, 0x00, 0x00, 0x00, 0x00, 0x00, 0x00, 0x00, 0x00, 0x00, 0x00]"

definition w_bits :: bytes where
  "w_bits =
    [0x00, 0x00, 0x00, 0x00, 0x00, 0x00, 0x00, 0x00, 0x00, 0x00, 0x00, 0x00, 0x00,
     0x00, 0x00, 0x00, 0x00, 0x00, 0x07, 0x07, 0x06, 0x04, 0x02, 0x06, 0x72, 0x02,
     0x76, 0x02, 0x50, 0x02, 0x9C, 0x03, 0x8C, 0x03, 0x8C, 0x01, 0x08, 0x00, 0x00,
     0x00, 0x00, 0x00, 0x00, 0x00, 0x00, 0x00, 0x00, 0x00, 0x00, 0x00, 0x00, 0x00]"

definition x_bits :: bytes where
  "x_bits =
    [0x00, 0x00, 0x00, 0x00, 0x00, 0x00, 0x00, 0x00, 0x00, 0x00, 0x00, 0x00, 0x00,
     0x00, 0x00, 0x00, 0x00, 0x00, 0x8E, 0x03, 0x8E, 0x01, 0xCC, 0x00, 0x78, 0x00,
     0x30, 0x00, 0x70, 0x00, 0xC8, 0x00, 0x84, 0x01, 0x87, 0x03, 0x8B, 0x03, 0x00,
     0x00, 0x00, 0x00, 0x00, 0x00, 0x00, 0x00, 0x00, 0x00, 0x00, 0x00, 0x00, 0x00]"

definition y_bits :: bytes where
  "y_bits =
    [0x00, 0x00, 0x00, 0x00, 0x00, 0x00, 0x00, 0x00, 0x00, 0x00, 0x00, 0x00, 0x00,
     0x00, 0x00, 0x00, 0x00, 0x00, 0x0F, 0x07, 0x06, 0x03, 0x04, 0x01, 0x0C, 0x01,
     0x88, 0x01, 0x98, 0x00, 0x90, 0x00, 0x70, 0x00, 0x60, 0x00, 0x20, 0x00, 0x30,
     0x00, 0x10, 0x00, 0x3A, 0x00, 0x3F, 0x00, 0x00, 0x00, 0x00, 0x00, 0x00, 0x00]"

definition z_bits :: bytes where
  "z_bits =
    [0x00, 0x00, 0x00, 0x00, 0x00, 0x00, 0x00, 0x00, 0x00, 0x00, 0x00, 0x00, 0x00,
     0x00, 0x00, 0x00, 0x00, 0x00, 0xFF, 0x01, 0xA3, 0x01, 0xC1, 0x00, 0x60, 0x00,
     0x30, 0x00, 0x18, 0x00, 0x0C, 0x00, 0x06, 0x03, 0x97, 0x01, 0xEB, 0x01, 0x00,
     0x00, 0x00, 0x00, 0x00, 0x00, 0x00, 0x00, 0x00, 0x00, 0x00, 0x00, 0x00, 0x00]"

definition A_bits :: bytes where
  "A_bits =
    [0x00, 0x00, 0x00, 0x00, 0x00, 0x00, 0x00, 0x00, 0x00, 0x00, 0x00, 0x00, 0x7C,
     0x00, 0xF0, 0x00, 0xD0, 0x00, 0x90, 0x00, 0x88, 0x00, 0x08, 0x01, 0x08, 0x01,
     0xFC, 0x01, 0x6C, 0x03, 0x04, 0x02, 0x02, 0x02, 0x0F, 0x07, 0x06, 0x05, 0x00,
     0x00, 0x00, 0x00, 0x00, 0x00, 0x00, 0x00, 0x00, 0x00, 0x00, 0x00, 0x00, 0x00]"

definition B_bits :: bytes where
  "B_bits =
    [0x00, 0x00, 0x00, 0x00, 0x00, 0x00, 0x00, 0x00, 0x00, 0x00, 0x00, 0x00, 0xFE,
     0x01, 0x8C, 0x03, 0x04, 0x04, 0x0C, 0x06, 0x04, 0x06, 0x9C, 0x03, 0xFC, 0x03,
     0x04, 0x06, 0x0C, 0x0C, 0x04, 0x08, 0x0C, 0x04, 0x9E, 0x07, 0xFA, 0x01, 0x00,
     0x00, 0x00, 0x00, 0x00, 0x00, 0x00, 0x00, 0x00, 0x00, 0x00, 0x00, 0x00, 0x00]"

definition C_bits :: bytes where
  "C_bits =
    [0x00, 0x00, 0x00, 0x00, 0x00, 0x00, 0x00, 0x00, 0x00, 0x00, 0x00, 0x00, 0xF8,
     0x05, 0x1C, 0x07, 0x04, 0x06, 0x06, 0x00, 0x02, 0x00, 0x03, 0x00, 0x02, 0x00,
     0x06, 0x00, 0x02, 0x00, 0x06, 0x00, 0x0C, 0x06, 0xF8, 0x01, 0x20, 0x00, 0x00,
     0x00, 0x00, 0x00, 0x00, 0x00, 0x00, 0x00, 0x00, 0x00, 0x00, 0x00, 0x00, 0x00]"

definition D_bits :: bytes where
  "D_bits =
    [0x00, 0x00, 0x00, 0x00, 0x00, 0x00, 0x00, 0x00, 0x00, 0x00, 0x00, 0x00, 0xFF,
     0x00, 0x86, 0x01, 0x06, 0x01, 0x04, 0x02, 0x02, 0x02, 0x04, 0x02, 0x04, 0x02,
     0x06, 0x02, 0x02, 0x02, 0x04, 0x03, 0x86, 0x01, 0xD6, 0x00, 0x2E, 0x00, 0x00,
     0x00, 0x00, 0x00, 0x00, 0x00, 0x00, 0x00, 0x00, 0x00, 0x00, 0x00, 0x00, 0x00]"

definition E_bits :: bytes where
  "E_bits =
    [0x00, 0x00, 0x00, 0x00, 0x00, 0x00, 0x00, 0x00, 0x00, 0x00, 0x80, 0x00, 0xFE,
     0x07, 0x0C, 0x06, 0x04, 0x04, 0x0C, 0x00, 0x84, 0x00, 0xDC, 0x00, 0xFC, 0x00,
     0x84, 0x00, 0x0C, 0x08, 0x04, 0x08, 0x04, 0x08, 0xBE, 0x0F, 0xEA, 0x05, 0x00,
     0x00, 0x00, 0x00, 0x00, 0x00, 0x00, 0x00, 0x00, 0x00, 0x00, 0x00, 0x00, 0x00]"

definition F_bits :: bytes where
  "F_bits =
    [0x00, 0x00, 0x00, 0x00, 0x00, 0x00, 0x00, 0x00, 0x00, 0x00, 0x80, 0x00, 0xFE,
     0x07, 0x0C, 0x06, 0x04, 0x04, 0x0C, 0x00, 0x84, 0x00, 0xDC, 0x00, 0xFC, 0x00,
     0x84, 0x00, 0x0C, 0x00, 0x04, 0x00, 0x04, 0x00, 0x3E, 0x00, 0x7A, 0x00, 0x00,
     0x00, 0x00, 0x00, 0x00, 0x00, 0x00, 0x00, 0x00, 0x00, 0x00, 0x00, 0x00, 0x00]"

definition G_bits :: bytes where
  "G_bits =
    [0x00, 0x00, 0x00, 0x00, 0x00, 0x00, 0x00, 0x00, 0x00, 0x00, 0x00, 0x00, 0xF0,
     0x07, 0x1C, 0x06, 0x04, 0x06, 0x06, 0x00, 0x02, 0x00, 0x03, 0x00, 0x02, 0x00,
     0xC3, 0x07, 0x02, 0x07, 0x06, 0x04, 0x0C, 0x06, 0xB8, 0x03, 0xD0, 0x00, 0x00,
     0x00, 0x00, 0x00, 0x00, 0x00, 0x00, 0x00, 0x00, 0x00, 0x00, 0x00, 0x00, 0x00]"

definition H_bits :: bytes where
  "H_bits =
    [0x00, 0x00, 0x00, 0x00, 0x00, 0x00, 0x00, 0x00, 0x00, 0x00, 0x00, 0x00, 0x8E,
     0x03, 0x06, 0x01, 0x04, 0x03, 0x04, 0x01, 0x06, 0x01, 0x5C, 0x03, 0xFC, 0x01,
     0x06, 0x01, 0x06, 0x03, 0x04, 0x01, 0x04, 0x01, 0x87, 0x07, 0x8E, 0x01, 0x00,
     0x00, 0x00, 0x00, 0x00, 0x00, 0x00, 0x00, 0x00, 0x00, 0x00, 0x00, 0x00, 0x00]"

definition I_bits :: bytes where
  "I_bits =
    [0x00, 0x00, 0x00, 0x00, 0x00, 0x00, 0x00, 0x00, 0x00, 0x00, 0x40, 0x00, 0xFE,
     0x03, 0x30, 0x00, 0x20, 0x00, 0x30, 0x00, 0x20, 0x00, 0x30, 0x00, 0x30, 0x00,
     0x20, 0x00, 0x30, 0x00, 0x20, 0x00, 0x20, 0x00, 0xF6, 0x01, 0xAA, 0x01, 0x00,
     0x00, 0x00, 0x00, 0x00, 0x00, 0x00, 0x00, 0x00, 0x00, 0x00, 0x00, 0x00, 0x00]"

definition J_bits :: bytes where
  "J_bits =
    [0x00, 0x00, 0x00, 0x00, 0x00, 0x00, 0x00, 0x00, 0x00, 0x00, 0x00, 0x02, 0xF0,
     0x07, 0x80, 0x01, 0x80, 0x01, 0x00, 0x01, 0x00, 0x01, 0x00, 0x01, 0x80, 0x01,
     0x01, 0x01, 0x01, 0x01, 0x01, 0x01, 0x83, 0x00, 0x7E, 0x00, 0x38, 0x00, 0x00,
     0x00, 0x00, 0x00, 0x00, 0x00, 0x00, 0x00, 0x00, 0x00, 0x00, 0x00, 0x00, 0x00]"

definition K_bits :: bytes where
  "K_bits =
    [0x00, 0x00, 0x00, 0x00, 0x00, 0x00, 0x00, 0x00, 0x00, 0x00, 0x00, 0x00, 0x3E,
     0x0F, 0x0C, 0x07, 0x0C, 0x03, 0xC4, 0x00, 0xE8, 0x00, 0x7C, 0x00, 0xDC, 0x00,
     0x0C, 0x01, 0x04, 0x03, 0x0C, 0x02, 0x04, 0x06, 0x1E, 0x0C, 0x1A, 0x18, 0x00,
     0x00, 0x00, 0x00, 0x00, 0x00, 0x00, 0x00, 0x00, 0x00, 0x00, 0x00, 0x00, 0x00]"

definition L_bits :: bytes where
  "L_bits =
    [0x00, 0x00, 0x00, 0x00, 0x00, 0x00, 0x00, 0x00, 0x00, 0x00, 0x08, 0x00, 0x7E,
     0x00, 0x18, 0x00, 0x18, 0x00, 0x08, 0x00, 0x18, 0x00, 0x18, 0x00, 0x08, 0x00,
     0x18, 0x00, 0x08, 0x08, 0x18, 0x0C, 0x08, 0x04, 0xBE, 0x0D, 0xFE, 0x07, 0x00,
     0x00, 0x00, 0x00, 0x00, 0x00, 0x00, 0x00, 0x00, 0x00, 0x00, 0x00, 0x00, 0x00]"

definition M_bits :: bytes where
  "M_bits =
    [0x00, 0x00, 0x00, 0x00, 0x00, 0x00, 0x00, 0x00, 0x00, 0x00, 0x00, 0x00, 0x0E,
     0x0E, 0x0E, 0x06, 0x0A, 0x07, 0x1C, 0x05, 0x96, 0x04, 0x90, 0x04, 0xE2, 0x04,
     0x62, 0x04, 0x46, 0x04, 0x02, 0x04, 0x02, 0x04, 0x0E, 0x0E, 0x06, 0x06, 0x00,
     0x00, 0x00, 0x00, 0x00, 0x00, 0x00, 0x00, 0x00, 0x00, 0x00, 0x00, 0x00, 0x00]"

definition N_bits :: bytes where
  "N_bits =
    [0x00, 0x00, 0x00, 0x00, 0x00, 0x00, 0x00, 0x00, 0x00, 0x00, 0x08, 0x00, 0x0E,
     0x0F, 0x1C, 0x06, 0x1C, 0x04, 0x24, 0x04, 0x2C, 0x06, 0x64, 0x04, 0xC4, 0x04,
     0x8C, 0x04, 0x84, 0x05, 0x04, 0x07, 0x04, 0x07, 0x1C, 0x07, 0x1A, 0x00, 0x00,
     0x00, 0x00, 0x00, 0x00, 0x00, 0x00, 0x00, 0x00, 0x00, 0x00, 0x00, 0x00, 0x00]"

definition O_bits :: bytes where
  "O_bits =
    [0x00, 0x00, 0x00, 0x00, 0x00, 0x00, 0x00, 0x00, 0x00, 0x00, 0x00, 0x00, 0xFC,
     0x00, 0xCC, 0x01, 0x02, 0x03, 0x03, 0x02, 0x03, 0x06, 0x01, 0x04, 0x01, 0x06,
     0x03, 0x04, 0x03, 0x06, 0x02, 0x02, 0x06, 0x03, 0xFC, 0x00, 0x60, 0x00, 0x00,
     0x00, 0x00, 0x00, 0x00, 0x00, 0x00, 0x00, 0x00, 0x00, 0x00, 0x00, 0x00, 0x00]"

definition P_bits :: bytes where
  "P_bits =
    [0x00, 0x00, 0x00, 0x00, 0x00, 0x00, 0x00, 0x00, 0x00, 0x00, 0x04, 0x00, 0xFE,
     0x01, 0x8C, 0x03, 0x0C, 0x06, 0x04, 0x04, 0x04, 0x06, 0x0C, 0x02, 0xFC, 0x01,
     0x6C, 0x00, 0x04, 0x00, 0x0C, 0x00, 0x04, 0x00, 0x3E, 0x00, 0x7E, 0x00, 0x00,
     0x00, 0x00, 0x00, 0x00, 0x00, 0x00, 0x00, 0x00, 0x00, 0x00, 0x00, 0x00, 0x00]"

definition Q_bits :: bytes where
  "Q_bits =
    [0x00, 0x00, 0x00, 0x00, 0x00, 0x00, 0x00, 0x00, 0x00, 0x00, 0x00, 0x00, 0xF8,
     0x00, 0x8C, 0x01, 0x02, 0x03, 0x03, 0x02, 0x01, 0x06, 0x01, 0x04, 0x01, 0x04,
     0x03, 0x04, 0x03, 0x06, 0x02, 0x03, 0x06, 0x01, 0xDC, 0x01, 0x78, 0x00, 0x78,
     0x04, 0xBC, 0x03, 0x00, 0x00, 0x00, 0x00, 0x00, 0x00, 0x00, 0x00, 0x00, 0x00]"

definition R_bits :: bytes where
  "R_bits =
    [0x00, 0x00, 0x00, 0x00, 0x00, 0x00, 0x00, 0x00, 0x00, 0x00, 0x10, 0x00, 0xFE,
     0x01, 0x0C, 0x03, 0x0C, 0x06, 0x04, 0x04, 0x04, 0x06, 0xDC, 0x03, 0xFC, 0x01,
     0x8C, 0x01, 0x04, 0x03, 0x04, 0x02, 0x0C, 0x04, 0x1E, 0x0C, 0x1A, 0x18, 0x00,
     0x00, 0x00, 0x00, 0x00, 0x00, 0x00, 0x00, 0x00, 0x00, 0x00, 0x00, 0x00, 0x00]"

definition S_bits :: bytes where
  "S_bits =
    [0x00, 0x00, 0x00, 0x00, 0x00, 0x00, 0x00, 0x00, 0x00, 0x00, 0x00, 0x00, 0xF8,
     0x03, 0x8E, 0x03, 0x02, 0x03, 0x02, 0x00, 0x06, 0x00, 0x5C, 0x00, 0xE0, 0x01,
     0x00, 0x01, 0x01, 0x03, 0x01, 0x02, 0x03, 0x01, 0xFF, 0x01, 0x61, 0x00, 0x00,
     0x00, 0x00, 0x00, 0x00, 0x00, 0x00, 0x00, 0x00, 0x00, 0x00, 0x00, 0x00, 0x00]"

definition T_bits :: bytes where
  "T_bits =
    [0x00, 0x00, 0x00, 0x00, 0x00, 0x00, 0x00, 0x00, 0x00, 0x00, 0x08, 0x00, 0xFE,
     0x0F, 0x62, 0x04, 0x22, 0x04, 0x60, 0x00, 0x20, 0x00, 0x20, 0x00, 0x20, 0x00,
     0x60, 0x00, 0x20, 0x00, 0x20, 0x00, 0x20, 0x00, 0xF0, 0x01, 0xA8, 0x01, 0x00,
     0x00, 0x00, 0x00, 0x00, 0x00, 0x00, 0x00, 0x00, 0x00, 0x00, 0x00, 0x00, 0x00]"

definition U_bits :: bytes where
  "U_bits =
    [0x00, 0x00, 0x00, 0x00, 0x00, 0x00, 0x00, 0x00, 0x00, 0x00, 0x00, 0x00, 0x8F,
     0x07, 0x06, 0x03, 0x06, 0x02, 0x02, 0x02, 0x06, 0x02, 0x04, 0x02, 0x04, 0x02,
     0x06, 0x02, 0x06, 0x02, 0x04, 0x03, 0x0C, 0x03, 0xD8, 0x00, 0x60, 0x00, 0x00,
     0x00, 0x00, 0x00, 0x00, 0x00, 0x00, 0x00, 0x00, 0x00, 0x00, 0x00, 0x00, 0x00]"

definition V_bits :: bytes where
  "V_bits =
    [0x00, 0x00, 0x00, 0x00, 0x00, 0x00, 0x00, 0x00, 0x00, 0x00, 0x00, 0x02, 0x0F,
     0x0F, 0x06, 0x02, 0x04, 0x02, 0x04, 0x02, 0x0C, 0x03, 0x08, 0x01, 0x88, 0x01,
     0x88, 0x00, 0x90, 0x00, 0xD0, 0x00, 0x70, 0x00, 0x60, 0x00, 0x60, 0x00, 0x00,
     0x00, 0x00, 0x00, 0x00, 0x00, 0x00, 0x00, 0x00, 0x00, 0x00, 0x00, 0x00, 0x00]"

definition W_bits :: bytes where
  "W_bits =
    [0x00, 0x00, 0x00, 0x00, 0x00, 0x00, 0x00, 0x00, 0x00, 0x00, 0x00, 0x00, 0x0F,
     0x0F, 0x06, 0x06, 0x02, 0x04, 0x62, 0x06, 0x63, 0x04, 0x72, 0x02, 0x54, 0x02,
     0xD6, 0x02, 0x96, 0x02, 0x8C, 0x03, 0x8C, 0x03, 0x0C, 0x03, 0x04, 0x00, 0x00,
     0x00, 0x00, 0x00, 0x00, 0x00, 0x00, 0x00, 0x00, 0x00, 0x00, 0x00, 0x00, 0x00]"

definition X_bits :: bytes where
  "X_bits =
    [0x00, 0x00, 0x00, 0x00, 0x00, 0x00, 0x00, 0x00, 0x00, 0x00, 0x00, 0x00, 0x07,
     0x07, 0x06, 0x03, 0x88, 0x01, 0x88, 0x00, 0x70, 0x00, 0x70, 0x00, 0x70, 0x00,
     0xD0, 0x00, 0x98, 0x00, 0x0C, 0x01, 0x04, 0x01, 0x07, 0x07, 0x0B, 0x05, 0x00,
     0x00, 0x00, 0x00, 0x00, 0x00, 0x00, 0x00, 0x00, 0x00, 0x00, 0x00, 0x00, 0x00]"

definition Y_bits :: bytes where
  "Y_bits =
    [0x00, 0x00, 0x00, 0x00, 0x00, 0x00, 0x00, 0x00, 0x00, 0x00, 0x00, 0x00, 0x07,
     0x07, 0x06, 0x03, 0x84, 0x01, 0x88, 0x00, 0x58, 0x00, 0x70, 0x00, 0x30, 0x00,
     0x20, 0x00, 0x20, 0x00, 0x20, 0x00, 0x20, 0x00, 0xF8, 0x01, 0xA8, 0x00, 0x00,
     0x00, 0x00, 0x00, 0x00, 0x00, 0x00, 0x00, 0x00, 0x00, 0x00, 0x00, 0x00, 0x00]"

definition Z_bits :: bytes where
  "Z_bits =
    [0x00, 0x00, 0x00, 0x00, 0x00, 0x00, 0x00, 0x00, 0x00, 0x00, 0x88, 0x00, 0xFE,
     0x03, 0x02, 0x01, 0x82, 0x01, 0xC2, 0x00, 0x40, 0x00, 0x20, 0x00, 0x30, 0x00,
     0x18, 0x00, 0x08, 0x02, 0x0C, 0x02, 0x02, 0x02, 0x9E, 0x07, 0xEA, 0x01, 0x00,
     0x00, 0x00, 0x00, 0x00, 0x00, 0x00, 0x00, 0x00, 0x00, 0x00, 0x00, 0x00, 0x00]"

definition digit1_bits :: bytes where
  "digit1_bits =
    [0x00, 0x00, 0x00, 0x00, 0x00, 0x00, 0x00, 0x00, 0x00, 0x00, 0x30, 0x00, 0x3E,
     0x00, 0x22, 0x00, 0x20, 0x00, 0x30, 0x00, 0x20, 0x00, 0x30, 0x00, 0x20, 0x00,
     0x30, 0x00, 0x30, 0x00, 0x20, 0x00, 0x30, 0x00, 0xBA, 0x01, 0xEA, 0x01, 0x00,
     0x00, 0x00, 0x00, 0x00, 0x00, 0x00, 0x00, 0x00, 0x00, 0x00, 0x00, 0x00, 0x00]"

definition digit2_bits :: bytes where
  "digit2_bits =
    [0x00, 0x00, 0x00, 0x00, 0x00, 0x00, 0x00, 0x00, 0x00, 0x00, 0x7C, 0x00, 0xC6,
     0x00, 0x82, 0x01, 0x00, 0x01, 0x80, 0x01, 0x80, 0x00, 0x40, 0x00, 0x60, 0x00,
     0x30, 0x00, 0x08, 0x00, 0x0C, 0x00, 0x03, 0x01, 0xFB, 0x01, 0xAB, 0x00, 0x00,
     0x00, 0x00, 0x00, 0x00, 0x00, 0x00, 0x00, 0x00, 0x00, 0x00, 0x00, 0x00, 0x00]"

definition digit3_bits :: bytes where
  "digit3_bits =
    [0x00, 0x00, 0x00, 0x00, 0x00, 0x00, 0x00, 0x00, 0x00, 0x00, 0x78, 0x00, 0xEE,
     0x00, 0x00, 0x01, 0x00, 0x01, 0x80, 0x01, 0xE0, 0x00, 0xF0, 0x00, 0x80, 0x01,
     0x00, 0x01, 0x00, 0x02, 0x00, 0x03, 0x82, 0x01, 0xFE, 0x00, 0x28, 0x00, 0x00,
     0x00, 0x00, 0x00, 0x00, 0x00, 0x00, 0x00, 0x00, 0x00, 0x00, 0x00, 0x00, 0x00]"

definition digit4_bits :: bytes where
  "digit4_bits =
    [0x00, 0x00, 0x00, 0x00, 0x00, 0x00, 0x00, 0x00, 0x00, 0x00, 0xC0, 0x00, 0xE0,
     0x01, 0xA0, 0x01, 0x90, 0x00, 0x90, 0x01, 0x88, 0x00, 0x8C, 0x01, 0x84, 0x01,
     0x86, 0x00, 0xFF, 0x03, 0xA0, 0x01, 0x80, 0x01, 0xC0, 0x01, 0xC0, 0x01, 0x00,
     0x00, 0x00, 0x00, 0x00, 0x00, 0x00, 0x00, 0x00, 0x00, 0x00, 0x00, 0x00, 0x00]"

definition digit5_bits :: bytes where
  "digit5_bits =
    [0x00, 0x00, 0x00, 0x00, 0x00, 0x00, 0x00, 0x00, 0x08, 0x00, 0xFC, 0x01, 0x04,
     0x00, 0x04, 0x00, 0x04, 0x00, 0x04, 0x00, 0xFC, 0x00, 0x8C, 0x03, 0x00, 0x02,
     0x00, 0x06, 0x00, 0x02, 0x00, 0x03, 0x02, 0x01, 0xFE, 0x01, 0x30, 0x00, 0x00,
     0x00, 0x00, 0x00, 0x00, 0x00, 0x00, 0x00, 0x00, 0x00, 0x00, 0x00, 0x00, 0x00]"

definition digit6_bits :: bytes where
  "digit6_bits =
    [0x00, 0x00, 0x00, 0x00, 0x00, 0x00, 0x00, 0x00, 0x00, 0x00, 0xE0, 0x03, 0x38,
     0x00, 0x08, 0x00, 0x04, 0x00, 0x06, 0x00, 0x06, 0x00, 0xFA, 0x00, 0x8E, 0x01,
     0x06, 0x03, 0x02, 0x02, 0x04, 0x03, 0x04, 0x01, 0xF8, 0x01, 0x20, 0x00, 0x00,
     0x00, 0x00, 0x00, 0x00, 0x00, 0x00, 0x00, 0x00, 0x00, 0x00, 0x00, 0x00, 0x00]"

definition digit7_bits :: bytes where
  "digit7_bits =
    [0x00, 0x00, 0x00, 0x00, 0x00, 0x00, 0x00, 0x00, 0x60, 0x00, 0xFE, 0x01, 0x02,
     0x03, 0x02, 0x03, 0x00, 0x01, 0x80, 0x01, 0x80, 0x00, 0xC0, 0x00, 0xC0, 0x00,
     0x40, 0x00, 0x40, 0x00, 0x60, 0x00, 0x60, 0x00, 0x20, 0x00, 0x00, 0x00, 0x00,
     0x00, 0x00, 0x00, 0x00, 0x00, 0x00, 0x00, 0x00, 0x00, 0x00, 0x00, 0x00, 0x00]"

definition digit8_bits :: bytes where
  "digit8_bits =
    [0x00, 0x00, 0x00, 0x00, 0x00, 0x00, 0x00, 0x00, 0x00, 0x00, 0x78, 0x00, 0xCC,
     0x01, 0x06, 0x01, 0x02, 0x03, 0x06, 0x01, 0xCC, 0x00, 0xFC, 0x00, 0xCC, 0x01,
     0x02, 0x01, 0x03, 0x01, 0x02, 0x03, 0x86, 0x01, 0xFC, 0x00, 0x20, 0x00, 0x00,
     0x00, 0x00, 0x00, 0x00, 0x00, 0x00, 0x00, 0x00, 0x00, 0x00, 0x00, 0x00, 0x00]"

definition digit9_bits :: bytes where
  "digit9_bits =
    [0x00, 0x00, 0x00, 0x00, 0x00, 0x00, 0x00, 0x00, 0x00, 0x00, 0x78, 0x00, 0xCC,
     0x01, 0x06, 0x01, 0x02, 0x02, 0x03, 0x02, 0x06, 0x03, 0x86, 0x03, 0xFC, 0x03,
     0x20, 0x02, 0x00, 0x03, 0x80, 0x01, 0xC0, 0x00, 0x74, 0x00, 0x1C, 0x00, 0x00,
     0x00, 0x00, 0x00, 0x00, 0x00, 0x00, 0x00, 0x00, 0x00, 0x00, 0x00, 0x00, 0x00]"

definition digit0_bits :: bytes where
  "digit0_bits =
    [0x00, 0x00, 0x00, 0x00, 0x00, 0x00, 0x00, 0x00, 0x00, 0x00, 0xF8, 0x00, 0xCC,
     0x01, 0x04, 0x03, 0x06, 0x02, 0x02, 0x02, 0x02, 0x06, 0x03, 0x02, 0x02, 0x02,
     0x02, 0x06, 0x06, 0x02, 0x06, 0x03, 0x0C, 0x01, 0xF8, 0x01, 0x60, 0x00, 0x00,
     0x00, 0x00, 0x00, 0x00, 0x00, 0x00, 0x00, 0x00, 0x00, 0x00, 0x00, 0x00, 0x00]"

text \<open>The blank bitmap is a local zero-initialised array of \<open>to_pixels\<close>.\<close>

definition space_bits :: bytes where
  "space_bits = replicate (length Z_bits) 0x00"

section \<open>Looking a character up\<close>

text \<open>The cases of the \<open>switch\<close>, in its order.\<close>

definition glyph_table :: "(u8 \<times> bytes) list" where
  "glyph_table =
    [(32, space_bits),
     (97, a_bits),
     (98, b_bits),
     (99, c_bits),
     (100, d_bits),
     (101, e_bits),
     (102, f_bits),
     (103, g_bits),
     (104, h_bits),
     (105, i_bits),
     (106, j_bits),
     (107, k_bits),
     (108, l_bits),
     (109, m_bits),
     (110, n_bits),
     (111, o_bits),
     (112, p_bits),
     (113, q_bits),
     (114, r_bits),
     (115, s_bits),
     (116, t_bits),
     (117, u_bits),
     (118, v_bits),
     (119, w_bits),
     (120, x_bits),
     (121, y_bits),
     (122, z_bits),
     (65, A_bits),
     (66, B_bits),
     (67, C_bits),
     (68, D_bits),
     (69, E_bits),
     (70, F_bits),
     (71, G_bits),
     (72, H_bits),
     (73, I_bits),
     (74, J_bits),
     (75, K_bits),
     (76, L_bits),
     (77, M_bits),
     (78, N_bits),
     (79, O_bits),
     (80, P_bits),
     (81, Q_bits),
     (82, R_bits),
     (83, S_bits),
     (84, T_bits),
     (85, U_bits),
     (86, V_bits),
     (87, W_bits),
     (88, X_bits),
     (89, Y_bits),
     (90, Z_bits),
     (49, digit1_bits),
     (50, digit2_bits),
     (51, digit3_bits),
     (52, digit4_bits),
     (53, digit5_bits),
     (54, digit6_bits),
     (55, digit7_bits),
     (56, digit8_bits),
     (57, digit9_bits),
     (48, digit0_bits)]"

definition to_pixels :: "u8 \<Rightarrow> bytes option" where
  "to_pixels c = map_of glyph_table c"

lemmas glyph_defs = space_bits_def
  a_bits_def b_bits_def c_bits_def d_bits_def e_bits_def f_bits_def
  g_bits_def h_bits_def i_bits_def j_bits_def k_bits_def l_bits_def
  m_bits_def n_bits_def o_bits_def p_bits_def q_bits_def r_bits_def
  s_bits_def t_bits_def u_bits_def v_bits_def w_bits_def x_bits_def
  y_bits_def z_bits_def A_bits_def B_bits_def C_bits_def D_bits_def
  E_bits_def F_bits_def G_bits_def H_bits_def I_bits_def J_bits_def
  K_bits_def L_bits_def M_bits_def N_bits_def O_bits_def P_bits_def
  Q_bits_def R_bits_def S_bits_def T_bits_def U_bits_def V_bits_def
  W_bits_def X_bits_def Y_bits_def Z_bits_def digit1_bits_def digit2_bits_def
  digit3_bits_def digit4_bits_def digit5_bits_def digit6_bits_def digit7_bits_def digit8_bits_def
  digit9_bits_def digit0_bits_def

lemma length_glyphs: "\<forall>g \<in> snd ` set glyph_table. length g = 52"
  by (simp add: glyph_table_def glyph_defs)

lemma length_to_pixels: "to_pixels c = Some g \<Longrightarrow> length g = 52"
  using length_glyphs by (force simp: to_pixels_def dest: map_of_SomeD)

text \<open>The characters that have a bitmap: blank, the letters of both cases and the digits.\<close>

definition has_glyph :: "u8 \<Rightarrow> bool" where
  "has_glyph c \<longleftrightarrow> c = 32 \<or> (97 \<le> c \<and> c \<le> 122) \<or> (65 \<le> c \<and> c \<le> 90) \<or> (48 \<le> c \<and> c \<le> 57)"

lemma has_glyph_keys: "has_glyph c \<longleftrightarrow> c \<in> fst ` set glyph_table"
proof -
  have "uint c \<in> uint ` fst ` set glyph_table \<longleftrightarrow>
      uint c = 32 \<or> (97 \<le> uint c \<and> uint c \<le> 122) \<or> (65 \<le> uint c \<and> uint c \<le> 90) \<or>
      (48 \<le> uint c \<and> uint c \<le> 57)"
    by (simp add: glyph_table_def) presburger
  moreover have "uint c \<in> uint ` fst ` set glyph_table \<longleftrightarrow> c \<in> fst ` set glyph_table"
    by (rule inj_image_mem_iff) (simp add: inj_on_def word_uint_eq_iff)
  ultimately show ?thesis
    by (simp add: has_glyph_def word_le_def word_uint_eq_iff)
qed

lemma to_pixels_defined: "(\<exists>g. to_pixels c = Some g) \<longleftrightarrow> has_glyph c"
  by (simp add: has_glyph_keys to_pixels_def map_of_eq_None_iff [symmetric] flip: not_None_eq)
    (simp add: map_of_eq_None_iff)

text \<open>The two padding bits of every row are clear, so no bitmap paints beyond its 14 columns.\<close>

fun padding_clear :: "bytes \<Rightarrow> bool" where
  "padding_clear (lo # hi # rows) \<longleftrightarrow> hi AND 0xC0 = 0 \<and> padding_clear rows"
| "padding_clear _ \<longleftrightarrow> True"

lemma padding_clear_glyphs: "\<forall>g \<in> snd ` set glyph_table. padding_clear g"
  by (simp add: glyph_table_def glyph_defs)

end
