(* ===== verification/Aeroplage_Vesa.thy ===== *)
theory Aeroplage_Vesa
  imports Aeroplage_Font
begin

text \<open>
  \<^verbatim>\<open>apps/aeroplage/components/VESADriver/vesadriver.c\<close>: the driver that draws the text of
  the low and of the high domain into two windows of one screen. The graphics library
  (libsel4bga) is external: what the driver does to it is the sequence of its calls of
  \<open>bga_set_pixel\<close>, which the definitions return. The static cursors of \<open>write_low\<close> and
  \<open>write_high\<close> are the state; coordinates are the source's 32-bit unsigned integers.
\<close>

unbundle bit_operations_syntax

type_synonym rgb = "u8 \<times> u8 \<times> u8"

record set_pixel =
  px :: u32
  py :: u32
  colour :: rgb

definition set_pixel_call :: "u32 \<Rightarrow> u32 \<Rightarrow> rgb \<Rightarrow> set_pixel" where
  "set_pixel_call x y c = \<lparr>px = x, py = y, colour = c\<rparr>"

definition CHAR_WIDTH :: u32 where "CHAR_WIDTH = 14"

definition CHAR_HEIGHT :: u32 where "CHAR_HEIGHT = 26"

definition WIDTH :: u32 where "WIDTH = 312"

definition HEIGHT :: u32 where "HEIGHT = 300"

lemmas vesa_dims = CHAR_WIDTH_def CHAR_HEIGHT_def WIDTH_def HEIGHT_def

text \<open>A loop over \<open>unsigned int\<close> from \<open>a\<close> up to, and without, \<open>b\<close>.\<close>

definition u32_range :: "u32 \<Rightarrow> u32 \<Rightarrow> u32 list" where
  "u32_range a b = map of_nat [unat a..<unat b]"

lemma in_u32_range: "i \<in> set (u32_range a b) \<longleftrightarrow> a \<le> i \<and> i < b"
proof
  assume "i \<in> set (u32_range a b)"
  then obtain n where n: "i = of_nat n" "unat a \<le> n" "n < unat b" by (auto simp: u32_range_def)
  have "unat b < 2 ^ 32" using unsigned_less [of b] by simp
  with n(3) have "n < 2 ^ 32" by (rule less_trans)
  then have "unat i = n" using n(1) by (simp add: unat_of_nat take_bit_nat_eq_self)
  with n show "a \<le> i \<and> i < b" by (simp add: word_le_nat_alt word_less_nat_alt)
next
  assume "a \<le> i \<and> i < b"
  then have "i = of_nat (unat i)" "unat i \<in> {unat a..<unat b}"
    by (simp_all add: word_le_nat_alt word_less_nat_alt)
  then show "i \<in> set (u32_range a b)" unfolding u32_range_def by (metis imageI set_map set_upt)
qed

section \<open>Drawing\<close>

definition row_width :: u32 where
  "row_width =
     (if CHAR_WIDTH mod 8 \<noteq> 0 then CHAR_WIDTH + (8 - CHAR_WIDTH mod 8) else CHAR_WIDTH)"

definition white :: rgb where "white = (255, 255, 255)"

definition black :: rgb where "black = (0, 0, 0)"

text \<open>The body of the inner loop of \<open>draw\<close>: one bit of the bitmap, one pixel.\<close>

definition draw_pixel :: "bytes \<Rightarrow> u32 \<Rightarrow> u32 \<Rightarrow> u32 \<Rightarrow> u32 \<Rightarrow> set_pixel result" where
  "draw_pixel pixels x y i j =
     rbind (array_read pixels (unat ((j + i * row_width) div 8))) (\<lambda>block.
     let offset = (j + i * row_width) mod 8 in
     Inr (set_pixel_call (x + j) (y + i)
       (if block AND push_bit (unat offset) 1 \<noteq> 0 then white else black)))"

definition draw :: "u32 \<Rightarrow> u32 \<Rightarrow> u8 \<Rightarrow> set_pixel list result" where
  "draw x y c =
     (case to_pixels c of
        None \<Rightarrow> Inl AssertionFailed
      | Some pixels \<Rightarrow>
          rbind (rmap (\<lambda>i. rmap (draw_pixel pixels x y i) (u32_range 0 CHAR_WIDTH))
                   (u32_range 0 CHAR_HEIGHT))
            (\<lambda>rows. Inr (concat rows)))"

fun draw_string :: "u32 \<Rightarrow> u32 \<Rightarrow> bytes \<Rightarrow> set_pixel list result" where
  "draw_string x y [] = Inr []"
| "draw_string x y (c # s) =
     rbind (draw x y c) (\<lambda>ps.
     rbind (draw_string (x + CHAR_WIDTH) y s) (\<lambda>qs. Inr (ps @ qs)))"

definition printable :: "u8 \<Rightarrow> bool" where
  "printable c \<longleftrightarrow>
     (65 \<le> c \<and> c \<le> 90) \<or> (97 \<le> c \<and> c \<le> 122) \<or> c = 32 \<or> (48 \<le> c \<and> c \<le> 57)"

definition purple :: rgb where "purple = (210, 101, 141)"

definition blue :: rgb where "blue = (197, 103, 0)"

text \<open>
  The frame of one window, as both halves of \<open>borders\<close> draw it: the caption bar and the
  bottom line column by column, then the two sides. \<open>left\<close> is the window's left edge.
\<close>

definition frame :: "u32 \<Rightarrow> rgb \<Rightarrow> set_pixel list" where
  "frame left col =
     concat (map (\<lambda>i.
         map (\<lambda>j. set_pixel_call i j col) (u32_range 100 (100 + 4 + CHAR_HEIGHT)) @
         [set_pixel_call i (100 + HEIGHT) col])
       (u32_range left (left + WIDTH))) @
     concat (map (\<lambda>i. [set_pixel_call left i col, set_pixel_call (left + WIDTH) i col])
       (u32_range 100 (100 + HEIGHT)))"

definition borders :: "set_pixel list result" where
  "borders =
     rbind (draw_string (100 + 100 + 2 * CHAR_WIDTH) 102 [76, 111, 119]) (\<lambda>low.
     rbind (draw_string (200 + WIDTH + 100 + 2 * CHAR_WIDTH) 102 [72, 105, 103, 104]) (\<lambda>high.
     Inr (frame 100 purple @ low @ frame (200 + WIDTH) blue @ high)))"

section \<open>The two windows\<close>

record cursor =
  cur_x :: u32
  cur_y :: u32

definition low_start :: cursor where
  "low_start = \<lparr>cur_x = 100 + 2, cur_y = 100 + 4 + CHAR_HEIGHT\<rparr>"

definition high_start :: cursor where
  "high_start = \<lparr>cur_x = 200 + WIDTH + 2, cur_y = 100 + 4 + CHAR_HEIGHT\<rparr>"

definition write_low :: "u8 \<Rightarrow> cursor \<Rightarrow> (cursor \<times> set_pixel list) result" where
  "write_low c k =
     (if \<not> printable c then Inr (k, [])
      else if cur_y k \<ge> 100 + HEIGHT - CHAR_HEIGHT then Inr (k, [])
      else rbind (draw (cur_x k) (cur_y k) c) (\<lambda>ps.
        let k' = k\<lparr>cur_x := cur_x k + CHAR_WIDTH\<rparr> in
        if cur_x k' \<ge> 100 + WIDTH - 3
        then Inr (k'\<lparr>cur_x := 100 + 2, cur_y := cur_y k' + CHAR_HEIGHT\<rparr>, ps)
        else Inr (k', ps)))"

definition write_high :: "u8 \<Rightarrow> cursor \<Rightarrow> (cursor \<times> set_pixel list) result" where
  "write_high c k =
     (if \<not> printable c then Inr (k, [])
      else if cur_y k \<ge> 100 + HEIGHT - CHAR_HEIGHT then Inr (k, [])
      else rbind (draw (cur_x k) (cur_y k) c) (\<lambda>ps.
        let k' = k\<lparr>cur_x := cur_x k + CHAR_WIDTH\<rparr> in
        if cur_x k' \<ge> 200 + 2 * WIDTH - 3
        then Inr (k'\<lparr>cur_x := 200 + WIDTH + 2, cur_y := cur_y k' + CHAR_HEIGHT\<rparr>, ps)
        else Inr (k', ps)))"

section \<open>The IO port callbacks\<close>

text \<open>
  The port library is a parameter: a read returns an error code and a value, a write is the
  call it makes.
\<close>

definition in16 :: "(u16 \<Rightarrow> int \<times> u32) \<Rightarrow> u16 \<Rightarrow> u16" where
  "in16 ps_io_port_in port =
     (case ps_io_port_in port of (error, result) \<Rightarrow> if error \<noteq> 0 then 0 else ucast result)"

definition out16 :: "(u16 \<Rightarrow> u32 \<Rightarrow> 'w) \<Rightarrow> u16 \<Rightarrow> u16 \<Rightarrow> 'w" where
  "out16 ps_io_port_out port value = ps_io_port_out port (ucast value)"

section \<open>The main loop\<close>

record vesa =
  low_cur :: cursor
  high_cur :: cursor

text \<open>
  One round of the loop: both input rings are polled (0 means nothing there) and what they
  hold goes to the window of its domain.
\<close>

definition vesa_round :: "u8 \<times> u8 \<Rightarrow> vesa \<Rightarrow> (vesa \<times> set_pixel list) result" where
  "vesa_round polls s =
     rbind (if fst polls \<noteq> 0 then write_low (fst polls) (low_cur s) else Inr (low_cur s, []))
       (\<lambda>(k, ps).
     rbind (if snd polls \<noteq> 0 then write_high (snd polls) (high_cur s) else Inr (high_cur s, []))
       (\<lambda>(l, qs). Inr (s\<lparr>low_cur := k, high_cur := l\<rparr>, ps @ qs)))"

fun vesa_loop :: "(u8 \<times> u8) list \<Rightarrow> vesa \<Rightarrow> (vesa \<times> set_pixel list) result" where
  "vesa_loop [] s = Inr (s, [])"
| "vesa_loop (p # ps) s =
     rbind (vesa_round p s) (\<lambda>(t, out).
     rbind (vesa_loop ps t) (\<lambda>(u, rest). Inr (u, out @ rest)))"

text \<open>
  \<open>run\<close>: the port operations are set up, the rings are opened, the borders are drawn, then
  the loop runs from the initial cursors on the bytes the rings hold. The arguments are the
  results of the library calls: the error of \<open>camkes_io_port_ops\<close> and whether \<open>rb_new\<close>
  returned a ring.
\<close>

definition vesa_run ::
  "int \<Rightarrow> bool \<Rightarrow> bool \<Rightarrow> (u8 \<times> u8) list \<Rightarrow> (vesa \<times> set_pixel list) result" where
  "vesa_run error low_ring high_ring polls =
     rbind (c_assert (error = 0)) (\<lambda>_.
     if \<not> low_ring then Inl Aborted
     else if \<not> high_ring then Inl Aborted
     else rbind borders (\<lambda>frame_pixels.
       rbind (vesa_loop polls \<lparr>low_cur = low_start, high_cur = high_start\<rparr>)
         (\<lambda>(s, out). Inr (s, frame_pixels @ out))))"

section \<open>Drawing never reads outside a bitmap\<close>

definition glyph_pixel :: "bytes \<Rightarrow> u32 \<Rightarrow> u32 \<Rightarrow> u32 \<Rightarrow> u32 \<Rightarrow> set_pixel" where
  "glyph_pixel pixels x y i j =
     set_pixel_call (x + j) (y + i)
       (if pixels ! unat ((j + i * 16) div 8) AND push_bit (unat ((j + i * 16) mod 8)) 1 \<noteq> 0
        then white else black)"

definition glyph_pixels :: "u32 \<Rightarrow> u32 \<Rightarrow> u8 \<Rightarrow> set_pixel list" where
  "glyph_pixels x y c =
     concat (map (\<lambda>i. map (glyph_pixel (the (to_pixels c)) x y i) (u32_range 0 14)) (u32_range 0 26))"

lemma row_width_eq: "row_width = 16"
  by (simp add: row_width_def CHAR_WIDTH_def)

lemma pixel_index:
  assumes "i < (26::u32)" "j < 14"
  shows "unat ((j + i * 16) div 8) < 52"
proof -
  have "unat i < 26" "unat j < 14" using assms by (simp_all add: word_less_nat_alt)
  then show ?thesis by (simp add: unat_div unat_word_ariths)
qed

lemma draw_pixel_ok:
  assumes "length pixels = 52" "i < 26" "j < 14"
  shows "draw_pixel pixels x y i j = Inr (glyph_pixel pixels x y i j)"
  using assms pixel_index [OF assms(2,3)] by (simp add: draw_pixel_def glyph_pixel_def row_width_eq)

lemma printable_iff_glyph: "printable c \<longleftrightarrow> (\<exists>g. to_pixels c = Some g)"
  by (auto simp: to_pixels_defined has_glyph_def printable_def)

lemma draw_printable:
  assumes "printable c"
  shows "draw x y c = Inr (glyph_pixels x y c)"
proof -
  from assms obtain g where g: "to_pixels c = Some g" by (auto simp: printable_iff_glyph)
  have len: "length g = 52" using g by (rule length_to_pixels)
  have row: "rmap (draw_pixel g x y i) (u32_range 0 14) = Inr (map (glyph_pixel g x y i) (u32_range 0 14))"
    if "i \<in> set (u32_range 0 26)" for i
    using that len by (intro rmap_total draw_pixel_ok) (simp_all add: in_u32_range)
  show ?thesis
    unfolding draw_def g option.case CHAR_WIDTH_def CHAR_HEIGHT_def
    by (subst rmap_total [where g = "\<lambda>i. map (glyph_pixel g x y i) (u32_range 0 14)"])
      (simp_all add: row glyph_pixels_def g)
qed

lemma draw_not_printable: "\<not> printable c \<Longrightarrow> draw x y c = Inl AssertionFailed"
  by (simp add: draw_def printable_iff_glyph split: option.split)

lemma draw_string_printable:
  "\<forall>c \<in> set s. printable c \<Longrightarrow> \<exists>ps. draw_string x y s = Inr ps"
proof (induction s arbitrary: x)
  case (Cons c s)
  then obtain qs where "draw_string (x + CHAR_WIDTH) y s = Inr qs" by force
  with Cons.prems show ?case by (simp add: draw_printable)
qed simp

lemma borders_total: "\<exists>ps. borders = Inr ps"
proof -
  have "\<forall>c \<in> set [76, 111, 119]. printable c" "\<forall>c \<in> set [72, 105, 103, 104]. printable c"
    by (simp_all add: printable_def)
  from this [THEN draw_string_printable] show ?thesis
    unfolding borders_def by (metis (no_types, lifting) rbind_Inr)
qed

section \<open>The windows as grids of character cells\<close>

text \<open>
  What a window promises: it is a grid of 22 columns and 10 rows, filled row by row with the
  printable characters of its domain, and whatever comes after the last cell is dropped.
  \<open>left\<close> is the column of the first cell: 102 for the low window, 514 for the high one.
\<close>

definition cell_cursor :: "nat \<Rightarrow> nat \<Rightarrow> cursor \<Rightarrow> bool" where
  "cell_cursor left n k \<longleftrightarrow>
     n \<le> 220 \<and> unat (cur_x k) = left + 14 * (n mod 22) \<and> unat (cur_y k) = 130 + 26 * (n div 22)"

fun grid_text :: "nat \<Rightarrow> nat \<Rightarrow> bytes \<Rightarrow> set_pixel list" where
  "grid_text left n [] = []"
| "grid_text left n (c # cs) =
     (if printable c \<and> n < 220
      then glyph_pixels (of_nat (left + 14 * (n mod 22))) (of_nat (130 + 26 * (n div 22))) c
             @ grid_text left (Suc n) cs
      else grid_text left n cs)"

lemma grid_next:
  assumes "n < 220"
  shows "n mod 22 < 22" "n div 22 < 10"
    "Suc n mod 22 = (if n mod 22 = 21 then 0 else Suc (n mod 22))"
    "Suc n div 22 = (if n mod 22 = 21 then Suc (n div 22) else n div 22)"
  using assms by (auto simp: mod_Suc div_Suc)

lemma cell_cursor_full: "cell_cursor left n k \<Longrightarrow> cur_y k \<ge> 374 \<longleftrightarrow> n = 220"
proof -
  assume "cell_cursor left n k"
  then have n: "n \<le> 220" "unat (cur_y k) = 130 + 26 * (n div 22)" by (simp_all add: cell_cursor_def)
  have "10 \<le> n div 22 \<longleftrightarrow> 10 * 22 \<le> n" by (rule less_eq_div_iff_mult_less_eq) simp
  moreover have "374 \<le> 130 + 26 * d \<longleftrightarrow> 10 \<le> d" for d :: nat by linarith
  ultimately have "374 \<le> 130 + 26 * (n div 22) \<longleftrightarrow> n = 220" using n(1) by auto
  with n(2) show ?thesis by (simp add: word_le_nat_alt)
qed

lemma u32_add_small: "unat (x :: u32) + unat y < 4294967296 \<Longrightarrow> unat (x + y) = unat x + unat y"
  by (simp add: unat_word_ariths)

definition write_window :: "u32 \<Rightarrow> u32 \<Rightarrow> u8 \<Rightarrow> cursor \<Rightarrow> (cursor \<times> set_pixel list) result" where
  "write_window start limit c k =
     (if \<not> printable c then Inr (k, [])
      else if cur_y k \<ge> 374 then Inr (k, [])
      else rbind (draw (cur_x k) (cur_y k) c) (\<lambda>ps.
        if cur_x k + 14 \<ge> limit
        then Inr (\<lparr>cur_x = start, cur_y = cur_y k + 26\<rparr>, ps)
        else Inr (\<lparr>cur_x = cur_x k + 14, cur_y = cur_y k\<rparr>, ps)))"

lemma write_low_window: "write_low = write_window 102 409"
  by (intro ext, rename_tac c k, case_tac k) (simp add: write_low_def write_window_def vesa_dims Let_def cong: if_cong)

lemma write_high_window: "write_high = write_window 514 821"
  by (intro ext, rename_tac c k, case_tac k) (simp add: write_high_def write_window_def vesa_dims Let_def cong: if_cong)

lemma write_window_step:
  assumes cell: "cell_cursor left n k" and left: "unat start = left" "unat limit = left + 307" "left < 1000"
  shows "\<exists>k'. write_window start limit c k =
      Inr (k', if printable c \<and> n < 220
               then glyph_pixels (of_nat (left + 14 * (n mod 22))) (of_nat (130 + 26 * (n div 22))) c
               else []) \<and>
    cell_cursor left (if printable c \<and> n < 220 then Suc n else n) k'"
proof (cases "printable c \<and> n < 220")
  case True
  have x: "unat (cur_x k) = left + 14 * (n mod 22)" and y: "unat (cur_y k) = 130 + 26 * (n div 22)"
    using cell by (simp_all add: cell_cursor_def)
  note next_cell = grid_next [of n]
  have room: "\<not> cur_y k \<ge> 374" using cell True by (simp add: cell_cursor_full)
  have xy: "cur_x k = of_nat (left + 14 * (n mod 22))" "cur_y k = of_nat (130 + 26 * (n div 22))"
    by (simp_all flip: x y)
  have col: "14 * (n mod 22) \<le> 294" using next_cell(1) True by linarith
  then have x14: "unat (cur_x k + 14) = left + 14 * (n mod 22) + 14"
    using x left(3) by (subst u32_add_small) simp_all
  have y26: "unat (cur_y k + 26) = 130 + 26 * (n div 22) + 26"
    using y next_cell True by (subst u32_add_small) auto
  have last_col: "293 \<le> 14 * m \<longleftrightarrow> m = 21" if "m < 22" for m :: nat
    using that by presburger
  have wrap: "cur_x k + 14 \<ge> limit \<longleftrightarrow> n mod 22 = 21"
    using x14 left(2) last_col [of "n mod 22"] by (simp add: word_le_nat_alt)
  have "write_window start limit c k =
      Inr (if n mod 22 = 21 then \<lparr>cur_x = start, cur_y = cur_y k + 26\<rparr>
           else \<lparr>cur_x = cur_x k + 14, cur_y = cur_y k\<rparr>, glyph_pixels (cur_x k) (cur_y k) c)"
    using True room wrap by (simp add: write_window_def draw_printable)
  moreover have "cell_cursor left (Suc n) (if n mod 22 = 21 then \<lparr>cur_x = start, cur_y = cur_y k + 26\<rparr>
           else \<lparr>cur_x = cur_x k + 14, cur_y = cur_y k\<rparr>)"
    using True x14 y26 y left next_cell by (simp add: cell_cursor_def)
  ultimately show ?thesis using True xy by auto
next
  case False
  then have "write_window start limit c k = Inr (k, [])"
    using cell cell_cursor_full [OF cell] by (auto simp: write_window_def cell_cursor_def)
  with False cell show ?thesis by auto
qed

text \<open>Every pixel of the grid lies in its window.\<close>

definition in_window :: "nat \<Rightarrow> set_pixel \<Rightarrow> bool" where
  "in_window left p \<longleftrightarrow>
     left \<le> unat (px p) \<and> unat (px p) < left + 308 \<and> 130 \<le> unat (py p) \<and> unat (py p) < 390"

lemma glyph_pixels_in_window:
  assumes "p \<in> set (glyph_pixels (of_nat (left + 14 * i)) (of_nat (130 + 26 * j)) c)"
    and "i < 22" "j < 10" "left < 1000"
  shows "in_window left p"
proof -
  from assms(1) obtain a b where p: "px p = of_nat (left + 14 * i) + b" "py p = of_nat (130 + 26 * j) + a"
      and ab: "a < 26" "b < 14"
    by (auto simp: glyph_pixels_def glyph_pixel_def in_u32_range set_pixel_call_def)
  have ab': "unat a < 26" "unat b < 14" using ab by (simp_all add: word_less_nat_alt)
  have of_nat_small: "unat (of_nat m :: u32) = m" if "m < 4294967296" for m
    using that by (simp add: unat_of_nat take_bit_nat_eq_self)
  have "unat (px p) = left + 14 * i + unat b"
    unfolding p
    using assms(2,4) ab'(2) by (subst u32_add_small; subst of_nat_small) auto
  moreover have "unat (py p) = 130 + 26 * j + unat a"
    unfolding p
    using assms(3) ab'(1) by (subst u32_add_small; subst of_nat_small) auto
  ultimately show ?thesis using assms(2,3) ab' by (auto simp: in_window_def)
qed

lemma grid_text_in_window:
  "left < 1000 \<Longrightarrow> p \<in> set (grid_text left n cs) \<Longrightarrow> in_window left p"
proof (induction left n cs rule: grid_text.induct)
  case (2 left n c cs)
  show ?case
  proof (cases "printable c \<and> n < 220")
    case True
    with "2.prems" consider
      "p \<in> set (glyph_pixels (of_nat (left + 14 * (n mod 22))) (of_nat (130 + 26 * (n div 22))) c)"
      | "p \<in> set (grid_text left (Suc n) cs)"
      by (auto simp del: of_nat_add of_nat_mult)
    then show ?thesis
    proof cases
      case 1
      then show ?thesis
        by (rule glyph_pixels_in_window) (use True grid_next [of n] "2.prems" in auto)
    next
      case 2
      with True "2.IH"(1) "2.prems" show ?thesis by blast
    qed
  next
    case False
    with 2 show ?thesis by auto
  qed
qed simp

lemma windows_disjoint: "in_window 102 p \<Longrightarrow> \<not> in_window 514 p"
  by (simp add: in_window_def)

section \<open>The loop draws each domain into its own window\<close>

lemma write_low_step:
  "cell_cursor 102 n k \<Longrightarrow> \<exists>k'. write_low c k =
      Inr (k', if printable c \<and> n < 220
               then glyph_pixels (of_nat (102 + 14 * (n mod 22))) (of_nat (130 + 26 * (n div 22))) c
               else []) \<and>
    cell_cursor 102 (if printable c \<and> n < 220 then Suc n else n) k'"
  unfolding write_low_window by (rule write_window_step) simp_all

lemma write_high_step:
  "cell_cursor 514 n k \<Longrightarrow> \<exists>k'. write_high c k =
      Inr (k', if printable c \<and> n < 220
               then glyph_pixels (of_nat (514 + 14 * (n mod 22))) (of_nat (130 + 26 * (n div 22))) c
               else []) \<and>
    cell_cursor 514 (if printable c \<and> n < 220 then Suc n else n) k'"
  unfolding write_high_window by (rule write_window_step) simp_all

text \<open>A poll of 0 is nothing to draw, and 0 is not printable, so the grid may skip it.\<close>

lemma not_printable_0: "\<not> printable 0"
  by (simp add: printable_def)

definition next_cell :: "u8 \<Rightarrow> nat \<Rightarrow> nat" where
  "next_cell c n = (if printable c \<and> n < 220 then Suc n else n)"

definition cell_pixels :: "nat \<Rightarrow> nat \<Rightarrow> u8 \<Rightarrow> set_pixel list" where
  "cell_pixels left n c =
     (if printable c \<and> n < 220
      then glyph_pixels (of_nat (left + 14 * (n mod 22))) (of_nat (130 + 26 * (n div 22))) c
      else [])"

lemma grid_text_Cons: "grid_text left n (c # cs) = cell_pixels left n c @ grid_text left (next_cell c n) cs"
  by (simp add: cell_pixels_def next_cell_def)

lemma poll_low:
  assumes "cell_cursor 102 n k"
  shows "\<exists>k'. (if c \<noteq> 0 then write_low c k else Inr (k, [])) = Inr (k', cell_pixels 102 n c) \<and>
    cell_cursor 102 (next_cell c n) k'"
  using write_low_step [OF assms, of c] assms
  by (cases "c = 0") (auto simp: cell_pixels_def next_cell_def not_printable_0 simp del: of_nat_add of_nat_mult)

lemma poll_high:
  assumes "cell_cursor 514 n k"
  shows "\<exists>k'. (if c \<noteq> 0 then write_high c k else Inr (k, [])) = Inr (k', cell_pixels 514 n c) \<and>
    cell_cursor 514 (next_cell c n) k'"
  using write_high_step [OF assms, of c] assms
  by (cases "c = 0") (auto simp: cell_pixels_def next_cell_def not_printable_0 simp del: of_nat_add of_nat_mult)

definition vesa_at :: "nat \<Rightarrow> nat \<Rightarrow> vesa \<Rightarrow> bool" where
  "vesa_at m n s \<longleftrightarrow> cell_cursor 102 m (low_cur s) \<and> cell_cursor 514 n (high_cur s)"

lemma vesa_round_step:
  assumes "vesa_at m n s"
  shows "\<exists>t. vesa_round p s = Inr (t, cell_pixels 102 m (fst p) @ cell_pixels 514 n (snd p)) \<and>
    vesa_at (next_cell (fst p) m) (next_cell (snd p) n) t"
proof -
  from assms obtain k l where
    "(if fst p \<noteq> 0 then write_low (fst p) (low_cur s) else Inr (low_cur s, [])) = Inr (k, cell_pixels 102 m (fst p))"
    "(if snd p \<noteq> 0 then write_high (snd p) (high_cur s) else Inr (high_cur s, [])) = Inr (l, cell_pixels 514 n (snd p))"
    "cell_cursor 102 (next_cell (fst p) m) k" "cell_cursor 514 (next_cell (snd p) n) l"
    using poll_low poll_high by (metis vesa_at_def)
  then show ?thesis unfolding vesa_round_def vesa_at_def
    by (intro exI [of _ "s\<lparr>low_cur := k, high_cur := l\<rparr>"]) simp
qed

lemma cell_pixels_in_window:
  assumes "left < 1000" "p \<in> set (cell_pixels left n c)"
  shows "in_window left p"
  using grid_text_in_window [OF assms(1), of p n "[c]"] assms(2)
  by (simp add: grid_text_Cons del: grid_text.simps(2))

lemma filter_cell_pixels:
  "filter (in_window 102) (cell_pixels 102 m c) = cell_pixels 102 m c"
  "filter (in_window 514) (cell_pixels 514 n c) = cell_pixels 514 n c"
  "filter (in_window 514) (cell_pixels 102 m c) = []"
  "filter (in_window 102) (cell_pixels 514 n c) = []"
  using cell_pixels_in_window [of 102] cell_pixels_in_window [of 514]
  by (auto simp: filter_id_conv filter_empty_conv dest: windows_disjoint)

lemma vesa_loop_windows:
  "vesa_at m n s \<Longrightarrow> \<exists>t out. vesa_loop polls s = Inr (t, out) \<and>
     filter (in_window 102) out = grid_text 102 m (map fst polls) \<and>
     filter (in_window 514) out = grid_text 514 n (map snd polls) \<and>
     (\<forall>p \<in> set out. in_window 102 p \<or> in_window 514 p)"
proof (induction polls arbitrary: m n s)
  case (Cons p ps)
  obtain t where t: "vesa_round p s = Inr (t, cell_pixels 102 m (fst p) @ cell_pixels 514 n (snd p))"
      "vesa_at (next_cell (fst p) m) (next_cell (snd p) n) t"
    using vesa_round_step [OF Cons.prems] by blast
  from Cons.IH [OF t(2)] obtain u out where u: "vesa_loop ps t = Inr (u, out)"
      "filter (in_window 102) out = grid_text 102 (next_cell (fst p) m) (map fst ps)"
      "filter (in_window 514) out = grid_text 514 (next_cell (snd p) n) (map snd ps)"
      "\<forall>p \<in> set out. in_window 102 p \<or> in_window 514 p"
    by blast
  have "\<forall>q \<in> set (cell_pixels 102 m (fst p) @ cell_pixels 514 n (snd p)). in_window 102 q \<or> in_window 514 q"
    using cell_pixels_in_window [of 102] cell_pixels_in_window [of 514] by auto
  with t(1) u show ?case
    by (simp add: grid_text_Cons filter_cell_pixels ball_Un del: grid_text.simps)
qed simp

lemma vesa_at_start: "vesa_at 0 0 \<lparr>low_cur = low_start, high_cur = high_start\<rparr>"
  by (simp add: vesa_at_def cell_cursor_def low_start_def high_start_def vesa_dims)

section \<open>Properties\<close>

text \<open>
  The assertion of \<open>draw\<close> and its reads of the bitmap never fail exactly for
  the characters \<open>printable\<close> lets through: the test in the driver and the table in
  \<^verbatim>\<open>chars.c\<close> agree, and no index leaves the 52 bytes of a bitmap.
\<close>

theorem draw_safe_iff_printable: "(\<exists>ps. draw x y c = Inr ps) \<longleftrightarrow> printable c"
  by (cases "printable c") (simp_all add: draw_printable draw_not_printable)

text \<open>
  Property C17. Whatever the two domains send, the driver does not stop, and the pixels it
  draws in the low window are the grid text of the low domain's bytes alone, those in the high
  window the grid text of the high domain's bytes alone, and nothing is drawn outside the two
  windows once the borders are drawn.
\<close>

theorem vesa_windows_separate:
  "\<exists>s frame out. borders = Inr frame \<and> vesa_run 0 True True polls = Inr (s, frame @ out) \<and>
     filter (in_window 102) out = grid_text 102 0 (map fst polls) \<and>
     filter (in_window 514) out = grid_text 514 0 (map snd polls) \<and>
     list_all (\<lambda>p. in_window 102 p \<or> in_window 514 p) out"
proof -
  obtain frame where b: "borders = Inr frame" using borders_total by blast
  obtain s out where s: "vesa_loop polls \<lparr>low_cur = low_start, high_cur = high_start\<rparr> = Inr (s, out)"
      "filter (in_window 102) out = grid_text 102 0 (map fst polls)"
      "filter (in_window 514) out = grid_text 514 0 (map snd polls)"
      "\<forall>p \<in> set out. in_window 102 p \<or> in_window 514 p"
    using vesa_loop_windows [OF vesa_at_start, of polls] by blast
  have "vesa_run 0 True True polls = Inr (s, frame @ out)" unfolding vesa_run_def b by (simp add: s(1))
  with b s(2-4) show ?thesis by (auto simp: list_all_iff)
qed

end
