(* ===== verification/Aeroplage_Input.thy ===== *)
theory Aeroplage_Input
  imports Camkes_Prelude
begin

text \<open>
  The input side of \<^verbatim>\<open>apps/aeroplage\<close>: the keyboard driver, which turns scan codes into
  characters (\<^verbatim>\<open>KeyboardDriver/driver.c\<close>), the switch, which sends each character to the
  low or to the high domain (\<^verbatim>\<open>Switch/switch.c\<close>), and the placeholder of the guest system,
  which copies its input to its output (\<^verbatim>\<open>MockLinux/mocklinux.c\<close>). The endless loops run
  here on the list of the bytes received so far; what a ring transmits is the list returned.
\<close>

unbundle bit_operations_syntax

section \<open>The keyboard driver\<close>

definition in8 :: "(u16 \<Rightarrow> int \<times> u32) \<Rightarrow> u16 \<Rightarrow> u8" where
  "in8 ps_io_port_in port =
     (case ps_io_port_in port of (error, result) \<Rightarrow> if error \<noteq> 0 then 0 else ucast result)"

definition out8 :: "(u16 \<Rightarrow> u32 \<Rightarrow> 'w) \<Rightarrow> u16 \<Rightarrow> u8 \<Rightarrow> 'w" where
  "out8 ps_io_port_out port value = ps_io_port_out port (ucast value)"

text \<open>The static variables of the loop.\<close>

record kbd =
  escape_code :: int
  escape_state :: int
  break_code :: int

definition kbd_start :: kbd where
  "kbd_start = \<lparr>escape_code = 0, escape_state = 0, break_code = 0\<rparr>"

text \<open>
  One scan code: \<open>Some c\<close> is a key released whose code goes on to the translation, \<open>None\<close>
  a \<open>continue\<close> of the loop.
\<close>

definition kbd_scancode :: "int \<Rightarrow> kbd \<Rightarrow> kbd \<times> int option" where
  "kbd_scancode c s =
     (if c = 0xf0 then (s\<lparr>break_code := 0xf0\<rparr>, None)
      else if c = 0xe0 \<or> c = 0xe1 then (s\<lparr>escape_code := c, escape_state := 0\<rparr>, None)
      else if escape_code s = 0xe1 then
        (let s1 = s\<lparr>escape_state := escape_state s + 1\<rparr> in
         if escape_state s1 = 2 then (s1\<lparr>escape_code := 0, break_code := 0\<rparr>, None)
         else (s1, None))
      else if escape_code s = 0xe0 then (s\<lparr>break_code := 0, escape_code := 0\<rparr>, None)
      else if break_code s = 0 then (s\<lparr>break_code := 0, escape_code := 0\<rparr>, None)
      else (s\<lparr>break_code := 0, escape_code := 0\<rparr>, Some c))"

text \<open>
  The loop: \<open>code_to_char\<close> is \<open>sel4keyboard_code_to_char\<close> of libsel4keyboard, and the
  result is what is transmitted to the switch.
\<close>

fun kbd_loop :: "(int \<Rightarrow> u8) \<Rightarrow> int list \<Rightarrow> kbd \<Rightarrow> kbd \<times> bytes" where
  "kbd_loop code_to_char [] s = (s, [])"
| "kbd_loop code_to_char (c # cs) s =
     (case kbd_scancode c s of
        (t, None) \<Rightarrow> kbd_loop code_to_char cs t
      | (t, Some c') \<Rightarrow>
          (let c1 = code_to_char c'; (u, out) = kbd_loop code_to_char cs t in
           (u, if c1 \<noteq> 0 then c1 # out else out)))"

definition kbd_run :: "int \<Rightarrow> bool \<Rightarrow> (int \<Rightarrow> u8) \<Rightarrow> int list \<Rightarrow> (kbd \<times> bytes) result" where
  "kbd_run error ring code_to_char codes =
     rbind (c_assert (error = 0)) (\<lambda>_.
     if \<not> ring then Inl Aborted else Inr (kbd_loop code_to_char codes kbd_start))"

text \<open>
  The driver's automaton has five modes: idle, after a break prefix, after the prefix of an
  extended key, and after the prefix of the pause key with none or one of its two codes read
  (the last three with or without a break prefix). \<open>kbd_ok\<close> says the variables stay in them.
\<close>

definition kbd_ok :: "kbd \<Rightarrow> bool" where
  "kbd_ok s \<longleftrightarrow> escape_code s \<in> {0, 0xe0, 0xe1} \<and> break_code s \<in> {0, 0xf0} \<and>
     (escape_code s = 0xe1 \<longrightarrow> escape_state s \<in> {0, 1})"

lemma kbd_ok_start: "kbd_ok kbd_start"
  by (simp add: kbd_ok_def kbd_start_def)

lemma kbd_ok_step: "kbd_ok s \<Longrightarrow> kbd_ok (fst (kbd_scancode c s))"
  by (auto simp: kbd_ok_def kbd_scancode_def Let_def)

lemma kbd_ok_loop: "kbd_ok s \<Longrightarrow> kbd_ok (fst (kbd_loop f cs s))"
proof (induction f cs s rule: kbd_loop.induct)
  case (2 f c cs s)
  show ?case
  proof (cases "kbd_scancode c s")
    case (Pair t r)
    with kbd_ok_step [OF "2.prems", of c] have "kbd_ok t" by simp
    with Pair 2 show ?thesis by (cases r) (auto simp: Let_def split: prod.splits)
  qed
qed simp

text \<open>
  The keys, as a PS/2 keyboard reports them: an ordinary key pressed or released, an extended
  key pressed or released, and the pause key.
\<close>

datatype key_event = Press int | Release int | ExtPress int | ExtRelease int | Pause int int int int

fun key_codes :: "key_event \<Rightarrow> int list" where
  "key_codes (Press c) = [c]"
| "key_codes (Release c) = [0xf0, c]"
| "key_codes (ExtPress c) = [0xe0, c]"
| "key_codes (ExtRelease c) = [0xe0, 0xf0, c]"
| "key_codes (Pause a b c d) = [0xe1, a, b, 0xe1, 0xf0, c, 0xf0, d]"

definition plain_code :: "int \<Rightarrow> bool" where
  "plain_code c \<longleftrightarrow> c \<noteq> 0xf0 \<and> c \<noteq> 0xe0 \<and> c \<noteq> 0xe1"

fun plain_event :: "key_event \<Rightarrow> bool" where
  "plain_event (Press c) = plain_code c"
| "plain_event (Release c) = plain_code c"
| "plain_event (ExtPress c) = plain_code c"
| "plain_event (ExtRelease c) = plain_code c"
| "plain_event (Pause a b c d) = (plain_code a \<and> plain_code b \<and> plain_code c \<and> plain_code d)"

definition kbd_idle :: "kbd \<Rightarrow> bool" where
  "kbd_idle s \<longleftrightarrow> escape_code s = 0 \<and> break_code s = 0"

text \<open>What the driver is for: the characters of the ordinary keys, on release.\<close>

fun key_chars :: "(int \<Rightarrow> u8) \<Rightarrow> key_event list \<Rightarrow> bytes" where
  "key_chars f [] = []"
| "key_chars f (Release c # es) = (if f c \<noteq> 0 then f c # key_chars f es else key_chars f es)"
| "key_chars f (_ # es) = key_chars f es"

lemma kbd_loop_append:
  "kbd_loop f (xs @ ys) s =
     (case kbd_loop f xs s of (t, out) \<Rightarrow> case kbd_loop f ys t of (u, rest) \<Rightarrow> (u, out @ rest))"
  by (induction xs arbitrary: s) (auto simp: Let_def split: prod.splits option.splits)

lemma kbd_event:
  assumes "plain_event e" "kbd_idle s"
  shows "\<exists>t. kbd_loop f (key_codes e) s = (t, key_chars f [e]) \<and> kbd_idle t"
  using assms by (cases e) (auto simp: kbd_scancode_def kbd_idle_def plain_code_def Let_def)

lemma key_chars_Cons: "key_chars f (e # es) = key_chars f [e] @ key_chars f es"
  by (cases e) auto

lemma kbd_events:
  "list_all plain_event es \<Longrightarrow> kbd_idle s \<Longrightarrow>
     \<exists>t. kbd_loop f (concat (map key_codes es)) s = (t, key_chars f es) \<and> kbd_idle t"
proof (induction es arbitrary: s)
  case (Cons e es)
  from Cons.prems obtain t where t: "kbd_loop f (key_codes e) s = (t, key_chars f [e])" "kbd_idle t"
    using kbd_event [of e s f] by auto
  with Cons obtain u where "kbd_loop f (concat (map key_codes es)) t = (u, key_chars f es)" "kbd_idle u"
    by (metis list.pred_inject(2))
  with t show ?case by (simp add: kbd_loop_append key_chars_Cons [of f e es])
qed simp

section \<open>The switch\<close>

definition SWITCH_CHAR :: u8 where "SWITCH_CHAR = 9"

datatype selected = LOW | HIGH

record switch_out =
  low_output :: bytes
  high_output :: bytes

definition switch_byte :: "u8 \<Rightarrow> selected \<times> switch_out \<Rightarrow> selected \<times> switch_out" where
  "switch_byte c st =
     (case st of (sel, out) \<Rightarrow>
        if c = SWITCH_CHAR then (if sel = LOW then HIGH else LOW, out)
        else if sel = LOW then (sel, out\<lparr>low_output := low_output out @ [c]\<rparr>)
        else (sel, out\<lparr>high_output := high_output out @ [c]\<rparr>))"

definition switch_start :: "selected \<times> switch_out" where
  "switch_start = (LOW, \<lparr>low_output = [], high_output = []\<rparr>)"

definition switch_run :: "bool \<Rightarrow> bool \<Rightarrow> bool \<Rightarrow> bytes \<Rightarrow> (selected \<times> switch_out) result" where
  "switch_run low high ring input =
     (if \<not> low then Inl Aborted
      else if \<not> high then Inl Aborted
      else if \<not> ring then Inl Aborted
      else Inr (fold switch_byte input switch_start))"

text \<open>
  The specification: the input cut at the switch characters, its pieces going in turn to the
  low and to the high domain.
\<close>

fun routed :: "selected \<Rightarrow> selected \<Rightarrow> bytes \<Rightarrow> bytes" where
  "routed d sel [] = []"
| "routed d sel (c # cs) =
     (if c = SWITCH_CHAR then routed d (if sel = LOW then HIGH else LOW) cs
      else if sel = d then c # routed d sel cs
      else routed d sel cs)"

lemma switch_fold:
  "snd (fold switch_byte cs (sel, out)) =
     \<lparr>low_output = low_output out @ routed LOW sel cs, high_output = high_output out @ routed HIGH sel cs\<rparr>"
proof (induction cs arbitrary: sel out)
  case (Cons c cs)
  then show ?case by (cases sel) (auto simp: switch_byte_def)
qed simp

lemma routed_no_switch: "SWITCH_CHAR \<notin> set (routed d sel cs)"
  by (induction d sel cs rule: routed.induct) auto

lemma routed_partition:
  "length (routed LOW sel cs) + length (routed HIGH sel cs) = length (filter (\<lambda>c. c \<noteq> SWITCH_CHAR) cs)"
proof (induction cs arbitrary: sel)
  case (Cons c cs)
  then show ?case by (cases sel) auto
qed simp

section \<open>The guest\<close>

text \<open>The two casts of the loop keep the byte, so each one received is transmitted as it is.\<close>

definition mocklinux_run :: "bool \<Rightarrow> bool \<Rightarrow> bytes \<Rightarrow> bytes result" where
  "mocklinux_run input_ring output_ring input =
     (if \<not> input_ring then Inl Aborted
      else if \<not> output_ring then Inl Aborted
      else Inr (map (\<lambda>c. c) input))"

section \<open>Properties\<close>

text \<open>
  The keyboard driver recognises whole key reports: for every sequence of
  keys pressed and released, extended keys and pause keys, it transmits exactly the non-null
  characters of the ordinary keys, in the order they were released.
\<close>

theorem kbd_transmits_released_keys:
  assumes "list_all plain_event es"
  shows "\<exists>t. kbd_run 0 True f (concat (map key_codes es)) = Inr (t, key_chars f es)"
  using kbd_events [OF assms, of kbd_start f] by (auto simp: kbd_run_def kbd_idle_def kbd_start_def)

theorem kbd_transmits_released_keys_witness:
  "\<exists>t. kbd_run 0 True (\<lambda>c. of_int c) (concat (map key_codes [Press 0x1c, Release 0x1c, ExtRelease 0x75]))
     = Inr (t, [0x1c])"
proof -
  have "list_all plain_event [Press 0x1c, Release 0x1c, ExtRelease 0x75]"
    by (simp add: plain_code_def)
  from kbd_transmits_released_keys [OF this, of "\<lambda>c. of_int c"] show ?thesis by simp
qed

text \<open>
  From any input, the driver's variables stay in the modes of its automaton: the
  pause counter never passes one, so the two codes after a pause prefix are always consumed.
\<close>

theorem kbd_modes:
  "kbd_run 0 True f codes = Inr (s, out) \<Longrightarrow> kbd_ok s"
  using kbd_ok_loop [OF kbd_ok_start, of f codes] by (simp add: kbd_run_def)

theorem kbd_modes_witness:
  "\<exists>s out. kbd_run 0 True (\<lambda>c. 0) [0xe1, 0x14] = Inr (s, out) \<and> kbd_ok s"
proof -
  have "kbd_run 0 True (\<lambda>c. 0) [0xe1, 0x14] = Inr (\<lparr>escape_code = 0xe1, escape_state = 1, break_code = 0\<rparr>, [])"
    by (simp add: kbd_run_def kbd_scancode_def kbd_start_def Let_def)
  with kbd_modes [OF this] show ?thesis by blast
qed

text \<open>
  The switch delivers every byte that is not the switch character to exactly one
  domain, the one selected when it arrives, in order, and the switch character to neither.
\<close>

theorem switch_routes:
  "\<exists>sel out. switch_run True True True input = Inr (sel, out) \<and>
     low_output out = routed LOW LOW input \<and> high_output out = routed HIGH LOW input \<and>
     length (low_output out) + length (high_output out) = length (filter (\<lambda>c. c \<noteq> SWITCH_CHAR) input) \<and>
     SWITCH_CHAR \<notin> set (low_output out) \<union> set (high_output out)"
proof -
  obtain sel out where s: "fold switch_byte input switch_start = (sel, out)" by (cases "fold switch_byte input switch_start")
  from s switch_fold [of input LOW "\<lparr>low_output = [], high_output = []\<rparr>"]
  have "out = \<lparr>low_output = routed LOW LOW input, high_output = routed HIGH LOW input\<rparr>"
    by (simp add: switch_start_def)
  with s routed_partition [of LOW input] routed_no_switch show ?thesis
    by (auto simp: switch_run_def)
qed

end
