(* ===== verification/Dhcp_Util.thy ===== *)
theory Dhcp_Util
  imports Camkes_Prelude
begin

text \<open>
  \<^verbatim>\<open>apps/dhcp/src/util.c\<close> and \<^verbatim>\<open>util.h\<close>: synthesised MAC addresses and the printed forms of
  MAC and IP addresses, with the buffer lengths the callers reserve for them.
\<close>

unbundle bit_operations_syntax

definition SIZEOF_MAC :: nat where "SIZEOF_MAC = 48 div 8"

definition STRLEN_MAC :: nat where "STRLEN_MAC = 18"

definition STRLEN_IP :: nat where "STRLEN_IP = 16"

text \<open>
  The loop of \<open>make_mac\<close>, counting the remaining bytes; the string ends where the list
  ends. The cast \<open>(uint64_t)(*data)\<close> extends the sign where \<open>char\<close> is signed, which the
  platform decides: \<open>char_signed\<close>.
\<close>

definition char_to_u64 :: "bool \<Rightarrow> u8 \<Rightarrow> u64" where
  "char_to_u64 char_signed c = (if char_signed then scast c else ucast c)"

fun make_mac_loop :: "bool \<Rightarrow> nat \<Rightarrow> bytes \<Rightarrow> u64 \<Rightarrow> u64" where
  "make_mac_loop char_signed 0 data x = x"
| "make_mac_loop char_signed (Suc n) [] x = make_mac_loop char_signed n [] (push_bit 8 x)"
| "make_mac_loop char_signed (Suc n) (c # data) x =
     make_mac_loop char_signed n data (push_bit 8 x OR char_to_u64 char_signed c)"

definition make_mac :: "bool \<Rightarrow> bytes \<Rightarrow> u64" where
  "make_mac char_signed data = make_mac_loop char_signed SIZEOF_MAC data 0"

definition mac_byte :: "u64 \<Rightarrow> nat \<Rightarrow> nat" where
  "mac_byte input i = unat (drop_bit (8 * i) input AND 0xff)"

definition mac_to_string :: "u64 \<Rightarrow> string" where
  "mac_to_string input =
     show_hex2 (mac_byte input 0) @ '':'' @ show_hex2 (mac_byte input 1) @ '':'' @
     show_hex2 (mac_byte input 2) @ '':'' @ show_hex2 (mac_byte input 3) @ '':'' @
     show_hex2 (mac_byte input 4) @ '':'' @ show_hex2 (mac_byte input 5)"

definition ip_to_string :: "u32 \<Rightarrow> string" where
  "ip_to_string input =
     show_nat (unat (drop_bit 24 input)) @ ''.'' @
     show_nat (unat (drop_bit 16 input AND 0xff)) @ ''.'' @
     show_nat (unat (drop_bit 8 input AND 0xff)) @ ''.'' @
     show_nat (unat (input AND 0xff))"

section \<open>The printed forms fit their buffers\<close>

lemma unat_and_byte: "unat ((x :: 'a::len word) AND 0xff) = unat x mod 256"
proof -
  have "x AND 0xff = take_bit 8 x" by (simp add: take_bit_eq_mask mask_eq_exp_minus_1)
  then have "unat (x AND 0xff) = take_bit 8 (unat x)" by (simp only: unsigned_take_bit_eq)
  then show ?thesis by (simp add: take_bit_eq_mod)
qed

lemma unat_drop_bit_div: "unat (drop_bit k (x :: u32)) = unat x div 2 ^ k"
  unfolding unat_drop_bit_eq by (rule drop_bit_eq_div)

lemma unat_drop24: "unat (drop_bit 24 (x :: u32)) < 256"
proof -
  have "unat x < 2 ^ LENGTH(32)" by (rule unsigned_less)
  then have "unat x < 256 * 2 ^ 24" by simp
  then show ?thesis unfolding unat_drop_bit_div by (rule less_mult_imp_div_less)
qed

lemma length_ip_to_string: "length (ip_to_string ip) + 1 \<le> STRLEN_IP"
proof -
  have "length (show_nat (unat (drop_bit 24 ip))) \<le> 3"
    by (rule length_show_nat_byte [OF unat_drop24])
  moreover have "length (show_nat (unat (x AND 0xff))) \<le> 3" for x :: u32
    by (rule length_show_nat_byte) (simp add: unat_and_byte)
  from this [of "drop_bit 16 ip"] this [of "drop_bit 8 ip"] this [of ip]
  have "length (show_nat (unat (drop_bit 16 ip AND 0xff))) + length (show_nat (unat (drop_bit 8 ip AND 0xff)))
      + length (show_nat (unat (ip AND 0xff))) \<le> 9"
    by linarith
  ultimately show ?thesis by (simp add: ip_to_string_def STRLEN_IP_def)
qed

lemma length_mac_to_string: "length (mac_to_string mac) + 1 = STRLEN_MAC"
  by (simp add: mac_to_string_def STRLEN_MAC_def)

section \<open>Reading an address back\<close>

text \<open>The printed address determines the address: the four numbers between the dots.\<close>

lemma show_nat_inj: "show_nat m = show_nat n \<Longrightarrow> m = n"
proof (induction m arbitrary: n rule: less_induct)
  case (less m)
  have digit_inj: "a = b" if "(char_of (48 + a) :: char) = char_of (48 + b)" "a < 10" "b < 10" for a b :: nat
  proof -
    from that(1) have "(of_char (char_of (48 + a) :: char) :: nat) = of_char (char_of (48 + b) :: char)" by simp
    with that(2,3) show ?thesis by simp
  qed
  have small: "k < 10 \<longleftrightarrow> length (show_nat k) = 1" for k
    by (subst show_nat.simps) simp
  show ?case
  proof (cases "m < 10")
    case True
    then have "n < 10" using less.prems small by metis
    with True less.prems have "(char_of (48 + m) :: char) = char_of (48 + n)"
      by (simp only: show_nat_small list.inject simp_thms)
    then show ?thesis using True \<open>n < 10\<close> by (rule digit_inj)
  next
    case False
    then have n: "\<not> n < 10" using less.prems small by metis
    have "show_nat (m div 10) @ [char_of (48 + m mod 10)] = show_nat (n div 10) @ [char_of (48 + n mod 10)]"
      using less.prems False n by (simp add: show_nat.simps [of m] show_nat.simps [of n])
    then have "show_nat (m div 10) = show_nat (n div 10)"
        and "(char_of (48 + m mod 10) :: char) = char_of (48 + n mod 10)"
      unfolding append1_eq_conv by blast+
    from digit_inj [OF this(2)] have units: "m mod 10 = n mod 10" by simp
    note tens = \<open>show_nat (m div 10) = show_nat (n div 10)\<close>
    have "m div 10 < m" using False by simp
    then have "m div 10 = n div 10" using tens by (rule less.IH)
    with units show ?thesis by (metis div_mult_mod_eq)
  qed
qed

lemma no_dot: "CHR ''.'' \<notin> set (show_nat n)"
  using show_nat_digits [of "CHR ''.''" n] by auto

lemma append_dot_eq:
  "CHR ''.'' \<notin> set a \<Longrightarrow> CHR ''.'' \<notin> set b \<Longrightarrow>
   a @ CHR ''.'' # xs = b @ CHR ''.'' # ys \<longleftrightarrow> a = b \<and> xs = ys"
proof (induction a arbitrary: b)
  case Nil
  then show ?case by (cases b) auto
next
  case (Cons c a)
  then show ?case by (cases b) auto
qed

lemma nat_from_bytes:
  "n = ((n div 2 ^ 24 * 256 + n div 2 ^ 16 mod 256) * 256 + n div 2 ^ 8 mod 256) * 256 + n mod (256::nat)"
proof -
  have "n div 2 ^ 16 div 256 = n div 2 ^ 24" "n div 2 ^ 8 div 256 = n div 2 ^ 16" "n div 256 = n div 2 ^ 8"
    by (simp_all add: div_mult2_eq [symmetric])
  then show ?thesis
    using div_mult_mod_eq [of n 256] div_mult_mod_eq [of "n div 2 ^ 8" 256] div_mult_mod_eq [of "n div 2 ^ 16" 256]
    by metis
qed

lemma ip_to_string_inj: "ip_to_string a = ip_to_string b \<Longrightarrow> a = b"
proof -
  assume "ip_to_string a = ip_to_string b"
  then have "unat (drop_bit 24 a) = unat (drop_bit 24 b)"
      "unat (drop_bit 16 a AND 0xff) = unat (drop_bit 16 b AND 0xff)"
      "unat (drop_bit 8 a AND 0xff) = unat (drop_bit 8 b AND 0xff)"
      "unat (a AND 0xff) = unat (b AND 0xff)"
    by (auto simp: ip_to_string_def append_dot_eq no_dot dest!: show_nat_inj)
  then have "unat a = unat b"
    unfolding unat_and_byte unat_drop_bit_div
    by (subst nat_from_bytes [of "unat a"], subst nat_from_bytes [of "unat b"]) (simp only:)
  then show "a = b" by (simp add: word_unat_eq_iff)
qed

section \<open>MAC addresses\<close>

lemma make_mac_loop_pad: "make_mac_loop s n [] x = push_bit (8 * n) x"
  by (induction n arbitrary: x) (auto simp: push_bit_push_bit add.commute)

end
