(* ===== verification/Dhcp_Server.thy ===== *)
theory Dhcp_Server
  imports Dhcp_Util
begin

text \<open>
  \<^verbatim>\<open>apps/dhcp/src/server.c\<close> and the protocol of \<^verbatim>\<open>client.c\<close> against it. The server's static
  variables are a record; each RPC runs under the server's mutex, so a call is one atomic step,
  and the runs of the four clients are interleavings of their calls (\<open>dhcp_step\<close>). The
  debug prints change nothing and are left out.
\<close>

unbundle bit_operations_syntax

section \<open>The server\<close>

definition my_ip :: u32 where "my_ip = 0xc0a80101"

record dhcp_server =
  next_offer_octet :: u8
  routing_table :: "u32 list"

definition dhcp_start :: dhcp_server where
  "dhcp_start = \<lparr>next_offer_octet = 0, routing_table = replicate 4 0\<rparr>"

definition routing_table_sz :: nat where "routing_table_sz = 4"

definition offer_ip :: "u8 \<Rightarrow> u32" where
  "offer_ip octet = (my_ip AND NOT 0xff) OR ucast octet"

text \<open>The \<open>do\<close> loop of \<open>discover\<close>: offers until one is not off limits.\<close>

definition off_limits :: "u32 list \<Rightarrow> u32 \<Rightarrow> bool" where
  "off_limits rt offer \<longleftrightarrow>
     offer AND 0xff = 0 \<or> offer = my_ip \<or>
     offer = rt ! 0 \<or> offer = rt ! 1 \<or> offer = rt ! 2 \<or> offer = rt ! 3"

partial_function (option) discover_loop :: "u32 list \<Rightarrow> u8 \<Rightarrow> (u32 \<times> u8) option" where
  "discover_loop rt octet =
     (if off_limits rt (offer_ip octet) then discover_loop rt (octet + 1)
      else Some (offer_ip octet, octet + 1))"

text \<open>The result: the offer, the server's address passed back in \<open>siaddr\<close>, the new state.\<close>

definition discover :: "u64 \<Rightarrow> dhcp_server \<Rightarrow> (u32 \<times> u32 \<times> dhcp_server) option" where
  "discover hwaddr s =
     (case discover_loop (routing_table s) (next_offer_octet s) of
        None \<Rightarrow> None
      | Some (offer, octet) \<Rightarrow> Some (offer, my_ip, s\<lparr>next_offer_octet := octet\<rparr>))"

definition request :: "nat \<Rightarrow> u32 \<Rightarrow> u32 \<Rightarrow> dhcp_server \<Rightarrow> (u32 \<times> dhcp_server) result" where
  "request client ip siaddr s =
     (if siaddr \<noteq> my_ip then Inr (0, s)
      else rbind (c_assert (client < routing_table_sz)) (\<lambda>_.
        let rt = routing_table s in
        if rt ! client = ip then Inr (ip, s)
        else if ip \<noteq> my_ip \<and> ip \<noteq> 0 \<and> ip \<noteq> rt ! 0 \<and> ip \<noteq> rt ! 1 \<and> ip \<noteq> rt ! 2 \<and> ip \<noteq> rt ! 3
        then Inr (ip, s\<lparr>routing_table := rt[client := ip]\<rparr>)
        else Inr (0, s)))"

text \<open>The RPC entry points: one pair per client connection.\<close>

definition client1_discover where "client1_discover hwaddr s = discover hwaddr s"
definition client2_discover where "client2_discover hwaddr s = discover hwaddr s"
definition client3_discover where "client3_discover hwaddr s = discover hwaddr s"
definition client4_discover where "client4_discover hwaddr s = discover hwaddr s"

definition client1_request where "client1_request ip siaddr s = request 0 ip siaddr s"
definition client2_request where "client2_request ip siaddr s = request 1 ip siaddr s"
definition client3_request where "client3_request ip siaddr s = request 2 ip siaddr s"
definition client4_request where "client4_request ip siaddr s = request 3 ip siaddr s"

definition discover_rpc :: "nat \<Rightarrow> u64 \<Rightarrow> dhcp_server \<Rightarrow> (u32 \<times> u32 \<times> dhcp_server) option" where
  "discover_rpc i =
     (if i = 0 then client1_discover else if i = 1 then client2_discover
      else if i = 2 then client3_discover else client4_discover)"

definition request_rpc :: "nat \<Rightarrow> u32 \<Rightarrow> u32 \<Rightarrow> dhcp_server \<Rightarrow> (u32 \<times> dhcp_server) result" where
  "request_rpc i =
     (if i = 0 then client1_request else if i = 1 then client2_request
      else if i = 2 then client3_request else client4_request)"

lemmas discover_rpc_defs = discover_rpc_def client1_discover_def client2_discover_def
  client3_discover_def client4_discover_def

lemmas request_rpc_defs = request_rpc_def client1_request_def client2_request_def
  client3_request_def client4_request_def

lemma discover_rpc_eq: "discover_rpc i = discover"
  by (auto simp: discover_rpc_defs fun_eq_iff)

lemma request_rpc_eq: "i < 4 \<Longrightarrow> request_rpc i = request i"
  by (auto simp: request_rpc_defs fun_eq_iff less_Suc_eq numeral_eq_Suc)

section \<open>Offers\<close>

definition server_inv :: "dhcp_server \<Rightarrow> bool" where
  "server_inv s \<longleftrightarrow>
     length (routing_table s) = 4 \<and> my_ip \<notin> set (routing_table s) \<and>
     (\<forall>i < 4. \<forall>j < 4. i \<noteq> j \<longrightarrow> routing_table s ! i \<noteq> 0 \<longrightarrow> routing_table s ! i \<noteq> routing_table s ! j)"

lemma server_inv_start: "server_inv dhcp_start"
  by (simp add: server_inv_def dhcp_start_def my_ip_def)

lemma table_of_four: "length rt = 4 \<Longrightarrow> set rt = {rt ! 0, rt ! 1, rt ! 2, rt ! 3}"
  by (auto simp: set_conv_nth less_Suc_eq numeral_eq_Suc)

lemma off_limits_set:
  "length rt = 4 \<Longrightarrow> off_limits rt offer \<longleftrightarrow> offer AND 0xff = 0 \<or> offer = my_ip \<or> offer \<in> set rt"
  by (auto simp: off_limits_def table_of_four)

lemma ucast_byte_and: "(ucast (b :: u8) :: u32) AND 0xff = ucast b"
proof -
  have "(ucast b :: u32) AND 0xff = take_bit 8 (ucast b)" by (simp only: take_bit_eq_mask mask_eq_exp_minus_1) simp
  moreover have "take_bit 8 (unat b) = unat b" by (simp add: take_bit_nat_eq_self)
  ultimately show ?thesis by (simp add: word_unat_eq_iff unsigned_take_bit_eq unat_ucast_u8_u32)
qed

lemma offer_ip_low: "offer_ip octet AND 0xff = ucast octet"
proof -
  have "offer_ip octet AND 0xff = ucast octet AND 0xff"
    by (simp add: offer_ip_def my_ip_def bit.conj_disj_distrib2)
  then show ?thesis by (simp add: ucast_byte_and)
qed

lemma offer_ip_subnet: "offer_ip octet AND NOT 0xff = my_ip AND NOT 0xff"
proof -
  have "(ucast octet :: u32) AND NOT 0xff = 0"
    by (subst ucast_byte_and [symmetric]) (simp only: and.assoc bit.conj_cancel_right and_zero_eq)
  then show ?thesis by (simp add: offer_ip_def bit.conj_disj_distrib2 and.assoc)
qed

lemma ucast_u8_u32_inj: "(ucast (a :: u8) :: u32) = ucast b \<Longrightarrow> a = b"
  by (metis unat_ucast_u8_u32 word_unat_eq_iff)

lemma offer_ip_inj: "offer_ip a = offer_ip b \<Longrightarrow> a = b"
  by (metis offer_ip_low ucast_u8_u32_inj)

text \<open>
  At most six of the 256 octets are off limits: 0, the server's own, and one per table entry.
  So among any seven consecutive octets one may be offered.
\<close>

lemma off_limits_card:
  assumes "length rt = 4"
  shows "card {octet. off_limits rt (offer_ip octet)} \<le> 6"
proof -
  let ?B = "{octet. offer_ip octet \<in> insert my_ip (set rt)}"
  have zero: "offer_ip octet AND 0xff = 0 \<longleftrightarrow> octet = 0" for octet
    unfolding offer_ip_low by (auto dest: ucast_u8_u32_inj [of _ 0, simplified])
  have "inj_on offer_ip ?B" by (auto intro: inj_onI offer_ip_inj)
  then have "card ?B \<le> card (insert my_ip (set rt))" by (rule card_inj_on_le) auto
  also have "\<dots> \<le> Suc (card (set rt))" by (simp add: card_insert_if)
  also have "\<dots> \<le> 5" using card_length [of rt] assms by simp
  finally have "card (insert 0 ?B) \<le> 6" by (simp add: card_insert_if)
  moreover have "{octet. off_limits rt (offer_ip octet)} \<subseteq> insert 0 ?B"
    using assms by (auto simp: off_limits_set zero)
  ultimately show ?thesis by (meson card_mono finite le_trans)
qed

lemma some_octet_free:
  assumes "length rt = 4"
  shows "\<exists>k \<le> 6. \<not> off_limits rt (offer_ip (octet + of_nat k))"
proof (rule ccontr)
  assume "\<not> ?thesis"
  then have "(\<lambda>k. octet + of_nat k) ` {..6} \<subseteq> {octet. off_limits rt (offer_ip octet)}" by auto
  then have "card ((\<lambda>k. octet + of_nat k) ` {..6 :: nat}) \<le> 6"
    using off_limits_card [OF assms] by (meson card_mono finite le_trans)
  moreover have "inj_on (\<lambda>k. octet + of_nat k) {..6 :: nat}"
  proof (rule inj_onI)
    fix a b :: nat
    assume ab: "a \<in> {..6}" "b \<in> {..6}" and eq: "octet + of_nat a = octet + (of_nat b :: u8)"
    from eq have "(of_nat a :: u8) = of_nat b" by simp
    then have "unat (of_nat a :: u8) = unat (of_nat b :: u8)" by simp
    with ab show "a = b" by (simp add: unat_of_nat take_bit_nat_eq_self)
  qed
  ultimately show False by (simp add: card_image)
qed

lemma discover_loop_step:
  "off_limits rt (offer_ip octet) \<Longrightarrow> discover_loop rt octet = discover_loop rt (octet + 1)"
  "\<not> off_limits rt (offer_ip octet) \<Longrightarrow> discover_loop rt octet = Some (offer_ip octet, octet + 1)"
  by (subst discover_loop.simps, simp)+

lemma discover_loop_finds:
  "\<not> off_limits rt (offer_ip (octet + of_nat n)) \<Longrightarrow>
   \<exists>k \<le> n. discover_loop rt octet = Some (offer_ip (octet + of_nat k), octet + of_nat k + 1) \<and>
     \<not> off_limits rt (offer_ip (octet + of_nat k))"
proof (induction n arbitrary: octet)
  case 0
  then show ?case by (simp add: discover_loop_step)
next
  case (Suc n)
  show ?case
  proof (cases "off_limits rt (offer_ip octet)")
    case True
    have "\<not> off_limits rt (offer_ip ((octet + 1) + of_nat n))" using Suc.prems by (simp add: algebra_simps)
    from Suc.IH [OF this] obtain k where "k \<le> n"
        "discover_loop rt (octet + 1) = Some (offer_ip (octet + 1 + of_nat k), octet + 1 + of_nat k + 1)"
        "\<not> off_limits rt (offer_ip (octet + 1 + of_nat k))"
      by blast
    with True show ?thesis by (intro exI [of _ "Suc k"]) (simp add: discover_loop_step algebra_simps)
  next
    case False
    then show ?thesis by (intro exI [of _ 0]) (simp add: discover_loop_step)
  qed
qed

lemma discover_offers:
  assumes "server_inv s"
  shows "\<exists>k \<le> 6. discover hwaddr s =
      Some (offer_ip (next_offer_octet s + of_nat k), my_ip,
        s\<lparr>next_offer_octet := next_offer_octet s + of_nat k + 1\<rparr>) \<and>
    \<not> off_limits (routing_table s) (offer_ip (next_offer_octet s + of_nat k))"
proof -
  from assms have len: "length (routing_table s) = 4" by (simp add: server_inv_def)
  from some_octet_free [OF len] obtain n where
    "n \<le> 6" "\<not> off_limits (routing_table s) (offer_ip (next_offer_octet s + of_nat n))" by blast
  with discover_loop_finds [OF this(2)] show ?thesis
    by (auto simp: discover_def intro: le_trans)
qed

lemma discover_inv: "server_inv s \<Longrightarrow> discover hwaddr s = Some (offer, siaddr, t) \<Longrightarrow>
    server_inv t \<and> routing_table t = routing_table s \<and> siaddr = my_ip"
  using discover_offers [of s hwaddr] by (auto simp: server_inv_def)

section \<open>Requests\<close>

lemma request_by_table:
  assumes "length (routing_table s) = 4" "client < 4"
  shows "request client ip siaddr s =
    (if siaddr \<noteq> my_ip then Inr (0, s)
     else if routing_table s ! client = ip then Inr (ip, s)
     else if ip \<noteq> my_ip \<and> ip \<noteq> 0 \<and> ip \<notin> set (routing_table s)
     then Inr (ip, s\<lparr>routing_table := (routing_table s)[client := ip]\<rparr>)
     else Inr (0, s))"
  using assms(2) by (simp add: request_def routing_table_sz_def Let_def table_of_four [OF assms(1)])

text \<open>What a request can do: nothing, or enter a free address for its client.\<close>

lemma request_cases:
  assumes "request client ip siaddr s = Inr (assigned, t)" "server_inv s" "client < 4"
  obtains (same) "t = s" "assigned = 0 \<or> (assigned = ip \<and> routing_table s ! client = ip)"
    | (new) "assigned = ip" "ip \<noteq> my_ip" "ip \<noteq> 0" "ip \<notin> set (routing_table s)"
        "t = s\<lparr>routing_table := (routing_table s)[client := ip]\<rparr>"
proof -
  have len: "length (routing_table s) = 4" using assms(2) by (simp add: server_inv_def)
  note eq = assms(1) [unfolded request_by_table [OF len assms(3)]]
  show thesis
  proof (cases "siaddr = my_ip \<and> routing_table s ! client \<noteq> ip \<and> ip \<noteq> my_ip \<and> ip \<noteq> 0 \<and>
      ip \<notin> set (routing_table s)")
    case True
    with eq show thesis by (intro new) auto
  next
    case False
    with eq show thesis by (intro same) (auto split: if_splits)
  qed
qed

lemma table_inv_update:
  assumes "server_inv s" "ip \<noteq> my_ip" "ip \<notin> set (routing_table s)"
  shows "server_inv (s\<lparr>routing_table := (routing_table s)[client := ip]\<rparr>)"
proof -
  have len: "length (routing_table s) = 4" using assms(1) by (simp add: server_inv_def)
  have fresh: "routing_table s ! j \<noteq> ip" if "j < 4" for j
    using that assms(3) len nth_mem [of j "routing_table s"] by auto
  have "my_ip \<notin> set ((routing_table s)[client := ip])"
    using assms set_update_subset_insert [of "routing_table s" client ip] by (auto simp: server_inv_def)
  moreover have "(routing_table s)[client := ip] ! i \<noteq> (routing_table s)[client := ip] ! j"
    if "i < 4" "j < 4" "i \<noteq> j" "(routing_table s)[client := ip] ! i \<noteq> 0" for i j
  proof -
    consider "client = i" | "client = j" | "client \<noteq> i" "client \<noteq> j" by blast
    then show ?thesis
      using that assms(1) len fresh [of i] fresh [of j]
      by cases (auto simp: server_inv_def)
  qed
  ultimately show ?thesis using len by (auto simp: server_inv_def)
qed

lemma request_inv:
  assumes "request client ip siaddr s = Inr (assigned, t)" "server_inv s" "client < 4"
  shows "server_inv t"
  using assms by (rule request_cases) (use assms(2) table_inv_update in auto)

lemma request_assigned:
  assumes "request client ip siaddr s = Inr (assigned, t)" "server_inv s" "client < 4" "assigned \<noteq> 0"
  shows "assigned = ip" "routing_table t ! client = ip"
proof -
  have "length (routing_table s) = 4" using assms(2) by (simp add: server_inv_def)
  with assms show "assigned = ip" "routing_table t ! client = ip"
    by (auto elim!: request_cases)
qed

lemma request_frame:
  assumes "request client ip siaddr s = Inr (assigned, t)" "server_inv s" "client < 4" "j \<noteq> client"
  shows "routing_table t ! j = routing_table s ! j"
  using assms(1-3) by (rule request_cases) (use assms(4) in auto)

lemma request_returns:
  "client < 4 \<Longrightarrow> \<exists>assigned t. request client ip siaddr s = Inr (assigned, t)"
  by (simp add: request_def routing_table_sz_def Let_def)

lemma request_fresh:
  assumes "server_inv s" "client < 4" "\<not> off_limits (routing_table s) ip" "ip \<noteq> 0"
  shows "request client ip my_ip s = Inr (ip, s\<lparr>routing_table := (routing_table s)[client := ip]\<rparr>)"
proof -
  have "routing_table s ! client \<noteq> ip"
    using assms by (auto simp: off_limits_def less_Suc_eq numeral_eq_Suc)
  with assms show ?thesis by (simp add: request_def routing_table_sz_def Let_def off_limits_def)
qed

section \<open>Four clients and the server\<close>

text \<open>
  \<open>client.c\<close>: a client discovers, then requests what it was offered, and starts over when the
  answer is 0. Its program counter is whether it is about to discover, about to request, or
  done with an address.
\<close>

datatype client_pc = Discovering | Requesting u32 u32 | Acquired u32

record dhcp_system =
  server :: dhcp_server
  pcs :: "nat \<Rightarrow> client_pc"

definition system_start :: dhcp_system where
  "system_start = \<lparr>server = dhcp_start, pcs = (\<lambda>_. Discovering)\<rparr>"

inductive dhcp_step :: "dhcp_system \<Rightarrow> dhcp_system \<Rightarrow> bool" where
  send_discover:
    "i < 4 \<Longrightarrow> pcs s i = Discovering \<Longrightarrow> discover_rpc i hwaddr (server s) = Some (offer, siaddr, t) \<Longrightarrow>
     dhcp_step s (s\<lparr>server := t, pcs := (pcs s)(i := Requesting offer siaddr)\<rparr>)"
| send_request:
    "i < 4 \<Longrightarrow> pcs s i = Requesting offer siaddr \<Longrightarrow> request_rpc i offer siaddr (server s) = Inr (ip, t) \<Longrightarrow>
     dhcp_step s (s\<lparr>server := t, pcs := (pcs s)(i := if ip = 0 then Discovering else Acquired ip)\<rparr>)"

inductive dhcp_reachable :: "dhcp_system \<Rightarrow> bool" where
  reach_start: "dhcp_reachable system_start"
| reach_step: "dhcp_reachable s \<Longrightarrow> dhcp_step s t \<Longrightarrow> dhcp_reachable t"

definition system_inv :: "dhcp_system \<Rightarrow> bool" where
  "system_inv s \<longleftrightarrow> server_inv (server s) \<and>
     (\<forall>i < 4. \<forall>ip. pcs s i = Acquired ip \<longrightarrow> ip \<noteq> 0 \<and> routing_table (server s) ! i = ip)"

lemma dhcp_step_inv: "dhcp_step s t \<Longrightarrow> system_inv s \<Longrightarrow> system_inv t"
proof (induction rule: dhcp_step.induct)
  case (send_discover i s hwaddr offer siaddr t)
  then have "server_inv t \<and> routing_table t = routing_table (server s)"
    using discover_inv [of "server s" hwaddr offer siaddr t] by (simp add: system_inv_def discover_rpc_eq)
  with send_discover show ?case by (simp add: system_inv_def)
next
  case (send_request i s offer siaddr ip t)
  then have req: "request i offer siaddr (server s) = Inr (ip, t)" and inv: "server_inv (server s)"
    by (simp_all add: system_inv_def request_rpc_eq)
  note facts = request_inv [OF req inv] request_assigned [OF req inv] request_frame [OF req inv]
  from send_request facts show ?case by (auto simp: system_inv_def)
qed

lemma reachable_system_inv: "dhcp_reachable s \<Longrightarrow> system_inv s"
proof (induction rule: dhcp_reachable.induct)
  case reach_start
  show ?case using server_inv_start by (simp add: system_inv_def system_start_def)
next
  case (reach_step s t)
  then show ?case by (blast intro: dhcp_step_inv)
qed

text \<open>A client that is served without interruption acquires an address in one round.\<close>

lemma client_round:
  assumes "system_inv s" "i < 4" "pcs s i = Discovering"
  shows "\<exists>u ip. dhcp_step\<^sup>*\<^sup>* s u \<and> pcs u = (pcs s)(i := Acquired ip)"
proof -
  have inv: "server_inv (server s)" using assms(1) by (simp add: system_inv_def)
  from discover_offers [OF inv] obtain offer t where
    d: "discover 0 (server s) = Some (offer, my_ip, t)" "routing_table t = routing_table (server s)"
       "\<not> off_limits (routing_table (server s)) offer"
    by fastforce
  let ?s1 = "s\<lparr>server := t, pcs := (pcs s)(i := Requesting offer my_ip)\<rparr>"
  have offer: "offer \<noteq> 0" using d(3) by (auto simp: off_limits_def)
  have "server_inv t" using discover_inv [OF inv d(1)] by simp
  then have r: "request i offer my_ip t = Inr (offer, t\<lparr>routing_table := (routing_table t)[i := offer]\<rparr>)"
    using request_fresh assms(2) d offer by simp
  have "dhcp_step s ?s1"
    using assms(2,3) d(1) by (intro dhcp_step.send_discover) (simp_all add: discover_rpc_eq)
  moreover have "dhcp_step ?s1 (?s1\<lparr>server := t\<lparr>routing_table := (routing_table t)[i := offer]\<rparr>,
      pcs := (pcs ?s1)(i := if offer = 0 then Discovering else Acquired offer)\<rparr>)"
    using assms(2) r by (intro dhcp_step.send_request) (simp_all add: request_rpc_eq)
  ultimately have "dhcp_step\<^sup>*\<^sup>* s (?s1\<lparr>server := t\<lparr>routing_table := (routing_table t)[i := offer]\<rparr>,
      pcs := (pcs ?s1)(i := if offer = 0 then Discovering else Acquired offer)\<rparr>)"
    by (meson converse_rtranclp_into_rtranclp r_into_rtranclp)
  with offer show ?thesis by (intro exI conjI) auto
qed

section \<open>Properties\<close>

text \<open>
  Property C2. No two clients ever hold the same address: in every reachable state of the
  four clients and the server, whatever the interleaving of their calls, the addresses the
  clients have acquired are different from each other, from 0 and from the server's own.
\<close>

theorem dhcp_addresses_unique:
  assumes "dhcp_reachable s" "i < 4" "j < 4" "i \<noteq> j" "pcs s i = Acquired a" "pcs s j = Acquired b"
  shows "a \<noteq> b \<and> a \<noteq> 0 \<and> a \<noteq> my_ip"
proof -
  have inv: "system_inv s" using assms(1) by (rule reachable_system_inv)
  then have "routing_table (server s) ! i = a" "routing_table (server s) ! j = b" "a \<noteq> 0"
    using assms by (auto simp: system_inv_def)
  moreover have "routing_table (server s) ! i \<in> set (routing_table (server s))"
    using inv assms(2) by (simp add: system_inv_def server_inv_def)
  ultimately show ?thesis using inv assms(2-4) by (auto simp: system_inv_def server_inv_def)
qed

theorem dhcp_addresses_unique_witness:
  "\<exists>s a b. dhcp_reachable s \<and> pcs s 0 = Acquired a \<and> pcs s 1 = Acquired b \<and> a \<noteq> b \<and> a \<noteq> 0 \<and> a \<noteq> my_ip"
proof -
  have lift: "dhcp_reachable t" if "dhcp_step\<^sup>*\<^sup>* s t" "dhcp_reachable s" for s t
    using that by (induction rule: rtranclp_induct) (auto intro: dhcp_reachable.intros)
  obtain u a where u: "dhcp_step\<^sup>*\<^sup>* system_start u" "pcs u = (pcs system_start)(0 := Acquired a)"
    using client_round [of system_start 0] reachable_system_inv [OF reach_start]
    by (auto simp: system_start_def)
  have ru: "dhcp_reachable u" using lift [OF u(1) reach_start] .
  obtain v b where v: "dhcp_step\<^sup>*\<^sup>* u v" "pcs v = (pcs u)(1 := Acquired b)"
    using client_round [of u 1] reachable_system_inv [OF ru] u(2) by (auto simp: system_start_def)
  have "dhcp_reachable v" using lift [OF v(1) ru] .
  moreover have "pcs v 0 = Acquired a" "pcs v 1 = Acquired b" using u(2) v(2) by simp_all
  moreover from dhcp_addresses_unique [OF calculation(1) _ _ _ calculation(2,3)]
  have "a \<noteq> b \<and> a \<noteq> 0 \<and> a \<noteq> my_ip" by simp
  ultimately show ?thesis by blast
qed



text \<open>
  A request is answered with the address asked for exactly when it names this
  server and the address is the client's already or is free; every other request is refused
  with 0, and a refused request changes nothing.
\<close>

theorem request_answer:
  assumes "server_inv s" "client < 4" "ip \<noteq> 0"
  shows "\<exists>t. request client ip siaddr s =
      Inr (if siaddr = my_ip \<and> (routing_table s ! client = ip \<or> ip \<notin> insert my_ip (set (routing_table s)))
           then ip else 0, t) \<and>
    routing_table t = (if siaddr = my_ip \<and> ip \<notin> insert my_ip (set (routing_table s))
                       then (routing_table s)[client := ip] else routing_table s) \<and> server_inv t"
proof -
  have len: "length (routing_table s) = 4" using assms(1) by (simp add: server_inv_def)
  have own: "routing_table s ! client \<in> set (routing_table s)" using assms(2) len by simp
  obtain assigned t where r: "request client ip siaddr s = Inr (assigned, t)"
    using request_returns [OF assms(2)] by blast
  note result = r [unfolded request_by_table [OF len assms(2)]]
  from own result assms(3) show ?thesis
    using request_inv [OF r assms(1,2)] unfolding request_by_table [OF len assms(2)]
    by (auto split: if_splits)
qed

theorem request_answer_witness:
  "\<exists>t. request 2 0xc0a80105 my_ip dhcp_start = Inr (0xc0a80105, t) \<and>
     routing_table t = [0, 0, 0xc0a80105, 0] \<and> server_inv t"
proof -
  have table: "routing_table dhcp_start = [0, 0, 0, 0]"
    by (simp add: dhcp_start_def eval_nat_numeral)
  show ?thesis
    using request_answer [OF server_inv_start, of 2 "0xc0a80105" my_ip] by (simp add: table my_ip_def)
qed

text \<open>
  The buffers the callers give the two printers are large enough, terminator
  included, for every address, and the printed form of an IP address determines it.
\<close>

theorem printed_addresses_fit:
  "length (ip_to_string ip) + 1 \<le> STRLEN_IP \<and> length (mac_to_string mac) + 1 = STRLEN_MAC \<and>
   (ip_to_string ip = ip_to_string ip' \<longleftrightarrow> ip = ip')"
  using length_ip_to_string length_mac_to_string ip_to_string_inj by blast

end
