(* ===== verification/Picoserver_Events.thy ===== *)
theory Picoserver_Events
  imports Camkes_Prelude
begin

text \<open>
  The event interface of the PicoTCP server component, as its clients use it: they poll for
  events until an event reports nothing, and handle each by the bits it carries. The server is
  external; what its calls return is an argument of the models. An event is the record the
  poll returns, with one truth value per bit of its mask that the clients test, so the mask is
  non-zero when a bit is set. Each event comes with the peer that accepting a connection on
  its socket would return.
\<close>

record picoserver_event =
  num_events_left :: nat
  socket_fd :: int
  ev_conn :: bool
  ev_read :: bool
  ev_close :: bool
  ev_fin :: bool
  ev_err :: bool
  peer_result :: int
  peer_socket :: int

definition events_nonzero :: "picoserver_event \<Rightarrow> bool" where
  "events_nonzero e \<longleftrightarrow> ev_conn e \<or> ev_read e \<or> ev_close e \<or> ev_fin e \<or> ev_err e"

definition event_live :: "picoserver_event \<Rightarrow> bool" where
  "event_live e \<longleftrightarrow> num_events_left e > 0 \<or> events_nonzero e"

text \<open>
  The polling loop over the events the server returns in turn; when it has no more, the event
  it returns reports nothing and the loop ends.
\<close>

fun poll_loop ::
  "(picoserver_event \<Rightarrow> 's \<Rightarrow> 's result) \<Rightarrow> picoserver_event list \<Rightarrow> 's \<Rightarrow> 's result" where
  "poll_loop handle [] s = Inr s"
| "poll_loop handle (e # es) s =
     (if event_live e then rbind (handle e s) (poll_loop handle es) else Inr s)"

lemma poll_loop_invariant:
  assumes "poll_loop handle es s = Inr t" and "P s"
    and "\<And>e s t. e \<in> set es \<Longrightarrow> P s \<Longrightarrow> handle e s = Inr t \<Longrightarrow> P t"
  shows "P t"
  using assms
proof (induction es arbitrary: s)
  case (Cons e es)
  show ?case
  proof (cases "event_live e")
    case True
    with Cons.prems(1) obtain u where u: "handle e s = Inr u" "poll_loop handle es u = Inr t"
      by (auto simp: succeeds)
    show ?thesis by (rule Cons.IH [OF u(2)]) (use Cons.prems u(1) in auto)
  next
    case False
    with Cons.prems show ?thesis by simp
  qed
qed simp

lemma poll_loop_rfold:
  "list_all event_live es \<Longrightarrow> poll_loop handle es s = rfold handle es s"
proof (induction es arbitrary: s)
  case (Cons e es)
  then show ?case by (cases "handle e s") auto
qed simp

end
