(* ===== verification/Secdemo_Crypto.thy ===== *)
theory Secdemo_Crypto
  imports Ring_Buffer
begin

text \<open>
  \<^verbatim>\<open>apps/security_demo/include/dataport_buffer.h\<close> and
  \<^verbatim>\<open>components/Crypto/src/crypto.c\<close>: the circular buffer two components share, the cipher
  and the handler that encrypts a key and stores it. The buffer's indexes are 8-bit and wrap;
  the library's mutex, coherency and notification calls are the events the handler emits, in
  order, so that the accesses to the buffer stand between the lock and the unlock. The source
  compares \<open>char\<close> values with ASCII codes; a byte from 128 up, negative or not, is in no range.
\<close>

record dataport_buffer =
  buf_data :: bytes
  buf_head :: u8
  buf_tail :: u8

datatype shared_call = MutexLock | DataAcquire | DataRelease | MutexUnlock | NotifyEmit

definition rot_13 :: "u8 \<Rightarrow> u8" where
  "rot_13 src =
     (if (97 \<le> src \<and> src \<le> 122) \<or> (65 \<le> src \<and> src \<le> 90)
      then (if 97 + 13 \<le> src \<or> (65 + 13 \<le> src \<and> src \<le> 90) then src - 13 else src + 13)
      else src)"

text \<open>
  The two lock functions call the mutex and print an error if it fails; either way they return.
\<close>

definition circular_buffer_lock_lock :: "shared_call list" where
  "circular_buffer_lock_lock = [MutexLock]"

definition circular_buffer_lock_unlock :: "shared_call list" where
  "circular_buffer_lock_unlock = [MutexUnlock]"

definition buffer_put :: "u8 \<Rightarrow> dataport_buffer \<Rightarrow> dataport_buffer result" where
  "buffer_put c b =
     (if buf_head b + 1 = buf_tail b then Inr b
      else rbind (array_write (buf_data b) (unat (buf_head b)) c) (\<lambda>d.
        Inr (b\<lparr>buf_data := d, buf_head := buf_head b + 1\<rparr>)))"

definition clear_text_handle_character ::
  "u8 \<Rightarrow> dataport_buffer \<Rightarrow> (dataport_buffer \<times> shared_call list) result" where
  "clear_text_handle_character c b =
     (let encrypted_char = rot_13 c in
      rbind (buffer_put encrypted_char b) (\<lambda>b'.
      Inr (b', circular_buffer_lock_lock @ [DataAcquire] @ [DataRelease] @
               circular_buffer_lock_unlock @ [NotifyEmit])))"

section \<open>The cipher\<close>

definition rot_code :: "nat \<Rightarrow> nat" where
  "rot_code n =
     (if (97 \<le> n \<and> n \<le> 122) \<or> (65 \<le> n \<and> n \<le> 90)
      then (if 110 \<le> n \<or> (78 \<le> n \<and> n \<le> 90) then n - 13 else n + 13) else n)"

lemma rot_code_rot_code: "rot_code (rot_code n) = n"
  by (auto simp: rot_code_def)

lemma unat_rot_13: "unat (rot_13 c) = rot_code (unat c)"
proof -
  have "unat (c - 13) = unat c - 13" if "13 \<le> unat c"
    using that by (subst unat_sub) (simp_all add: word_le_nat_alt)
  moreover have "unat (c + 13) = unat c + 13" if "unat c \<le> 122"
    using that by (simp add: unat_word_ariths)
  ultimately show ?thesis by (simp add: rot_13_def rot_code_def word_le_nat_alt)
qed

lemma rot_13_rot_13: "rot_13 (rot_13 c) = c"
  by (simp add: word_unat_eq_iff unat_rot_13 rot_code_rot_code)

section \<open>The buffer as a bounded queue\<close>

definition buffer_inv :: "dataport_buffer \<Rightarrow> bool" where
  "buffer_inv b \<longleftrightarrow> length (buf_data b) = 256"

definition buffer_contents :: "dataport_buffer \<Rightarrow> bytes" where
  "buffer_contents b = ring_list 256 ((!) (buf_data b)) (unat (buf_head b)) (unat (buf_tail b))"

definition buffer_store :: "u8 \<Rightarrow> dataport_buffer \<Rightarrow> dataport_buffer" where
  "buffer_store c b = (case buffer_put c b of Inl _ \<Rightarrow> b | Inr b' \<Rightarrow> b')"

lemma u8_succ_eq: "(h :: u8) + 1 = t \<longleftrightarrow> (unat h + 1) mod 256 = unat t"
  by (simp add: word_unat_eq_iff unat_word_ariths)

lemma unat_u8_succ: "unat ((h :: u8) + 1) = (unat h + 1) mod 256"
  by (simp add: unat_word_ariths)

lemma buffer_put_total:
  "buffer_inv b \<Longrightarrow> buffer_put c b =
     Inr (if buf_head b + 1 = buf_tail b then b
          else b\<lparr>buf_data := (buf_data b)[unat (buf_head b) := c], buf_head := buf_head b + 1\<rparr>)"
  by (simp add: buffer_put_def buffer_inv_def)

lemma length_buffer_contents:
  "length (buffer_contents b) = ring_len 256 (unat (buf_head b)) (unat (buf_tail b))"
  by (simp add: buffer_contents_def)

lemma buffer_full_iff:
  "buf_head b + 1 = buf_tail b \<longleftrightarrow> length (buffer_contents b) = 255"
  unfolding length_buffer_contents u8_succ_eq by (subst ring_full_iff) simp_all

lemma buffer_contents_le: "length (buffer_contents b) \<le> 255"
  using ring_len_less [of "unat (buf_head b)" 256 "unat (buf_tail b)"]
  by (simp add: length_buffer_contents)

lemma buffer_contents_put:
  assumes "buffer_inv b" "buf_head b + 1 \<noteq> buf_tail b"
  shows "buffer_contents (b\<lparr>buf_data := (buf_data b)[unat (buf_head b) := c], buf_head := buf_head b + 1\<rparr>)
    = buffer_contents b @ [c]"
  using assms unfolding buffer_contents_def buffer_inv_def u8_succ_eq
  by (simp add: unat_u8_succ ring_list_push_nth [simplified])

interpretation crypto_buffer: drop_fifo buffer_inv buffer_contents buffer_store 255
proof unfold_locales
  fix b c assume inv: "buffer_inv b"
  show "buffer_inv (buffer_store c b)"
    using inv by (simp add: buffer_store_def buffer_put_total) (simp add: buffer_inv_def)
  show "length (buffer_contents b) \<le> 255" by (rule buffer_contents_le)
  show "buffer_contents (buffer_store c b) = buffer_contents b @ [c]" if "length (buffer_contents b) < 255"
    using that inv buffer_full_iff [of b] buffer_contents_put [OF inv]
    by (simp add: buffer_store_def buffer_put_total)
  show "buffer_contents (buffer_store c b) = buffer_contents b" if "length (buffer_contents b) = 255"
    using that inv buffer_full_iff [of b] by (simp add: buffer_store_def buffer_put_total)
qed

lemma handle_character_total:
  "buffer_inv b \<Longrightarrow> clear_text_handle_character c b =
     Inr (buffer_store (rot_13 c) b, [MutexLock, DataAcquire, DataRelease, MutexUnlock, NotifyEmit])"
  by (simp add: clear_text_handle_character_def buffer_store_def buffer_put_total
      circular_buffer_lock_lock_def circular_buffer_lock_unlock_def)

text \<open>The characters a key reader hands over one after the other.\<close>

fun handle_characters :: "bytes \<Rightarrow> dataport_buffer \<Rightarrow> dataport_buffer result" where
  "handle_characters [] b = Inr b"
| "handle_characters (c # cs) b =
     rbind (clear_text_handle_character c b) (\<lambda>(b', _). handle_characters cs b')"

lemma handle_characters_fold:
  "buffer_inv b \<Longrightarrow> handle_characters cs b = Inr (fold buffer_store (map rot_13 cs) b)"
  by (induction cs arbitrary: b) (auto simp: handle_character_total crypto_buffer.inv_put)

section \<open>Properties\<close>

text \<open>
  The cipher is its own inverse on every byte, so the receiver of the log or of
  the network stream decrypts it with the same routine.
\<close>

theorem rot_13_involution: "rot_13 (rot_13 c) = c"
  by (rule rot_13_rot_13)

text \<open>
  The shared buffer is a bounded queue of the encrypted characters: whatever
  characters the key reader hands over, the handler never writes outside the array, the buffer
  then holds what it held followed by the encrypted characters in order, and only those beyond
  its 255 places are discarded.
\<close>

theorem crypto_buffers_characters:
  assumes "buffer_inv b"
  shows "\<exists>b'. handle_characters cs b = Inr b' \<and> buffer_inv b' \<and>
     buffer_contents b' =
       buffer_contents b @ take (255 - length (buffer_contents b)) (map rot_13 cs)"
  using crypto_buffer.contents_put_all [OF assms, of "map rot_13 cs"]
    crypto_buffer.inv_put_all [OF assms] handle_characters_fold [OF assms]
  by auto

definition empty_buffer :: dataport_buffer where
  "empty_buffer = \<lparr>buf_data = replicate 256 0, buf_head = 250, buf_tail = 250\<rparr>"

lemma empty_buffer_contents: "buffer_inv empty_buffer" "buffer_contents empty_buffer = []"
  by (simp_all add: buffer_inv_def buffer_contents_def empty_buffer_def ring_list_def ring_len_def)

theorem crypto_buffers_characters_witness:
  "\<exists>b'. handle_characters [72, 105, 33] empty_buffer = Inr b' \<and> buffer_inv b' \<and>
     buffer_contents b' = [85, 118, 33]"
  using crypto_buffers_characters [OF empty_buffer_contents(1), of "[72, 105, 33]"]
  by (simp add: empty_buffer_contents rot_13_def)

end
