(* ===== verification/Secdemo_Transmitter.thy ===== *)
theory Secdemo_Transmitter
  imports Secdemo_Crypto Picoserver_Events
begin

text \<open>
  \<^verbatim>\<open>apps/security_demo/components/Transmitter/src/transmitter.c\<close>, which takes the encrypted
  characters from the shared buffer and sends them over Ethernet and to a log file, and
  \<^verbatim>\<open>components/KeyReader/src/key_reader.c\<close>, which feeds the cipher. The global variables
  are a record. The socket server, the U-Boot command interpreter, the clock and the
  notifications are external: what they return in one round of the main loop is an argument,
  what they are asked to do is the list of actions returned. A write of the log carries, beside
  its command, the bytes in memory the command's address and length denote.
\<close>

definition ETH_TX_BUF_LEN :: nat where "ETH_TX_BUF_LEN = 4096"

definition MMC_TX_BUF_LEN :: nat where "MMC_TX_BUF_LEN = 4096"

definition LOG_FILE_WRITE_PERIOD_US :: u64 where "LOG_FILE_WRITE_PERIOD_US = 30000000"

definition ETH_PORT :: int where "ETH_PORT = 1234"

definition LOG_FILENAME :: string where "LOG_FILENAME = ''transmitter_log.txt''"

definition LOG_FILE_DEVICE :: string where "LOG_FILE_DEVICE = ''mmc 0:2''"

record transmitter =
  eth_pending_tx_buf :: bytes
  eth_pending_length :: nat
  mmc_pending_tx_buf :: bytes
  mmc_pending_length :: nat
  eth_socket :: int
  total_bytes_written :: nat
  last_log_file_write_time :: u64

text \<open>
  The pending lengths are \<open>uint\<close>s that the code keeps at most 4096. The total is a \<open>uint\<close>
  that grows with the file: it wraps at \<open>2 ^ 32\<close>.
\<close>

datatype action =
    SendSocket int bytes
  | RunCommand string
  | RunWrite string bytes

section \<open>Starting up\<close>

definition listen_for_socket :: "int \<Rightarrow> int \<Rightarrow> int \<Rightarrow> unit result" where
  "listen_for_socket socket_in bind_ret listen_ret =
     rbind (c_assert (socket_in \<noteq> -1)) (\<lambda>_.
     rbind (c_assert (bind_ret = 0)) (\<lambda>_.
     c_assert (listen_ret = 0)))"

section \<open>Socket events\<close>

definition transmitter_event :: "picoserver_event \<Rightarrow> transmitter \<Rightarrow> transmitter result" where
  "transmitter_event e s0 =
     rbind (if ev_conn e \<and> socket_fd e \<noteq> 0
            then rbind (c_assert (peer_result e \<noteq> -1)) (\<lambda>_. Inr (s0\<lparr>eth_socket := peer_socket e\<rparr>))
            else Inr s0) (\<lambda>s1.
     let s2 = (if ev_close e then s1\<lparr>eth_socket := -1\<rparr> else s1);
         s3 = (if ev_fin e then s2\<lparr>eth_socket := -1\<rparr> else s2) in
     rbind (c_assert (\<not> ev_err e)) (\<lambda>_. Inr s3))"

definition handle_picoserver_notification ::
  "picoserver_event list \<Rightarrow> transmitter \<Rightarrow> transmitter result" where
  "handle_picoserver_notification events s = poll_loop transmitter_event events s"

section \<open>Taking characters from the shared buffer\<close>

definition store_eth :: "u8 \<Rightarrow> transmitter \<Rightarrow> transmitter result" where
  "store_eth c s =
     (if eth_pending_length s < ETH_TX_BUF_LEN
      then rbind (array_write (eth_pending_tx_buf s) (eth_pending_length s) c) (\<lambda>d.
        Inr (s\<lparr>eth_pending_tx_buf := d, eth_pending_length := eth_pending_length s + 1\<rparr>))
      else Inr s)"

definition store_mmc :: "u8 \<Rightarrow> transmitter \<Rightarrow> transmitter result" where
  "store_mmc c s =
     (if mmc_pending_length s < MMC_TX_BUF_LEN
      then rbind (array_write (mmc_pending_tx_buf s) (mmc_pending_length s) c) (\<lambda>d.
        Inr (s\<lparr>mmc_pending_tx_buf := d, mmc_pending_length := mmc_pending_length s + 1\<rparr>))
      else Inr s)"

function receive_loop ::
  "dataport_buffer \<Rightarrow> transmitter \<Rightarrow> (dataport_buffer \<times> transmitter) result" where
  "receive_loop b s =
     (if buf_head b \<noteq> buf_tail b
      then rbind (array_read (buf_data b) (unat (buf_tail b))) (\<lambda>encrypted_char.
           rbind (store_eth encrypted_char s) (\<lambda>s1.
           rbind (store_mmc encrypted_char s1) (\<lambda>s2.
           receive_loop (b\<lparr>buf_tail := buf_tail b + 1\<rparr>) s2)))
      else Inr (b, s))"
  by pat_completeness auto
termination
proof (relation "measure (\<lambda>(b, s). unat (buf_head b - buf_tail b))")
  fix b :: dataport_buffer and s x s1 s2
  assume "buf_head b \<noteq> buf_tail b"
  then have "buf_head b - buf_tail b \<noteq> 0" by simp
  then have "unat (buf_head b - buf_tail b - 1) < unat (buf_head b - buf_tail b)"
    by (metis diff_less unat_gt_0 unat_minus_one zero_less_one)
  then show "((b\<lparr>buf_tail := buf_tail b + 1\<rparr>, s2), b, s) \<in> measure (\<lambda>(b, s). unat (buf_head b - buf_tail b))"
    by (simp add: diff_diff_add)
qed simp

declare receive_loop.simps [simp del]

definition receive_data_from_crypto_component ::
  "dataport_buffer \<Rightarrow> transmitter \<Rightarrow> (dataport_buffer \<times> transmitter \<times> shared_call list) result" where
  "receive_data_from_crypto_component b s =
     rbind (receive_loop b s) (\<lambda>(b', s').
     Inr (b', s', circular_buffer_lock_lock @ [DataAcquire] @ [DataRelease] @ circular_buffer_lock_unlock))"

section \<open>Sending and logging\<close>

text \<open>
  The bytes of the send buffer that are sent, and the pending buffer cleared. What was in the
  send buffer before is overwritten in the part that is sent, so it is no argument.
\<close>

definition transmit_pending_eth_buffer :: "transmitter \<Rightarrow> transmitter \<times> action list" where
  "transmit_pending_eth_buffer s =
     (let n = eth_pending_length s; sent = strncpy_bytes n (eth_pending_tx_buf s) in
      (s\<lparr>eth_pending_tx_buf := memset0 n (eth_pending_tx_buf s), eth_pending_length := 0\<rparr>,
       [SendSocket (eth_socket s) sent]))"

definition log_command :: "u32 \<Rightarrow> nat \<Rightarrow> nat \<Rightarrow> string" where
  "log_command buf_addr pending offset =
     ''fatwrite '' @ LOG_FILE_DEVICE @ '' 0x'' @ show_hex (unat buf_addr) @ '' '' @ LOG_FILENAME @
     '' '' @ show_hex pending @ '' '' @ show_hex offset"

definition write_pending_mmc_log :: "u32 \<Rightarrow> int \<Rightarrow> transmitter \<Rightarrow> transmitter \<times> action list" where
  "write_pending_mmc_log buf_addr ret s =
     (let n = mmc_pending_length s;
          act = [RunWrite (log_command buf_addr n (total_bytes_written s)) (take n (mmc_pending_tx_buf s))] in
      if ret \<ge> 0
      then (s\<lparr>total_bytes_written := (total_bytes_written s + n) mod 2 ^ 32,
              mmc_pending_tx_buf := memset0 n (mmc_pending_tx_buf s), mmc_pending_length := 0\<rparr>, act)
      else (s, act))"

section \<open>The main loop\<close>

text \<open>What the outside answers in one round.\<close>

record round_input =
  notify_poll :: bool
  time_check :: u64
  time_stamp :: u64
  command_ret :: int
  badge_set :: bool
  socket_events :: "picoserver_event list"

definition receive_phase ::
  "round_input \<Rightarrow> dataport_buffer \<times> transmitter \<Rightarrow> (dataport_buffer \<times> transmitter \<times> bool) result" where
  "receive_phase i bs =
     (if notify_poll i
      then rbind (receive_data_from_crypto_component (fst bs) (snd bs))
             (\<lambda>(b, s, calls). Inr (b, s, False))
      else Inr (fst bs, snd bs, True))"

definition eth_phase :: "transmitter \<Rightarrow> bool \<Rightarrow> transmitter \<times> action list \<times> bool" where
  "eth_phase s idle =
     (if eth_socket s \<ge> 0 \<and> eth_pending_length s > 0
      then (fst (transmit_pending_eth_buffer s), snd (transmit_pending_eth_buffer s), False)
      else (s, [], idle))"

definition mmc_phase :: "u32 \<Rightarrow> round_input \<Rightarrow> transmitter \<Rightarrow> bool \<Rightarrow> transmitter \<times> action list \<times> bool" where
  "mmc_phase buf_addr i s idle =
     (if mmc_pending_length s > 0 \<and>
         time_check i - last_log_file_write_time s \<ge> LOG_FILE_WRITE_PERIOD_US
      then (let r = write_pending_mmc_log buf_addr (command_ret i)
                      (s\<lparr>last_log_file_write_time := time_stamp i\<rparr>) in
            (fst r, snd r, False))
      else (s, [], idle))"

definition socket_phase :: "round_input \<Rightarrow> transmitter \<Rightarrow> bool \<Rightarrow> (transmitter \<times> bool) result" where
  "socket_phase i s idle =
     (if badge_set i
      then rbind (handle_picoserver_notification (socket_events i) s) (\<lambda>s. Inr (s, False))
      else Inr (s, idle))"

definition transmitter_round ::
  "u32 \<Rightarrow> round_input \<Rightarrow> dataport_buffer \<times> transmitter \<Rightarrow>
   ((dataport_buffer \<times> transmitter) \<times> action list \<times> bool) result" where
  "transmitter_round buf_addr i bs =
     rbind (receive_phase i bs) (\<lambda>(b, s1, idle1).
     case eth_phase s1 idle1 of (s2, out1, idle2) \<Rightarrow>
     case mmc_phase buf_addr i s2 idle2 of (s3, out2, idle3) \<Rightarrow>
     rbind (socket_phase i s3 idle3) (\<lambda>(s4, idle4). Inr ((b, s4), out1 @ out2, idle4)))"

text \<open>The start of \<open>run\<close>: listen, bring the U-Boot drivers up, delete the old log.\<close>

definition transmitter_start :: transmitter where
  "transmitter_start =
     \<lparr>eth_pending_tx_buf = replicate ETH_TX_BUF_LEN 0, eth_pending_length = 0,
      mmc_pending_tx_buf = replicate ETH_TX_BUF_LEN 0, mmc_pending_length = 0,
      eth_socket = -1, total_bytes_written = 0, last_log_file_write_time = 0\<rparr>"

definition transmitter_setup ::
  "int \<Rightarrow> int \<Rightarrow> int \<Rightarrow> int \<Rightarrow> int \<Rightarrow> (transmitter \<times> action list) result" where
  "transmitter_setup socket_in bind_ret listen_ret io_error uboot_error =
     rbind (listen_for_socket socket_in bind_ret listen_ret) (\<lambda>_.
     rbind (c_assert (io_error = 0)) (\<lambda>_.
     rbind (c_assert (uboot_error = 0)) (\<lambda>_.
     Inr (transmitter_start, [RunCommand (''fatrm '' @ LOG_FILE_DEVICE @ '' '' @ LOG_FILENAME)]))))"

fun transmitter_loop ::
  "u32 \<Rightarrow> round_input list \<Rightarrow> dataport_buffer \<times> transmitter \<Rightarrow>
   ((dataport_buffer \<times> transmitter) \<times> action list) result" where
  "transmitter_loop buf_addr [] bs = Inr (bs, [])"
| "transmitter_loop buf_addr (i # is) bs =
     rbind (transmitter_round buf_addr i bs) (\<lambda>(bs', out, idle).
     rbind (transmitter_loop buf_addr is bs') (\<lambda>(bs'', rest). Inr (bs'', out @ rest)))"

section \<open>The key reader\<close>

text \<open>
  \<open>key_reader.c\<close>: each round asks whether a key is there and passes it to the cipher. A round
  with no key is \<open>None\<close>; the commands are the two the set-up runs, with their results.
\<close>

definition key_reader_setup :: "int \<Rightarrow> int \<Rightarrow> int \<Rightarrow> int \<Rightarrow> action list result" where
  "key_reader_setup io_error uboot_error stdin_ret usb_ret =
     rbind (c_assert (io_error = 0)) (\<lambda>_.
     rbind (c_assert (uboot_error = 0)) (\<lambda>_.
     rbind (c_assert (stdin_ret \<ge> 0)) (\<lambda>_.
     rbind (c_assert (usb_ret \<ge> 0)) (\<lambda>_.
     Inr [RunCommand ''setenv stdin usbkbd'', RunCommand ''usb start'']))))"

fun key_reader_loop :: "u8 option list \<Rightarrow> dataport_buffer \<Rightarrow> dataport_buffer result" where
  "key_reader_loop [] b = Inr b"
| "key_reader_loop (None # ks) b = key_reader_loop ks b"
| "key_reader_loop (Some c # ks) b =
     rbind (clear_text_handle_character c b) (\<lambda>(b', _). key_reader_loop ks b')"

section \<open>Invariant and views\<close>

definition transmitter_inv :: "transmitter \<Rightarrow> bool" where
  "transmitter_inv s \<longleftrightarrow>
     length (eth_pending_tx_buf s) = 4096 \<and> eth_pending_length s \<le> 4096 \<and>
     length (mmc_pending_tx_buf s) = 4096 \<and> mmc_pending_length s \<le> 4096 \<and>
     total_bytes_written s < 2 ^ 32"

definition eth_pending :: "transmitter \<Rightarrow> bytes" where
  "eth_pending s = take (eth_pending_length s) (eth_pending_tx_buf s)"

definition mmc_pending :: "transmitter \<Rightarrow> bytes" where
  "mmc_pending s = take (mmc_pending_length s) (mmc_pending_tx_buf s)"

definition store_both :: "u8 \<Rightarrow> transmitter \<Rightarrow> transmitter" where
  "store_both c s =
     (let s1 = (if eth_pending_length s < 4096
                then s\<lparr>eth_pending_tx_buf := (eth_pending_tx_buf s)[eth_pending_length s := c],
                       eth_pending_length := eth_pending_length s + 1\<rparr> else s) in
      if mmc_pending_length s1 < 4096
      then s1\<lparr>mmc_pending_tx_buf := (mmc_pending_tx_buf s1)[mmc_pending_length s1 := c],
              mmc_pending_length := mmc_pending_length s1 + 1\<rparr> else s1)"

lemma store_both_ok:
  "transmitter_inv s \<Longrightarrow> rbind (store_eth c s) (store_mmc c) = Inr (store_both c s)"
  by (simp add: store_eth_def store_mmc_def store_both_def transmitter_inv_def ETH_TX_BUF_LEN_def
      MMC_TX_BUF_LEN_def Let_def)

lemma transmitter_inv_store_both: "transmitter_inv s \<Longrightarrow> transmitter_inv (store_both c s)"
  by (simp add: store_both_def transmitter_inv_def Let_def)

interpretation eth_queue: drop_fifo transmitter_inv eth_pending store_both 4096
proof unfold_locales
  fix s :: transmitter and c
  assume inv: "transmitter_inv s"
  show "transmitter_inv (store_both c s)" using inv by (rule transmitter_inv_store_both)
  show "length (eth_pending s) \<le> 4096" using inv by (simp add: eth_pending_def transmitter_inv_def)
  show "eth_pending (store_both c s) = eth_pending s @ [c]" if "length (eth_pending s) < 4096"
    using that inv by (simp add: eth_pending_def transmitter_inv_def store_both_def Let_def take_Suc_update)
  show "eth_pending (store_both c s) = eth_pending s" if "length (eth_pending s) = 4096"
    using that inv by (simp add: eth_pending_def transmitter_inv_def store_both_def Let_def)
qed

interpretation mmc_queue: drop_fifo transmitter_inv mmc_pending store_both 4096
proof unfold_locales
  fix s :: transmitter and c
  assume inv: "transmitter_inv s"
  show "transmitter_inv (store_both c s)" using inv by (rule transmitter_inv_store_both)
  show "length (mmc_pending s) \<le> 4096" using inv by (simp add: mmc_pending_def transmitter_inv_def)
  show "mmc_pending (store_both c s) = mmc_pending s @ [c]" if "length (mmc_pending s) < 4096"
    using that inv by (simp add: mmc_pending_def transmitter_inv_def store_both_def Let_def take_Suc_update)
  show "mmc_pending (store_both c s) = mmc_pending s" if "length (mmc_pending s) = 4096"
    using that inv by (simp add: mmc_pending_def transmitter_inv_def store_both_def Let_def)
qed

text \<open>Reading one character of the shared buffer, as the loop does it.\<close>

definition buffer_get :: "dataport_buffer \<Rightarrow> (u8 \<times> dataport_buffer) option" where
  "buffer_get b =
     (if buf_head b = buf_tail b then None
      else Some (buf_data b ! unat (buf_tail b), b\<lparr>buf_tail := buf_tail b + 1\<rparr>))"

lemma buffer_contents_empty: "buf_head b = buf_tail b \<longleftrightarrow> buffer_contents b = []"
  unfolding buffer_contents_def by (subst ring_list_Nil_iff) (simp_all add: word_unat_eq_iff)

lemma buffer_contents_pop:
  assumes "buf_head b \<noteq> buf_tail b"
  shows "buffer_contents b = buf_data b ! unat (buf_tail b) # buffer_contents (b\<lparr>buf_tail := buf_tail b + 1\<rparr>)"
proof -
  have "unat (buf_head b) \<noteq> unat (buf_tail b)" using assms by (simp add: word_unat_eq_iff)
  from ring_list_pop [OF _ _ this, of 256 "(!) (buf_data b)"] show ?thesis
    by (simp add: buffer_contents_def unat_u8_succ)
qed

interpretation shared_buffer: drain_fifo buffer_inv buffer_contents buffer_store 255 buffer_get
proof unfold_locales
  fix b assume "buffer_inv b" "buffer_contents b = []"
  then show "buffer_get b = None" by (simp add: buffer_get_def buffer_contents_empty)
next
  fix b x xs assume b: "buffer_inv b" "buffer_contents b = x # xs"
  then have ne: "buf_head b \<noteq> buf_tail b" by (simp add: buffer_contents_empty)
  with b show "\<exists>t. buffer_get b = Some (x, t) \<and> buffer_inv t \<and> buffer_contents t = xs"
    using buffer_contents_pop [OF ne] by (simp add: buffer_get_def buffer_inv_def)
qed

lemma receive_loop_drains:
  "buffer_inv b \<Longrightarrow> transmitter_inv s \<Longrightarrow>
   receive_loop b s = Inr (b\<lparr>buf_tail := buf_head b\<rparr>, fold store_both (buffer_contents b) s)"
proof (induction b s rule: receive_loop.induct)
  case (1 b s)
  show ?case
  proof (cases "buf_head b = buf_tail b")
    case True
    then have same: "b\<lparr>buf_tail := buf_head b\<rparr> = b" by (cases b) simp
    have "receive_loop b s = Inr (b, s)" using True by (simp add: receive_loop.simps [of b s])
    moreover have "buffer_contents b = []" using True by (simp only: buffer_contents_empty)
    ultimately show ?thesis by (simp add: same)
  next
    case False
    let ?c = "buf_data b ! unat (buf_tail b)" and ?b = "b\<lparr>buf_tail := buf_tail b + 1\<rparr>"
    have read: "array_read (buf_data b) (unat (buf_tail b)) = Inr ?c"
      using "1.prems"(1) by (simp add: buffer_inv_def)
    have inv: "buffer_inv ?b" using "1.prems"(1) by (simp add: buffer_inv_def)
    obtain s1 where s1: "store_eth ?c s = Inr s1" "store_mmc ?c s1 = Inr (store_both ?c s)"
      using store_both_ok [OF "1.prems"(2), of ?c] by (auto simp: succeeds)
    have "receive_loop ?b (store_both ?c s) =
        Inr (?b\<lparr>buf_tail := buf_head ?b\<rparr>, fold store_both (buffer_contents ?b) (store_both ?c s))"
      using False inv transmitter_inv_store_both [OF "1.prems"(2)] by (intro "1.IH")
    then show ?thesis using False read s1
      by (simp add: receive_loop.simps [of b s] buffer_contents_pop [OF False])
  qed
qed

lemma receive_data_total:
  assumes "buffer_inv b" "transmitter_inv s"
  shows "\<exists>b' s'. receive_data_from_crypto_component b s =
      Inr (b', s', [MutexLock, DataAcquire, DataRelease, MutexUnlock]) \<and>
    buffer_inv b' \<and> transmitter_inv s' \<and> buffer_contents b' = [] \<and>
    eth_pending s' = eth_pending s @ take (4096 - length (eth_pending s)) (buffer_contents b) \<and>
    mmc_pending s' = mmc_pending s @ take (4096 - length (mmc_pending s)) (buffer_contents b)"
  using assms eth_queue.contents_put_all mmc_queue.contents_put_all eth_queue.inv_put_all
  by (auto simp: receive_data_from_crypto_component_def receive_loop_drains buffer_inv_def
      circular_buffer_lock_lock_def circular_buffer_lock_unlock_def simp flip: buffer_contents_empty)

section \<open>No round faults but by an assertion\<close>

lemma transmit_inv: "transmitter_inv s \<Longrightarrow> transmitter_inv (fst (transmit_pending_eth_buffer s))"
  by (simp add: transmit_pending_eth_buffer_def transmitter_inv_def Let_def length_memset0)

lemma write_log_inv: "transmitter_inv s \<Longrightarrow> transmitter_inv (fst (write_pending_mmc_log a r s))"
  by (simp add: write_pending_mmc_log_def transmitter_inv_def Let_def length_memset0)

lemma event_inv: "transmitter_event e s = Inr t \<Longrightarrow> transmitter_inv s \<Longrightarrow> transmitter_inv t"
  by (auto simp: transmitter_event_def succeeds Let_def transmitter_inv_def split: if_splits)

lemma event_fault: "transmitter_event e s = Inl f \<Longrightarrow> f = AssertionFailed"
  by (auto simp: transmitter_event_def c_assert_def rbind_def Let_def split: if_splits)

lemma poll_loop_fault:
  "poll_loop transmitter_event es s = Inl f \<Longrightarrow> f = AssertionFailed"
proof (induction es arbitrary: s)
  case (Cons e es)
  then show ?case
    by (cases "transmitter_event e s") (auto dest: event_fault split: if_splits)
qed simp

lemma receive_phase_safe:
  assumes "buffer_inv b" "transmitter_inv s"
  obtains b1 s1 idle1 where "receive_phase i (b, s) = Inr (b1, s1, idle1)" "buffer_inv b1" "transmitter_inv s1"
proof (cases "notify_poll i")
  case True
  obtain b1 s1 calls where "receive_data_from_crypto_component b s = Inr (b1, s1, calls)"
      "buffer_inv b1" "transmitter_inv s1"
    using receive_data_total [OF assms] by blast
  with True show ?thesis by (intro that [of b1 s1 False]) (simp_all add: receive_phase_def)
next
  case False
  with assms that show ?thesis by (simp add: receive_phase_def)
qed

lemma eth_phase_inv: "transmitter_inv s \<Longrightarrow> eth_phase s idle = (t, out, idle') \<Longrightarrow> transmitter_inv t"
  using transmit_inv [of s] by (auto simp: eth_phase_def split: if_splits)

lemma mmc_phase_inv: "transmitter_inv s \<Longrightarrow> mmc_phase a i s idle = (t, out, idle') \<Longrightarrow> transmitter_inv t"
  using write_log_inv [of "s\<lparr>last_log_file_write_time := time_stamp i\<rparr>" a "command_ret i"]
  by (auto simp: mmc_phase_def transmitter_inv_def Let_def split: if_splits)

lemma socket_phase_safe:
  assumes "transmitter_inv s"
  shows "(\<exists>t idle'. socket_phase i s idle = Inr (t, idle') \<and> transmitter_inv t) \<or>
    socket_phase i s idle = Inl AssertionFailed"
proof (cases "handle_picoserver_notification (socket_events i) s")
  case (Inl f)
  then show ?thesis using assms
    by (auto simp: socket_phase_def handle_picoserver_notification_def dest: poll_loop_fault)
next
  case (Inr t)
  then have "transmitter_inv t"
    unfolding handle_picoserver_notification_def
    by (rule poll_loop_invariant [where P = transmitter_inv]) (auto intro: assms event_inv)
  with Inr assms show ?thesis by (cases "badge_set i") (auto simp: socket_phase_def)
qed

lemma round_safe:
  assumes "buffer_inv b" "transmitter_inv s"
  shows "(\<exists>b' s' out idle. transmitter_round a i (b, s) = Inr ((b', s'), out, idle) \<and> buffer_inv b' \<and> transmitter_inv s') \<or>
    transmitter_round a i (b, s) = Inl AssertionFailed"
proof -
  obtain b1 s1 idle1 where r: "receive_phase i (b, s) = Inr (b1, s1, idle1)" "buffer_inv b1" "transmitter_inv s1"
    using receive_phase_safe [OF assms] .
  obtain s2 out1 idle2 where e: "eth_phase s1 idle1 = (s2, out1, idle2)" by (metis prod_cases3)
  obtain s3 out2 idle3 where m: "mmc_phase a i s2 idle2 = (s3, out2, idle3)" by (metis prod_cases3)
  have "transmitter_inv s3" using mmc_phase_inv [OF eth_phase_inv [OF r(3) e] m] .
  from socket_phase_safe [OF this, of i idle3] show ?thesis
    using r(1,2) e m by (auto simp: transmitter_round_def)
qed

lemma loop_safe:
  "buffer_inv (fst bs) \<Longrightarrow> transmitter_inv (snd bs) \<Longrightarrow>
   (\<exists>bs' out. transmitter_loop a is bs = Inr (bs', out) \<and> buffer_inv (fst bs') \<and> transmitter_inv (snd bs')) \<or>
    transmitter_loop a is bs = Inl AssertionFailed"
proof (induction "is" arbitrary: bs)
  case (Cons i "is")
  obtain b s where bs: "bs = (b, s)" by (cases bs)
  have "(\<exists>b' s' out idle. transmitter_round a i (b, s) = Inr ((b', s'), out, idle) \<and> buffer_inv b' \<and> transmitter_inv s') \<or>
    transmitter_round a i (b, s) = Inl AssertionFailed"
    using Cons.prems by (intro round_safe) (simp_all add: bs)
  then show ?case
  proof (elim disjE)
    assume "\<exists>b' s' out idle. transmitter_round a i (b, s) = Inr ((b', s'), out, idle) \<and> buffer_inv b' \<and> transmitter_inv s'"
    then obtain b' s' out idle where step: "transmitter_round a i (b, s) = Inr ((b', s'), out, idle)"
        "buffer_inv b'" "transmitter_inv s'" by blast
    with Cons.IH [of "(b', s')"] bs show ?thesis by auto
  qed (simp add: bs)
qed simp

section \<open>Properties\<close>


lemma transmitter_start_inv: "transmitter_inv transmitter_start" "eth_pending transmitter_start = []"
    "mmc_pending transmitter_start = []"
  by (simp_all add: transmitter_inv_def eth_pending_def mmc_pending_def transmitter_start_def ETH_TX_BUF_LEN_def)



definition error_round :: round_input where
  "error_round = \<lparr>notify_poll = False, time_check = 0, time_stamp = 0, command_ret = 0, badge_set = True,
     socket_events = [\<lparr>num_events_left = 1, socket_fd = 3, ev_conn = False, ev_read = False, ev_close = False,
       ev_fin = False, ev_err = True, peer_result = 0, peer_socket = 0\<rparr>]\<rparr>"


text \<open>
  The command buffer of 64 bytes holds every write command the log can need: with
  a pending length within its buffer and any 32-bit address and file offset, the formatted
  command and its terminator fit.
\<close>

theorem log_command_fits:
  assumes "pending \<le> MMC_TX_BUF_LEN" "offset < 2 ^ 32"
  shows "length (log_command addr pending offset) + 1 \<le> 64"
proof -
  have "length (show_hex (unat addr)) \<le> 8" "length (show_hex offset) \<le> 8"
    using assms(2) by (auto intro: length_show_hex_bound [where k = 7, simplified])
  moreover have "length (show_hex pending) \<le> 4"
    using assms(1) by (intro length_show_hex_bound [where k = 3, simplified]) (simp add: MMC_TX_BUF_LEN_def)
  ultimately show ?thesis by (simp add: log_command_def LOG_FILE_DEVICE_def LOG_FILENAME_def)
qed

theorem log_command_fits_witness: "length (log_command 0x80001000 4096 0xffffffff) + 1 \<le> 64"
  by (rule log_command_fits) (simp_all add: MMC_TX_BUF_LEN_def)

text \<open>
  Logging loses nothing: a write puts the pending characters at the end of the
  file as the running total gives it; when the command succeeds the total grows by their number
  and nothing stays pending, when it fails the total and the pending characters are kept for
  the next attempt. Sending takes the pending characters as they are when none of them is
  null, and leaves none pending.
\<close>

theorem outputs_account_for_pending:
  assumes "transmitter_inv s" "0 \<notin> set (eth_pending s)"
  shows "snd (transmit_pending_eth_buffer s) = [SendSocket (eth_socket s) (eth_pending s)] \<and>
    eth_pending (fst (transmit_pending_eth_buffer s)) = [] \<and>
    mmc_pending (fst (transmit_pending_eth_buffer s)) = mmc_pending s \<and>
    snd (write_pending_mmc_log a ret s) =
      [RunWrite (log_command a (length (mmc_pending s)) (total_bytes_written s)) (mmc_pending s)] \<and>
    eth_pending (fst (write_pending_mmc_log a ret s)) = eth_pending s \<and>
    mmc_pending (fst (write_pending_mmc_log a ret s)) = (if ret \<ge> 0 then [] else mmc_pending s) \<and>
    total_bytes_written (fst (write_pending_mmc_log a ret s)) =
      (if ret \<ge> 0 then (total_bytes_written s + length (mmc_pending s)) mod 2 ^ 32
       else total_bytes_written s)"
  using assms strncpy_bytes_no_null [of "eth_pending_length s" "eth_pending_tx_buf s"]
  by (auto simp: transmit_pending_eth_buffer_def write_pending_mmc_log_def eth_pending_def mmc_pending_def
      transmitter_inv_def Let_def min_def)

theorem outputs_account_for_pending_witness:
  "total_bytes_written (fst (write_pending_mmc_log 0 1 (fold store_both [1, 2] transmitter_start))) = 2"
proof -
  let ?s = "fold store_both [1, 2] transmitter_start"
  have inv: "transmitter_inv ?s" by (intro eth_queue.inv_put_all transmitter_start_inv)
  have e: "eth_pending ?s = [1, 2]" "mmc_pending ?s = [1, 2]"
    using eth_queue.put_all_fits [OF transmitter_start_inv(1), of "[1, 2]"]
      mmc_queue.put_all_fits [OF transmitter_start_inv(1), of "[1, 2]"] transmitter_start_inv
    by (simp_all del: fold_simps)
  have "total_bytes_written ?s = 0" by (simp add: store_both_def transmitter_start_def Let_def)
  with outputs_account_for_pending [OF inv, of 0 1] e show ?thesis by (simp del: fold_simps)
qed

end
