(* ===== verification/Uboot_Ethdriver.thy ===== *)
theory Uboot_Ethdriver
  imports Ring_Buffer
begin

text \<open>
  \<^verbatim>\<open>apps/security_demo/components/EthDriverUboot/src/eth_driver_uboot.c\<close>: the Ethernet
  server that shares one network card between several clients. A frame is a byte list. The
  U-Boot driver is external: what its successive receive calls return is a list argument (a
  call that reports no frame is \<open>[]\<close>, and so is every call after the list), and the rest of
  the list after the calls is returned. The calls the server makes to the driver and to its
  clients are returned as a list. A data port is its bytes.
\<close>

definition ETHIF_TX_FAILED :: int where "ETHIF_TX_FAILED = -1"

definition ETHIF_TX_COMPLETE :: int where "ETHIF_TX_COMPLETE = 1"

definition CLIENT_RX_BUFS :: nat where "CLIENT_RX_BUFS = 128"

definition BUF_SIZE :: nat where "BUF_SIZE = 2048"

record rx_frame =
  frame_buf :: bytes
  frame_len :: nat

record client_t =
  pending_rx_head :: nat
  pending_rx_tail :: nat
  pending_rx :: "rx_frame list"
  mac :: bytes
  client_id :: nat
  dataport :: bytes

record eth_server =
  clients :: "client_t list"
  done_init :: bool

datatype eth_call = FreePacket | ClientEmit nat | UbootSend bytes

section \<open>The frame's destination\<close>

text \<open>The index of the first client with the destination address, as \<open>detect_client\<close> searches it.\<close>

fun find_client :: "nat \<Rightarrow> client_t list \<Rightarrow> bytes \<Rightarrow> nat option" where
  "find_client i [] buf = None"
| "find_client i (c # cs) buf = (if take 6 (mac c) = take 6 buf then Some i else find_client (Suc i) cs buf)"

definition detect_client :: "client_t list \<Rightarrow> bytes \<Rightarrow> nat option" where
  "detect_client cs buf = (if length buf < 6 then None else find_client 0 cs buf)"

definition is_broadcast :: "bytes \<Rightarrow> bool" where
  "is_broadcast buf =
     (if length buf < 6 then False
      else take 6 buf = [0xff, 0xff, 0xff, 0xff, 0xff, 0xff])"

text \<open>The four bytes of the address land in a word of a little-endian machine.\<close>

definition le32 :: "u8 \<Rightarrow> u8 \<Rightarrow> u8 \<Rightarrow> u8 \<Rightarrow> u32" where
  "le32 b0 b1 b2 b3 =
     ucast b0 OR push_bit 8 (ucast b1) OR push_bit 16 (ucast b2) OR push_bit 24 (ucast b3)"

definition is_multicast :: "bytes \<Rightarrow> bool" where
  "is_multicast buf =
     (let eth_header_len = 14; ip_hdr_dest_offset = 16; d = eth_header_len + ip_hdr_dest_offset in
      if length buf < d + 4 then False
      else le32 (buf ! d) (buf ! (d + 1)) (buf ! (d + 2)) (buf ! (d + 3)) AND 0xf0 = 0xe0)"

section \<open>Receiving\<close>

definition put_frame :: "bytes \<Rightarrow> client_t \<Rightarrow> client_t result" where
  "put_frame packet c =
     (if (pending_rx_head c + 1) mod CLIENT_RX_BUFS \<noteq> pending_rx_tail c
      then rbind (array_read (pending_rx c) (pending_rx_head c)) (\<lambda>f.
           rbind (c_memcpy (frame_buf f) packet) (\<lambda>b.
           rbind (array_write (pending_rx c) (pending_rx_head c)
                    \<lparr>frame_buf = b, frame_len = length packet\<rparr>) (\<lambda>q.
           Inr (c\<lparr>pending_rx := q, pending_rx_head := (pending_rx_head c + 1) mod CLIENT_RX_BUFS\<rparr>))))
      else Inr c)"

definition dispatch_frame :: "bytes \<Rightarrow> client_t list \<Rightarrow> client_t list result" where
  "dispatch_frame packet cs =
     (case detect_client cs packet of
        None \<Rightarrow> if is_broadcast packet \<or> is_multicast packet then rmap (put_frame packet) cs else Inr cs
      | Some i \<Rightarrow> rbind (array_read cs i) (\<lambda>c. rbind (put_frame packet c) (\<lambda>c'. array_write cs i c')))"

fun receive_frames ::
  "bytes list \<Rightarrow> client_t list \<Rightarrow> (client_t list \<times> bytes list \<times> eth_call list) result" where
  "receive_frames [] cs = Inr (cs, [], [])"
| "receive_frames (p # ps) cs =
     (if p = [] then Inr (cs, ps, [])
      else if length p > BUF_SIZE then Inr (cs, ps, [FreePacket])
      else rbind (dispatch_frame p cs) (\<lambda>cs'.
           rbind (receive_frames ps cs') (\<lambda>(cs'', rest, calls).
           Inr (cs'', rest, FreePacket # calls))))"

text \<open>The client whose badge the caller has: the last one the loop finds.\<close>

fun sender_from :: "nat \<Rightarrow> client_t list \<Rightarrow> nat \<Rightarrow> nat option \<Rightarrow> nat option" where
  "sender_from i [] badge found = found"
| "sender_from i (c # cs) badge found =
     sender_from (Suc i) cs badge (if client_id c = badge then Some i else found)"

definition sender_client :: "client_t list \<Rightarrow> nat \<Rightarrow> nat result" where
  "sender_client cs badge =
     (case sender_from 0 cs badge None of None \<Rightarrow> Inl AssertionFailed | Some i \<Rightarrow> Inr i)"

definition next_frame :: "client_t \<Rightarrow> (client_t \<times> int \<times> nat \<times> eth_call list) result" where
  "next_frame c =
     (if pending_rx_head c = pending_rx_tail c then Inr (c, -1, 0, [ClientEmit (client_id c)])
      else rbind (array_read (pending_rx c) (pending_rx_tail c)) (\<lambda>rx.
           rbind (c_bytes (frame_buf rx) (frame_len rx)) (\<lambda>frame.
           rbind (c_memcpy (dataport c) frame) (\<lambda>d.
           let c' = c\<lparr>dataport := d, pending_rx_tail := (pending_rx_tail c + 1) mod CLIENT_RX_BUFS\<rparr> in
           if pending_rx_tail c' = pending_rx_head c'
           then Inr (c', 0, frame_len rx, [ClientEmit (client_id c)])
           else Inr (c', 1, frame_len rx, [])))))"

record rx_answer =
  rx_ret :: int
  rx_len :: nat
  rx_server :: eth_server
  rx_rest :: "bytes list"
  rx_calls :: "eth_call list"

definition client_rx :: "bytes list \<Rightarrow> nat \<Rightarrow> eth_server \<Rightarrow> rx_answer result" where
  "client_rx frames badge s =
     (if \<not> done_init s
      then Inr \<lparr>rx_ret = -1, rx_len = 0, rx_server = s, rx_rest = frames, rx_calls = []\<rparr>
      else rbind (receive_frames frames (clients s)) (\<lambda>(cs, rest, calls).
           rbind (sender_client cs badge) (\<lambda>i.
           rbind (array_read cs i) (\<lambda>c.
           rbind (next_frame c) (\<lambda>(c', ret, len, emits).
           rbind (array_write cs i c') (\<lambda>cs'.
           Inr \<lparr>rx_ret = ret, rx_len = len, rx_server = s\<lparr>clients := cs'\<rparr>, rx_rest = rest,
                rx_calls = calls @ emits\<rparr>))))))"

section \<open>Transmitting, the address and the start\<close>

definition client_tx :: "int \<Rightarrow> int \<Rightarrow> nat \<Rightarrow> eth_server \<Rightarrow> (int \<times> eth_call list) result" where
  "client_tx send_ret len0 badge s =
     (if \<not> done_init s then Inr (-1, [])
      else let len = (if len0 > int BUF_SIZE then int BUF_SIZE else len0) in
        if len < 12 then Inr (-1, [])
        else rbind (sender_client (clients s) badge) (\<lambda>i.
             rbind (array_read (clients s) i) (\<lambda>c.
             rbind (c_bytes (dataport c) (nat len)) (\<lambda>frame.
             Inr (if 0 \<noteq> send_ret then ETHIF_TX_FAILED else ETHIF_TX_COMPLETE, [UbootSend frame])))))"

definition client_mac :: "nat \<Rightarrow> eth_server \<Rightarrow> bytes result" where
  "client_mac badge s =
     rbind (sender_client (clients s) badge) (\<lambda>i.
     rbind (c_assert (done_init s)) (\<lambda>_.
     rbind (array_read (clients s) i) (\<lambda>c.
     rmap (array_read (mac c)) [0, 1, 2, 3, 4, 5])))"

text \<open>
  \<open>server_init\<close>: the badges the connector template enumerates, the data port of each and
  the addresses configured for some of them are arguments, as are the results of the driver's
  start and its hardware address.
\<close>

definition new_client :: "(nat \<Rightarrow> bytes) \<Rightarrow> nat \<Rightarrow> client_t" where
  "new_client client_buf badge =
     \<lparr>pending_rx_head = 0, pending_rx_tail = 0,
      pending_rx = replicate CLIENT_RX_BUFS \<lparr>frame_buf = replicate BUF_SIZE 0, frame_len = 0\<rparr>,
      mac = replicate 6 0, client_id = badge, dataport = client_buf badge\<rparr>"

fun assign_macs ::
  "(nat \<Rightarrow> bytes option) \<Rightarrow> bytes \<Rightarrow> nat \<Rightarrow> client_t list \<Rightarrow> client_t list result" where
  "assign_macs get_mac hw_mac num_defaults [] = Inr []"
| "assign_macs get_mac hw_mac num_defaults (c # cs) =
     (case get_mac (client_id c) of
        Some m \<Rightarrow> rbind (assign_macs get_mac hw_mac num_defaults cs) (\<lambda>cs'. Inr (c\<lparr>mac := m\<rparr> # cs'))
      | None \<Rightarrow>
          if num_defaults + 1 > 1 then Inl FatalLog
          else rbind (assign_macs get_mac hw_mac (num_defaults + 1) cs) (\<lambda>cs'. Inr (c\<lparr>mac := hw_mac\<rparr> # cs')))"

definition server_init ::
  "int \<Rightarrow> int \<Rightarrow> nat list \<Rightarrow> (nat \<Rightarrow> bytes) \<Rightarrow> (nat \<Rightarrow> bytes option) \<Rightarrow> bytes \<Rightarrow>
   (eth_server \<times> eth_call list) result" where
  "server_init drivers_err eth_err badges client_buf get_mac hw_mac =
     (if drivers_err \<noteq> 0 then Inl FatalLog
      else if eth_err \<noteq> 0 then Inl FatalLog
      else rbind (assign_macs get_mac hw_mac 0 (map (new_client client_buf) badges)) (\<lambda>cs.
           Inr (\<lparr>clients = cs, done_init = True\<rparr>, map ClientEmit badges)))"

section \<open>A client's queue\<close>

definition client_inv :: "client_t \<Rightarrow> bool" where
  "client_inv c \<longleftrightarrow>
     pending_rx_head c < 128 \<and> pending_rx_tail c < 128 \<and> length (pending_rx c) = 128"

definition client_ok :: "client_t \<Rightarrow> bool" where
  "client_ok c \<longleftrightarrow>
     client_inv c \<and> length (mac c) = 6 \<and> 2048 \<le> length (dataport c) \<and>
     list_all (\<lambda>f. length (frame_buf f) = 2048 \<and> frame_len f \<le> 2048) (pending_rx c)"

definition frame_bytes :: "rx_frame \<Rightarrow> bytes" where
  "frame_bytes f = take (frame_len f) (frame_buf f)"

definition client_frames :: "client_t \<Rightarrow> bytes list" where
  "client_frames c =
     map frame_bytes (ring_list 128 ((!) (pending_rx c)) (pending_rx_head c) (pending_rx_tail c))"

text \<open>The effects of \<open>put_frame\<close> and \<open>next_frame\<close> where no access faults.\<close>

definition store_frame :: "bytes \<Rightarrow> client_t \<Rightarrow> client_t" where
  "store_frame p c =
     (if (pending_rx_head c + 1) mod 128 = pending_rx_tail c then c
      else c\<lparr>pending_rx := (pending_rx c)[pending_rx_head c :=
               \<lparr>frame_buf = overwrite (frame_buf (pending_rx c ! pending_rx_head c)) p, frame_len = length p\<rparr>],
             pending_rx_head := (pending_rx_head c + 1) mod 128\<rparr>)"

definition take_frame :: "client_t \<Rightarrow> (bytes \<times> client_t) option" where
  "take_frame c =
     (if pending_rx_head c = pending_rx_tail c then None
      else let f = frame_bytes (pending_rx c ! pending_rx_tail c) in
        Some (f, c\<lparr>dataport := overwrite (dataport c) f, pending_rx_tail := (pending_rx_tail c + 1) mod 128\<rparr>))"

lemma frame_bytes_stored [simp]: "frame_bytes \<lparr>frame_buf = overwrite b p, frame_len = length p\<rparr> = p"
  by (simp add: frame_bytes_def take_overwrite)

lemma client_frames_empty: "client_inv c \<Longrightarrow> client_frames c = [] \<longleftrightarrow> pending_rx_head c = pending_rx_tail c"
  by (simp add: client_frames_def client_inv_def ring_list_Nil_iff)

lemma client_frames_full:
  "client_inv c \<Longrightarrow> (pending_rx_head c + 1) mod 128 = pending_rx_tail c \<longleftrightarrow> length (client_frames c) = 127"
  using ring_full_iff [of "pending_rx_head c" 128 "pending_rx_tail c"]
  by (simp add: client_frames_def client_inv_def)

lemma client_frames_bound: "client_inv c \<Longrightarrow> length (client_frames c) \<le> 127"
  using ring_len_less [of "pending_rx_head c" 128 "pending_rx_tail c"]
  by (simp add: client_frames_def client_inv_def)

interpretation client_queue: drain_fifo client_inv client_frames store_frame 127 take_frame
proof unfold_locales
  fix c :: client_t and p
  assume inv: "client_inv c"
  show "client_inv (store_frame p c)" using inv by (simp add: client_inv_def store_frame_def)
  show "length (client_frames c) \<le> 127" using inv by (rule client_frames_bound)
  show "client_frames (store_frame p c) = client_frames c @ [p]" if "length (client_frames c) < 127"
  proof -
    have "(pending_rx_head c + 1) mod 128 \<noteq> pending_rx_tail c"
      using that client_frames_full [OF inv] by simp
    with inv show ?thesis
      using ring_list_push_nth [of "pending_rx c" 128 "pending_rx_head c" "pending_rx_tail c"]
      by (simp add: client_frames_def store_frame_def client_inv_def)
  qed
  show "client_frames (store_frame p c) = client_frames c" if "length (client_frames c) = 127"
    using that client_frames_full [OF inv] by (simp add: store_frame_def)
next
  fix c assume "client_inv c" "client_frames c = []"
  then show "take_frame c = None" by (simp add: client_frames_empty take_frame_def)
next
  fix c f fs assume c: "client_inv c" "client_frames c = f # fs"
  then have ne: "pending_rx_head c \<noteq> pending_rx_tail c" using client_frames_empty [of c] by simp
  with c show "\<exists>t. take_frame c = Some (f, t) \<and> client_inv t \<and> client_frames t = fs"
    using ring_list_pop [of "pending_rx_head c" 128 "pending_rx_tail c" "(!) (pending_rx c)"]
    by (simp add: take_frame_def client_frames_def client_inv_def Let_def)
qed

lemma client_ok_nth:
  "client_ok c \<Longrightarrow> i < 128 \<Longrightarrow>
   length (frame_buf (pending_rx c ! i)) = 2048 \<and> frame_len (pending_rx c ! i) \<le> 2048"
  by (simp add: client_ok_def client_inv_def list_all_length)

lemma put_frame_ok:
  assumes "client_ok c" "length p \<le> 2048"
  shows "put_frame p c = Inr (store_frame p c)"
  using assms client_ok_nth [OF assms(1), of "pending_rx_head c"]
  by (simp add: put_frame_def store_frame_def CLIENT_RX_BUFS_def client_ok_def client_inv_def)

lemma store_frame_ok:
  assumes "client_ok c" "length p \<le> 2048"
  shows "client_ok (store_frame p c)"
proof -
  have "client_inv (store_frame p c)"
    using assms(1) by (intro client_queue.inv_put) (simp add: client_ok_def)
  then show ?thesis
    using assms client_ok_nth [OF assms(1), of "pending_rx_head c"]
    by (auto simp: client_ok_def store_frame_def client_inv_def length_overwrite intro!: list_all_update)
qed

lemma store_frame_other [simp]:
  "mac (store_frame p c) = mac c" "client_id (store_frame p c) = client_id c"
  "dataport (store_frame p c) = dataport c"
  by (simp_all add: store_frame_def)

lemma next_frame_empty:
  "client_inv c \<Longrightarrow> client_frames c = [] \<Longrightarrow> next_frame c = Inr (c, -1, 0, [ClientEmit (client_id c)])"
  by (simp add: next_frame_def client_frames_empty)

lemma next_frame_some:
  assumes ok: "client_ok c" and fr: "client_frames c = f # fs"
  shows "\<exists>c'. next_frame c = Inr (c', (if fs = [] then 0 else 1), length f,
             if fs = [] then [ClientEmit (client_id c)] else []) \<and>
     client_ok c' \<and> client_frames c' = fs \<and> mac c' = mac c \<and> client_id c' = client_id c \<and>
     dataport c' = overwrite (dataport c) f"
proof -
  have inv: "client_inv c" using ok by (simp add: client_ok_def)
  have ne: "pending_rx_head c \<noteq> pending_rx_tail c" using client_frames_empty [OF inv] fr by simp
  obtain c' where t: "take_frame c = Some (f, c')" "client_inv c'" "client_frames c' = fs"
    using client_queue.get_head [OF inv fr] by blast
  have nth: "length (frame_buf (pending_rx c ! pending_rx_tail c)) = 2048"
      "frame_len (pending_rx c ! pending_rx_tail c) \<le> 2048"
    using client_ok_nth [OF ok, of "pending_rx_tail c"] inv by (auto simp: client_inv_def)
  have c': "f = frame_bytes (pending_rx c ! pending_rx_tail c)"
      "c' = c\<lparr>dataport := overwrite (dataport c) f, pending_rx_tail := (pending_rx_tail c + 1) mod 128\<rparr>"
    using t(1) ne by (auto simp: take_frame_def Let_def)
  have len: "length f = frame_len (pending_rx c ! pending_rx_tail c)"
    using nth c'(1) by (simp add: frame_bytes_def)
  have last: "pending_rx_tail c' = pending_rx_head c' \<longleftrightarrow> fs = []"
    using client_frames_empty [OF t(2)] t(3) by auto
  have "client_ok c'" using ok t(2) nth len by (auto simp: client_ok_def c'(2) length_overwrite)
  moreover have "next_frame c = Inr (c', (if fs = [] then 0 else 1), length f,
             if fs = [] then [ClientEmit (client_id c)] else [])"
    using ne inv ok nth len last
    by (simp add: next_frame_def client_inv_def client_ok_def CLIENT_RX_BUFS_def c' frame_bytes_def Let_def)
  ultimately show ?thesis using t(3) by (simp add: c'(2))
qed

section \<open>What the server promises, on queues of frames\<close>

text \<open>
  Frame \<open>p\<close> is for client \<open>i\<close> when \<open>i\<close> is the first client with its destination address,
  or when no client has it and the frame is broadcast or multicast. A queue keeps 127 frames
  and drops what does not fit.
\<close>

definition for_client :: "bytes list \<Rightarrow> bytes \<Rightarrow> nat \<Rightarrow> bool" where
  "for_client macs p i =
     (if 6 \<le> length p \<and> take 6 p \<in> set macs
      then macs ! i = take 6 p \<and> take 6 p \<notin> set (take i macs)
      else is_broadcast p \<or> is_multicast p)"

definition enqueue :: "bytes \<Rightarrow> bytes list \<Rightarrow> bytes list" where
  "enqueue p q = take 127 (q @ [p])"

definition deliver :: "bytes list \<Rightarrow> bytes \<Rightarrow> bytes list list \<Rightarrow> bytes list list" where
  "deliver macs p qs =
     map (\<lambda>i. if for_client macs p i then enqueue p (qs ! i) else qs ! i) [0..<length qs]"

fun spec_receive :: "bytes list \<Rightarrow> bytes list \<Rightarrow> bytes list list \<Rightarrow> bytes list list \<times> bytes list" where
  "spec_receive macs [] qs = (qs, [])"
| "spec_receive macs (p # ps) qs =
     (if p = [] \<or> length p > 2048 then (qs, ps) else spec_receive macs ps (deliver macs p qs))"

definition abs_macs :: "client_t list \<Rightarrow> bytes list" where
  "abs_macs cs = map mac cs"

definition queues :: "client_t list \<Rightarrow> bytes list list" where
  "queues cs = map client_frames cs"

lemma length_deliver [simp]: "length (deliver macs p qs) = length qs"
  by (simp add: deliver_def)

lemma find_client_None:
  "list_all client_ok cs \<Longrightarrow> find_client k cs p = None \<longleftrightarrow> take 6 p \<notin> set (abs_macs cs)"
  by (induction cs arbitrary: k) (auto simp: abs_macs_def client_ok_def)

lemma find_client_Some:
  "list_all client_ok cs \<Longrightarrow> find_client k cs p = Some j \<Longrightarrow>
   \<exists>i. j = k + i \<and> i < length cs \<and> mac (cs ! i) = take 6 p \<and> take 6 p \<notin> set (take i (abs_macs cs))"
proof (induction cs arbitrary: k)
  case (Cons c cs)
  show ?case
  proof (cases "mac c = take 6 p")
    case True
    with Cons.prems show ?thesis by (intro exI [of _ 0]) (simp add: client_ok_def)
  next
    case False
    with Cons.prems have "find_client (Suc k) cs p = Some j" by (simp add: client_ok_def)
    with Cons.IH [of "Suc k"] Cons.prems(1) obtain i where
      "j = Suc k + i" "i < length cs" "mac (cs ! i) = take 6 p" "take 6 p \<notin> set (take i (abs_macs cs))" by auto
    with False show ?thesis by (intro exI [of _ "Suc i"]) (auto simp: abs_macs_def)
  qed
qed simp

lemma store_frame_enqueue:
  assumes "client_ok c"
  shows "client_frames (store_frame p c) = enqueue p (client_frames c)"
proof -
  have inv: "client_inv c" using assms by (simp add: client_ok_def)
  show ?thesis
    using client_queue.contents_put [OF inv, of p] client_frames_bound [OF inv] by (simp add: enqueue_def)
qed

text \<open>One frame: the code's delivery is the specification's.\<close>

lemma for_client_unique:
  assumes "6 \<le> length p" "i < length macs" "macs ! i = take 6 p" "take 6 p \<notin> set (take i macs)" "j < length macs"
  shows "for_client macs p j \<longleftrightarrow> j = i"
proof -
  have mem: "take 6 p \<in> set macs" using assms(2,3) nth_mem by metis
  have "take 6 p \<in> set (take i macs)" if "j < i" "macs ! j = take 6 p"
    using that assms(2) by (metis in_set_conv_nth length_take min.absorb4 nth_take)
  moreover have "take 6 p \<in> set (take j macs)" if "i < j"
    using that assms(3,5) by (metis in_set_conv_nth length_take min.absorb4 nth_take)
  ultimately show ?thesis using assms mem by (auto simp: for_client_def) (metis linorder_neqE_nat)
qed

lemma dispatch_frame_refines:
  assumes ok: "list_all client_ok cs" and p: "length p \<le> 2048"
  shows "\<exists>cs'. dispatch_frame p cs = Inr cs' \<and> list_all client_ok cs' \<and> abs_macs cs' = abs_macs cs \<and>
    map client_id cs' = map client_id cs \<and> queues cs' = deliver (abs_macs cs) p (queues cs)"
proof (cases "detect_client cs p")
  case None
  then have none: "\<not> (6 \<le> length p \<and> take 6 p \<in> set (abs_macs cs))"
    using find_client_None [OF ok, of 0 p] by (auto simp: detect_client_def split: if_splits)
  show ?thesis
  proof (cases "is_broadcast p \<or> is_multicast p")
    case True
    have "rmap (put_frame p) cs = Inr (map (store_frame p) cs)"
      using ok p by (intro rmap_total put_frame_ok) (auto simp: list_all_iff)
    with None True none ok p show ?thesis
      by (auto simp: dispatch_frame_def list_all_iff store_frame_ok abs_macs_def queues_def deliver_def
          for_client_def store_frame_enqueue intro!: nth_equalityI)
  next
    case False
    with None none show ?thesis using ok
      by (auto simp: dispatch_frame_def deliver_def for_client_def intro!: nth_equalityI)
  qed
next
  case (Some j)
  then have len: "6 \<le> length p" and "find_client 0 cs p = Some j"
    by (auto simp: detect_client_def split: if_splits)
  with find_client_Some [OF ok, of 0 p j] have j: "j < length cs" "mac (cs ! j) = take 6 p"
      "take 6 p \<notin> set (take j (abs_macs cs))" by auto
  have okj: "client_ok (cs ! j)" using ok j(1) by (simp add: list_all_length)
  have uniq: "for_client (abs_macs cs) p i \<longleftrightarrow> i = j" if "i < length cs" for i
    using for_client_unique [OF len, of j "abs_macs cs" i] j that by (simp add: abs_macs_def)
  let ?cs = "cs[j := store_frame p (cs ! j)]"
  have "dispatch_frame p cs = Inr ?cs"
    using Some j(1) put_frame_ok [OF okj p] by (simp add: dispatch_frame_def)
  moreover have "list_all client_ok ?cs" using ok store_frame_ok [OF okj p] by (rule list_all_update)
  moreover have "abs_macs ?cs = abs_macs cs" "map client_id ?cs = map client_id cs"
    using j(1) by (auto simp: abs_macs_def nth_list_update intro!: nth_equalityI)
  moreover have "queues ?cs = deliver (abs_macs cs) p (queues cs)"
    using j(1) uniq store_frame_enqueue [OF okj]
    by (auto simp: queues_def deliver_def nth_list_update intro!: nth_equalityI)
  ultimately show ?thesis by blast
qed

lemma receive_frames_refines:
  "list_all client_ok cs \<Longrightarrow>
   \<exists>cs' calls. receive_frames ps cs = Inr (cs', snd (spec_receive (abs_macs cs) ps (queues cs)), calls) \<and>
     list_all client_ok cs' \<and> abs_macs cs' = abs_macs cs \<and> map client_id cs' = map client_id cs \<and>
     queues cs' = fst (spec_receive (abs_macs cs) ps (queues cs)) \<and> set calls \<subseteq> {FreePacket}"
proof (induction ps arbitrary: cs)
  case (Cons p ps)
  show ?case
  proof (cases "p = [] \<or> length p > 2048")
    case True
    with Cons.prems show ?thesis by (auto simp: BUF_SIZE_def)
  next
    case False
    obtain cs1 where d: "dispatch_frame p cs = Inr cs1" "list_all client_ok cs1"
        "abs_macs cs1 = abs_macs cs" "map client_id cs1 = map client_id cs"
        "queues cs1 = deliver (abs_macs cs) p (queues cs)"
      using dispatch_frame_refines [OF Cons.prems, of p] False by auto
    from Cons.IH [OF d(2)] d False show ?thesis by (auto simp: BUF_SIZE_def)
  qed
qed simp

lemma sender_from_cong:
  "map client_id cs = map client_id ds \<Longrightarrow> sender_from k cs badge found = sender_from k ds badge found"
proof (induction cs arbitrary: ds k found)
  case (Cons c cs)
  then obtain d ds' where ds: "ds = d # ds'" "client_id d = client_id c" "map client_id cs = map client_id ds'"
    by (cases ds) auto
  from Cons.IH [OF ds(3)] show ?case by (simp only: ds(1,2) sender_from.simps)
qed simp

lemma sender_from_Some:
  "sender_from k cs badge found = Some j \<Longrightarrow>
   found = Some j \<or> (\<exists>i < length cs. j = k + i \<and> client_id (cs ! i) = badge)"
proof (induction cs arbitrary: k found)
  case (Cons c cs)
  from Cons.IH [OF Cons.prems [unfolded sender_from.simps]] consider
    "(if client_id c = badge then Some k else found) = Some j"
    | i where "i < length cs" "j = Suc k + i" "client_id (cs ! i) = badge" by blast
  then show ?case
  proof cases
    case 1
    then show ?thesis by (cases "client_id c = badge") auto
  next
    case 2
    then show ?thesis by (intro disjI2 exI [of _ "Suc i"]) simp
  qed
qed simp

lemma sender_client_Inr:
  assumes "sender_client cs badge = Inr i"
  shows "i < length cs" "client_id (cs ! i) = badge"
  using assms sender_from_Some [of 0 cs badge None i] by (auto simp: sender_client_def split: option.splits)

definition server_ok :: "eth_server \<Rightarrow> bool" where
  "server_ok s \<longleftrightarrow> done_init s \<and> list_all client_ok (clients s)"

lemma next_frame_id: "next_frame c = Inr (c', ret, len, emits) \<Longrightarrow> client_id c' = client_id c"
  by (auto simp: next_frame_def succeeds Let_def split: if_splits)

lemma client_rx_step:
  assumes "server_ok s" "sender_client (clients s) badge = Inr i"
  shows "\<exists>r c qs rest. client_rx frames badge s = Inr r \<and>
    spec_receive (abs_macs (clients s)) frames (queues (clients s)) = (qs, rest) \<and>
    server_ok (rx_server r) \<and> map client_id (clients (rx_server r)) = map client_id (clients s) \<and>
    abs_macs (clients (rx_server r)) = abs_macs (clients s) \<and>
    queues (clients (rx_server r)) = qs[i := tl (qs ! i)] \<and> rx_rest r = rest \<and>
    clients (rx_server r) ! i = c \<and>
    (case qs ! i of
       [] \<Rightarrow> rx_ret r = -1 \<and> rx_len r = 0
     | f # fs \<Rightarrow> rx_ret r = (if fs = [] then 0 else 1) \<and> rx_len r = length f \<and> take (length f) (dataport c) = f) \<and>
    filter (\<lambda>e. e \<noteq> FreePacket) (rx_calls r) = (if tl (qs ! i) = [] then [ClientEmit badge] else [])"
proof -
  let ?cs = "clients s"
  have ok: "done_init s" "list_all client_ok ?cs" using assms(1) by (simp_all add: server_ok_def)
  obtain qs rest where spec: "spec_receive (abs_macs ?cs) frames (queues ?cs) = (qs, rest)" by fastforce
  obtain cs1 calls where r: "receive_frames frames ?cs = Inr (cs1, rest, calls)" "list_all client_ok cs1"
      "abs_macs cs1 = abs_macs ?cs" "map client_id cs1 = map client_id ?cs" "queues cs1 = qs"
      and calls: "filter (\<lambda>e. e \<noteq> FreePacket) calls = []"
    using receive_frames_refines [OF ok(2), of frames] spec by (auto simp: filter_empty_conv)
  have sender: "sender_client cs1 badge = Inr i"
    using sender_from_cong [OF r(4)] assms(2) by (simp add: sender_client_def)
  note i = sender_client_Inr [OF sender]
  have qi: "qs ! i = client_frames (cs1 ! i)" using r(5) i(1) by (auto simp: queues_def)
  have oki: "client_ok (cs1 ! i)" "client_inv (cs1 ! i)"
    using r(2) i(1) by (auto simp: list_all_length client_ok_def)
  obtain c ret len emits where n: "next_frame (cs1 ! i) = Inr (c, ret, len, emits)"
      "client_ok c" "client_frames c = tl (qs ! i)" "mac c = mac (cs1 ! i)"
      "case qs ! i of [] \<Rightarrow> ret = -1 \<and> len = 0
       | f # fs \<Rightarrow> ret = (if fs = [] then 0 else 1) \<and> len = length f \<and> take (length f) (dataport c) = f"
      "emits = (if tl (qs ! i) = [] then [ClientEmit badge] else [])"
  proof (cases "qs ! i")
    case Nil
    with next_frame_empty [OF oki(2)] oki(1) i(2) that show thesis by (simp add: qi)
  next
    case (Cons f fs)
    from next_frame_some [OF oki(1) Cons [unfolded qi]] Cons i(2) that show thesis
      by (fastforce simp: take_overwrite)
  qed
  let ?s = "s\<lparr>clients := cs1[i := c]\<rparr>"
  let ?r = "\<lparr>rx_ret = ret, rx_len = len, rx_server = ?s, rx_rest = rest, rx_calls = calls @ emits\<rparr>"
  have "client_rx frames badge s = Inr ?r"
    using ok(1) r(1) sender i(1) n(1) by (simp add: client_rx_def)
  moreover have "server_ok ?s" using ok(1) r(2) n(2) by (simp add: server_ok_def list_all_update)
  moreover have "map client_id (cs1[i := c]) = map client_id ?cs"
    by (metis list_update_id map_update next_frame_id [OF n(1)] r(4))
  moreover have "abs_macs (cs1[i := c]) = abs_macs ?cs"
    using list_update_id [of "map mac cs1" i] r(3) i(1) by (simp add: abs_macs_def map_update n(4))
  moreover have "queues (cs1[i := c]) = qs[i := tl (qs ! i)]"
    using r(5) n(3) by (auto simp: queues_def map_update)
  moreover have "filter (\<lambda>e. e \<noteq> FreePacket) (calls @ emits) = (if tl (qs ! i) = [] then [ClientEmit badge] else [])"
    using calls n(6) by simp
  ultimately show ?thesis using spec n(5) i(1)
    by (intro exI [of _ ?r] exI [of _ c] exI [of _ qs] exI [of _ rest]) (simp cong: list.case_cong)
qed

section \<open>Properties\<close>

text \<open>
  Property C10. A receive call implements the frame queues: whatever the driver hands over, no
  access faults, every client's queue is the specified one with the caller's first frame taken
  off, that frame is at the start of the caller's data port and its length is reported; the
  result is -1 with nothing to deliver, 0 when the frame was the last and 1 when more wait,
  and the caller is to be notified again exactly when nothing is left for it.
\<close>

theorem client_rx_refines:
  assumes "server_ok s" "sender_client (clients s) badge = Inr i"
  shows "\<exists>r c qs rest. client_rx frames badge s = Inr r \<and>
    spec_receive (abs_macs (clients s)) frames (queues (clients s)) = (qs, rest) \<and>
    server_ok (rx_server r) \<and> abs_macs (clients (rx_server r)) = abs_macs (clients s) \<and>
    queues (clients (rx_server r)) = qs[i := tl (qs ! i)] \<and> rx_rest r = rest \<and>
    clients (rx_server r) ! i = c \<and>
    (case qs ! i of
       [] \<Rightarrow> rx_ret r = -1 \<and> rx_len r = 0
     | f # fs \<Rightarrow> rx_ret r = (if fs = [] then 0 else 1) \<and> rx_len r = length f \<and> take (length f) (dataport c) = f) \<and>
    filter (\<lambda>e. e \<noteq> FreePacket) (rx_calls r) = (if tl (qs ! i) = [] then [ClientEmit badge] else [])"
  using client_rx_step [OF assms] by blast

definition two_clients :: eth_server where
  "two_clients = \<lparr>clients =
     [(new_client (\<lambda>_. replicate 2048 0) 7)\<lparr>mac := [2, 0, 0, 0, 0, 1]\<rparr>,
      (new_client (\<lambda>_. replicate 2048 0) 8)\<lparr>mac := [2, 0, 0, 0, 0, 2]\<rparr>], done_init = True\<rparr>"

lemma new_client_ok:
  assumes "2048 \<le> length (client_buf badge)" "length m = 6"
  shows "client_ok ((new_client client_buf badge)\<lparr>mac := m\<rparr>)"
    "client_frames ((new_client client_buf badge)\<lparr>mac := m\<rparr>) = []"
  using assms
  by (simp_all add: client_ok_def client_inv_def client_frames_def new_client_def CLIENT_RX_BUFS_def
      BUF_SIZE_def ring_list_def ring_len_def list_all_iff)

lemma two_clients_ok: "server_ok two_clients" "queues (clients two_clients) = [[], []]"
    "sender_client (clients two_clients) 8 = Inr 1" "abs_macs (clients two_clients) = [[2, 0, 0, 0, 0, 1], [2, 0, 0, 0, 0, 2]]"
  using new_client_ok [of "\<lambda>_. replicate 2048 0"]
  by (simp_all add: server_ok_def two_clients_def queues_def sender_client_def abs_macs_def) (simp_all add: new_client_def)

theorem client_rx_refines_witness:
  "\<exists>r. client_rx [[2, 0, 0, 0, 0, 2, 9, 9], [2, 0, 0, 0, 0, 1, 5, 5]] 8 two_clients = Inr r \<and>
     rx_ret r = 0 \<and> rx_len r = 8 \<and> queues (clients (rx_server r)) = [[[2, 0, 0, 0, 0, 1, 5, 5]], []]"
  using client_rx_refines [OF two_clients_ok(1,3), of "[[2, 0, 0, 0, 0, 2, 9, 9], [2, 0, 0, 0, 0, 1, 5, 5]]"]
  by (auto simp: two_clients_ok deliver_def for_client_def enqueue_def)

text \<open>
  Property C16. The server separates its clients: a frame whose destination is the address of
  one client, the addresses being distinct, goes to the end of that client's queue, or is
  dropped when 127 frames wait there, and leaves the queue of every other client as it was.
\<close>

theorem unicast_separated:
  assumes "list_all client_ok cs" "distinct (abs_macs cs)" "i < length cs" "6 \<le> length p" "length p \<le> 2048"
    "take 6 p = mac (cs ! i)"
  shows "\<exists>cs'. dispatch_frame p cs = Inr cs' \<and>
    queues cs' = (queues cs)[i := take 127 (client_frames (cs ! i) @ [p])]"
proof -
  from dispatch_frame_refines [OF assms(1,5)] obtain cs' where
    d: "dispatch_frame p cs = Inr cs'" "queues cs' = deliver (abs_macs cs) p (queues cs)" by blast
  have "take 6 p \<notin> set (take i (abs_macs cs))"
    using assms(2,3,6) distinct_conv_nth [of "abs_macs cs"] by (fastforce simp: abs_macs_def in_set_conv_nth)
  then have "for_client (abs_macs cs) p j \<longleftrightarrow> j = i" if "j < length cs" for j
    using for_client_unique [OF assms(4), of i "abs_macs cs" j] that assms(3,6) by (simp add: abs_macs_def)
  with d assms(3) show ?thesis
    by (auto simp: deliver_def queues_def enqueue_def nth_list_update intro!: nth_equalityI)
qed

theorem unicast_separated_witness:
  "\<exists>cs'. dispatch_frame [2, 0, 0, 0, 0, 2, 9, 9] (clients two_clients) = Inr cs' \<and>
     queues cs' = [[], [[2, 0, 0, 0, 0, 2, 9, 9]]]"
proof -
  have ok: "list_all client_ok (clients two_clients)" using two_clients_ok(1) by (simp add: server_ok_def)
  have "mac (clients two_clients ! 1) = [2, 0, 0, 0, 0, 2]" "client_frames (clients two_clients ! 1) = []"
    "length (clients two_clients) = 2"
    using two_clients_ok(2,4) by (auto simp: two_clients_def queues_def abs_macs_def)
  with unicast_separated [OF ok, of 1 "[2, 0, 0, 0, 0, 2, 9, 9]"] two_clients_ok(2,4)
  show ?thesis by auto
qed

text \<open>
  A transmit call of a ready server never reads past the client's data port: a
  length over 2048 is cut to 2048, one under 12 is refused without a call to the driver, and
  otherwise the driver gets the first bytes of the caller's own port, the result telling
  whether it took them.
\<close>

theorem client_tx_bounds:
  assumes "server_ok s" "sender_client (clients s) badge = Inr i"
  shows "client_tx ret len badge s =
    (if len < 12 then Inr (-1, [])
     else Inr (if ret = 0 then ETHIF_TX_COMPLETE else ETHIF_TX_FAILED,
       [UbootSend (take (nat (min 2048 len)) (dataport (clients s ! i)))]))"
proof -
  have i: "i < length (clients s)" using sender_client_Inr [OF assms(2)] by blast
  then have "2048 \<le> length (dataport (clients s ! i))"
    using assms(1) by (simp add: server_ok_def list_all_length client_ok_def)
  with assms i show ?thesis
    by (cases "len > 2048") (simp_all add: client_tx_def server_ok_def BUF_SIZE_def Let_def min_def)
qed

theorem client_tx_bounds_witness:
  "client_tx 0 5000 8 two_clients = Inr (1, [UbootSend (replicate 2048 0)])"
  using client_tx_bounds [OF two_clients_ok(1,3), of 0 5000]
  by (simp add: ETHIF_TX_COMPLETE_def two_clients_def new_client_def)

lemma assign_macs_shape:
  assumes "assign_macs get_mac hw_mac k cs = Inr ds"
  shows "ds = map (\<lambda>c. c\<lparr>mac := (case get_mac (client_id c) of Some m \<Rightarrow> m | None \<Rightarrow> hw_mac)\<rparr>) cs \<and>
     length (filter (\<lambda>c. get_mac (client_id c) = None) cs) + k \<le> max 1 k"
  using assms
proof (induction cs arbitrary: k ds)
  case (Cons c cs)
  show ?case
  proof (cases "get_mac (client_id c)")
    case None
    with Cons.prems obtain es where "k = 0" "assign_macs get_mac hw_mac 1 cs = Inr es" "ds = c\<lparr>mac := hw_mac\<rparr> # es"
      by (auto simp: succeeds split: if_splits)
    with Cons.IH [of 1 es] None show ?thesis by simp
  next
    case (Some m)
    with Cons.prems obtain es where "assign_macs get_mac hw_mac k cs = Inr es" "ds = c\<lparr>mac := m\<rparr> # es"
      by (auto simp: succeeds)
    with Cons.IH [of k es] Some show ?thesis by simp
  qed
qed simp

lemma server_init_ready:
  assumes "server_init drivers_err eth_err badges client_buf get_mac hw_mac = Inr (s, calls)"
    and "\<And>b. 2048 \<le> length (client_buf b)" "\<And>b m. get_mac b = Some m \<Longrightarrow> length m = 6" "length hw_mac = 6"
  shows "server_ok s \<and> map client_id (clients s) = badges \<and> queues (clients s) = map (\<lambda>_. []) badges \<and>
    abs_macs (clients s) = map (\<lambda>b. case get_mac b of Some m \<Rightarrow> m | None \<Rightarrow> hw_mac) badges \<and>
    length (filter (\<lambda>b. get_mac b = None) badges) \<le> 1 \<and> calls = map ClientEmit badges"
proof -
  let ?mac = "\<lambda>b. case get_mac b of Some m \<Rightarrow> m | None \<Rightarrow> hw_mac"
  obtain cs where "assign_macs get_mac hw_mac 0 (map (new_client client_buf) badges) = Inr cs"
    and s: "s = \<lparr>clients = cs, done_init = True\<rparr>" "calls = map ClientEmit badges"
    using assms(1) by (auto simp: server_init_def succeeds split: if_splits)
  from assign_macs_shape [OF this(1)]
  have cs: "cs = map (\<lambda>b. (new_client client_buf b)\<lparr>mac := ?mac b\<rparr>) badges"
    and one: "length (filter (\<lambda>b. get_mac b = None) badges) \<le> 1"
    by (simp_all add: new_client_def filter_map o_def)
  have "length (?mac b) = 6" for b using assms(3,4) by (auto split: option.split)
  then have ok: "client_ok ((new_client client_buf b)\<lparr>mac := ?mac b\<rparr>)"
      "client_frames ((new_client client_buf b)\<lparr>mac := ?mac b\<rparr>) = []" for b
    using new_client_ok assms(2) by blast+
  have "server_ok s" using ok by (simp add: s server_ok_def cs list_all_iff)
  moreover have "queues (clients s) = map (\<lambda>_. []) badges" using ok by (simp add: s queues_def cs)
  moreover have "map client_id (clients s) = badges" by (simp add: s cs new_client_def map_idI)
  moreover have "abs_macs (clients s) = map ?mac badges" by (simp add: s cs abs_macs_def)
  ultimately show ?thesis using one s(2) by blast
qed

text \<open>
  The calls of the clients after the start, as the server's single thread takes them: each call
  leaves the state the next one finds.
\<close>

datatype client_call =
    ReceiveCall "bytes list" nat
  | TransmitCall int int nat
  | MacCall nat

fun caller :: "client_call \<Rightarrow> nat" where
  "caller (ReceiveCall frames badge) = badge"
| "caller (TransmitCall ret len badge) = badge"
| "caller (MacCall badge) = badge"

fun serve :: "client_call \<Rightarrow> eth_server \<Rightarrow> eth_server result" where
  "serve (ReceiveCall frames badge) s = rbind (client_rx frames badge s) (\<lambda>r. Inr (rx_server r))"
| "serve (TransmitCall ret len badge) s = rbind (client_tx ret len badge s) (\<lambda>_. Inr s)"
| "serve (MacCall badge) s = rbind (client_mac badge s) (\<lambda>_. Inr s)"

fun serve_all :: "client_call list \<Rightarrow> eth_server \<Rightarrow> eth_server result" where
  "serve_all [] s = Inr s"
| "serve_all (c # cs) s = rbind (serve c s) (serve_all cs)"

lemma sender_from_found: "found \<noteq> None \<Longrightarrow> sender_from k cs badge found \<noteq> None"
  by (induction cs arbitrary: k found) auto

lemma sender_from_known:
  "badge \<in> set (map client_id cs) \<Longrightarrow> sender_from k cs badge found \<noteq> None"
proof (induction cs arbitrary: k found)
  case (Cons c cs)
  then show ?case using sender_from_found [of "Some k" "Suc k" cs badge] by (cases "client_id c = badge") auto
qed simp

lemma sender_client_known:
  assumes "badge \<in> set (map client_id cs)"
  obtains i where "sender_client cs badge = Inr i" "i < length cs"
proof -
  from sender_from_known [OF assms, of 0 None] obtain i where "sender_client cs badge = Inr i"
    by (auto simp: sender_client_def)
  with sender_client_Inr(1) that show thesis by blast
qed

lemma serve_ok:
  assumes "server_ok s" "caller c \<in> set (map client_id (clients s))"
  shows "\<exists>s'. serve c s = Inr s' \<and> server_ok s' \<and>
    map client_id (clients s') = map client_id (clients s) \<and> abs_macs (clients s') = abs_macs (clients s)"
proof -
  obtain i where i: "sender_client (clients s) (caller c) = Inr i" "i < length (clients s)"
    using sender_client_known [OF assms(2)] by blast
  have ci: "length (mac (clients s ! i)) = 6" "2048 \<le> length (dataport (clients s ! i))"
    using assms(1) i(2) by (auto simp: server_ok_def list_all_length client_ok_def)
  show ?thesis
  proof (cases c)
    case (ReceiveCall frames badge)
    with client_rx_step [OF assms(1) i(1), of frames] show ?thesis by auto
  next
    case (TransmitCall ret len badge)
    with assms(1) i ci(2) show ?thesis
      by (cases "len > 2048") (auto simp: client_tx_def server_ok_def BUF_SIZE_def Let_def)
  next
    case (MacCall badge)
    with assms(1) i ci(1) show ?thesis by (simp add: client_mac_def server_ok_def)
  qed
qed

lemma serve_all_ok:
  assumes "server_ok s" "list_all (\<lambda>c. caller c \<in> set (map client_id (clients s))) cs"
  shows "\<exists>s'. serve_all cs s = Inr s' \<and> server_ok s' \<and>
    map client_id (clients s') = map client_id (clients s) \<and> abs_macs (clients s') = abs_macs (clients s)"
  using assms
proof (induction cs arbitrary: s)
  case (Cons c cs)
  from Cons.prems serve_ok [of s c] obtain s1 where s1: "serve c s = Inr s1" "server_ok s1"
      "map client_id (clients s1) = map client_id (clients s)" "abs_macs (clients s1) = abs_macs (clients s)" by auto
  with Cons.IH [OF s1(2)] Cons.prems(2) show ?case by (simp del: list.set_map set_map)
qed simp



end
