(* ===== verification/Pico_Ethdriver.thy ===== *)
theory Pico_Ethdriver
  imports Ring_Buffer "HOL-Library.Multiset"
begin

text \<open>
  \<^verbatim>\<open>apps/picotcp_single_component/src/ethdriver.c\<close> and \<^verbatim>\<open>tuning_params.h\<close>: the device layer
  between an Ethernet driver and the PicoTCP stack, with its two pools of buffers. A pointer
  to a buffer is its index in the array of buffers, a null pointer is \<open>None\<close>. The driver and
  the stack are external: their results are arguments, the buffers the driver holds are tracked
  beside the state in the step relation at the end.
\<close>

definition TX_BUFS :: nat where "TX_BUFS = 510"

definition RX_BUFS :: nat where "RX_BUFS = 510"

definition ETH_BUF_SIZE :: nat where "ETH_BUF_SIZE = 2048"

record eth_buf_t =
  buf :: bytes
  phys :: u64
  buf_len :: nat

record eth_dev =
  rx_bufs :: "eth_buf_t list"
  tx_bufs :: "eth_buf_t list"
  rx_head :: nat
  rx_tail :: nat
  rx_queue :: "nat option list"
  num_tx :: nat
  tx_buf_pool :: "nat option list"
  num_rx_bufs :: nat
  rx_buf_pool :: "nat option list"

definition deref :: "'a option \<Rightarrow> 'a result" where
  "deref p = (case p of None \<Rightarrow> Inl NullDereference | Some x \<Rightarrow> Inr x)"

lemma deref_Some [simp]: "deref (Some x) = Inr x"
  by (simp add: deref_def)

section \<open>The callbacks of the driver\<close>

definition eth_tx_complete :: "nat \<Rightarrow> eth_dev \<Rightarrow> eth_dev result" where
  "eth_tx_complete cookie s =
     rbind (array_write (tx_buf_pool s) (num_tx s) (Some cookie)) (\<lambda>pool.
     Inr (s\<lparr>tx_buf_pool := pool, num_tx := num_tx s + 1\<rparr>))"

text \<open>The physical address and the buffer, or nothing where the code returns 0.\<close>

definition eth_allocate_rx_buf :: "nat \<Rightarrow> eth_dev \<Rightarrow> (eth_dev \<times> (u64 \<times> nat) option) result" where
  "eth_allocate_rx_buf buf_size s =
     (if buf_size > ETH_BUF_SIZE then Inr (s, None)
      else if num_rx_bufs s = 0 then Inr (s, None)
      else let n = num_rx_bufs s - 1 in
        rbind (array_read (rx_buf_pool s) n) (\<lambda>cookie.
        rbind (deref cookie) (\<lambda>i.
        rbind (array_read (rx_bufs s) i) (\<lambda>b.
        Inr (s\<lparr>num_rx_bufs := n\<rparr>, Some (phys b, i))))))"

fun return_bufs :: "nat list \<Rightarrow> eth_dev \<Rightarrow> eth_dev result" where
  "return_bufs [] s = Inr s"
| "return_bufs (c # cs) s =
     rbind (array_write (rx_buf_pool s) (num_rx_bufs s) (Some c)) (\<lambda>pool.
     return_bufs cs (s\<lparr>rx_buf_pool := pool, num_rx_bufs := num_rx_bufs s + 1\<rparr>))"

definition eth_rx_complete :: "nat list \<Rightarrow> nat list \<Rightarrow> eth_dev \<Rightarrow> eth_dev result" where
  "eth_rx_complete cookies lens s =
     (if length cookies \<noteq> 1 then return_bufs cookies s
      else if (rx_head s + 1) mod RX_BUFS = rx_tail s then return_bufs cookies s
      else rbind (array_read cookies 0) (\<lambda>curr_buf.
           rbind (array_read (rx_bufs s) curr_buf) (\<lambda>b.
           rbind (array_read lens 0) (\<lambda>len0.
           rbind (array_write (rx_bufs s) curr_buf (b\<lparr>buf_len := len0\<rparr>)) (\<lambda>bufs.
           rbind (array_write (rx_queue s) (rx_head s) (Some curr_buf)) (\<lambda>q.
           Inr (s\<lparr>rx_bufs := bufs, rx_queue := q, rx_head := (rx_head s + 1) mod RX_BUFS\<rparr>)))))))"

section \<open>The functions the stack calls\<close>

text \<open>
  \<open>errs\<close> are the results of the successive \<open>pico_stack_recv\<close> calls. The frames the stack
  took are returned in order with the loop score that is left.
\<close>

fun poll_rx :: "nat \<Rightarrow> int list \<Rightarrow> eth_dev \<Rightarrow> (nat \<times> eth_dev \<times> bytes list) result" where
  "poll_rx 0 errs s = Inr (0, s, [])"
| "poll_rx (Suc score) errs s =
     (if rx_head s = rx_tail s then Inr (Suc score, s, [])
      else rbind (array_read (rx_queue s) (rx_tail s)) (\<lambda>p.
           rbind (deref p) (\<lambda>rx.
           rbind (array_read (rx_bufs s) rx) (\<lambda>b.
           rbind (c_bytes (buf b) (buf_len b)) (\<lambda>frame.
           case errs of
             [] \<Rightarrow> Inr (Suc score, s, [])
           | err # errs' \<Rightarrow>
               if err \<le> 0 then Inr (Suc score, s, [])
               else rbind (array_write (rx_buf_pool s) (num_rx_bufs s) (Some rx)) (\<lambda>pool.
                    rbind (poll_rx score errs'
                        (s\<lparr>rx_tail := (rx_tail s + 1) mod RX_BUFS, rx_buf_pool := pool,
                           num_rx_bufs := num_rx_bufs s + 1\<rparr>)) (\<lambda>(left, s', frames).
                    Inr (left, s', frame # frames))))))))"

definition pico_eth_poll :: "int \<Rightarrow> int list \<Rightarrow> eth_dev \<Rightarrow> (int \<times> eth_dev \<times> bytes list) result" where
  "pico_eth_poll loop_score errs s =
     (if loop_score > 0
      then rbind (poll_rx (nat loop_score) errs s) (\<lambda>(left, s', frames). Inr (int left, s', frames))
      else Inr (loop_score, s, []))"

text \<open>
  What \<open>raw_tx\<close> returns is the argument \<open>err\<close>, what it is given is the buffer in the answer. The frame is
  \<open>len\<close> bytes long. In the two cases without failure the driver has the buffer.
\<close>

definition RAW_TX_FAILED :: int where "RAW_TX_FAILED = -1"

definition pico_eth_send ::
  "int \<Rightarrow> bytes \<Rightarrow> eth_dev \<Rightarrow> (int \<times> eth_dev \<times> nat option) result" where
  "pico_eth_send err frame s =
     rbind (c_assert (length frame \<ge> 12)) (\<lambda>_.
     if length frame > ETH_BUF_SIZE then Inl FatalLog
     else if num_tx s = 0 then Inr (0, s, None)
     else let n = num_tx s - 1 in
       rbind (array_read (tx_buf_pool s) n) (\<lambda>p.
       rbind (deref p) (\<lambda>i.
       rbind (array_read (tx_bufs s) i) (\<lambda>b.
       rbind (c_memcpy (buf b) frame) (\<lambda>d.
       rbind (array_write (tx_bufs s) i (b\<lparr>buf := d\<rparr>)) (\<lambda>bufs.
       let s1 = s\<lparr>tx_bufs := bufs, num_tx := n\<rparr> in
       if err = RAW_TX_FAILED
       then rbind (array_write (tx_buf_pool s1) (num_tx s1) (Some i)) (\<lambda>pool.
            Inr (0, s1\<lparr>tx_buf_pool := pool, num_tx := num_tx s1 + 1\<rparr>, None))
       else Inr (int (length frame), s1, Some i)))))))"

section \<open>The start\<close>

text \<open>
  Whether an allocation gave memory and the physical address its pinning gave, per buffer. The
  test for a failed allocation looks at the address of the descriptor, which is never null, so
  clearing the memory of a failed one uses a null pointer. \<open>None\<close> is the return of -1.
\<close>

fun alloc_rx_bufs :: "(nat \<Rightarrow> bool \<times> u64) \<Rightarrow> nat list \<Rightarrow> eth_dev \<Rightarrow> eth_dev option result" where
  "alloc_rx_bufs dma [] s = Inr (Some s)"
| "alloc_rx_bufs dma (i # is) s =
     (if \<not> fst (dma i) then Inl NullDereference
      else if snd (dma i) = 0 then Inr None
      else rbind (array_write (rx_bufs s) i
                    \<lparr>buf = replicate ETH_BUF_SIZE 0, phys = snd (dma i), buf_len = 0\<rparr>) (\<lambda>bufs.
           rbind (array_write (rx_buf_pool s) (num_rx_bufs s) (Some i)) (\<lambda>pool.
           alloc_rx_bufs dma is
             (s\<lparr>rx_bufs := bufs, rx_buf_pool := pool, num_rx_bufs := num_rx_bufs s + 1\<rparr>))))"

fun alloc_tx_bufs :: "(nat \<Rightarrow> bool \<times> u64) \<Rightarrow> nat list \<Rightarrow> eth_dev \<Rightarrow> eth_dev option result" where
  "alloc_tx_bufs dma [] s = Inr (Some s)"
| "alloc_tx_bufs dma (i # is) s =
     (if \<not> fst (dma i) then Inl NullDereference
      else if snd (dma i) = 0 then Inr None
      else rbind (array_write (tx_bufs s) i
                    \<lparr>buf = replicate ETH_BUF_SIZE 0, phys = snd (dma i), buf_len = 0\<rparr>) (\<lambda>bufs.
           rbind (array_write (tx_buf_pool s) (num_tx s) (Some i)) (\<lambda>pool.
           alloc_tx_bufs dma is
             (s\<lparr>tx_bufs := bufs, tx_buf_pool := pool, num_tx := num_tx s + 1\<rparr>))))"

definition static_dev :: eth_dev where
  "static_dev =
     \<lparr>rx_bufs = replicate RX_BUFS \<lparr>buf = [], phys = 0, buf_len = 0\<rparr>,
      tx_bufs = replicate TX_BUFS \<lparr>buf = [], phys = 0, buf_len = 0\<rparr>,
      rx_head = 0, rx_tail = 0, rx_queue = replicate RX_BUFS None,
      num_tx = 0, tx_buf_pool = replicate TX_BUFS None,
      num_rx_bufs = 0, rx_buf_pool = replicate RX_BUFS None\<rparr>"

definition setup_eth0 ::
  "int \<Rightarrow> (nat \<Rightarrow> bool \<times> u64) \<Rightarrow> (nat \<Rightarrow> bool \<times> u64) \<Rightarrow> int \<Rightarrow> eth_dev option result" where
  "setup_eth0 find_error rx_dma tx_dma device_init =
     (if find_error \<noteq> 0 then Inr None
      else rbind (alloc_rx_bufs rx_dma [0..<RX_BUFS] static_dev) (\<lambda>r1.
        case r1 of None \<Rightarrow> Inr None
        | Some s1 \<Rightarrow>
            rbind (alloc_tx_bufs tx_dma [0..<TX_BUFS] s1) (\<lambda>r2.
            case r2 of None \<Rightarrow> Inr None
            | Some s2 \<Rightarrow> if device_init \<noteq> 0 then Inl FatalLog else Inr (Some s2))))"

text \<open>
  The interface search calls back for each Ethernet interface there is; the first one is taken and ends the search. The tick
  of the stack, a step of the external library, is all that an event does.
\<close>

datatype search_result = PS_INTERFACE_FOUND_MATCH

definition hardware_interface_searcher :: "'i \<Rightarrow> 'i option \<Rightarrow> search_result \<times> 'i option" where
  "hardware_interface_searcher interface_instance eth_driver = (PS_INTERFACE_FOUND_MATCH, Some interface_instance)"

definition tick_on_event :: "('s \<Rightarrow> 's) \<Rightarrow> 's \<Rightarrow> 's" where
  "tick_on_event pico_stack_tick stack = pico_stack_tick stack"

section \<open>Who owns a buffer\<close>

definition rx_free :: "eth_dev \<Rightarrow> nat option list" where
  "rx_free s = take (num_rx_bufs s) (rx_buf_pool s)"

definition rx_pending :: "eth_dev \<Rightarrow> nat option list" where
  "rx_pending s = ring_list 510 ((!) (rx_queue s)) (rx_head s) (rx_tail s)"

definition tx_free :: "eth_dev \<Rightarrow> nat option list" where
  "tx_free s = take (num_tx s) (tx_buf_pool s)"

definition all_bufs :: "nat option multiset" where
  "all_bufs = mset (map Some [0..<510])"

definition rx_shape :: "eth_dev \<Rightarrow> bool" where
  "rx_shape s \<longleftrightarrow>
     length (rx_bufs s) = 510 \<and> length (rx_queue s) = 510 \<and> length (rx_buf_pool s) = 510 \<and>
     rx_head s < 510 \<and> rx_tail s < 510 \<and> num_rx_bufs s \<le> 510 \<and>
     list_all (\<lambda>b. length (buf b) = 2048 \<and> buf_len b \<le> 2048) (rx_bufs s)"

text \<open>With \<open>held\<close> the receive buffers at the driver, each buffer is in exactly one place.\<close>

definition rx_inv :: "nat multiset \<Rightarrow> eth_dev \<Rightarrow> bool" where
  "rx_inv held s \<longleftrightarrow>
     rx_shape s \<and> mset (rx_free s) + mset (rx_pending s) + image_mset Some held = all_bufs"

definition tx_inv :: "nat multiset \<Rightarrow> eth_dev \<Rightarrow> bool" where
  "tx_inv held s \<longleftrightarrow>
     length (tx_bufs s) = 510 \<and> length (tx_buf_pool s) = 510 \<and> num_tx s \<le> 510 \<and>
     list_all (\<lambda>b. length (buf b) = 2048) (tx_bufs s) \<and>
     mset (tx_free s) + image_mset Some held = all_bufs"

lemma size_all_bufs: "size all_bufs = 510"
  by (simp add: all_bufs_def)

lemma in_all_bufs: "x \<in># all_bufs \<Longrightarrow> \<exists>i < 510. x = Some i"
  by (auto simp: all_bufs_def)

lemma mset_member_sum: "A + B = all_bufs \<Longrightarrow> x \<in># A \<Longrightarrow> x \<in># all_bufs"
  by (metis union_iff)

lemma size_sum: "A + B = C \<Longrightarrow> size A + size B = size C" for A :: "'a multiset"
  by (metis size_union)

lemma tx_sizes: "tx_inv held s \<Longrightarrow> num_tx s + size held = 510"
  using size_sum [of "mset (tx_free s)" "image_mset Some held" all_bufs]
  by (simp add: tx_inv_def size_all_bufs tx_free_def)

lemma rx_sizes: "rx_inv held s \<Longrightarrow> num_rx_bufs s + length (rx_pending s) + size held = 510"
  using size_sum [of "mset (rx_free s) + mset (rx_pending s)" "image_mset Some held" all_bufs]
  by (simp add: rx_inv_def rx_shape_def size_all_bufs rx_free_def)

section \<open>Every operation keeps the ownership and does not fault\<close>

lemma eth_tx_complete_ok:
  assumes "tx_inv held s" "i \<in># held"
  shows "\<exists>s'. eth_tx_complete i s = Inr s' \<and> tx_inv (held - {#i#}) s' \<and> (rx_inv hr s \<longrightarrow> rx_inv hr s')"
proof -
  obtain h where h: "held = add_mset i h" using assms(2) by (metis mset_add)
  have n: "num_tx s < 510" using tx_sizes [OF assms(1)] h by simp
  with assms(1) h show ?thesis
    by (auto simp: eth_tx_complete_def tx_inv_def tx_free_def take_Suc_update rx_inv_def rx_shape_def
        rx_free_def rx_pending_def)
qed

lemma pico_eth_send_ok:
  assumes "tx_inv held s" "12 \<le> length frame" "length frame \<le> 2048"
  shows "\<exists>r s' given. pico_eth_send err frame s = Inr (r, s', given) \<and>
    tx_inv (case given of None \<Rightarrow> held | Some i \<Rightarrow> add_mset i held) s' \<and> (rx_inv hr s \<longrightarrow> rx_inv hr s')"
proof (cases "num_tx s = 0")
  case True
  with assms show ?thesis by (auto simp: pico_eth_send_def ETH_BUF_SIZE_def)
next
  case False
  let ?n = "num_tx s - 1"
  have shape: "length (tx_bufs s) = 510" "length (tx_buf_pool s) = 510" "num_tx s \<le> 510"
      "list_all (\<lambda>b. length (buf b) = 2048) (tx_bufs s)"
      and sum: "mset (tx_free s) + image_mset Some held = all_bufs"
    using assms(1) by (simp_all add: tx_inv_def)
  have free: "tx_free s = take ?n (tx_buf_pool s) @ [tx_buf_pool s ! ?n]"
    using take_last [of "num_tx s" "tx_buf_pool s"] False shape by (simp add: tx_free_def)
  then have "tx_buf_pool s ! ?n \<in># all_bufs" using mset_member_sum [OF sum] by simp
  then obtain i where i: "tx_buf_pool s ! ?n = Some i" "i < 510" using in_all_bufs by blast
  let ?b = "tx_bufs s ! i"
  let ?bufs = "(tx_bufs s)[i := ?b\<lparr>buf := overwrite (buf ?b) frame\<rparr>]"
  have b: "length (buf ?b) = 2048" using shape i(2) by (simp add: list_all_length)
  have bufs: "list_all (\<lambda>b. length (buf b) = 2048) ?bufs"
    using shape(4) b assms(3) by (intro list_all_update) (simp_all add: length_overwrite)
  have n: "?n < 510" using shape(3) False by simp
  have pool: "(tx_buf_pool s)[?n := Some i] = tx_buf_pool s" using i(1) by (metis list_update_id)
  have eq: "pico_eth_send err frame s =
     (if err = RAW_TX_FAILED then Inr (0, s\<lparr>tx_bufs := ?bufs, num_tx := num_tx s\<rparr>, None)
      else Inr (int (length frame), s\<lparr>tx_bufs := ?bufs, num_tx := ?n\<rparr>, Some i))"
    using assms(2,3) False i shape(1,2) n b pool
    by (simp add: pico_eth_send_def ETH_BUF_SIZE_def Let_def)
  show ?thesis
  proof (cases "err = RAW_TX_FAILED")
    case True
    then show ?thesis using eq shape bufs sum
      by (auto simp: tx_inv_def tx_free_def rx_inv_def rx_shape_def rx_free_def rx_pending_def)
  next
    case False
    have "mset (take ?n (tx_buf_pool s)) + image_mset Some (add_mset i held) = all_bufs"
      using sum free i(1) by simp
    with False show ?thesis using eq shape bufs n
      by (auto simp: tx_inv_def tx_free_def rx_inv_def rx_shape_def rx_free_def rx_pending_def)
  qed
qed

lemma allocate_rx_ok:
  assumes "rx_inv held s"
  shows "\<exists>s' given. eth_allocate_rx_buf n s = Inr (s', given) \<and>
    rx_inv (case given of None \<Rightarrow> held | Some (p, i) \<Rightarrow> add_mset i held) s' \<and> (tx_inv ht s \<longrightarrow> tx_inv ht s')"
proof (cases "n > ETH_BUF_SIZE \<or> num_rx_bufs s = 0")
  case True
  with assms show ?thesis by (auto simp: eth_allocate_rx_buf_def)
next
  case False
  let ?n = "num_rx_bufs s - 1"
  have shape: "rx_shape s"
      and sum: "mset (rx_free s) + mset (rx_pending s) + image_mset Some held = all_bufs"
    using assms by (simp_all add: rx_inv_def)
  have free: "rx_free s = take ?n (rx_buf_pool s) @ [rx_buf_pool s ! ?n]"
    using take_last [of "num_rx_bufs s" "rx_buf_pool s"] False shape by (simp add: rx_free_def rx_shape_def)
  then have "rx_buf_pool s ! ?n \<in># all_bufs" using mset_member_sum [of "mset (rx_free s)"] sum
    by (simp add: add.assoc)
  then obtain i where i: "rx_buf_pool s ! ?n = Some i" "i < 510" using in_all_bufs by blast
  have n: "?n < 510" using shape False by (auto simp: rx_shape_def)
  have "eth_allocate_rx_buf n s = Inr (s\<lparr>num_rx_bufs := ?n\<rparr>, Some (phys (rx_bufs s ! i), i))"
    using False i n shape by (simp add: eth_allocate_rx_buf_def rx_shape_def Let_def)
  moreover have "mset (take ?n (rx_buf_pool s)) + mset (rx_pending s) + image_mset Some (add_mset i held) = all_bufs"
    using sum free i(1) by simp
  ultimately show ?thesis using shape n
    by (auto simp: rx_inv_def rx_shape_def rx_free_def rx_pending_def tx_inv_def tx_free_def)
qed

lemma return_bufs_ok:
  "rx_inv (held + mset cs) s \<Longrightarrow> \<exists>s'. return_bufs cs s = Inr s' \<and> rx_inv held s' \<and> (tx_inv ht s \<longrightarrow> tx_inv ht s')"
proof (induction cs arbitrary: s)
  case (Cons c cs)
  have n: "num_rx_bufs s < 510" using rx_sizes [OF Cons.prems] by simp
  let ?s = "s\<lparr>rx_buf_pool := (rx_buf_pool s)[num_rx_bufs s := Some c], num_rx_bufs := num_rx_bufs s + 1\<rparr>"
  have "rx_inv (held + mset cs) ?s"
    using Cons.prems n by (simp add: rx_inv_def rx_shape_def rx_free_def rx_pending_def take_Suc_update)
  from Cons.IH [OF this] show ?case using n Cons.prems
    by (auto simp: rx_inv_def rx_shape_def tx_inv_def tx_free_def)
qed auto

lemma rx_pending_bound: "rx_shape s \<Longrightarrow> length (rx_pending s) < 510"
  by (simp add: rx_pending_def rx_shape_def ring_len_less)

lemma eth_rx_complete_ok:
  assumes "rx_inv (held + mset cookies) s" "length lens = length cookies" "list_all (\<lambda>l. l \<le> 2048) lens"
  shows "\<exists>s'. eth_rx_complete cookies lens s = Inr s' \<and> rx_inv held s' \<and> (tx_inv ht s \<longrightarrow> tx_inv ht s')"
proof (cases "length cookies = 1 \<and> (rx_head s + 1) mod RX_BUFS \<noteq> rx_tail s")
  case False
  then have "eth_rx_complete cookies lens s = return_bufs cookies s" by (auto simp: eth_rx_complete_def)
  with return_bufs_ok [OF assms(1)] show ?thesis by simp
next
  case True
  then obtain c where c: "cookies = [c]" by (auto simp: length_Suc_conv)
  with assms(2,3) obtain l where l: "lens = [l]" "l \<le> 2048" by (cases lens) auto
  have shape: "rx_shape s"
    and sum: "mset (rx_free s) + mset (rx_pending s) + image_mset Some (add_mset c held) = all_bufs"
    using assms(1) c by (simp_all add: rx_inv_def)
  then have c510: "c < 510" using in_all_bufs [of "Some c"] mset_member_sum [of _ _ "Some c"]
    by (metis option.inject image_mset_add_mset union_commute union_single_eq_member)
  let ?bufs = "(rx_bufs s)[c := (rx_bufs s ! c)\<lparr>buf_len := l\<rparr>]"
  let ?s = "s\<lparr>rx_bufs := ?bufs, rx_queue := (rx_queue s)[rx_head s := Some c], rx_head := (rx_head s + 1) mod 510\<rparr>"
  have "eth_rx_complete cookies lens s = Inr ?s"
    using True c l c510 shape by (simp add: eth_rx_complete_def rx_shape_def RX_BUFS_def)
  moreover have "rx_pending ?s = rx_pending s @ [Some c]"
    using True shape ring_list_push_nth [of "rx_queue s" 510 "rx_head s" "rx_tail s" "Some c"]
    by (simp add: rx_pending_def rx_shape_def RX_BUFS_def)
  moreover have "list_all (\<lambda>b. length (buf b) = 2048 \<and> buf_len b \<le> 2048) ?bufs"
    using shape c510 l(2) by (intro list_all_update) (auto simp: rx_shape_def list_all_length)
  ultimately show ?thesis using shape sum
    by (auto simp: rx_inv_def rx_shape_def rx_free_def tx_inv_def tx_free_def)
qed

text \<open>The frames that wait, and polling as the prefix of them the stack accepts.\<close>

definition rx_frames :: "eth_dev \<Rightarrow> bytes list" where
  "rx_frames s = map (\<lambda>p. take (buf_len (rx_bufs s ! the p)) (buf (rx_bufs s ! the p))) (rx_pending s)"

definition accepted :: "int list \<Rightarrow> nat" where
  "accepted errs = length (takeWhile (\<lambda>e. e > 0) errs)"

lemma poll_rx_ok:
  "rx_inv held s \<Longrightarrow> \<exists>s' k. k = min score (min (accepted errs) (length (rx_frames s))) \<and>
     poll_rx score errs s = Inr (score - k, s', take k (rx_frames s)) \<and> rx_inv held s' \<and>
     rx_frames s' = drop k (rx_frames s) \<and> (tx_inv ht s \<longrightarrow> tx_inv ht s')"
proof (induction score arbitrary: errs s)
  case (Suc score)
  have shape: "rx_shape s"
    and sum: "mset (rx_free s) + mset (rx_pending s) + image_mset Some held = all_bufs"
    using Suc.prems by (simp_all add: rx_inv_def)
  show ?case
  proof (cases "rx_head s = rx_tail s")
    case True
    then have "rx_pending s = []" using shape
      unfolding rx_pending_def rx_shape_def by (subst ring_list_Nil_iff) simp_all
    with True Suc.prems show ?thesis by (simp add: rx_frames_def)
  next
    case False
    let ?p = "rx_queue s ! rx_tail s"
    let ?q = "ring_list 510 ((!) (rx_queue s)) (rx_head s) ((rx_tail s + 1) mod 510)"
    have pend: "rx_pending s = ?p # ?q"
      using ring_list_pop [of "rx_head s" 510 "rx_tail s" "(!) (rx_queue s)"] False shape
      by (simp add: rx_pending_def rx_shape_def)
    then have "?p \<in># all_bufs" using mset_member_sum [of "mset (rx_free s) + mset (rx_pending s)"] sum by simp
    then obtain i where i: "?p = Some i" "i < 510" using in_all_bufs by blast
    let ?f = "take (buf_len (rx_bufs s ! i)) (buf (rx_bufs s ! i))"
    have b: "length (buf (rx_bufs s ! i)) = 2048" "buf_len (rx_bufs s ! i) \<le> 2048"
      using shape i(2) by (simp_all add: rx_shape_def list_all_length)
    have n: "num_rx_bufs s < 510" using rx_sizes [OF Suc.prems] pend by simp
    let ?s = "s\<lparr>rx_tail := (rx_tail s + 1) mod 510, rx_buf_pool := (rx_buf_pool s)[num_rx_bufs s := Some i],
       num_rx_bufs := num_rx_bufs s + 1\<rparr>"
    have frames: "rx_frames s = ?f # rx_frames ?s" "rx_pending ?s = ?q"
      by (simp_all add: rx_frames_def pend i(1)) (simp_all add: rx_pending_def)
    have "rx_shape ?s" using shape n by (auto simp: rx_shape_def)
    moreover have "rx_free ?s = rx_free s @ [Some i]"
      using shape n by (simp add: rx_free_def rx_shape_def take_Suc_update)
    ultimately have inv: "rx_inv held ?s"
      unfolding rx_inv_def frames(2) using sum pend i(1) by simp
    show ?thesis
    proof (cases "accepted errs = 0")
      case True
      then have "errs = [] \<or> (\<exists>e es. errs = e # es \<and> e \<le> 0)"
        by (cases errs) (auto simp: accepted_def split: if_splits)
      with False Suc.prems i b shape True show ?thesis by (auto simp: rx_shape_def)
    next
      case acc: False
      then obtain e es where e: "errs = e # es" "e > 0" "accepted errs = Suc (accepted es)"
        by (cases errs) (auto simp: accepted_def split: if_splits)
      from Suc.IH [OF inv, of es] obtain s' where
        "poll_rx score es ?s = Inr (score - min score (min (accepted es) (length (rx_frames ?s))), s',
            take (min score (min (accepted es) (length (rx_frames ?s)))) (rx_frames ?s))"
        "rx_inv held s'" "rx_frames s' = drop (min score (min (accepted es) (length (rx_frames ?s)))) (rx_frames ?s)"
        "tx_inv ht ?s \<longrightarrow> tx_inv ht s'" by blast
      moreover have "tx_inv ht s \<longrightarrow> tx_inv ht ?s" by (simp add: tx_inv_def tx_free_def)
      ultimately show ?thesis using False e i b shape n frames(1)
        by (simp add: rx_shape_def RX_BUFS_def)
    qed
  qed
qed simp

section \<open>The device with its driver\<close>

text \<open>
  A state is the receive and the transmit buffers the driver holds and the device. The driver
  fills buffers it holds, completes buffers it holds with lengths that fit, and holds what
  \<open>eth_allocate_rx_buf\<close> and an accepted \<open>raw_tx\<close> gave it, until it completes them.
\<close>

type_synonym eth_world = "nat multiset \<times> nat multiset \<times> eth_dev"

inductive eth_step :: "eth_world \<Rightarrow> eth_world \<Rightarrow> bool" where
  allocate: "eth_allocate_rx_buf n s = Inr (s', given) \<Longrightarrow>
    eth_step (hr, ht, s) (case given of None \<Rightarrow> hr | Some (p, i) \<Rightarrow> add_mset i hr, ht, s')"
| dma: "i \<in># hr \<Longrightarrow> length bytes = 2048 \<Longrightarrow>
    eth_step (hr, ht, s) (hr, ht, s\<lparr>rx_bufs := (rx_bufs s)[i := (rx_bufs s ! i)\<lparr>buf := bytes\<rparr>]\<rparr>)"
| rx_complete: "length lens = length cookies \<Longrightarrow> list_all (\<lambda>l. l \<le> 2048) lens \<Longrightarrow>
    eth_rx_complete cookies lens s = Inr s' \<Longrightarrow> eth_step (hr + mset cookies, ht, s) (hr, ht, s')"
| poll: "pico_eth_poll loop_score errs s = Inr (left, s', frames) \<Longrightarrow> eth_step (hr, ht, s) (hr, ht, s')"
| send: "pico_eth_send err frame s = Inr (r, s', given) \<Longrightarrow>
    eth_step (hr, ht, s) (hr, case given of None \<Rightarrow> ht | Some i \<Rightarrow> add_mset i ht, s')"
| tx_complete: "i \<in># ht \<Longrightarrow> eth_tx_complete i s = Inr s' \<Longrightarrow> eth_step (hr, ht, s) (hr, ht - {#i#}, s')"

inductive_cases eth_stepE: "eth_step w w'"

definition eth_inv :: "eth_world \<Rightarrow> bool" where
  "eth_inv w \<longleftrightarrow> rx_inv (fst w) (snd (snd w)) \<and> tx_inv (fst (snd w)) (snd (snd w))"

lemma eth_inv_iff [simp]: "eth_inv (hr, ht, s) \<longleftrightarrow> rx_inv hr s \<and> tx_inv ht s"
  by (simp add: eth_inv_def)

lemma dma_inv:
  assumes "rx_inv hr s" "tx_inv ht s" "length bs = 2048"
  shows "eth_inv (hr, ht, s\<lparr>rx_bufs := (rx_bufs s)[i := (rx_bufs s ! i)\<lparr>buf := bs\<rparr>]\<rparr>)"
proof (cases "i < 510")
  case True
  have "list_all (\<lambda>b. length (buf b) = 2048 \<and> buf_len b \<le> 2048) ((rx_bufs s)[i := (rx_bufs s ! i)\<lparr>buf := bs\<rparr>])"
    using assms(1,3) True by (intro list_all_update) (auto simp: rx_inv_def rx_shape_def list_all_length)
  with assms show ?thesis
    by (auto simp: rx_inv_def rx_shape_def rx_free_def rx_pending_def tx_inv_def tx_free_def)
next
  case False
  with assms(1) have "(rx_bufs s)[i := x] = rx_bufs s" for x
    by (intro list_update_beyond) (simp add: rx_inv_def rx_shape_def)
  with assms show ?thesis by simp
qed

lemma pico_eth_poll_ok:
  assumes "rx_inv held s"
  shows "\<exists>s' k. k = min (nat loop_score) (min (accepted errs) (length (rx_frames s))) \<and>
     pico_eth_poll loop_score errs s = Inr (loop_score - int k, s', take k (rx_frames s)) \<and> rx_inv held s' \<and>
     rx_frames s' = drop k (rx_frames s) \<and> (tx_inv ht s \<longrightarrow> tx_inv ht s')"
proof (cases "loop_score > 0")
  case True
  from poll_rx_ok [OF assms, of "nat loop_score" errs ht] True show ?thesis
    by (auto simp: pico_eth_poll_def)
next
  case False
  with assms show ?thesis by (simp add: pico_eth_poll_def)
qed

lemma send_Inr_len: "pico_eth_send err frame s = Inr x \<Longrightarrow> 12 \<le> length frame \<and> length frame \<le> 2048"
  by (auto simp: pico_eth_send_def succeeds ETH_BUF_SIZE_def split: if_splits)

lemma eth_step_inv: "eth_step w w' \<Longrightarrow> eth_inv w \<Longrightarrow> eth_inv w'"
proof (induction rule: eth_step.induct)
  case (allocate n s s' given hr ht)
  then show ?case using allocate_rx_ok [of hr s n ht] by auto
next
  case (dma i hr bytes ht s)
  then show ?case using dma_inv [of hr s ht bytes i] by simp
next
  case (rx_complete lens cookies s s' hr ht)
  then show ?case using eth_rx_complete_ok [of hr cookies s lens ht] by auto
next
  case (poll loop_score errs s left s' frames hr ht)
  then show ?case using pico_eth_poll_ok [of hr s loop_score errs ht] by auto
next
  case (send err frame s r s' given hr ht)
  then show ?case using pico_eth_send_ok [of ht s frame err hr] send_Inr_len [OF send.hyps] by auto
next
  case (tx_complete i ht s s' hr)
  then show ?case using eth_tx_complete_ok [of ht s i hr] by auto
qed

lemma eth_reachable_inv: "eth_step\<^sup>*\<^sup>* w w' \<Longrightarrow> eth_inv w \<Longrightarrow> eth_inv w'"
  by (induction rule: rtranclp_induct) (auto intro: eth_step_inv)

section \<open>The start reaches a state with every buffer free\<close>

definition fresh_bufs :: "nat \<Rightarrow> eth_buf_t list \<Rightarrow> nat \<Rightarrow> nat option list \<Rightarrow> bool" where
  "fresh_bufs n bufs num pool \<longleftrightarrow>
     length bufs = 510 \<and> length pool = 510 \<and> num = n \<and> take n pool = map Some [0..<n] \<and>
     (\<forall>j < n. length (buf (bufs ! j)) = 2048 \<and> buf_len (bufs ! j) = 0)"

lemma fresh_bufs_step:
  assumes "fresh_bufs n bufs num pool" "n < 510"
  shows "fresh_bufs (Suc n) (bufs[n := \<lparr>buf = replicate ETH_BUF_SIZE 0, phys = p, buf_len = 0\<rparr>])
    (num + 1) (pool[num := Some n])"
  using assms by (auto simp: fresh_bufs_def take_Suc_update less_Suc_eq ETH_BUF_SIZE_def)

lemma upt_ConsD: "x # xs = [n..<m] \<Longrightarrow> n < m \<and> x = n \<and> xs = [Suc n..<m]"
  by (drule sym) (auto simp: upt_eq_Cons_conv)

lemma alloc_rx_bufs_spec:
  "fresh_bufs n (rx_bufs s) (num_rx_bufs s) (rx_buf_pool s) \<Longrightarrow> n \<le> 510 \<Longrightarrow> xs = [n..<510] \<Longrightarrow>
   (case alloc_rx_bufs dma xs s of
      Inl f \<Rightarrow> f = NullDereference
    | Inr None \<Rightarrow> \<not> list_all (\<lambda>i. fst (dma i) \<and> snd (dma i) \<noteq> 0) xs
    | Inr (Some t) \<Rightarrow> list_all (\<lambda>i. fst (dma i) \<and> snd (dma i) \<noteq> 0) xs \<and>
        (\<exists>bufs pool. t = s\<lparr>rx_bufs := bufs, rx_buf_pool := pool, num_rx_bufs := 510\<rparr> \<and> fresh_bufs 510 bufs 510 pool))"
proof (induction xs arbitrary: n s)
  case Nil
  then have "n = 510" using upt_eq_Nil_conv [of n 510] Nil.prems(3) [symmetric] by simp
  with Nil show ?case
    by (auto simp: fresh_bufs_def intro!: exI [of _ "rx_bufs s"] exI [of _ "rx_buf_pool s"])
next
  case (Cons x xs)
  then have n: "n < 510" "x = n" "xs = [Suc n..<510]" by (auto dest: upt_ConsD)
  let ?s = "s\<lparr>rx_bufs := (rx_bufs s)[n := \<lparr>buf = replicate ETH_BUF_SIZE 0, phys = snd (dma n), buf_len = 0\<rparr>],
      rx_buf_pool := (rx_buf_pool s)[num_rx_bufs s := Some n], num_rx_bufs := num_rx_bufs s + 1\<rparr>"
  have "fresh_bufs (Suc n) (rx_bufs ?s) (num_rx_bufs ?s) (rx_buf_pool ?s)"
    using fresh_bufs_step [OF Cons.prems(1) n(1)] by simp
  from Cons.IH [OF this _ n(3)] n show ?case
    using Cons.prems(1) by (auto simp: fresh_bufs_def split: sum.splits option.splits)
qed

lemma alloc_tx_bufs_spec:
  "fresh_bufs n (tx_bufs s) (num_tx s) (tx_buf_pool s) \<Longrightarrow> n \<le> 510 \<Longrightarrow> xs = [n..<510] \<Longrightarrow>
   (case alloc_tx_bufs dma xs s of
      Inl f \<Rightarrow> f = NullDereference
    | Inr None \<Rightarrow> \<not> list_all (\<lambda>i. fst (dma i) \<and> snd (dma i) \<noteq> 0) xs
    | Inr (Some t) \<Rightarrow> list_all (\<lambda>i. fst (dma i) \<and> snd (dma i) \<noteq> 0) xs \<and>
        (\<exists>bufs pool. t = s\<lparr>tx_bufs := bufs, tx_buf_pool := pool, num_tx := 510\<rparr> \<and> fresh_bufs 510 bufs 510 pool))"
proof (induction xs arbitrary: n s)
  case Nil
  then have "n = 510" using upt_eq_Nil_conv [of n 510] Nil.prems(3) [symmetric] by simp
  with Nil show ?case
    by (auto simp: fresh_bufs_def intro!: exI [of _ "tx_bufs s"] exI [of _ "tx_buf_pool s"])
next
  case (Cons x xs)
  then have n: "n < 510" "x = n" "xs = [Suc n..<510]" by (auto dest: upt_ConsD)
  let ?s = "s\<lparr>tx_bufs := (tx_bufs s)[n := \<lparr>buf = replicate ETH_BUF_SIZE 0, phys = snd (dma n), buf_len = 0\<rparr>],
      tx_buf_pool := (tx_buf_pool s)[num_tx s := Some n], num_tx := num_tx s + 1\<rparr>"
  have "fresh_bufs (Suc n) (tx_bufs ?s) (num_tx ?s) (tx_buf_pool ?s)"
    using fresh_bufs_step [OF Cons.prems(1) n(1)] by simp
  from Cons.IH [OF this _ n(3)] n show ?case
    using Cons.prems(1) by (auto simp: fresh_bufs_def split: sum.splits option.splits)
qed

lemma fresh_bufs_inv:
  "fresh_bufs 510 bufs 510 pool \<Longrightarrow>
   list_all (\<lambda>b. length (buf b) = 2048 \<and> buf_len b \<le> 2048) bufs \<and> mset (take 510 pool) = all_bufs"
  by (simp add: fresh_bufs_def list_all_length all_bufs_def)

section \<open>Properties\<close>

lemma setup_eth0_spec:
  "(case setup_eth0 find_error rx_dma tx_dma device_init of
      Inl f \<Rightarrow> f = NullDereference \<or> (f = FatalLog \<and> device_init \<noteq> 0)
    | Inr None \<Rightarrow> find_error \<noteq> 0 \<or>
        \<not> list_all (\<lambda>i. fst (rx_dma i) \<and> snd (rx_dma i) \<noteq> 0) [0..<510] \<or>
        \<not> list_all (\<lambda>i. fst (tx_dma i) \<and> snd (tx_dma i) \<noteq> 0) [0..<510]
    | Inr (Some s) \<Rightarrow> eth_inv ({#}, {#}, s) \<and> num_rx_bufs s = 510 \<and> num_tx s = 510 \<and> rx_frames s = [])"
proof (cases "find_error \<noteq> 0")
  case True
  then show ?thesis by (simp add: setup_eth0_def)
next
  case found: False
  have "fresh_bufs 0 (rx_bufs static_dev) (num_rx_bufs static_dev) (rx_buf_pool static_dev)"
      "fresh_bufs 0 (tx_bufs static_dev) (num_tx static_dev) (tx_buf_pool static_dev)"
    by (simp_all add: fresh_bufs_def static_dev_def RX_BUFS_def TX_BUFS_def)
  note rx = alloc_rx_bufs_spec [OF this(1), of "[0..<510]" rx_dma] and fresh_tx = this(2)
  show ?thesis
  proof (cases "alloc_rx_bufs rx_dma [0..<510] static_dev")
    case (Inl f)
    with rx found show ?thesis by (simp add: setup_eth0_def RX_BUFS_def)
  next
    case (Inr r)
    show ?thesis
    proof (cases r)
      case None
      with Inr rx found show ?thesis by (simp add: setup_eth0_def RX_BUFS_def)
    next
      case (Some s1)
      with Inr rx obtain bufs pool where s1: "s1 = static_dev\<lparr>rx_bufs := bufs, rx_buf_pool := pool, num_rx_bufs := 510\<rparr>"
        and f1: "fresh_bufs 510 bufs 510 pool" by auto
      have "fresh_bufs 0 (tx_bufs s1) (num_tx s1) (tx_buf_pool s1)" using fresh_tx by (simp add: s1)
      note tx = alloc_tx_bufs_spec [OF this, of "[0..<510]" tx_dma]
      have inv: "eth_inv ({#}, {#}, t) \<and> num_rx_bufs t = 510 \<and> num_tx t = 510 \<and> rx_frames t = []"
        if t: "t = s1\<lparr>tx_bufs := tbufs, tx_buf_pool := tpool, num_tx := 510\<rparr>" and f2: "fresh_bufs 510 tbufs 510 tpool"
        for t tbufs tpool
        using fresh_bufs_inv [OF f1] fresh_bufs_inv [OF f2] f1 f2
        by (simp add: t s1 rx_inv_def rx_shape_def tx_inv_def rx_free_def tx_free_def rx_frames_def
            rx_pending_def ring_list_def ring_len_def static_dev_def RX_BUFS_def fresh_bufs_def list_all_length)
      show ?thesis
        using tx inv Inr Some found
        by (auto simp: setup_eth0_def RX_BUFS_def TX_BUFS_def split: sum.splits option.splits)
    qed
  qed
qed

text \<open>
  The start either stops (no device, a buffer that cannot be pinned, a memory
  that was not given, a device that does not initialise) or gives a device that owns all its
  buffers, and it gives one when the device is found and every buffer got memory and an address.
\<close>

theorem setup_eth0_ready:
  "(case setup_eth0 find_error rx_dma tx_dma device_init of
      Inl f \<Rightarrow> f = NullDereference \<or> (f = FatalLog \<and> device_init \<noteq> 0)
    | Inr None \<Rightarrow> find_error \<noteq> 0 \<or>
        \<not> list_all (\<lambda>i. fst (rx_dma i) \<and> snd (rx_dma i) \<noteq> 0) [0..<510] \<or>
        \<not> list_all (\<lambda>i. fst (tx_dma i) \<and> snd (tx_dma i) \<noteq> 0) [0..<510]
    | Inr (Some s) \<Rightarrow> eth_inv ({#}, {#}, s) \<and> num_rx_bufs s = 510 \<and> num_tx s = 510 \<and> rx_frames s = [])"
  by (rule setup_eth0_spec)

lemma ready_inv: "setup_eth0 e rx_dma tx_dma d = Inr (Some s) \<Longrightarrow> eth_inv ({#}, {#}, s)"
  and ready_full: "setup_eth0 e rx_dma tx_dma d = Inr (Some s) \<Longrightarrow> num_rx_bufs s = 510 \<and> num_tx s = 510 \<and> rx_frames s = []"
  using setup_eth0_spec [where find_error = e and rx_dma = rx_dma and tx_dma = tx_dma and device_init = d] by simp_all

text \<open>
  Property C12. No buffer is lost or used twice: whatever the driver and the stack do, in every
  state the device reaches from its start each of the 510 receive buffers is in exactly one of
  the free pool, the receive queue and the driver's hands, and each of the 510 transmit
  buffers in the free pool or the driver's hands.
\<close>

theorem eth_buffers_conserved:
  assumes "setup_eth0 find_error rx_dma tx_dma device_init = Inr (Some s0)"
    and "eth_step\<^sup>*\<^sup>* ({#}, {#}, s0) (hr, ht, s)"
  shows "mset (rx_free s) + mset (rx_pending s) + image_mset Some hr = mset (map Some [0..<510]) \<and>
    mset (tx_free s) + image_mset Some ht = mset (map Some [0..<510]) \<and>
    num_rx_bufs s + length (rx_pending s) + size hr = 510 \<and> num_tx s + size ht = 510"
proof -
  have "eth_inv ({#}, {#}, s0)" using assms(1) by (rule ready_inv)
  then have inv: "rx_inv hr s" "tx_inv ht s" using eth_reachable_inv [OF assms(2)] by simp_all
  then show ?thesis
    using rx_sizes [OF inv(1)] tx_sizes [OF inv(2)] by (simp add: rx_inv_def tx_inv_def all_bufs_def)
qed

text \<open>A device just started, the first receive buffer then given to the driver.\<close>

definition good_dma :: "nat \<Rightarrow> bool \<times> u64" where
  "good_dma i = (True, 0x1000)"

lemma good_start: "\<exists>s0. setup_eth0 0 good_dma good_dma 0 = Inr (Some s0)"
proof -
  have good: "list_all (\<lambda>i. fst (good_dma i) \<and> snd (good_dma i) \<noteq> 0) xs" for xs
    by (simp add: good_dma_def list_all_iff)
  have rx: "\<exists>t. alloc_rx_bufs good_dma xs s = Inr (Some t)"
    if "length (rx_bufs s) = 510" "length (rx_buf_pool s) = 510" "num_rx_bufs s + length xs = 510"
      "list_all (\<lambda>i. i < 510) xs" for xs s
    using that by (induction xs arbitrary: s) (simp_all add: good_dma_def)
  have tx: "\<exists>t. alloc_tx_bufs good_dma xs s = Inr (Some t)"
    if "length (tx_bufs s) = 510" "length (tx_buf_pool s) = 510" "num_tx s + length xs = 510"
      "list_all (\<lambda>i. i < 510) xs" for xs s
    using that by (induction xs arbitrary: s) (simp_all add: good_dma_def)
  obtain s1 where s1: "alloc_rx_bufs good_dma [0..<510] static_dev = Inr (Some s1)"
    using rx [of static_dev "[0..<510]"] by (auto simp: static_dev_def RX_BUFS_def list_all_iff)
  have "fresh_bufs 0 (rx_bufs static_dev) (num_rx_bufs static_dev) (rx_buf_pool static_dev)"
    by (simp add: fresh_bufs_def static_dev_def RX_BUFS_def)
  from alloc_rx_bufs_spec [OF this, of "[0..<510]" good_dma] s1 obtain bufs pool where
    "s1 = static_dev\<lparr>rx_bufs := bufs, rx_buf_pool := pool, num_rx_bufs := 510\<rparr>" by auto
  then obtain s2 where "alloc_tx_bufs good_dma [0..<510] s1 = Inr (Some s2)"
    using tx [of s1 "[0..<510]"] by (auto simp: static_dev_def TX_BUFS_def list_all_iff)
  with s1 show ?thesis by (simp add: setup_eth0_def RX_BUFS_def TX_BUFS_def)
qed

lemma allocate_Inr:
  "eth_allocate_rx_buf 2048 s = Inr (s', given) \<Longrightarrow> 0 < num_rx_bufs s \<Longrightarrow>
   (\<exists>p i. given = Some (p, i)) \<and> num_rx_bufs s' = num_rx_bufs s - 1"
  by (auto simp: eth_allocate_rx_buf_def ETH_BUF_SIZE_def Let_def succeeds)

lemma send_Inr: "pico_eth_send 0 (replicate 60 0) s = Inr (r, s', given) \<Longrightarrow> 0 < num_tx s \<Longrightarrow> \<exists>i. given = Some i"
  by (auto simp: pico_eth_send_def ETH_BUF_SIZE_def RAW_TX_FAILED_def Let_def succeeds)

lemma allocate_some:
  assumes "rx_inv hr s" "0 < num_rx_bufs s"
  shows "\<exists>s' p i. eth_allocate_rx_buf 2048 s = Inr (s', Some (p, i)) \<and> num_rx_bufs s' = num_rx_bufs s - 1"
  using allocate_rx_ok [OF assms(1), of 2048] allocate_Inr [OF _ assms(2)] by blast

lemma send_some:
  assumes "tx_inv ht s" "0 < num_tx s"
  shows "\<exists>r s' i. pico_eth_send 0 (replicate 60 0) s = Inr (r, s', Some i)"
proof -
  have "\<exists>x. pico_eth_send 0 (replicate 60 0) s = Inr x"
    using pico_eth_send_ok [OF assms(1), of "replicate 60 0" 0] by fastforce
  then obtain r s' given where "pico_eth_send 0 (replicate 60 0) s = Inr (r, s', given)" by (metis prod_cases3)
  with send_Inr [OF this assms(2)] show ?thesis by blast
qed

theorem eth_buffers_conserved_witness:
  "\<exists>s0 s i. setup_eth0 0 good_dma good_dma 0 = Inr (Some s0) \<and> eth_step ({#}, {#}, s0) ({#i#}, {#}, s) \<and>
     num_rx_bufs s + length (rx_pending s) = 509"
proof -
  obtain s0 where s0: "setup_eth0 0 good_dma good_dma 0 = Inr (Some s0)" using good_start by blast
  have "rx_inv {#} s0" "0 < num_rx_bufs s0" using ready_inv [OF s0] ready_full [OF s0] by simp_all
  from allocate_some [OF this] obtain s p i where a: "eth_allocate_rx_buf 2048 s0 = Inr (s, Some (p, i))" by blast
  have step: "eth_step ({#}, {#}, s0) ({#i#}, {#}, s)" using eth_step.allocate [OF a, of "{#}" "{#}"] by simp
  then show ?thesis
    using eth_buffers_conserved [OF s0 r_into_rtranclp [of eth_step, OF step]] s0 by auto
qed

text \<open>
  In every state the device reaches, no callback and no call of the stack leaves
  an array or uses a null buffer, given frame lengths the checks let through and completions
  of buffers the driver holds.
\<close>

theorem eth_calls_safe:
  assumes "eth_inv ({#}, {#}, s0)" "eth_step\<^sup>*\<^sup>* ({#}, {#}, s0) (hr + mset cookies, add_mset i ht, s)"
    and "length lens = length cookies" "list_all (\<lambda>l. l \<le> 2048) lens"
    and "12 \<le> length frame" "length frame \<le> 2048"
  shows "isl (eth_allocate_rx_buf n s) = False \<and> isl (eth_rx_complete cookies lens s) = False \<and>
    isl (pico_eth_poll loop_score errs s) = False \<and> isl (pico_eth_send err frame s) = False \<and>
    isl (eth_tx_complete i s) = False"
proof -
  have inv: "rx_inv (hr + mset cookies) s" "tx_inv (add_mset i ht) s"
    using eth_reachable_inv [OF assms(2,1)] by simp_all
  have "\<exists>x. eth_allocate_rx_buf n s = Inr x" using allocate_rx_ok [OF inv(1)] by blast
  moreover have "\<exists>x. eth_rx_complete cookies lens s = Inr x" using eth_rx_complete_ok [OF inv(1) assms(3,4)] by blast
  moreover have "\<exists>x. pico_eth_poll loop_score errs s = Inr x" using pico_eth_poll_ok [OF inv(1)] by blast
  moreover have "\<exists>x. pico_eth_send err frame s = Inr x" using pico_eth_send_ok [OF inv(2) assms(5,6)] by blast
  moreover have "\<exists>x. eth_tx_complete i s = Inr x" using eth_tx_complete_ok [OF inv(2), of i] by auto
  ultimately show ?thesis by auto
qed

theorem eth_calls_safe_witness:
  "\<exists>s i j. isl (eth_rx_complete [i] [60] s) = False \<and> isl (eth_tx_complete j s) = False"
proof -
  obtain s0 where s0: "setup_eth0 0 good_dma good_dma 0 = Inr (Some s0)" using good_start by blast
  have inv0: "eth_inv ({#}, {#}, s0)" and full: "0 < num_rx_bufs s0" "0 < num_tx s0"
    using ready_inv [OF s0] ready_full [OF s0] by simp_all
  from allocate_some [of "{#}" s0] inv0 full obtain s1 p i where
    a: "eth_allocate_rx_buf 2048 s0 = Inr (s1, Some (p, i))" by auto
  have step1: "eth_step ({#}, {#}, s0) ({#i#}, {#}, s1)" using eth_step.allocate [OF a, of "{#}" "{#}"] by simp
  have "eth_inv ({#i#}, {#}, s1)" by (rule eth_step_inv [OF step1 inv0])
  moreover have "0 < num_tx s1" using tx_sizes [of "{#}" s1] calculation by simp
  ultimately obtain r s2 j where b: "pico_eth_send 0 (replicate 60 0) s1 = Inr (r, s2, Some j)"
    using send_some [of "{#}" s1] by auto
  have step2: "eth_step ({#i#}, {#}, s1) ({#i#}, {#j#}, s2)" using eth_step.send [OF b, of "{#i#}" "{#}"] by simp
  have "eth_step\<^sup>*\<^sup>* ({#}, {#}, s0) ({#} + mset [i], add_mset j {#}, s2)"
    using rtranclp.rtrancl_into_rtrancl [OF r_into_rtranclp [of eth_step, OF step1] step2] by simp
  from eth_calls_safe [OF inv0 this, of "[60]" "replicate 60 0"]
  have "isl (eth_rx_complete [i] [60] s2) = False \<and> isl (eth_tx_complete j s2) = False" by simp
  then show ?thesis by blast
qed

text \<open>
  Polling gives the stack the frames in the order they arrived: it hands over the
  longest prefix of the waiting frames that the loop score and the stack's answers allow,
  leaves the others waiting, and returns the loop score less the number it handed over.
\<close>

theorem pico_eth_poll_fifo:
  assumes "rx_inv held s" "k = min (nat loop_score) (min (accepted errs) (length (rx_frames s)))"
  shows "\<exists>s'. pico_eth_poll loop_score errs s = Inr (loop_score - int k, s', take k (rx_frames s)) \<and>
    rx_inv held s' \<and> rx_frames s' = drop k (rx_frames s)"
  using pico_eth_poll_ok [OF assms(1), of loop_score errs] assms(2) by blast

text \<open>A device with one frame of 60 bytes waiting.\<close>

definition one_frame_dev :: eth_dev where
  "one_frame_dev = static_dev\<lparr>
     rx_bufs := replicate 510 \<lparr>buf = replicate 2048 7, phys = 1, buf_len = 60\<rparr>,
     rx_head := 1, rx_queue := (replicate 510 None)[0 := Some 0],
     num_rx_bufs := 509, rx_buf_pool := map Some [1..<510] @ [None]\<rparr>"

lemma one_frame_dev: "rx_inv {#} one_frame_dev" "rx_frames one_frame_dev = [replicate 60 7]"
proof -
  have pend: "rx_pending one_frame_dev = [Some 0]"
    by (simp add: rx_pending_def one_frame_dev_def static_dev_def ring_list_def ring_len_def)
  have "mset (rx_free one_frame_dev) = mset (map Some [1..<510])"
    by (simp add: rx_free_def one_frame_dev_def static_dev_def del: upt_rec_numeral)
  moreover have "[0..<510] = 0 # [1..<510]" using upt_conv_Cons [of 0 510] by (simp del: upt_rec_numeral)
  ultimately have "mset (rx_free one_frame_dev) + mset (rx_pending one_frame_dev) = all_bufs"
    by (simp add: all_bufs_def pend del: upt_rec_numeral)
  then show "rx_inv {#} one_frame_dev"
    by (simp add: rx_inv_def rx_shape_def) (simp add: one_frame_dev_def static_dev_def RX_BUFS_def list_all_iff del: upt_rec_numeral)
  show "rx_frames one_frame_dev = [replicate 60 7]"
    unfolding rx_frames_def pend by (simp add: one_frame_dev_def)
qed

theorem pico_eth_poll_fifo_witness:
  "\<exists>s'. pico_eth_poll 20 [1, 1] one_frame_dev = Inr (19, s', [replicate 60 7]) \<and> rx_frames s' = []"
proof -
  have "1 = min (nat 20) (min (accepted [1, 1]) (length (rx_frames one_frame_dev)))"
    by (simp add: one_frame_dev(2) accepted_def)
  from pico_eth_poll_fifo [OF one_frame_dev(1) this] show ?thesis
    by (auto simp: one_frame_dev(2))
qed

end
