(* ===== verification/Pico_Tcp_Echo.thy ===== *)
theory Pico_Tcp_Echo
  imports Camkes_Prelude
begin

text \<open>
  \<^verbatim>\<open>apps/picotcp_single_component/src/tcp_echo_socket.c\<close>: a TCP echo server for five clients,
  called by the PicoTCP stack with the events of a socket. A socket is a number, a null socket
  \<open>None\<close>. The four parallel arrays indexed by the client and their socket are one list
  of records. The stack is external: its answers to successive receives and sends are list
  arguments, an answer to a send being how many bytes the stack has room for (it takes
  at most what it is offered, a negative number is its error), one to a receive the bytes that
  have arrived (it gives at most what is asked) or an error. A receive after the list finds
  no data, a send after it no room. What an operation leaves of the answers, the bytes it sent
  and the bytes it received are in its result.
\<close>

definition MAX_TCP_CLIENTS :: nat where "MAX_TCP_CLIENTS = 5"

definition TCP_READ_SIZE :: nat where "TCP_READ_SIZE = 1400"

record tcp_events =
  sock_conn :: bool
  sock_wr :: bool
  sock_rd :: bool
  sock_close :: bool
  sock_fin :: bool
  sock_err :: bool

record tcp_client =
  connected :: "nat option"
  data_packet :: bytes
  write_pending :: bool
  remaining_payload :: nat
  sent_payload :: nat

record tcp_server =
  socket_in :: nat
  tcp_clients :: "tcp_client list"

datatype recv_answer = RecvError | Received bytes

section \<open>The loops over one client\<close>

text \<open>\<open>n\<close> bytes at an offset, with the bound of the array checked.\<close>

definition c_slice :: "'a list \<Rightarrow> nat \<Rightarrow> nat \<Rightarrow> 'a list result" where
  "c_slice xs off n = (if off + n \<le> length xs then Inr (take n (drop off xs)) else Inl IndexError)"

lemma c_slice_ok [simp]: "off + n \<le> length xs \<Longrightarrow> c_slice xs off n = Inr (take n (drop off xs))"
  by (simp add: c_slice_def)

text \<open>Sending what a blocked write left.\<close>

fun resend_loop :: "int list \<Rightarrow> tcp_client \<Rightarrow> (tcp_client \<times> int list \<times> bytes) result" where
  "resend_loop [] c =
     (if remaining_payload c > 0
      then rbind (c_slice (data_packet c) (sent_payload c) (remaining_payload c)) (\<lambda>_.
           Inr (c\<lparr>write_pending := True\<rparr>, [], []))
      else Inr (c, [], []))"
| "resend_loop (room # sends) c =
     (if remaining_payload c > 0
      then rbind (c_slice (data_packet c) (sent_payload c) (remaining_payload c)) (\<lambda>payload.
           if room < 0 then Inr (c, sends, [])
           else let inner_ret = min (nat room) (remaining_payload c) in
             if inner_ret = 0 then Inr (c\<lparr>write_pending := True\<rparr>, sends, [])
             else rbind (resend_loop sends
                    (c\<lparr>remaining_payload := remaining_payload c - inner_ret,
                       sent_payload := sent_payload c + inner_ret\<rparr>)) (\<lambda>(c', rest, out).
                  Inr (c', rest, take inner_ret payload @ out)))
      else Inr (c, room # sends, []))"

text \<open>Sending what was just received: \<open>ret\<close> bytes are left, \<open>done\<close> are sent.\<close>

fun send_loop :: "int list \<Rightarrow> nat \<Rightarrow> nat \<Rightarrow> tcp_client \<Rightarrow> (tcp_client \<times> int list \<times> bytes) result" where
  "send_loop [] ret done_len c =
     (if ret > 0
      then rbind (c_slice (data_packet c) done_len ret) (\<lambda>_.
           Inr (c\<lparr>write_pending := True, remaining_payload := ret, sent_payload := done_len\<rparr>, [], []))
      else Inr (c, [], []))"
| "send_loop (room # sends) ret done_len c =
     (if ret > 0
      then rbind (c_slice (data_packet c) done_len ret) (\<lambda>payload.
           if room < 0 then Inr (c, sends, [])
           else let inner_ret = min (nat room) ret in
             if inner_ret = 0
             then Inr (c\<lparr>write_pending := True, remaining_payload := ret, sent_payload := done_len\<rparr>, sends, [])
             else rbind (send_loop sends (ret - inner_ret) (done_len + inner_ret) c) (\<lambda>(c', rest, out).
                  Inr (c', rest, take inner_ret payload @ out)))
      else Inr (c, room # sends, []))"

record loop_result =
  loop_client :: tcp_client
  loop_recvs :: "recv_answer list"
  loop_sends :: "int list"
  loop_out :: bytes
  loop_in :: bytes

fun recv_loop :: "recv_answer list \<Rightarrow> int list \<Rightarrow> tcp_client \<Rightarrow> loop_result result" where
  "recv_loop [] sends c =
     Inr \<lparr>loop_client = c, loop_recvs = [], loop_sends = sends, loop_out = [], loop_in = []\<rparr>"
| "recv_loop (a # recvs) sends c =
     (if \<not> write_pending c then
        (case a of
           RecvError \<Rightarrow>
             Inr \<lparr>loop_client = c, loop_recvs = recvs, loop_sends = sends, loop_out = [], loop_in = []\<rparr>
         | Received bs \<Rightarrow>
             let got = take TCP_READ_SIZE bs in
             rbind (c_memcpy (data_packet c) got) (\<lambda>d.
             if got = [] then
               Inr \<lparr>loop_client = c, loop_recvs = recvs, loop_sends = sends, loop_out = [], loop_in = []\<rparr>
             else rbind (send_loop sends (length got) 0 (c\<lparr>data_packet := d\<rparr>)) (\<lambda>(c', sends', out1).
                  rbind (recv_loop recvs sends' c') (\<lambda>r.
                  Inr (r\<lparr>loop_out := out1 @ loop_out r, loop_in := got @ loop_in r\<rparr>)))))
      else Inr \<lparr>loop_client = c, loop_recvs = a # recvs, loop_sends = sends, loop_out = [], loop_in = []\<rparr>)"

section \<open>The callback\<close>

fun find_index :: "('a \<Rightarrow> bool) \<Rightarrow> 'a list \<Rightarrow> nat option" where
  "find_index P [] = None"
| "find_index P (x # xs) = (if P x then Some 0 else map_option Suc (find_index P xs))"

text \<open>An index of \<open>-1\<close> is \<open>None\<close>: reading an array there leaves it.\<close>

definition client_at :: "nat option \<Rightarrow> tcp_server \<Rightarrow> tcp_client result" where
  "client_at client_id s =
     (case client_id of None \<Rightarrow> Inl IndexError | Some i \<Rightarrow> array_read (tcp_clients s) i)"

definition put_client :: "nat option \<Rightarrow> tcp_client \<Rightarrow> tcp_server \<Rightarrow> tcp_server" where
  "put_client client_id c s =
     (case client_id of None \<Rightarrow> s | Some i \<Rightarrow> s\<lparr>tcp_clients := (tcp_clients s)[i := c]\<rparr>)"

definition detect_tcp_client :: "nat \<Rightarrow> tcp_server \<Rightarrow> nat option" where
  "detect_tcp_client sock s =
     (if sock \<noteq> socket_in s then find_index (\<lambda>c. connected c = Some sock) (tcp_clients s) else None)"

definition connect_client :: "nat option \<Rightarrow> nat option \<Rightarrow> tcp_server \<Rightarrow> tcp_server result" where
  "connect_client client_id accept_ret s =
     rbind (c_assert (client_id = None)) (\<lambda>_.
     case find_index (\<lambda>c. connected c = None) (tcp_clients s) of
       None \<Rightarrow> Inr s
     | Some i \<Rightarrow>
         rbind (array_read (tcp_clients s) i) (\<lambda>c.
         Inr (s\<lparr>tcp_clients := (tcp_clients s)[i := c\<lparr>connected := accept_ret, write_pending := False\<rparr>]\<rparr>)))"

text \<open>The client after a write event, whether to read as well, the answers left and the bytes sent.\<close>

definition write_event ::
  "nat option \<Rightarrow> int list \<Rightarrow> tcp_server \<Rightarrow> (tcp_server \<times> bool \<times> int list \<times> bytes) result" where
  "write_event client_id sends s =
     rbind (client_at client_id s) (\<lambda>c.
     if write_pending c
     then rbind (resend_loop sends c) (\<lambda>(c', sends', out).
          if remaining_payload c' = 0
          then Inr (put_client client_id (c'\<lparr>write_pending := False\<rparr>) s, True, sends', out)
          else Inr (put_client client_id c' s, False, sends', out))
     else Inr (s, False, sends, []))"

record tcp_input =
  in_events :: tcp_events
  in_socket :: nat
  in_accept :: "nat option"
  in_recvs :: "recv_answer list"
  in_sends :: "int list"

text \<open>
  The server after the event, the bytes sent and received on the event's socket, and the
  sockets shut down.
\<close>

definition handle_tcp_picoserver_notification ::
  "tcp_input \<Rightarrow> tcp_server \<Rightarrow> (tcp_server \<times> bytes \<times> bytes \<times> nat list) result" where
  "handle_tcp_picoserver_notification i s0 =
     (let ev = in_events i; client_id = detect_tcp_client (in_socket i) s0 in
      rbind (if sock_conn ev then connect_client client_id (in_accept i) s0 else Inr s0) (\<lambda>s1.
      rbind (if sock_wr ev then write_event client_id (in_sends i) s1
             else Inr (s1, False, in_sends i, [])) (\<lambda>(s2, read_too, sends2, out2).
      rbind (if sock_rd ev \<or> read_too
             then rbind (client_at client_id s2) (\<lambda>c.
                  rbind (recv_loop (in_recvs i) sends2 c) (\<lambda>r.
                  Inr (put_client client_id (loop_client r) s2, loop_out r, loop_in r)))
             else Inr (s2, [], [])) (\<lambda>(s3, out3, in3).
      rbind (if sock_fin ev
             then rbind (c_assert (client_id \<noteq> None)) (\<lambda>_.
                  rbind (client_at client_id s3) (\<lambda>c.
                  Inr (put_client client_id (c\<lparr>connected := None\<rparr>) s3)))
             else Inr s3) (\<lambda>s4.
      rbind (c_assert (\<not> sock_err ev)) (\<lambda>_.
      Inr (s4, out2 @ out3, in3, if sock_close ev then [in_socket i] else [])))))))"

text \<open>The start: \<open>None\<close> is the return of -1. The listening socket becomes \<open>socket_in\<close>.\<close>

definition empty_client :: tcp_client where
  "empty_client = \<lparr>connected = None, data_packet = replicate 0x1000 0, write_pending = False,
     remaining_payload = 0, sent_payload = 0\<rparr>"

definition setup_tcp_socket :: "nat option \<Rightarrow> int \<Rightarrow> int \<Rightarrow> tcp_server option" where
  "setup_tcp_socket open_ret bind_ret listen_ret =
     (case open_ret of
        None \<Rightarrow> None
      | Some sock \<Rightarrow>
          if bind_ret \<noteq> 0 then None
          else if listen_ret \<noteq> 0 then None
          else Some \<lparr>socket_in = sock, tcp_clients = replicate MAX_TCP_CLIENTS empty_client\<rparr>)"

section \<open>One client: nothing is lost and nothing is reordered\<close>

definition client_wf :: "tcp_client \<Rightarrow> bool" where
  "client_wf c \<longleftrightarrow> length (data_packet c) = 4096 \<and>
     (write_pending c \<longrightarrow> sent_payload c + remaining_payload c \<le> 4096)"

text \<open>The bytes received and not yet sent.\<close>

definition backlog :: "tcp_client \<Rightarrow> bytes" where
  "backlog c =
     (if write_pending c then take (remaining_payload c) (drop (sent_payload c) (data_packet c)) else [])"

lemma take_min_drop: "n \<le> k \<Longrightarrow> take n (take k xs) @ take (k - n) (drop n xs) = take k xs"
  by (metis append_take_drop_id drop_take min.absorb1 take_take)

lemma resend_loop_ok:
  "client_wf c \<Longrightarrow> write_pending c \<Longrightarrow>
   \<exists>c' rest out. resend_loop sends c = Inr (c', rest, out) \<and> client_wf c' \<and> write_pending c' \<and>
     out @ backlog c' = backlog c \<and> connected c' = connected c \<and> set rest \<subseteq> set sends"
proof (induction sends arbitrary: c)
  case Nil
  then show ?case by (auto simp: client_wf_def backlog_def)
next
  case (Cons room sends)
  let ?r = "min (nat room) (remaining_payload c)"
  show ?case
  proof (cases "remaining_payload c > 0 \<and> room \<ge> 0 \<and> ?r \<noteq> 0")
    case False
    with Cons.prems show ?thesis by (auto simp: client_wf_def backlog_def Let_def)
  next
    case True
    let ?c = "c\<lparr>remaining_payload := remaining_payload c - ?r, sent_payload := sent_payload c + ?r\<rparr>"
    have "client_wf ?c" "write_pending ?c" using Cons.prems by (auto simp: client_wf_def)
    from Cons.IH [OF this] obtain c' rest out where
      r: "resend_loop sends ?c = Inr (c', rest, out)" "client_wf c'" "write_pending c'"
        "out @ backlog c' = backlog ?c" "connected c' = connected c" "set rest \<subseteq> set sends" by auto
    have "take ?r (take (remaining_payload c) (drop (sent_payload c) (data_packet c))) @ backlog ?c = backlog c"
      using Cons.prems(2) take_min_drop [of ?r "remaining_payload c" "drop (sent_payload c) (data_packet c)"]
      by (simp add: backlog_def add.commute)
    with True Cons.prems r show ?thesis by (auto simp: client_wf_def Let_def)
  qed
qed

lemma send_loop_ok:
  "length (data_packet c) = 4096 \<Longrightarrow> done_len + ret \<le> 4096 \<Longrightarrow> \<not> write_pending c \<Longrightarrow>
   \<exists>c' rest out. send_loop sends ret done_len c = Inr (c', rest, out) \<and> client_wf c' \<and>
     (list_all (\<lambda>r. r \<ge> 0) sends \<longrightarrow> out @ backlog c' = take ret (drop done_len (data_packet c))) \<and>
     connected c' = connected c \<and> set rest \<subseteq> set sends"
proof (induction sends arbitrary: ret done_len)
  case Nil
  then show ?case by (auto simp: client_wf_def backlog_def)
next
  case (Cons room sends)
  let ?r = "min (nat room) ret"
  show ?case
  proof (cases "ret > 0 \<and> room \<ge> 0 \<and> ?r \<noteq> 0")
    case False
    with Cons.prems show ?thesis by (auto simp: client_wf_def backlog_def Let_def)
  next
    case True
    from Cons.IH [of "done_len + ?r" "ret - ?r"] Cons.prems obtain c' rest out where
      r: "send_loop sends (ret - ?r) (done_len + ?r) c = Inr (c', rest, out)" "client_wf c'"
        "list_all (\<lambda>r. r \<ge> 0) sends \<longrightarrow> out @ backlog c' = take (ret - ?r) (drop (done_len + ?r) (data_packet c))"
        "connected c' = connected c" "set rest \<subseteq> set sends" by auto
    have "take ?r (take ret (drop done_len (data_packet c))) @ take (ret - ?r) (drop (done_len + ?r) (data_packet c))
        = take ret (drop done_len (data_packet c))"
      using take_min_drop [of ?r ret "drop done_len (data_packet c)"] by (simp add: add.commute)
    with True Cons.prems r show ?thesis by (auto simp: Let_def)
  qed
qed

lemma recv_loop_ok:
  "client_wf c \<Longrightarrow> \<exists>r. recv_loop recvs sends c = Inr r \<and> client_wf (loop_client r) \<and>
     (list_all (\<lambda>r. r \<ge> 0) sends \<longrightarrow> loop_out r @ backlog (loop_client r) = backlog c @ loop_in r) \<and>
     connected (loop_client r) = connected c"
proof (induction recvs arbitrary: sends c)
  case (Cons a recvs)
  show ?case
  proof (cases "\<not> write_pending c \<and> (\<exists>bs. a = Received bs \<and> bs \<noteq> [])")
    case False
    with Cons.prems show ?thesis
      by (auto simp: client_wf_def Let_def TCP_READ_SIZE_def split: recv_answer.splits)
  next
    case True
    then obtain bs where bs: "\<not> write_pending c" "a = Received bs" "bs \<noteq> []" by blast
    let ?got = "take 1400 bs"
    let ?c = "c\<lparr>data_packet := overwrite (data_packet c) ?got\<rparr>"
    have len: "length (data_packet ?c) = 4096" "length ?got \<le> 4096" and c: "c_memcpy (data_packet c) ?got = Inr (data_packet ?c)"
      using Cons.prems by (simp_all add: client_wf_def length_overwrite)
    from send_loop_ok [of ?c 0 "length ?got" sends] len bs obtain c' rest out where
      sl: "send_loop sends (length ?got) 0 ?c = Inr (c', rest, out)" "client_wf c'"
        "list_all (\<lambda>r. r \<ge> 0) sends \<longrightarrow> out @ backlog c' = take (length ?got) (data_packet ?c)"
        "connected c' = connected c" "set rest \<subseteq> set sends" by auto
    have got: "take (length ?got) (data_packet ?c) = ?got" by (simp add: take_overwrite del: length_take)
    from Cons.IH [OF sl(2), of rest] obtain r where
      r: "recv_loop recvs rest c' = Inr r" "client_wf (loop_client r)"
        "list_all (\<lambda>r. r \<ge> 0) rest \<longrightarrow> loop_out r @ backlog (loop_client r) = backlog c' @ loop_in r"
        "connected (loop_client r) = connected c'" by blast
    have rest: "list_all (\<lambda>r. r \<ge> 0) sends \<longrightarrow> list_all (\<lambda>r. r \<ge> 0) rest"
      using sl(5) by (auto simp: list_all_iff)
    have "recv_loop (a # recvs) sends c = Inr (r\<lparr>loop_out := out @ loop_out r, loop_in := ?got @ loop_in r\<rparr>)"
      using bs c sl(1) r(1) by (simp add: TCP_READ_SIZE_def Let_def del: length_take)
    moreover have "list_all (\<lambda>r. r \<ge> 0) sends \<longrightarrow>
        (out @ loop_out r) @ backlog (loop_client r) = backlog c @ (?got @ loop_in r)"
      using sl(3) got r(3) rest bs(1) by (auto simp: backlog_def [of c])
    ultimately show ?thesis using r(2,4) sl(4) by simp
  qed
qed simp

section \<open>The server\<close>

definition server_wf :: "tcp_server \<Rightarrow> bool" where
  "server_wf s \<longleftrightarrow> length (tcp_clients s) = 5 \<and> list_all client_wf (tcp_clients s)"

lemma find_index_Some:
  "find_index P xs = Some k \<Longrightarrow> k < length xs \<and> P (xs ! k) \<and> (\<forall>j < k. \<not> P (xs ! j))"
proof (induction xs arbitrary: k)
  case (Cons x xs)
  show ?case
  proof (cases "P x")
    case False
    with Cons.prems obtain k' where "k = Suc k'" "find_index P xs = Some k'" by auto
    with Cons.IH False show ?thesis by (auto simp: less_Suc_eq_0_disj)
  qed (use Cons.prems in auto)
qed simp

lemma find_index_None: "find_index P xs = None \<longleftrightarrow> list_all (\<lambda>x. \<not> P x) xs"
  by (induction xs) auto

lemma client_wf_cleared [simp]:
  "client_wf c \<Longrightarrow> client_wf (c\<lparr>write_pending := False\<rparr>)"
  "client_wf c \<Longrightarrow> client_wf (c\<lparr>connected := k\<rparr>)"
  "client_wf c \<Longrightarrow> client_wf (c\<lparr>connected := k, write_pending := False\<rparr>)"
  by (simp_all add: client_wf_def)

lemma backlog_cleared: "remaining_payload c = 0 \<Longrightarrow> backlog c = []"
  by (simp add: backlog_def)

lemma backlog_connected [simp]: "backlog (c\<lparr>connected := k\<rparr>) = backlog c"
  by (simp add: backlog_def)

lemma backlog_not_pending [simp]: "backlog (c\<lparr>write_pending := False\<rparr>) = []"
  by (simp add: backlog_def)

lemma server_wf_nth: "server_wf s \<Longrightarrow> k < 5 \<Longrightarrow> client_wf (tcp_clients s ! k)"
  by (simp add: server_wf_def list_all_length)

text \<open>The new client record of an event on a known client.\<close>

lemma write_event_ok:
  assumes "server_wf s" "k < 5"
  shows "\<exists>c again rest out. write_event (Some k) sends s =
      Inr (s\<lparr>tcp_clients := (tcp_clients s)[k := c]\<rparr>, again, rest, out) \<and> client_wf c \<and>
    out @ backlog c = backlog (tcp_clients s ! k) \<and> connected c = connected (tcp_clients s ! k) \<and>
    set rest \<subseteq> set sends"
proof -
  let ?c = "tcp_clients s ! k"
  have wf: "client_wf ?c" and k: "k < length (tcp_clients s)"
    using server_wf_nth [OF assms] assms by (simp_all add: server_wf_def)
  have same: "s = s\<lparr>tcp_clients := (tcp_clients s)[k := ?c]\<rparr>" by simp
  show ?thesis
  proof (cases "write_pending ?c")
    case False
    then show ?thesis using k wf
      by (intro exI [of _ ?c] exI [of _ False] exI [of _ sends] exI [of _ "[]"])
        (simp add: write_event_def client_at_def)
  next
    case True
    from resend_loop_ok [OF wf True] obtain c' rest out where
      r: "resend_loop sends ?c = Inr (c', rest, out)" "client_wf c'" "write_pending c'"
        "out @ backlog c' = backlog ?c" "connected c' = connected ?c" "set rest \<subseteq> set sends" by blast
    show ?thesis
    proof (cases "remaining_payload c' = 0")
      case True
      with r k \<open>write_pending ?c\<close> show ?thesis
        by (intro exI [of _ "c'\<lparr>write_pending := False\<rparr>"] exI [of _ True] exI [of _ rest] exI [of _ out])
          (simp add: write_event_def client_at_def put_client_def backlog_cleared)
    next
      case False
      with r k \<open>write_pending ?c\<close> show ?thesis
        by (intro exI [of _ c'] exI [of _ False] exI [of _ rest] exI [of _ out])
          (simp add: write_event_def client_at_def put_client_def)
    qed
  qed
qed

definition plain_tcp_event :: "tcp_events \<Rightarrow> bool" where
  "plain_tcp_event e \<longleftrightarrow> \<not> sock_conn e \<and> \<not> sock_fin e \<and> \<not> sock_err e"

lemma handle_plain_ok:
  assumes "server_wf s" "plain_tcp_event (in_events i)" "detect_tcp_client (in_socket i) s = Some k"
  shows "\<exists>c out inp shut. handle_tcp_picoserver_notification i s =
      Inr (s\<lparr>tcp_clients := (tcp_clients s)[k := c]\<rparr>, out, inp, shut) \<and> client_wf c \<and>
    (list_all (\<lambda>r. r \<ge> 0) (in_sends i) \<longrightarrow> out @ backlog c = backlog (tcp_clients s ! k) @ inp) \<and>
    connected c = connected (tcp_clients s ! k)"
proof -
  have k: "k < 5" "k < length (tcp_clients s)"
    using find_index_Some assms(1,3) by (fastforce simp: detect_tcp_client_def server_wf_def split: if_splits)+
  obtain c1 again sends1 out1 where
    w: "(if sock_wr (in_events i) then write_event (Some k) (in_sends i) s else Inr (s, False, in_sends i, [])) =
        Inr (s\<lparr>tcp_clients := (tcp_clients s)[k := c1]\<rparr>, again, sends1, out1)"
      "client_wf c1" "out1 @ backlog c1 = backlog (tcp_clients s ! k)"
      "connected c1 = connected (tcp_clients s ! k)" "set sends1 \<subseteq> set (in_sends i)"
  proof (cases "sock_wr (in_events i)")
    case True
    with write_event_ok [OF assms(1) k(1), of "in_sends i"] that show thesis by auto
  next
    case False
    with server_wf_nth [OF assms(1) k(1)] that [of "tcp_clients s ! k" False "in_sends i" "[]"] show thesis by simp
  qed
  have ok1: "list_all (\<lambda>r. r \<ge> 0) (in_sends i) \<longrightarrow> list_all (\<lambda>r. r \<ge> 0) sends1"
    using w(5) by (auto simp: list_all_iff)
  from recv_loop_ok [OF w(2), of "in_recvs i" sends1] obtain r where
    r: "recv_loop (in_recvs i) sends1 c1 = Inr r" "client_wf (loop_client r)"
      "list_all (\<lambda>r. r \<ge> 0) sends1 \<longrightarrow> loop_out r @ backlog (loop_client r) = backlog c1 @ loop_in r"
      "connected (loop_client r) = connected c1" by blast
  have plain: "\<not> sock_conn (in_events i)" "\<not> sock_fin (in_events i)" "\<not> sock_err (in_events i)"
    using assms(2) by (simp_all add: plain_tcp_event_def)
  note step = handle_tcp_picoserver_notification_def [of i s, unfolded Let_def assms(3)]
  show ?thesis
  proof (cases "sock_rd (in_events i) \<or> again")
    case True
    then have "handle_tcp_picoserver_notification i s =
        Inr (s\<lparr>tcp_clients := (tcp_clients s)[k := loop_client r]\<rparr>, out1 @ loop_out r, loop_in r,
          if sock_close (in_events i) then [in_socket i] else [])"
      using step w(1) r(1) plain k by (simp add: client_at_def put_client_def)
    moreover have "list_all (\<lambda>r. r \<ge> 0) (in_sends i) \<longrightarrow>
        (out1 @ loop_out r) @ backlog (loop_client r) = backlog (tcp_clients s ! k) @ loop_in r"
      unfolding w(3) [symmetric] using ok1 r(3) by simp
    ultimately show ?thesis using r(2,4) w(4)
      by (intro exI [of _ "loop_client r"] exI [of _ "out1 @ loop_out r"] exI [of _ "loop_in r"]
          exI [of _ "if sock_close (in_events i) then [in_socket i] else []"]) simp
  next
    case False
    then have "handle_tcp_picoserver_notification i s =
        Inr (s\<lparr>tcp_clients := (tcp_clients s)[k := c1]\<rparr>, out1, [],
          if sock_close (in_events i) then [in_socket i] else [])"
      using step w(1) plain k by simp
    with w show ?thesis by auto
  qed
qed

fun tcp_run ::
  "tcp_input list \<Rightarrow> tcp_server \<Rightarrow> (tcp_server \<times> (nat \<times> bytes \<times> bytes) list) result" where
  "tcp_run [] s = Inr (s, [])"
| "tcp_run (i # is) s =
     rbind (handle_tcp_picoserver_notification i s) (\<lambda>(s', out, inp, shut).
     rbind (tcp_run is s') (\<lambda>(s'', trace). Inr (s'', (in_socket i, out, inp) # trace)))"

definition sent_on :: "nat \<Rightarrow> (nat \<times> bytes \<times> bytes) list \<Rightarrow> bytes" where
  "sent_on sock trace = concat (map (\<lambda>(s, out, inp). if s = sock then out else []) trace)"

definition received_on :: "nat \<Rightarrow> (nat \<times> bytes \<times> bytes) list \<Rightarrow> bytes" where
  "received_on sock trace = concat (map (\<lambda>(s, out, inp). if s = sock then inp else []) trace)"

definition sockets :: "tcp_server \<Rightarrow> nat option list" where
  "sockets s = map connected (tcp_clients s)"

lemma detect_known:
  assumes "sock \<noteq> socket_in s" "Some sock \<in> set (sockets s)"
  obtains k where "detect_tcp_client sock s = Some k" "k < length (tcp_clients s)"
    "connected (tcp_clients s ! k) = Some sock"
proof (cases "detect_tcp_client sock s")
  case None
  with assms show ?thesis by (auto simp: detect_tcp_client_def find_index_None list_all_iff sockets_def)
next
  case (Some k)
  with find_index_Some [of "\<lambda>c. connected c = Some sock" "tcp_clients s" k] assms(1) that show ?thesis
    by (auto simp: detect_tcp_client_def)
qed

lemma tcp_run_ok:
  assumes "server_wf s" "list_all (\<lambda>i. plain_tcp_event (in_events i) \<and> in_socket i \<noteq> socket_in s \<and>
      Some (in_socket i) \<in> set (sockets s) \<and> list_all (\<lambda>r. r \<ge> 0) (in_sends i)) is"
    and "k < 5" "connected (tcp_clients s ! k) = Some sock"
    and "\<And>j. j < 5 \<Longrightarrow> connected (tcp_clients s ! j) = Some sock \<Longrightarrow> j = k"
  shows "\<exists>s' trace. tcp_run is s = Inr (s', trace) \<and> server_wf s' \<and> sockets s' = sockets s \<and>
    sent_on sock trace @ backlog (tcp_clients s' ! k) = backlog (tcp_clients s ! k) @ received_on sock trace"
  using assms
proof (induction "is" arbitrary: s)
  case Nil
  show ?case using Nil.prems(1) by (simp add: sent_on_def received_on_def)
next
  case (Cons i "is")
  have len: "length (tcp_clients s) = 5" using Cons.prems(1) by (simp add: server_wf_def)
  from Cons.prems(2) have i: "plain_tcp_event (in_events i)" "in_socket i \<noteq> socket_in s"
      "Some (in_socket i) \<in> set (sockets s)" "list_all (\<lambda>r. r \<ge> 0) (in_sends i)" by simp_all
  obtain m where m: "detect_tcp_client (in_socket i) s = Some m" "m < length (tcp_clients s)"
      "connected (tcp_clients s ! m) = Some (in_socket i)" using detect_known [OF i(2,3)] .
  from handle_plain_ok [OF Cons.prems(1) i(1) m(1)] i(4) obtain c out inp shut where
    h: "handle_tcp_picoserver_notification i s = Inr (s\<lparr>tcp_clients := (tcp_clients s)[m := c]\<rparr>, out, inp, shut)"
      "client_wf c" "out @ backlog c = backlog (tcp_clients s ! m) @ inp"
      "connected c = connected (tcp_clients s ! m)" by auto
  let ?s = "s\<lparr>tcp_clients := (tcp_clients s)[m := c]\<rparr>"
  have wf: "server_wf ?s" using Cons.prems(1) h(2) by (simp add: server_wf_def list_all_update)
  have conn: "connected (tcp_clients ?s ! j) = connected (tcp_clients s ! j)" if "j < 5" for j
    using h(4) m(2) by (simp add: nth_list_update)
  have socks: "sockets ?s = sockets s"
    using conn len by (auto simp: sockets_def intro!: nth_equalityI)
  have uniq: "j = k" if "j < 5" "connected (tcp_clients ?s ! j) = Some sock" for j
    using Cons.prems(5) [of j] conn [OF that(1)] that by simp
  have all: "list_all (\<lambda>i. plain_tcp_event (in_events i) \<and> in_socket i \<noteq> socket_in ?s \<and>
      Some (in_socket i) \<in> set (sockets ?s) \<and> list_all (\<lambda>r. r \<ge> 0) (in_sends i)) is"
    using Cons.prems(2) unfolding socks by simp
  have "connected (tcp_clients ?s ! k) = Some sock" using Cons.prems(3,4) conn [of k] by simp
  from Cons.IH [OF wf all Cons.prems(3) this uniq] obtain s' trace where
    r: "tcp_run is ?s = Inr (s', trace)" "server_wf s'" "sockets s' = sockets ?s"
      "sent_on sock trace @ backlog (tcp_clients s' ! k) = backlog (tcp_clients ?s ! k) @ received_on sock trace"
    by blast
  have "(if in_socket i = sock then out else []) @ backlog (tcp_clients ?s ! k) =
      backlog (tcp_clients s ! k) @ (if in_socket i = sock then inp else [])"
    using h(3) m Cons.prems(3,4) Cons.prems(5) [of m] len by (auto simp: nth_list_update)
  with r h(1) socks show ?case
    by (auto simp: sent_on_def received_on_def)
qed

section \<open>Properties\<close>

text \<open>
  Property C13. The server echoes every byte once and in order: over any run of read, write
  and close events of the connected sockets, interleaved in any way, with any partial or
  blocked sends but no send error, what was sent on a socket followed by what its client
  still keeps is what the client kept at first followed by what was received on the socket; no
  access faults.
\<close>

theorem tcp_echo_in_order:
  assumes "server_wf s" "list_all (\<lambda>i. plain_tcp_event (in_events i) \<and> in_socket i \<noteq> socket_in s \<and>
      Some (in_socket i) \<in> set (sockets s) \<and> list_all (\<lambda>r. r \<ge> 0) (in_sends i)) is"
    and "k < 5" "connected (tcp_clients s ! k) = Some sock"
    and "\<And>j. j < 5 \<Longrightarrow> connected (tcp_clients s ! j) = Some sock \<Longrightarrow> j = k"
  shows "\<exists>s' trace. tcp_run is s = Inr (s', trace) \<and> server_wf s' \<and> sockets s' = sockets s \<and>
    sent_on sock trace @ backlog (tcp_clients s' ! k) = backlog (tcp_clients s ! k) @ received_on sock trace"
  by (rule tcp_run_ok [OF assms])

definition one_tcp_client :: tcp_server where
  "one_tcp_client = \<lparr>socket_in = 1, tcp_clients =
     [empty_client\<lparr>connected := Some 4\<rparr>, empty_client, empty_client, empty_client, empty_client]\<rparr>"

definition read_event :: tcp_events where
  "read_event = \<lparr>sock_conn = False, sock_wr = False, sock_rd = True, sock_close = False, sock_fin = False,
     sock_err = False\<rparr>"

lemma one_tcp_client_wf: "server_wf one_tcp_client"
  by (simp add: server_wf_def one_tcp_client_def client_wf_def empty_client_def)

theorem tcp_echo_in_order_witness:
  "\<exists>s' trace. tcp_run [\<lparr>in_events = read_event, in_socket = 4, in_accept = None,
      in_recvs = [Received [1, 2, 3]], in_sends = [2]\<rparr>] one_tcp_client = Inr (s', trace) \<and>
    sent_on 4 trace @ backlog (tcp_clients s' ! 0) = received_on 4 trace"
proof -
  have "j = 0" if "j < 5" "connected (tcp_clients one_tcp_client ! j) = Some 4" for j
    using that by (cases j) (auto simp: one_tcp_client_def empty_client_def nth_Cons split: nat.splits)
  moreover have "backlog (tcp_clients one_tcp_client ! 0) = []"
    by (simp add: one_tcp_client_def empty_client_def backlog_def)
  ultimately show ?thesis
    using tcp_echo_in_order [OF one_tcp_client_wf, of "[\<lparr>in_events = read_event, in_socket = 4, in_accept = None,
      in_recvs = [Received [1, 2, 3]], in_sends = [2]\<rparr>]" 0 4]
    by (auto simp: one_tcp_client_def plain_tcp_event_def read_event_def sockets_def)
qed

text \<open>
  An event with the write or the read bit on a socket that is no client's (the
  listening socket, or one whose connection found no free slot) makes the callback index the
  client arrays with -1: it has no guard for an unknown socket.
\<close>

lemma tcp_unknown_socket_faults:
  assumes "detect_tcp_client (in_socket i) s = None" "sock_wr (in_events i) \<or> sock_rd (in_events i)"
    "\<not> sock_conn (in_events i)"
  shows "handle_tcp_picoserver_notification i s = Inl IndexError"
  using assms
  by (auto simp: handle_tcp_picoserver_notification_def Let_def client_at_def write_event_def)

text \<open>
  A connection event alone on an unknown socket takes the first free of the five
  slots for the accepted socket, with no write pending, and touches no other client; with no free slot
  the server stays as it is.
\<close>

theorem tcp_connect_slots:
  assumes "server_wf s" "detect_tcp_client (in_socket i) s = None"
    "in_events i = \<lparr>sock_conn = True, sock_wr = False, sock_rd = False, sock_close = False, sock_fin = False,
       sock_err = False\<rparr>"
  shows "handle_tcp_picoserver_notification i s =
    (case find_index (\<lambda>k. k = None) (sockets s) of
       None \<Rightarrow> Inr (s, [], [], [])
     | Some k \<Rightarrow> Inr (s\<lparr>tcp_clients := (tcp_clients s)[k := (tcp_clients s ! k)\<lparr>connected := in_accept i,
          write_pending := False\<rparr>]\<rparr>, [], [], []))"
proof -
  have map: "find_index (\<lambda>k. k = None) (map connected cs) = find_index (\<lambda>c. connected c = None) cs" for cs
    by (induction cs) auto
  show ?thesis
  proof (cases "find_index (\<lambda>c. connected c = None) (tcp_clients s)")
    case None
    with assms show ?thesis
      by (simp add: handle_tcp_picoserver_notification_def connect_client_def sockets_def map)
  next
    case (Some k)
    with find_index_Some [OF Some] assms show ?thesis
      by (simp add: handle_tcp_picoserver_notification_def connect_client_def sockets_def map)
  qed
qed

theorem tcp_connect_slots_witness:
  "\<exists>s'. handle_tcp_picoserver_notification \<lparr>in_events = \<lparr>sock_conn = True, sock_wr = False, sock_rd = False,
      sock_close = False, sock_fin = False, sock_err = False\<rparr>, in_socket = 1, in_accept = Some 9, in_recvs = [],
      in_sends = []\<rparr> one_tcp_client = Inr (s', [], [], []) \<and> sockets s' = [Some 4, Some 9, None, None, None]"
  using tcp_connect_slots [OF one_tcp_client_wf, of "\<lparr>in_events = \<lparr>sock_conn = True, sock_wr = False, sock_rd = False,
      sock_close = False, sock_fin = False, sock_err = False\<rparr>, in_socket = 1, in_accept = Some 9, in_recvs = [],
      in_sends = []\<rparr>"]
  by (simp add: detect_tcp_client_def one_tcp_client_def sockets_def empty_client_def)

end
