(* ===== verification/Pico_Udp_Echo.thy ===== *)
theory Pico_Udp_Echo
  imports Camkes_Prelude
begin

text \<open>
  \<^verbatim>\<open>apps/picotcp_single_component/src/udp_echo_socket.c\<close>: a UDP echo server that answers every
  datagram with its own content. The stack's answers to the successive receives and sends are
  list arguments; a receive after the list reports no data, a send after it no room. The
  datagrams sent, each with the address and port it goes to, are in the result.
\<close>

definition UDP_READ_SIZE :: nat where "UDP_READ_SIZE = 1400"

type_synonym datagram = "bytes \<times> u32 \<times> u16"

datatype udp_answer = UdpError | UdpReceived bytes u32 u16

record udp_events =
  udp_rd :: bool
  udp_wr :: bool

record udp_state =
  udp_data_packet :: bytes
  pending_len :: int
  udp_orig :: u32
  udp_remote_port :: u16
  rx_queued :: nat

text \<open>
  \<open>rx_queued\<close> is a \<open>uint64_t\<close> that counts events: it is kept a number, which no run reaches
  the end of. The buffer of 4096 bytes is larger than any datagram read into it.
\<close>

definition udp_start :: udp_state where
  "udp_start = \<lparr>udp_data_packet = replicate 0x1000 0, pending_len = -1, udp_orig = 0, udp_remote_port = 0,
     rx_queued = 0\<rparr>"

fun udp_loop :: "udp_answer list \<Rightarrow> int list \<Rightarrow> udp_state \<Rightarrow> (udp_state \<times> datagram list) result" where
  "udp_loop [] sends s =
     Inr (if rx_queued s > 0 then s\<lparr>rx_queued := rx_queued s - 1\<rparr> else s, [])"
| "udp_loop (a # recvs) sends s =
     (if rx_queued s > 0 then
        (case a of
           UdpError \<Rightarrow> Inr (s\<lparr>rx_queued := rx_queued s - 1\<rparr>, [])
         | UdpReceived bs orig port \<Rightarrow>
             let got = take UDP_READ_SIZE bs in
             rbind (c_memcpy (udp_data_packet s) got) (\<lambda>d.
             let s1 = s\<lparr>udp_data_packet := d, udp_orig := orig, udp_remote_port := port,
                        rx_queued := rx_queued s - 1\<rparr> in
             if got = [] then Inr (s1, [])
             else rbind (c_bytes d (length got)) (\<lambda>payload.
               case sends of
                 [] \<Rightarrow> Inr (s1\<lparr>pending_len := int (length got)\<rparr>, [])
               | inner_ret # sends' \<Rightarrow>
                   if inner_ret = -1 \<or> inner_ret = 0 then Inr (s1\<lparr>pending_len := int (length got)\<rparr>, [])
                   else rbind (udp_loop recvs sends' s1) (\<lambda>(s2, out).
                        Inr (s2, (payload, orig, port) # out)))))
      else Inr (s, []))"

definition handle_udp_picoserver_notification ::
  "udp_events \<Rightarrow> udp_answer list \<Rightarrow> int list \<Rightarrow> udp_state \<Rightarrow> (udp_state \<times> datagram list) result" where
  "handle_udp_picoserver_notification ev recvs sends s0 =
     (let s = (if udp_rd ev then s0\<lparr>rx_queued := rx_queued s0 + 1\<rparr> else s0) in
      if udp_wr ev \<and> pending_len s \<noteq> -1
      then rbind (c_bytes (udp_data_packet s) (nat (pending_len s))) (\<lambda>payload.
        case sends of
          [] \<Rightarrow> Inr (s, [])
        | inner_ret # sends' \<Rightarrow>
            if inner_ret = -1 \<or> inner_ret = 0 then Inr (s, [])
            else rbind (udp_loop recvs sends' (s\<lparr>pending_len := -1\<rparr>)) (\<lambda>(s', out).
                 Inr (s', (payload, udp_orig s, udp_remote_port s) # out)))
      else udp_loop recvs sends s)"

definition setup_udp_socket :: "nat option \<Rightarrow> int \<Rightarrow> int" where
  "setup_udp_socket open_ret bind_ret =
     (if open_ret = None then -1 else if bind_ret \<noteq> 0 then -1 else 0)"

section \<open>What is received, sent and pending\<close>

definition udp_wf :: "udp_state \<Rightarrow> bool" where
  "udp_wf s \<longleftrightarrow> length (udp_data_packet s) = 4096 \<and> -1 \<le> pending_len s \<and> pending_len s \<le> 1400"

definition udp_pending :: "udp_state \<Rightarrow> datagram list" where
  "udp_pending s =
     (if pending_len s = -1 then []
      else [(take (nat (pending_len s)) (udp_data_packet s), udp_orig s, udp_remote_port s)])"

fun udp_datagram :: "udp_answer \<Rightarrow> datagram" where
  "udp_datagram (UdpReceived bs orig port) = (take 1400 bs, orig, port)"
| "udp_datagram UdpError = ([], 0, 0)"

lemma udp_loop_ok:
  "udp_wf s \<Longrightarrow> pending_len s = -1 \<Longrightarrow>
   \<exists>s' out n. udp_loop recvs sends s = Inr (s', out) \<and> udp_wf s' \<and> n \<le> length recvs \<and>
     rx_queued s' \<le> rx_queued s \<and> out @ udp_pending s' = map udp_datagram (take n recvs)"
proof (induction recvs arbitrary: sends s)
  case Nil
  then show ?case by (auto simp: udp_pending_def udp_wf_def)
next
  case (Cons a recvs)
  show ?case
  proof (cases "rx_queued s > 0 \<and> (\<exists>bs orig port. a = UdpReceived bs orig port \<and> bs \<noteq> [])")
    case False
    with Cons.prems have "\<exists>s' out. udp_loop (a # recvs) sends s = Inr (s', out) \<and> udp_wf s' \<and>
        rx_queued s' \<le> rx_queued s \<and> out @ udp_pending s' = []"
      by (auto simp: udp_pending_def udp_wf_def Let_def overwrite_def UDP_READ_SIZE_def split: udp_answer.splits)
    then show ?thesis by (metis list.simps(8) take0 zero_le)
  next
    case True
    then obtain bs orig port where a: "a = UdpReceived bs orig port" "bs \<noteq> []" "rx_queued s > 0" by blast
    let ?got = "take 1400 bs"
    let ?d = "overwrite (udp_data_packet s) ?got"
    let ?s1 = "s\<lparr>udp_data_packet := ?d, udp_orig := orig, udp_remote_port := port, rx_queued := rx_queued s - 1\<rparr>"
    have d: "c_memcpy (udp_data_packet s) ?got = Inr ?d" "length ?d = 4096"
      using Cons.prems(1) by (simp_all add: udp_wf_def length_overwrite)
    have got: "c_bytes ?d (length ?got) = Inr ?got" "take (length ?got) ?d = ?got"
      using d(2) by (simp_all add: take_overwrite del: length_take) (simp add: c_bytes_def take_overwrite)
    show ?thesis
    proof (cases "\<exists>r sends'. sends = r # sends' \<and> r \<noteq> -1 \<and> r \<noteq> 0")
      case False
      let ?s' = "?s1\<lparr>pending_len := int (length ?got)\<rparr>"
      have "udp_loop (a # recvs) sends s = Inr (?s', [])"
        using a d(1) got(1) False
        by (cases sends) (auto simp: UDP_READ_SIZE_def Let_def simp del: length_take)
      moreover have "udp_wf ?s'" using d(2) Cons.prems(1) by (simp add: udp_wf_def)
      moreover have "udp_pending ?s' = map udp_datagram (take 1 (a # recvs))"
        using got(2) by (simp add: udp_pending_def a(1) del: length_take)
      ultimately show ?thesis by (intro exI [of _ ?s'] exI [of _ "[]"] exI [of _ 1]) simp
    next
      case True
      then obtain r sends' where r: "sends = r # sends'" "r \<noteq> -1" "r \<noteq> 0" by blast
      have "udp_wf ?s1" "pending_len ?s1 = -1" using d(2) Cons.prems by (simp_all add: udp_wf_def)
      from Cons.IH [OF this, of sends'] obtain s' out n where
        ih: "udp_loop recvs sends' ?s1 = Inr (s', out)" "udp_wf s'" "n \<le> length recvs"
          "rx_queued s' \<le> rx_queued ?s1" "out @ udp_pending s' = map udp_datagram (take n recvs)" by blast
      have "udp_loop (a # recvs) sends s = Inr (s', (?got, orig, port) # out)"
        using a d(1) got(1) r ih(1) by (simp add: UDP_READ_SIZE_def Let_def del: length_take)
      with ih show ?thesis
        by (intro exI [of _ s'] exI [of _ "(?got, orig, port) # out"] exI [of _ "Suc n"]) (simp add: a(1))
    qed
  qed
qed

section \<open>Properties\<close>



text \<open>
  Property C40. A datagram that waits to be sent can be lost: a read event without the write bit
  receives the next datagram into the same buffer, over the pending one, and what is pending
  afterwards has the old length, the new content and the new sender. The file's comment says
  the server stops receiving until it is able to send.
\<close>

theorem udp_pending_overwritten:
  assumes "udp_wf s" "pending_len s = int n" "bs \<noteq> []" "length bs \<le> 1400" "rx_queued s = 0" "0 < r"
  shows "\<exists>s'. handle_udp_picoserver_notification \<lparr>udp_rd = True, udp_wr = False\<rparr>
      [UdpReceived bs orig port] [r] s = Inr (s', [(bs, orig, port)]) \<and>
    udp_pending s' = [(take n (overwrite (udp_data_packet s) bs), orig, port)]"
  using assms
  by (auto simp: handle_udp_picoserver_notification_def UDP_READ_SIZE_def udp_wf_def length_overwrite
      take_overwrite udp_pending_def)

definition udp_blocked :: udp_state where
  "udp_blocked = \<lparr>udp_data_packet = [1, 1, 1] @ replicate 4093 0, pending_len = 3, udp_orig = 10,
     udp_remote_port = 5, rx_queued = 0\<rparr>"

theorem udp_pending_overwritten_witness:
  "udp_pending udp_blocked = [([1, 1, 1], 10, 5)] \<and>
   (\<exists>s'. handle_udp_picoserver_notification \<lparr>udp_rd = True, udp_wr = False\<rparr>
      [UdpReceived [9, 9] 11 6] [2] udp_blocked = Inr (s', [([9, 9], 11, 6)]) \<and>
    udp_pending s' = [([9, 9, 1], 11, 6)])"
  using udp_pending_overwritten [of udp_blocked 3 "[9, 9]" 2 11 6]
  by (simp add: udp_blocked_def udp_wf_def udp_pending_def overwrite_def)

end
