(* ===== verification/Utilization.thy ===== *)
theory Utilization
  imports Picoserver_Events
begin

text \<open>
  The ipbench utilisation server, in its two versions:
  \<^verbatim>\<open>apps/picotcp_single_component/src/utilization_socket.c\<close> on the PicoTCP stack, and
  \<^verbatim>\<open>apps/picotcp_tcp_echo/components/Echo/src/utilization_socket.c\<close> on the socket server.
  A client greets, loads, sets up, starts and stops a measurement by text messages. Message
  buffers are bytes; what the server does is a list of actions. The measurement counters, the
  results of the receive calls and the accepted sockets are arguments.
\<close>

definition ascii :: "string \<Rightarrow> bytes" where
  "ascii s = map (\<lambda>c. of_nat (of_char c)) s"

lemma length_ascii [simp]: "length (ascii s) = length s"
  by (simp add: ascii_def)

definition newline :: string where "newline = [CHR 0x0A]"

definition WHOAMI :: string where "WHOAMI = ''100 IPBENCH V1.0'' @ newline"

definition HELLO :: string where "HELLO = ''HELLO'' @ newline"

definition OK_READY :: string where "OK_READY = ''200 OK (Ready to go)'' @ newline"

definition LOAD :: string where "LOAD = ''LOAD cpu_target_lukem'' @ newline"

definition OK :: string where "OK = ''200 OK'' @ newline"

definition SETUP :: string where "SETUP = ''SETUP args::'' @ [CHR 0x22, CHR 0x22] @ newline"

definition START :: string where "START = ''START'' @ newline"

definition STOP :: string where "STOP = ''STOP'' @ newline"

definition QUIT :: string where "QUIT = ''QUIT'' @ newline"

text \<open>The two formats, applied: the counters are printed as signed 64-bit numbers.\<close>

definition RESPONSE :: "nat \<Rightarrow> string \<Rightarrow> string" where
  "RESPONSE len content =
     ''220 VALID DATA (Data to follow)'' @ newline @ ''Content-length: '' @ show_nat len @ newline @
     content @ newline"

definition IDLE_FORMAT :: "u64 \<Rightarrow> u64 \<Rightarrow> string" where
  "IDLE_FORMAT a b = '','' @ show_int (sint a) @ '','' @ show_int (sint b)"

text \<open>
  \<open>strncmp\<close> over the length of the literal, which holds no null byte: equality of that many
  bytes of the buffer.
\<close>

definition msg_match :: "bytes \<Rightarrow> string \<Rightarrow> bool" where
  "msg_match msg match \<longleftrightarrow> take (length match) msg = ascii match"

datatype util_action =
    UtilSend int bytes
  | UtilShutdown int
  | IdleStart
  | IdleStop

section \<open>The version on the PicoTCP stack\<close>

record util_events =
  util_conn :: bool
  util_rd :: bool
  util_close :: bool

text \<open>What a receive returns: \<open>None\<close> for the error, otherwise the bytes it put in the buffer.\<close>

definition receive_message :: "bytes option \<Rightarrow> bytes \<Rightarrow> bytes result" where
  "receive_message got mesg =
     (case got of None \<Rightarrow> Inr mesg | Some bs \<Rightarrow> c_memcpy mesg (take 0x1000 bs))"

text \<open>The actions one message asks for; \<open>fmt\<close> is the outcome of the two formatting calls.\<close>

definition util_reply :: "int \<Rightarrow> u64 \<Rightarrow> u64 \<Rightarrow> bool \<Rightarrow> bytes \<Rightarrow> util_action list" where
  "util_reply s idle total_ticks fmt mesg =
     (if msg_match mesg HELLO then [UtilSend s (ascii OK_READY)]
      else if msg_match mesg LOAD then [UtilSend s (ascii OK)]
      else if msg_match mesg SETUP then [UtilSend s (ascii OK)]
      else if msg_match mesg START then [IdleStart]
      else if msg_match mesg STOP then
        [IdleStop] @
        (if \<not> fmt then []
         else let util_msg = IDLE_FORMAT idle total_ticks in
              [UtilSend s (ascii (RESPONSE (length util_msg + 1) util_msg))]) @
        [UtilShutdown s]
      else [])"

definition handle_tcp_utiliz_notification ::
  "util_events \<Rightarrow> int \<Rightarrow> int \<Rightarrow> bytes option \<Rightarrow> u64 \<Rightarrow> u64 \<Rightarrow> bool \<Rightarrow> bytes \<Rightarrow>
   (bytes \<times> util_action list) result" where
  "handle_tcp_utiliz_notification ev s util got idle total_ticks fmt utilz_mesg =
     (let out1 = (if util_conn ev then [UtilSend util (ascii WHOAMI)] else []) in
      rbind (if util_rd ev
             then rbind (receive_message got utilz_mesg) (\<lambda>mesg.
                  Inr (mesg, util_reply s idle total_ticks fmt mesg))
             else Inr (utilz_mesg, [])) (\<lambda>(mesg, out2).
      Inr (mesg, out1 @ out2 @ (if util_close ev then [UtilShutdown s] else []))))"

definition setup_utilization_socket :: "int option \<Rightarrow> int \<Rightarrow> int \<Rightarrow> int" where
  "setup_utilization_socket open_ret bind_ret listen_ret =
     (case open_ret of None \<Rightarrow> -1
      | Some s \<Rightarrow> if bind_ret \<noteq> 0 then -1 else if listen_ret \<noteq> 0 then -1 else 0)"

section \<open>The version on the socket server\<close>

text \<open>
  Its state is the client's socket, the receive buffer and the send buffer, both data ports.
  The answer is printed into the send buffer, cut to its 4096 bytes, and the length sent is the
  length before the cut.
\<close>

record util_state =
  util_peer :: int
  echo_recv_buf :: bytes
  echo_send_buf :: bytes

text \<open>Copying a text into the send buffer and sending that many bytes of it.\<close>

definition send_text :: "int \<Rightarrow> string \<Rightarrow> util_state \<Rightarrow> (util_state \<times> util_action list) result" where
  "send_text socket txt s =
     rbind (c_memcpy (echo_send_buf s) (ascii txt)) (\<lambda>b.
     Inr (s\<lparr>echo_send_buf := b\<rparr>, [UtilSend socket (take (length txt) b)]))"

definition send_printed :: "int \<Rightarrow> string \<Rightarrow> util_state \<Rightarrow> (util_state \<times> util_action list) result" where
  "send_printed socket txt s =
     rbind (c_memcpy (echo_send_buf s) (take 0xfff (ascii txt) @ [0])) (\<lambda>b.
     Inr (s\<lparr>echo_send_buf := b\<rparr>, [UtilSend socket (take (length txt) b)]))"

definition echo_util_reply ::
  "int \<Rightarrow> u64 \<Rightarrow> u64 \<Rightarrow> bool \<Rightarrow> util_state \<Rightarrow> (util_state \<times> util_action list) result" where
  "echo_util_reply socket idle total_ticks fmt s =
     (let mesg = echo_recv_buf s in
      if msg_match mesg HELLO then send_text socket OK_READY s
      else if msg_match mesg LOAD then send_text socket OK s
      else if msg_match mesg SETUP then send_text socket OK s
      else if msg_match mesg START then Inr (s, [IdleStart])
      else if msg_match mesg STOP then
        rbind (if \<not> fmt then Inr (s, [])
               else let util_msg = IDLE_FORMAT idle total_ticks in
                 send_printed socket (RESPONSE (length util_msg + 1) util_msg) s) (\<lambda>(s', out).
        Inr (s', [IdleStop] @ out @ [UtilShutdown socket]))
      else Inr (s, []))"

definition echo_utiliz_notification ::
  "picoserver_event \<Rightarrow> bytes option \<Rightarrow> u64 \<Rightarrow> u64 \<Rightarrow> bool \<Rightarrow> util_state \<Rightarrow>
   (util_state \<times> util_action list) result" where
  "echo_utiliz_notification e got idle total_ticks fmt s0 =
     rbind (if ev_conn e
            then if peer_result e = -1 then Inl FatalLog
                 else send_text (peer_socket e) WHOAMI
                        (s0\<lparr>util_peer := peer_socket e\<rparr>)
            else Inr (s0, [])) (\<lambda>(s1, out1).
     rbind (if ev_read e
            then rbind (receive_message got (echo_recv_buf s1)) (\<lambda>mesg.
                 echo_util_reply (socket_fd e) idle total_ticks fmt (s1\<lparr>echo_recv_buf := mesg\<rparr>))
            else Inr (s1, [])) (\<lambda>(s2, out2).
     Inr (if ev_fin e then s2\<lparr>util_peer := -1\<rparr> else s2,
          out1 @ out2 @ (if ev_close e then [UtilShutdown (socket_fd e)] else []))))"

definition setup_echo_utilization :: "int \<Rightarrow> int \<Rightarrow> int \<Rightarrow> int" where
  "setup_echo_utilization open_ret bind_ret listen_ret =
     (if open_ret = -1 then -1 else if bind_ret \<noteq> 0 then bind_ret
      else if listen_ret \<noteq> 0 then listen_ret else 0)"

section \<open>The messages and the answer's length\<close>

lemma length_show_int_u64: "length (show_int (sint (w :: u64))) \<le> 20"
proof -
  have b: "- (2 ^ 63) \<le> sint w" "sint w < 2 ^ 63"
    using sint_greater_eq [of w] sint_less [of w] by simp_all
  then have "nat (sint w) < 10 ^ Suc 18" "nat (- sint w) < 10 ^ Suc 18" by simp_all
  then have "length (show_nat (nat (sint w))) \<le> 19" "length (show_nat (nat (- sint w))) \<le> 19"
    using length_show_nat_bound [of _ 18] by (metis Suc_numeral semiring_norm(2,5,8))+
  then show ?thesis by (simp add: show_int_def)
qed

lemma length_IDLE_FORMAT: "length (IDLE_FORMAT a b) \<le> 42"
  using length_show_int_u64 [of a] length_show_int_u64 [of b] by (simp add: IDLE_FORMAT_def)

lemma length_RESPONSE: "length content \<le> 42 \<Longrightarrow> length (RESPONSE (length content + 1) content) \<le> 200"
  using length_show_nat_bound [of "length content + 1" 2] by (simp add: RESPONSE_def newline_def)

lemma take_ascii_overwrite: "take (length m) (overwrite buf (ascii m)) = ascii m"
  by (simp add: take_overwrite)

lemma msg_match_nth:
  "msg_match msg lit \<Longrightarrow> i < length lit \<Longrightarrow> msg ! i = of_nat (of_char (lit ! i))"
  unfolding msg_match_def ascii_def by (metis length_map length_take min_less_iff_conj nth_map nth_take)

lemma send_text_ok:
  "length txt \<le> length (echo_send_buf s) \<Longrightarrow>
   \<exists>b. send_text socket txt s = Inr (s\<lparr>echo_send_buf := b\<rparr>, [UtilSend socket (ascii txt)]) \<and>
     length b = length (echo_send_buf s)"
  by (intro exI [of _ "overwrite (echo_send_buf s) (ascii txt)"])
    (simp add: send_text_def take_ascii_overwrite length_overwrite)

lemma send_printed_ok:
  assumes "length txt \<le> 200" "length (echo_send_buf s) = 4096"
  shows "\<exists>b. send_printed socket txt s = Inr (s\<lparr>echo_send_buf := b\<rparr>, [UtilSend socket (ascii txt)]) \<and>
     length b = 4096"
proof -
  have eq: "take 0xfff (ascii txt) = ascii txt" using assms(1) by simp
  have "take (length txt) (overwrite (echo_send_buf s) (ascii txt @ [0])) = ascii txt"
    by (simp add: overwrite_def)
  with assms show ?thesis
    by (intro exI [of _ "overwrite (echo_send_buf s) (ascii txt @ [0])"])
      (simp add: send_printed_def eq length_overwrite)
qed

section \<open>Properties\<close>

text \<open>
  Property C34. The two versions of the protocol agree: on the same message, with the send port
  a page long, the version on the socket server sends the same answers and takes the same
  measurement and shutdown actions as the version on the stack, and no copy leaves the port.
\<close>

theorem util_versions_agree:
  assumes "length (echo_send_buf s) = 4096"
  shows "\<exists>b. echo_util_reply socket idle total_ticks fmt s =
      Inr (s\<lparr>echo_send_buf := b\<rparr>, util_reply socket idle total_ticks fmt (echo_recv_buf s)) \<and> length b = 4096"
proof -
  have short: "length OK_READY \<le> 4096" "length OK \<le> 4096"
    by (simp_all add: OK_READY_def OK_def newline_def)
  note texts = send_text_ok [of OK_READY s socket] send_text_ok [of OK s socket]
  have printed: "length (RESPONSE (length (IDLE_FORMAT idle total_ticks) + 1) (IDLE_FORMAT idle total_ticks)) \<le> 200"
    by (rule length_RESPONSE [OF length_IDLE_FORMAT])
  obtain b where b: "send_printed socket (RESPONSE (length (IDLE_FORMAT idle total_ticks) + 1)
      (IDLE_FORMAT idle total_ticks)) s = Inr (s\<lparr>echo_send_buf := b\<rparr>,
      [UtilSend socket (ascii (RESPONSE (length (IDLE_FORMAT idle total_ticks) + 1) (IDLE_FORMAT idle total_ticks)))])"
    "length b = 4096" using send_printed_ok [OF printed assms] by blast
  consider "msg_match (echo_recv_buf s) HELLO" | "\<not> msg_match (echo_recv_buf s) HELLO" "msg_match (echo_recv_buf s) LOAD"
    | "\<not> msg_match (echo_recv_buf s) HELLO" "\<not> msg_match (echo_recv_buf s) LOAD" "msg_match (echo_recv_buf s) SETUP"
    | "\<not> msg_match (echo_recv_buf s) HELLO" "\<not> msg_match (echo_recv_buf s) LOAD"
      "\<not> msg_match (echo_recv_buf s) SETUP" by blast
  then show ?thesis
  proof cases
    case 1
    with texts short assms show ?thesis by (simp add: echo_util_reply_def util_reply_def)
  next
    case 2
    with texts short assms show ?thesis by (simp add: echo_util_reply_def util_reply_def)
  next
    case 3
    with texts short assms show ?thesis by (simp add: echo_util_reply_def util_reply_def)
  next
    case 4
    show ?thesis
    proof (cases "fmt \<and> \<not> msg_match (echo_recv_buf s) START \<and> msg_match (echo_recv_buf s) STOP")
      case True
      with 4 b show ?thesis by (intro exI [of _ b]) (simp add: echo_util_reply_def util_reply_def Let_def)
    next
      case False
      with 4 assms show ?thesis
        by (intro exI [of _ "echo_send_buf s"]) (auto simp: echo_util_reply_def util_reply_def)
    qed
  qed
qed

definition idle_util :: util_state where
  "idle_util = \<lparr>util_peer = 3, echo_recv_buf = ascii HELLO @ replicate 4090 0, echo_send_buf = replicate 4096 0\<rparr>"

theorem util_versions_agree_witness:
  "\<exists>b. echo_util_reply 3 0 0 True idle_util = Inr (idle_util\<lparr>echo_send_buf := b\<rparr>, [UtilSend 3 (ascii OK_READY)])"
  using util_versions_agree [of idle_util 3 0 0 True]
  by (auto simp: idle_util_def util_reply_def msg_match_def)

text \<open>
  The session the file documents: whatever the buffer held, the six messages of a
  client are told apart and get the documented answers, and the answer to STOP announces
  exactly the length of the content that follows.
\<close>

theorem util_session:
  "map (\<lambda>m. util_reply s idle total_ticks True (overwrite buf (ascii m))) [HELLO, LOAD, SETUP, START, STOP, QUIT] =
   [[UtilSend s (ascii OK_READY)], [UtilSend s (ascii OK)], [UtilSend s (ascii OK)], [IdleStart],
    [IdleStop, UtilSend s (ascii (''220 VALID DATA (Data to follow)'' @ newline @ ''Content-length: '' @
       show_nat (length (IDLE_FORMAT idle total_ticks @ newline)) @ newline @ IDLE_FORMAT idle total_ticks @ newline)),
     UtilShutdown s], []]"
proof -
  have start: "overwrite buf (ascii m) ! i = of_nat (of_char (m ! i))" if "i < length m" for m i
    using that by (simp add: overwrite_def nth_append ascii_def)
  have self: "msg_match (overwrite buf (ascii m)) m" for m by (simp add: msg_match_def take_ascii_overwrite)
  have no: "\<not> msg_match (overwrite buf (ascii m)) lit"
    if "i < length m" "i < length lit" "(of_nat (of_char (m ! i)) :: u8) \<noteq> of_nat (of_char (lit ! i))" for m lit i
    using that start [of i m] msg_match_nth [of "overwrite buf (ascii m)" lit i] by metis
  note lits = HELLO_def LOAD_def SETUP_def START_def STOP_def QUIT_def newline_def
  have ne0: "\<not> msg_match (overwrite buf (ascii LOAD)) HELLO"
    "\<not> msg_match (overwrite buf (ascii SETUP)) HELLO"
    "\<not> msg_match (overwrite buf (ascii SETUP)) LOAD"
    "\<not> msg_match (overwrite buf (ascii START)) HELLO"
    "\<not> msg_match (overwrite buf (ascii START)) LOAD"
    "\<not> msg_match (overwrite buf (ascii STOP)) HELLO"
    "\<not> msg_match (overwrite buf (ascii STOP)) LOAD"
    "\<not> msg_match (overwrite buf (ascii QUIT)) HELLO"
    "\<not> msg_match (overwrite buf (ascii QUIT)) LOAD"
    "\<not> msg_match (overwrite buf (ascii QUIT)) SETUP"
    "\<not> msg_match (overwrite buf (ascii QUIT)) START"
    "\<not> msg_match (overwrite buf (ascii QUIT)) STOP"
    by (rule no [of 0]; simp add: lits)+
  have ne1: "\<not> msg_match (overwrite buf (ascii START)) SETUP"
    "\<not> msg_match (overwrite buf (ascii STOP)) SETUP"
    by (rule no [of 1]; simp add: lits)+
  have ne2: "\<not> msg_match (overwrite buf (ascii STOP)) START"
    by (rule no [of 2]; simp add: lits)
  show ?thesis by (simp add: util_reply_def self ne0 ne1 ne2 RESPONSE_def Let_def newline_def)
qed

text \<open>
  A receive that fails or finds nothing leaves the last message in the buffer, and
  the callback answers that message again: the error branch prints and goes on to the matching.
\<close>

theorem util_error_repeats:
  "handle_tcp_utiliz_notification \<lparr>util_conn = False, util_rd = True, util_close = False\<rparr> s util None
     idle total_ticks True (overwrite buf (ascii HELLO)) = Inr (overwrite buf (ascii HELLO), [UtilSend s (ascii OK_READY)])"
  by (simp add: handle_tcp_utiliz_notification_def receive_message_def util_reply_def msg_match_def
      take_ascii_overwrite)

end
