(* ===== verification/Echo_Async.thy ===== *)
theory Echo_Async
  imports Utilization "HOL-Library.Multiset"
begin

text \<open>
  \<^verbatim>\<open>apps/picotcp_tcp_echo/components/Echo/src\<close>: \<^verbatim>\<open>echo.c\<close>, \<^verbatim>\<open>tcp_echo_socket.c\<close>,
  \<^verbatim>\<open>udp_echo_socket.c\<close> and \<^verbatim>\<open>tuning_params.h\<close>. The component echoes TCP and UDP traffic through
  two queues of message buffers it shares with the socket server. A message is its index in the list of all
  messages allocated so far. A queue of the virtqueue library is the list of the
  messages the component gave to it and has not got back; giving one fails when the
  queue's 1024 places are taken. The server's answers and events are arguments. The identifiers that
  the code prints are left out.
\<close>

definition NUM_UDP_BUFS :: nat where "NUM_UDP_BUFS = 510"

definition NUM_TCP_BUFS :: nat where "NUM_TCP_BUFS = 510"

definition TCP_READ_SIZE :: int where "TCP_READ_SIZE = 1400"

definition UDP_READ_SIZE :: int where "UDP_READ_SIZE = 1400"

definition PICOTCP_SOCKET_ASYNC_QUEUE_LEN :: nat where "PICOTCP_SOCKET_ASYNC_QUEUE_LEN = 1024"

definition TCP_SOCKETS_ASYNC_ID :: nat where "TCP_SOCKETS_ASYNC_ID = 1"

definition UDP_SOCKETS_ASYNC_ID :: nat where "UDP_SOCKETS_ASYNC_ID = 2"

record tx_msg_t =
  total_len :: int
  done_len :: int
  msg_fd :: int
  client_cookie :: nat

record echo_async =
  msgs :: "tx_msg_t list"
  rx_virtqueue :: "nat list"
  tx_virtqueue :: "nat list"
  num_rx_bufs :: nat
  rx_buf_pool :: "nat option list"
  socket_in :: int
  tcp_echo_client :: int
  udp_socket :: int
  utiliz_socket :: int
  util :: util_state

section \<open>Giving a message away\<close>

definition add_available_rx :: "nat \<Rightarrow> echo_async \<Rightarrow> echo_async result" where
  "add_available_rx m s =
     (if length (rx_virtqueue s) < PICOTCP_SOCKET_ASYNC_QUEUE_LEN
      then Inr (s\<lparr>rx_virtqueue := rx_virtqueue s @ [m]\<rparr>) else Inl FatalLog)"

definition add_available_tx :: "nat \<Rightarrow> echo_async \<Rightarrow> echo_async result" where
  "add_available_tx m s =
     (if length (tx_virtqueue s) < PICOTCP_SOCKET_ASYNC_QUEUE_LEN
      then Inr (s\<lparr>tx_virtqueue := tx_virtqueue s @ [m]\<rparr>) else Inl FatalLog)"

definition store_msg :: "nat \<Rightarrow> tx_msg_t \<Rightarrow> echo_async \<Rightarrow> echo_async" where
  "store_msg m msg s = s\<lparr>msgs := (msgs s)[m := msg]\<rparr>"

definition pool_msg :: "nat \<Rightarrow> echo_async \<Rightarrow> echo_async result" where
  "pool_msg m s =
     rbind (array_write (rx_buf_pool s) (num_rx_bufs s) (Some m)) (\<lambda>pool.
     Inr (s\<lparr>rx_buf_pool := pool, num_rx_bufs := num_rx_bufs s + 1\<rparr>))"

section \<open>TCP\<close>

definition tcp_socket_handle_async_received :: "nat \<Rightarrow> echo_async \<Rightarrow> echo_async result" where
  "tcp_socket_handle_async_received m s =
     rbind (array_read (msgs s) m) (\<lambda>msg.
     if msg_fd msg \<noteq> tcp_echo_client s \<and> tcp_echo_client s = -1 then pool_msg m s
     else let msg1 = (if msg_fd msg \<noteq> tcp_echo_client s
                      then msg\<lparr>msg_fd := tcp_echo_client s, done_len := -1\<rparr> else msg) in
       if done_len msg1 = -1 \<or> done_len msg1 = 0
       then add_available_rx m (store_msg m (msg1\<lparr>total_len := TCP_READ_SIZE, done_len := 0\<rparr>) s)
       else add_available_tx m (store_msg m (msg1\<lparr>total_len := done_len msg1, done_len := 0\<rparr>) s))"

definition tcp_socket_handle_async_sent :: "nat \<Rightarrow> echo_async \<Rightarrow> echo_async result" where
  "tcp_socket_handle_async_sent m s0 =
     rbind (array_read (msgs s0) m) (\<lambda>msg0.
     let msg = msg0\<lparr>total_len := TCP_READ_SIZE, done_len := 0\<rparr>; s = store_msg m msg s0 in
     if msg_fd msg \<noteq> tcp_echo_client s
     then if tcp_echo_client s = -1 then pool_msg m s
          else add_available_rx m (store_msg m (msg\<lparr>msg_fd := tcp_echo_client s\<rparr>) s)
     else add_available_rx m s)"

text \<open>The loop that gives the pooled messages to the server on a connection.\<close>

function give_pooled :: "echo_async \<Rightarrow> echo_async result" where
  "give_pooled s =
     (if num_rx_bufs s > 0
      then rbind (array_read (rx_buf_pool s) (num_rx_bufs s - 1)) (\<lambda>p.
           case p of None \<Rightarrow> Inl NullDereference
           | Some m \<Rightarrow>
               rbind (array_read (msgs s) m) (\<lambda>buf.
               if length (rx_virtqueue s) < PICOTCP_SOCKET_ASYNC_QUEUE_LEN
               then give_pooled (s\<lparr>num_rx_bufs := num_rx_bufs s - 1,
                      msgs := (msgs s)[m := buf\<lparr>total_len := TCP_READ_SIZE, done_len := 0,
                                          msg_fd := tcp_echo_client s\<rparr>],
                      rx_virtqueue := rx_virtqueue s @ [m]\<rparr>)
               else Inl FatalLog))
      else Inr s)"
  by pat_completeness auto
termination by (relation "measure num_rx_bufs") auto

declare give_pooled.simps [simp del]

datatype echo_call = EchoShutdown int | EchoClose int | EchoUtil util_action

record polled =
  poll_event :: picoserver_event
  poll_async_ret :: int
  poll_message :: "bytes option"
  poll_idle :: u64
  poll_total :: u64
  poll_fmt :: bool

definition handle_tcp_echo_notification ::
  "polled \<Rightarrow> echo_async \<Rightarrow> (echo_async \<times> echo_call list) result" where
  "handle_tcp_echo_notification p s0 =
     (let e = poll_event p in
      rbind (if ev_conn e
             then if peer_result e = -1 then Inl FatalLog
                  else if poll_async_ret p \<noteq> 0 then Inl FatalLog
                  else give_pooled (s0\<lparr>tcp_echo_client := peer_socket e\<rparr>)
             else Inr s0) (\<lambda>s1.
      let out1 = (if ev_close e then [EchoShutdown (socket_fd e)] else []);
          out2 = (if ev_fin e then [EchoClose (tcp_echo_client s1)] else []);
          s2 = (if ev_fin e then s1\<lparr>tcp_echo_client := -1\<rparr> else s1) in
      Inr (s2, out1 @ out2)))"

text \<open>
  The set-up: the results of the calls to the server, then one entry per buffer that tells
  whether its allocation succeeded.
\<close>

fun alloc_tcp_bufs :: "bool list \<Rightarrow> echo_async \<Rightarrow> echo_async result" where
  "alloc_tcp_bufs [] s = Inr s"
| "alloc_tcp_bufs (ok # oks) s =
     (if \<not> ok then Inl FatalLog
      else rbind (pool_msg (length (msgs s)) s) (\<lambda>s'.
           alloc_tcp_bufs oks (s'\<lparr>msgs := msgs s' @ [\<lparr>total_len = 0, done_len = 0, msg_fd = -1,
             client_cookie = TCP_SOCKETS_ASYNC_ID\<rparr>]\<rparr>)))"

definition setup_tcp_echo_socket ::
  "int \<Rightarrow> int \<Rightarrow> int \<Rightarrow> int \<Rightarrow> (nat \<Rightarrow> bool) \<Rightarrow> echo_async \<Rightarrow> echo_async result" where
  "setup_tcp_echo_socket open_ret async_ret bind_ret listen_ret alloc s =
     (if open_ret = -1 then Inl FatalLog
      else if async_ret \<noteq> 0 then Inl FatalLog
      else if bind_ret \<noteq> 0 then Inl FatalLog
      else if listen_ret \<noteq> 0 then Inl FatalLog
      else alloc_tcp_bufs (map alloc [0..<NUM_TCP_BUFS]) (s\<lparr>socket_in := open_ret\<rparr>))"

section \<open>UDP\<close>

definition udp_socket_handle_async_received :: "nat \<Rightarrow> echo_async \<Rightarrow> echo_async result" where
  "udp_socket_handle_async_received m s =
     rbind (array_read (msgs s) m) (\<lambda>msg.
     if done_len msg = -1 \<or> done_len msg = 0
     then add_available_rx m (store_msg m (msg\<lparr>total_len := UDP_READ_SIZE, done_len := 0\<rparr>) s)
     else add_available_tx m (store_msg m (msg\<lparr>total_len := done_len msg, done_len := 0\<rparr>) s))"

definition udp_socket_handle_async_sent :: "nat \<Rightarrow> echo_async \<Rightarrow> echo_async result" where
  "udp_socket_handle_async_sent m s =
     rbind (array_read (msgs s) m) (\<lambda>msg.
     add_available_rx m (store_msg m (msg\<lparr>total_len := UDP_READ_SIZE, done_len := 0\<rparr>) s))"

fun alloc_udp_bufs :: "bool list \<Rightarrow> echo_async \<Rightarrow> echo_async result" where
  "alloc_udp_bufs [] s = Inr s"
| "alloc_udp_bufs (ok # oks) s =
     (if \<not> ok then Inl FatalLog
      else rbind (add_available_rx (length (msgs s)) s) (\<lambda>s'.
           alloc_udp_bufs oks (s'\<lparr>msgs := msgs s' @ [\<lparr>total_len = UDP_READ_SIZE, done_len = 0,
             msg_fd = udp_socket s, client_cookie = UDP_SOCKETS_ASYNC_ID\<rparr>]\<rparr>)))"

definition setup_udp_echo_socket ::
  "int \<Rightarrow> int \<Rightarrow> int \<Rightarrow> (nat \<Rightarrow> bool) \<Rightarrow> echo_async \<Rightarrow> echo_async result" where
  "setup_udp_echo_socket open_ret async_ret bind_ret alloc s =
     (if open_ret = -1 then Inl FatalLog
      else if async_ret \<noteq> 0 then Inl FatalLog
      else if bind_ret \<noteq> 0 then Inl FatalLog
      else alloc_udp_bufs (map alloc [0..<NUM_UDP_BUFS - 1]) (s\<lparr>udp_socket := open_ret\<rparr>))"

section \<open>The component\<close>

text \<open>One message from a queue: whether it has a used buffer, whether that can be gathered, and the message in it.\<close>

definition get_msg_from_queue :: "bool \<Rightarrow> int \<Rightarrow> 'm \<Rightarrow> 'm option result" where
  "get_msg_from_queue used gathered buf =
     (if \<not> used then Inr None else if gathered = 0 then Inl FatalLog else Inr (Some buf))"

text \<open>
  \<open>async_event\<close>: the messages the two queues return, in order. A message with an unknown
  identifier is only reported. The loops end when a queue has nothing to return.
\<close>

definition async_sent :: "nat \<Rightarrow> echo_async \<Rightarrow> echo_async result" where
  "async_sent m s0 =
     (let s = s0\<lparr>tx_virtqueue := remove1 m (tx_virtqueue s0)\<rparr> in
      rbind (array_read (msgs s) m) (\<lambda>msg.
      if client_cookie msg = UDP_SOCKETS_ASYNC_ID then udp_socket_handle_async_sent m s
      else if client_cookie msg = TCP_SOCKETS_ASYNC_ID then tcp_socket_handle_async_sent m s
      else Inr s))"

definition async_received :: "nat \<Rightarrow> echo_async \<Rightarrow> echo_async result" where
  "async_received m s0 =
     (let s = s0\<lparr>rx_virtqueue := remove1 m (rx_virtqueue s0)\<rparr> in
      rbind (array_read (msgs s) m) (\<lambda>msg.
      if client_cookie msg = UDP_SOCKETS_ASYNC_ID then udp_socket_handle_async_received m s
      else if client_cookie msg = TCP_SOCKETS_ASYNC_ID then tcp_socket_handle_async_received m s
      else Inr s))"

definition async_event :: "nat list \<Rightarrow> nat list \<Rightarrow> echo_async \<Rightarrow> echo_async result" where
  "async_event sent received s = rbind (rfold async_sent sent s) (rfold async_received received)"

text \<open>One event for a socket that has a handler.\<close>

definition handle_known :: "polled \<Rightarrow> echo_async \<Rightarrow> (echo_async \<times> echo_call list) result" where
  "handle_known p s =
     (let socket = socket_fd (poll_event p) in
      if socket = utiliz_socket s \<or> socket = util_peer (util s)
      then rbind (echo_utiliz_notification (poll_event p) (poll_message p) (poll_idle p) (poll_total p)
                    (poll_fmt p) (util s)) (\<lambda>(u, out). Inr (s\<lparr>util := u\<rparr>, map EchoUtil out))
      else handle_tcp_echo_notification p s)"

definition known_socket :: "int \<Rightarrow> echo_async \<Rightarrow> bool" where
  "known_socket socket s \<longleftrightarrow>
     socket = utiliz_socket s \<or> socket = util_peer (util s) \<or>
     socket = socket_in s \<or> socket = tcp_echo_client s"

text \<open>
  The loop over the events. After an event that has a handler the code polls twice: what the
  first of the two polls returns is overwritten.
\<close>

function handle_picoserver_notification ::
  "polled list \<Rightarrow> echo_async \<Rightarrow> (echo_async \<times> echo_call list) result" where
  "handle_picoserver_notification [] s = Inr (s, [])"
| "handle_picoserver_notification (p # ps) s =
     (if event_live (poll_event p)
      then if known_socket (socket_fd (poll_event p)) s
           then rbind (handle_known p s) (\<lambda>(s', out).
                rbind (handle_picoserver_notification (tl ps) s') (\<lambda>(s'', out'). Inr (s'', out @ out')))
           else handle_picoserver_notification ps s
      else Inr (s, []))"
  by pat_completeness auto
termination by (relation "measure (\<lambda>(ps, s). length ps)") auto

text \<open>The start-up: an error of a queue is only logged, and the handlers are registered in any case.\<close>

datatype setup_action = LogError string | RegisterHandler string | NotifyQueue

definition setup_echo_server :: "int \<Rightarrow> int \<Rightarrow> setup_action list" where
  "setup_echo_server tx_error rx_error =
     (if tx_error \<noteq> 0 then [LogError ''Unable to initialise TX virtqueue''] else []) @
     (if rx_error \<noteq> 0 then [LogError ''Unable to initialise RX virtqueue''] else []) @
     [RegisterHandler ''async_notification'', RegisterHandler ''sync_notification'', NotifyQueue]"

definition echo_start :: echo_async where
  "echo_start = \<lparr>msgs = [], rx_virtqueue = [], tx_virtqueue = [], num_rx_bufs = 0,
     rx_buf_pool = replicate NUM_TCP_BUFS None, socket_in = 0, tcp_echo_client = 0, udp_socket = 0,
     utiliz_socket = 0, util = \<lparr>util_peer = -1, echo_recv_buf = replicate 4096 0,
     echo_send_buf = replicate 4096 0\<rparr>\<rparr>"

section \<open>Where the messages are\<close>

definition cookies :: "echo_async \<Rightarrow> nat list" where
  "cookies s = map client_cookie (msgs s)"

definition pooled :: "echo_async \<Rightarrow> nat option list" where
  "pooled s = take (num_rx_bufs s) (rx_buf_pool s)"

definition tcp_ids :: "nat list \<Rightarrow> nat list" where
  "tcp_ids cs = filter (\<lambda>i. cs ! i = 1) [0..<length cs]"

text \<open>
  With \<open>held\<close> the messages a handler has in hand, every message is in one place, only TCP
  messages are pooled, and there are at most 510 of those and 1019 in all.
\<close>

definition async_inv :: "nat multiset \<Rightarrow> echo_async \<Rightarrow> bool" where
  "async_inv held s \<longleftrightarrow>
     length (rx_buf_pool s) = 510 \<and> num_rx_bufs s \<le> 510 \<and> length (msgs s) \<le> 1019 \<and>
     length (tcp_ids (cookies s)) \<le> 510 \<and> list_all (\<lambda>c. c = 1 \<or> c = 2) (cookies s) \<and>
     list_all (\<lambda>p. \<exists>m. p = Some m \<and> cookies s ! m = 1) (pooled s) \<and>
     mset (pooled s) + image_mset Some (mset (rx_virtqueue s) + mset (tx_virtqueue s) + held) =
       mset (map Some [0..<length (msgs s)])"

lemma async_sizes:
  assumes "async_inv held s"
  shows "num_rx_bufs s + length (rx_virtqueue s) + length (tx_virtqueue s) + size held = length (msgs s)"
proof -
  have "mset (pooled s) + image_mset Some (mset (rx_virtqueue s) + mset (tx_virtqueue s) + held) =
      mset (map Some [0..<length (msgs s)])" using assms by (simp add: async_inv_def)
  from arg_cong [OF this, of size]
  have "length (pooled s) + (length (rx_virtqueue s) + length (tx_virtqueue s) + size held) = length (msgs s)"
    by simp
  moreover have "length (pooled s) = num_rx_bufs s" using assms by (simp add: async_inv_def pooled_def)
  ultimately show ?thesis by simp
qed

lemma held_bound: "async_inv (add_mset m held) s \<Longrightarrow> m < length (msgs s)"
proof -
  assume "async_inv (add_mset m held) s"
  then have "mset (pooled s) + image_mset Some (mset (rx_virtqueue s) + mset (tx_virtqueue s) + add_mset m held) =
      mset (map Some [0..<length (msgs s)])" by (simp add: async_inv_def)
  then have "Some m \<in># mset (map Some [0..<length (msgs s)])"
    by (metis image_mset_add_mset union_iff union_mset_add_mset_right union_single_eq_member)
  then show ?thesis by auto
qed

lemma cookies_store [simp]:
  "client_cookie msg = client_cookie (msgs s ! m) \<Longrightarrow> cookies (store_msg m msg s) = cookies s"
  by (metis cookies_def list_update_id map_update store_msg_def echo_async.select_convs(1) echo_async.surjective
      echo_async.update_convs(1))

lemma store_msg_simps [simp]:
  "pooled (store_msg m msg s) = pooled s" "rx_virtqueue (store_msg m msg s) = rx_virtqueue s"
  "tx_virtqueue (store_msg m msg s) = tx_virtqueue s" "length (msgs (store_msg m msg s)) = length (msgs s)"
  "num_rx_bufs (store_msg m msg s) = num_rx_bufs s" "rx_buf_pool (store_msg m msg s) = rx_buf_pool s"
  "tcp_echo_client (store_msg m msg s) = tcp_echo_client s"
  by (simp_all add: store_msg_def pooled_def)

lemma async_inv_store:
  "async_inv held s \<Longrightarrow> client_cookie msg = client_cookie (msgs s ! m) \<Longrightarrow> async_inv held (store_msg m msg s)"
  by (simp add: async_inv_def)

lemma pool_room:
  assumes "async_inv (add_mset m held) s" "cookies s ! m = 1"
  shows "num_rx_bufs s < 510"
proof -
  let ?P = "\<lambda>p. cookies s ! the p = 1"
  have sum: "mset (pooled s) + image_mset Some (mset (rx_virtqueue s) + mset (tx_virtqueue s) + add_mset m held) =
      mset (map Some [0..<length (msgs s)])" using assms(1) by (simp add: async_inv_def)
  have all: "filter_mset ?P (mset (pooled s)) = mset (pooled s)"
  proof -
    have "filter ?P (pooled s) = pooled s"
      using assms(1) by (auto simp: async_inv_def list_all_iff filter_id_conv)
    then show ?thesis by (simp flip: mset_filter)
  qed
  have "filter ?P (map Some [0..<length (msgs s)]) = map Some (tcp_ids (cookies s))"
    by (simp add: tcp_ids_def cookies_def filter_map o_def)
  then have "filter_mset ?P (mset (map Some [0..<length (msgs s)])) = mset (map Some (tcp_ids (cookies s)))"
    by (metis mset_filter)
  then have "filter_mset ?P (mset (pooled s) + image_mset Some (mset (rx_virtqueue s) + mset (tx_virtqueue s) +
      add_mset m held)) = mset (map Some (tcp_ids (cookies s)))" by (simp only: sum)
  then have "mset (pooled s) + filter_mset ?P (image_mset Some (mset (rx_virtqueue s) + mset (tx_virtqueue s) +
      add_mset m held)) = mset (map Some (tcp_ids (cookies s)))" by (simp only: filter_union_mset all)
  moreover have "Some m \<in># filter_mset ?P (image_mset Some (mset (rx_virtqueue s) + mset (tx_virtqueue s) +
      add_mset m held))" using assms(2) by simp
  then obtain X where "filter_mset ?P (image_mset Some (mset (rx_virtqueue s) + mset (tx_virtqueue s) +
      add_mset m held)) = add_mset (Some m) X" by (blast dest: multi_member_split)
  ultimately have "mset (pooled s) + add_mset (Some m) X = mset (map Some (tcp_ids (cookies s)))" by simp
  from arg_cong [OF this, of size] have "length (pooled s) < length (tcp_ids (cookies s))" by simp
  with assms(1) show ?thesis by (simp add: async_inv_def pooled_def)
qed

lemma pool_msg_ok:
  assumes "async_inv (add_mset m held) s" "cookies s ! m = 1"
  shows "\<exists>s'. pool_msg m s = Inr s' \<and> async_inv held s'"
proof -
  have n: "num_rx_bufs s < length (rx_buf_pool s)"
    using pool_room [OF assms] assms(1) by (simp add: async_inv_def)
  let ?s = "s\<lparr>rx_buf_pool := (rx_buf_pool s)[num_rx_bufs s := Some m], num_rx_bufs := num_rx_bufs s + 1\<rparr>"
  have "pool_msg m s = Inr ?s" using n by (simp add: pool_msg_def)
  moreover have "pooled ?s = pooled s @ [Some m]" using n by (simp add: pooled_def take_Suc_update)
  ultimately show ?thesis using assms n by (simp add: async_inv_def cookies_def)
qed

lemma add_rx_ok:
  assumes "async_inv (add_mset m held) s"
  shows "\<exists>s'. add_available_rx m s = Inr s' \<and> async_inv held s'"
proof -
  have "length (rx_virtqueue s) < 1024" using async_sizes [OF assms] assms by (simp add: async_inv_def)
  with assms show ?thesis
    by (simp add: add_available_rx_def PICOTCP_SOCKET_ASYNC_QUEUE_LEN_def async_inv_def cookies_def pooled_def)
qed

lemma add_tx_ok:
  assumes "async_inv (add_mset m held) s"
  shows "\<exists>s'. add_available_tx m s = Inr s' \<and> async_inv held s'"
proof -
  have "length (tx_virtqueue s) < 1024" using async_sizes [OF assms] assms by (simp add: async_inv_def)
  with assms show ?thesis
    by (simp add: add_available_tx_def PICOTCP_SOCKET_ASYNC_QUEUE_LEN_def async_inv_def cookies_def pooled_def)
qed

lemma tcp_received_ok:
  assumes "async_inv (add_mset m held) s" "cookies s ! m = 1"
  shows "\<exists>s'. tcp_socket_handle_async_received m s = Inr s' \<and> async_inv held s'"
proof -
  have m: "m < length (msgs s)" using held_bound [OF assms(1)] .
  have put: "\<exists>s'. add_available_rx m (store_msg m msg s) = Inr s' \<and> async_inv held s'"
      "\<exists>s'. add_available_tx m (store_msg m msg s) = Inr s' \<and> async_inv held s'"
    if "client_cookie msg = client_cookie (msgs s ! m)" for msg
    using add_rx_ok add_tx_ok async_inv_store [OF assms(1) that] by blast+
  show ?thesis
    using m put pool_msg_ok [OF assms] by (auto simp: tcp_socket_handle_async_received_def Let_def)
qed

lemma tcp_sent_ok:
  assumes "async_inv (add_mset m held) s" "cookies s ! m = 1"
  shows "\<exists>s'. tcp_socket_handle_async_sent m s = Inr s' \<and> async_inv held s'"
proof -
  have m: "m < length (msgs s)" using held_bound [OF assms(1)] .
  let ?msg = "(msgs s ! m)\<lparr>total_len := TCP_READ_SIZE, done_len := 0\<rparr>"
  let ?s = "store_msg m ?msg s"
  have inv: "async_inv (add_mset m held) ?s" by (rule async_inv_store [OF assms(1)]) simp
  have nth: "msgs ?s ! m = ?msg" using m by (simp add: store_msg_def)
  have "async_inv (add_mset m held) (store_msg m (?msg\<lparr>msg_fd := k\<rparr>) ?s)" for k
    by (rule async_inv_store [OF inv]) (simp add: nth)
  moreover have "cookies ?s ! m = 1" using assms(2) by simp
  ultimately show ?thesis
    using m add_rx_ok [OF inv] add_rx_ok pool_msg_ok [OF inv]
    by (auto simp: tcp_socket_handle_async_sent_def Let_def)
qed

lemma udp_received_ok:
  assumes "async_inv (add_mset m held) s"
  shows "\<exists>s'. udp_socket_handle_async_received m s = Inr s' \<and> async_inv held s'"
proof -
  have m: "m < length (msgs s)" using held_bound [OF assms(1)] .
  have put: "\<exists>s'. add_available_rx m (store_msg m msg s) = Inr s' \<and> async_inv held s'"
      "\<exists>s'. add_available_tx m (store_msg m msg s) = Inr s' \<and> async_inv held s'"
    if "client_cookie msg = client_cookie (msgs s ! m)" for msg
    using add_rx_ok add_tx_ok async_inv_store [OF assms that] by blast+
  with m show ?thesis by (simp add: udp_socket_handle_async_received_def)
qed

lemma udp_sent_ok:
  assumes "async_inv (add_mset m held) s"
  shows "\<exists>s'. udp_socket_handle_async_sent m s = Inr s' \<and> async_inv held s'"
proof -
  have m: "m < length (msgs s)" using held_bound [OF assms] .
  have "async_inv (add_mset m held) (store_msg m ((msgs s ! m)\<lparr>total_len := UDP_READ_SIZE, done_len := 0\<rparr>) s)"
    by (rule async_inv_store [OF assms]) simp
  from add_rx_ok [OF this] m show ?thesis by (simp add: udp_socket_handle_async_sent_def)
qed

section \<open>The component's steps keep every message\<close>

lemma give_pooled_ok:
  "async_inv held s \<Longrightarrow> \<exists>s'. give_pooled s = Inr s' \<and> async_inv held s' \<and> num_rx_bufs s' = 0"
proof (induction s rule: give_pooled.induct)
  case (1 s)
  show ?case
  proof (cases "num_rx_bufs s > 0")
    case False
    with "1.prems" show ?thesis by (simp add: give_pooled.simps [of s])
  next
    case True
    let ?n = "num_rx_bufs s - 1"
    have len: "length (rx_buf_pool s) = 510" "num_rx_bufs s \<le> 510" using "1.prems" by (simp_all add: async_inv_def)
    have pool: "pooled s = take ?n (rx_buf_pool s) @ [rx_buf_pool s ! ?n]"
      using take_last [OF True, of "rx_buf_pool s"] len by (simp add: pooled_def)
    then obtain m where m: "rx_buf_pool s ! ?n = Some m" using "1.prems" by (auto simp: async_inv_def)
    let ?s1 = "s\<lparr>num_rx_bufs := ?n, rx_virtqueue := rx_virtqueue s @ [m]\<rparr>"
    have "pooled ?s1 = take ?n (rx_buf_pool s)" by (simp add: pooled_def)
    then have inv1: "async_inv held ?s1"
      using "1.prems" pool m len by (auto simp: async_inv_def cookies_def)
    have "Some m \<in># mset (map Some [0..<length (msgs s)])"
      using "1.prems" pool m unfolding async_inv_def by (metis in_multiset_in_set list.set_intros(1) set_append Un_iff union_iff)
    then have mlen: "m < length (msgs s)" by auto
    have room: "length (rx_virtqueue s) < 1024"
      using async_sizes [OF "1.prems"] "1.prems" True by (simp add: async_inv_def)
    let ?buf = "(msgs s ! m)\<lparr>total_len := TCP_READ_SIZE, done_len := 0, msg_fd := tcp_echo_client s\<rparr>"
    let ?s2 = "s\<lparr>num_rx_bufs := ?n, msgs := (msgs s)[m := ?buf], rx_virtqueue := rx_virtqueue s @ [m]\<rparr>"
    have "async_inv held (store_msg m ?buf ?s1)" by (rule async_inv_store [OF inv1]) simp
    moreover have "store_msg m ?buf ?s1 = ?s2" by (cases s) (simp add: store_msg_def)
    ultimately have "async_inv held ?s2" by simp
    from "1.IH" [OF True _ this] have "\<exists>s'. give_pooled ?s2 = Inr s' \<and> async_inv held s' \<and> num_rx_bufs s' = 0"
      using room by (simp add: PICOTCP_SOCKET_ASYNC_QUEUE_LEN_def)
    moreover have "give_pooled s = give_pooled ?s2"
      using True m len mlen room by (simp add: give_pooled.simps [of s] PICOTCP_SOCKET_ASYNC_QUEUE_LEN_def)
    ultimately show ?thesis by simp
  qed
qed

lemma take_from_rx:
  "async_inv held s \<Longrightarrow> m \<in> set (rx_virtqueue s) \<Longrightarrow>
   async_inv (add_mset m held) (s\<lparr>rx_virtqueue := remove1 m (rx_virtqueue s)\<rparr>)"
  by (auto simp: async_inv_def cookies_def pooled_def image_mset_Diff dest!: multi_member_split simp flip: set_mset_mset)

lemma take_from_tx:
  "async_inv held s \<Longrightarrow> m \<in> set (tx_virtqueue s) \<Longrightarrow>
   async_inv (add_mset m held) (s\<lparr>tx_virtqueue := remove1 m (tx_virtqueue s)\<rparr>)"
  by (auto simp: async_inv_def cookies_def pooled_def image_mset_Diff dest!: multi_member_split simp flip: set_mset_mset)

lemma known_cookie:
  "async_inv held s \<Longrightarrow> m < length (msgs s) \<Longrightarrow>
   client_cookie (msgs s ! m) = cookies s ! m \<and> (cookies s ! m = 1 \<or> cookies s ! m = 2)"
  by (simp add: async_inv_def cookies_def list_all_length)

lemma async_received_ok:
  assumes "async_inv held s" "m \<in> set (rx_virtqueue s)"
  shows "\<exists>s'. async_received m s = Inr s' \<and> async_inv held s'"
proof -
  let ?s = "s\<lparr>rx_virtqueue := remove1 m (rx_virtqueue s)\<rparr>"
  note inv = take_from_rx [OF assms]
  have m: "m < length (msgs ?s)" using held_bound [OF inv] .
  show ?thesis
    using m known_cookie [OF inv m] tcp_received_ok [OF inv] udp_received_ok [OF inv]
    by (auto simp: async_received_def Let_def TCP_SOCKETS_ASYNC_ID_def UDP_SOCKETS_ASYNC_ID_def)
qed

lemma async_sent_ok:
  assumes "async_inv held s" "m \<in> set (tx_virtqueue s)"
  shows "\<exists>s'. async_sent m s = Inr s' \<and> async_inv held s'"
proof -
  let ?s = "s\<lparr>tx_virtqueue := remove1 m (tx_virtqueue s)\<rparr>"
  note inv = take_from_tx [OF assms]
  have m: "m < length (msgs ?s)" using held_bound [OF inv] .
  show ?thesis
    using m known_cookie [OF inv m] tcp_sent_ok [OF inv] udp_sent_ok [OF inv]
    by (auto simp: async_sent_def Let_def TCP_SOCKETS_ASYNC_ID_def UDP_SOCKETS_ASYNC_ID_def)
qed

lemma async_inv_sockets [simp]:
  "async_inv held (s\<lparr>tcp_echo_client := k\<rparr>) = async_inv held s"
  "async_inv held (s\<lparr>util := u\<rparr>) = async_inv held s"
  "async_inv held (s\<lparr>socket_in := k\<rparr>) = async_inv held s"
  "async_inv held (s\<lparr>udp_socket := k\<rparr>) = async_inv held s"
  by (simp_all add: async_inv_def cookies_def pooled_def)

lemma handle_tcp_echo_inv:
  assumes "handle_tcp_echo_notification p s = Inr (s', out)" "async_inv held s"
  shows "async_inv held s'"
proof -
  obtain s1 where s1: "(if ev_conn (poll_event p)
             then if peer_result (poll_event p) = -1 then Inl FatalLog
                  else if poll_async_ret p \<noteq> 0 then Inl FatalLog
                  else give_pooled (s\<lparr>tcp_echo_client := peer_socket (poll_event p)\<rparr>)
             else Inr s) = Inr s1"
    and s': "s' = (if ev_fin (poll_event p) then s1\<lparr>tcp_echo_client := -1\<rparr> else s1)"
    using assms(1) by (auto simp: handle_tcp_echo_notification_def Let_def succeeds)
  have "async_inv held s1"
    using s1 assms(2) give_pooled_ok [of held "s\<lparr>tcp_echo_client := peer_socket (poll_event p)\<rparr>"]
    by (auto split: if_splits)
  then show ?thesis by (simp add: s')
qed

lemma handle_known_inv:
  "handle_known p s = Inr (s', out) \<Longrightarrow> async_inv held s \<Longrightarrow> async_inv held s'"
  by (auto simp: handle_known_def Let_def succeeds split: if_splits dest: handle_tcp_echo_inv)

lemma handle_notification_inv:
  "handle_picoserver_notification ps s = Inr (s', out) \<Longrightarrow> async_inv held s \<Longrightarrow> async_inv held s'"
proof (induction ps s arbitrary: s' out rule: handle_picoserver_notification.induct)
  case (2 p ps s)
  then show ?case
    by (auto simp: succeeds split: if_splits dest: handle_known_inv)
qed simp

section \<open>The set-up\<close>

lemma tcp_ids_snoc: "tcp_ids (cs @ [c]) = tcp_ids cs @ (if c = 1 then [length cs] else [])"
  by (auto simp: tcp_ids_def nth_append intro: filter_cong)

lemma new_msg_inv:
  assumes "async_inv {#} s" "length (msgs s) < 1019" "client_cookie msg = 1 \<or> client_cookie msg = 2"
    "client_cookie msg = 1 \<Longrightarrow> length (tcp_ids (cookies s)) < 510"
  shows "async_inv {#length (msgs s)#} (s\<lparr>msgs := msgs s @ [msg]\<rparr>)"
proof -
  have "cookies s ! m = 1 \<Longrightarrow> m < length (msgs s) \<Longrightarrow> (cookies s @ [client_cookie msg]) ! m = 1" for m
    by (simp add: cookies_def nth_append)
  moreover have "m < length (msgs s)" if "Some m \<in> set (pooled s)" for m
  proof -
    have "Some m \<in># mset (map Some [0..<length (msgs s)])"
      using assms(1) that unfolding async_inv_def by (metis in_multiset_in_set union_iff)
    then show ?thesis by auto
  qed
  ultimately have "list_all (\<lambda>p. \<exists>m. p = Some m \<and> (cookies s @ [client_cookie msg]) ! m = 1) (pooled s)"
    using assms(1) by (fastforce simp: async_inv_def list_all_iff)
  then show ?thesis
    using assms by (auto simp: async_inv_def cookies_def pooled_def tcp_ids_snoc)
qed

lemma pool_msg_msgs:
  "pool_msg m s = Inr s' \<Longrightarrow> pool_msg m (s\<lparr>msgs := M\<rparr>) = Inr (s'\<lparr>msgs := M\<rparr>) \<and> msgs s' = msgs s"
  by (auto simp: pool_msg_def succeeds)

lemma add_rx_msgs:
  "add_available_rx m s = Inr s' \<Longrightarrow>
   add_available_rx m (s\<lparr>msgs := M\<rparr>) = Inr (s'\<lparr>msgs := M\<rparr>) \<and> msgs s' = msgs s"
  by (auto simp: add_available_rx_def split: if_splits)

lemma alloc_tcp_inv:
  "alloc_tcp_bufs oks s = Inr s' \<Longrightarrow> async_inv {#} s \<Longrightarrow> length (msgs s) + length oks \<le> 1019 \<Longrightarrow>
   length (tcp_ids (cookies s)) + length oks \<le> 510 \<Longrightarrow>
   async_inv {#} s' \<and> length (msgs s') = length (msgs s) + length oks \<and>
   length (tcp_ids (cookies s')) = length (tcp_ids (cookies s)) + length oks"
proof (induction oks arbitrary: s)
  case (Cons ok oks)
  let ?msg = "\<lparr>total_len = 0, done_len = 0, msg_fd = -1, client_cookie = TCP_SOCKETS_ASYNC_ID\<rparr>"
  from Cons.prems(1) obtain s1 where s1: "pool_msg (length (msgs s)) s = Inr s1"
      "alloc_tcp_bufs oks (s1\<lparr>msgs := msgs s1 @ [?msg]\<rparr>) = Inr s'"
    by (auto simp: succeeds split: if_splits)
  let ?s2 = "s1\<lparr>msgs := msgs s1 @ [?msg]\<rparr>"
  have "async_inv {#length (msgs s)#} (s\<lparr>msgs := msgs s @ [?msg]\<rparr>)"
    using Cons.prems by (intro new_msg_inv) (simp_all add: TCP_SOCKETS_ASYNC_ID_def)
  from pool_msg_ok [OF this] pool_msg_msgs [OF s1(1), of "msgs s @ [?msg]"] have inv: "async_inv {#} ?s2"
    by (auto simp: cookies_def nth_append TCP_SOCKETS_ASYNC_ID_def)
  have "length (tcp_ids (cookies ?s2)) = length (tcp_ids (cookies s)) + 1" "length (msgs ?s2) = length (msgs s) + 1"
    using pool_msg_msgs [OF s1(1)] by (simp_all add: cookies_def tcp_ids_snoc TCP_SOCKETS_ASYNC_ID_def)
  with Cons.IH [OF s1(2) inv] Cons.prems(3,4) show ?case by simp
qed simp

lemma alloc_udp_inv:
  "alloc_udp_bufs oks s = Inr s' \<Longrightarrow> async_inv {#} s \<Longrightarrow> length (msgs s) + length oks \<le> 1019 \<Longrightarrow>
   async_inv {#} s' \<and> length (msgs s') = length (msgs s) + length oks \<and>
   length (tcp_ids (cookies s')) = length (tcp_ids (cookies s))"
proof (induction oks arbitrary: s)
  case (Cons ok oks)
  let ?msg = "\<lparr>total_len = UDP_READ_SIZE, done_len = 0, msg_fd = udp_socket s, client_cookie = UDP_SOCKETS_ASYNC_ID\<rparr>"
  from Cons.prems(1) obtain s1 where s1: "add_available_rx (length (msgs s)) s = Inr s1"
      "alloc_udp_bufs oks (s1\<lparr>msgs := msgs s1 @ [?msg]\<rparr>) = Inr s'"
    by (auto simp: succeeds split: if_splits)
  let ?s2 = "s1\<lparr>msgs := msgs s1 @ [?msg]\<rparr>"
  have "async_inv {#length (msgs s)#} (s\<lparr>msgs := msgs s @ [?msg]\<rparr>)"
    using Cons.prems by (intro new_msg_inv) (simp_all add: UDP_SOCKETS_ASYNC_ID_def)
  from add_rx_ok [OF this] add_rx_msgs [OF s1(1), of "msgs s @ [?msg]"] have inv: "async_inv {#} ?s2"
    by auto
  have "length (tcp_ids (cookies ?s2)) = length (tcp_ids (cookies s))" "length (msgs ?s2) = length (msgs s) + 1"
    using add_rx_msgs [OF s1(1)] by (simp_all add: cookies_def tcp_ids_snoc UDP_SOCKETS_ASYNC_ID_def)
  with Cons.IH [OF s1(2) inv] Cons.prems(3) show ?case by simp
qed simp

lemma echo_start_inv: "async_inv {#} echo_start" "msgs echo_start = []"
  by (simp_all add: async_inv_def echo_start_def cookies_def pooled_def tcp_ids_def NUM_TCP_BUFS_def)

lemma setup_inv:
  assumes "setup_tcp_echo_socket o1 a1 b1 l1 alloc1 echo_start = Inr s1"
    and "setup_udp_echo_socket o2 a2 b2 alloc2 s1 = Inr s0"
  shows "async_inv {#} s0 \<and> length (msgs s0) = 1019"
proof -
  have "alloc_tcp_bufs (map alloc1 [0..<510]) (echo_start\<lparr>socket_in := o1\<rparr>) = Inr s1"
    using assms(1) by (simp add: setup_tcp_echo_socket_def NUM_TCP_BUFS_def split: if_splits)
  from alloc_tcp_inv [OF this] echo_start_inv have 1: "async_inv {#} s1" "length (msgs s1) = 510"
    by (simp_all add: cookies_def tcp_ids_def)
  have "alloc_udp_bufs (map alloc2 [0..<509]) (s1\<lparr>udp_socket := o2\<rparr>) = Inr s0"
    using assms(2) by (simp add: setup_udp_echo_socket_def NUM_UDP_BUFS_def split: if_splits)
  from alloc_udp_inv [OF this] 1 show ?thesis by simp
qed

lemma alloc_tcp_total:
  "async_inv {#} s \<Longrightarrow> length (msgs s) + length oks \<le> 1019 \<Longrightarrow> length (tcp_ids (cookies s)) + length oks \<le> 510 \<Longrightarrow>
   list_all (\<lambda>ok. ok) oks \<Longrightarrow> \<exists>s'. alloc_tcp_bufs oks s = Inr s'"
proof (induction oks arbitrary: s)
  case (Cons ok oks)
  let ?msg = "\<lparr>total_len = 0, done_len = 0, msg_fd = -1, client_cookie = TCP_SOCKETS_ASYNC_ID\<rparr>"
  have "async_inv {#length (msgs s)#} (s\<lparr>msgs := msgs s @ [?msg]\<rparr>)"
    using Cons.prems by (intro new_msg_inv) (simp_all add: TCP_SOCKETS_ASYNC_ID_def)
  from pool_msg_ok [OF this] obtain t where "pool_msg (length (msgs s)) (s\<lparr>msgs := msgs s @ [?msg]\<rparr>) = Inr t"
    by (auto simp: cookies_def nth_append TCP_SOCKETS_ASYNC_ID_def)
  then obtain s1 where s1: "pool_msg (length (msgs s)) s = Inr s1"
    by (auto simp: pool_msg_def succeeds array_write_eq_Inr)
  then have "alloc_tcp_bufs [ok] s = Inr (s1\<lparr>msgs := msgs s1 @ [?msg]\<rparr>)" using Cons.prems(4) by simp
  from alloc_tcp_inv [OF this Cons.prems(1)] Cons.prems(2,3) have
    "async_inv {#} (s1\<lparr>msgs := msgs s1 @ [?msg]\<rparr>)" "length (msgs (s1\<lparr>msgs := msgs s1 @ [?msg]\<rparr>)) = length (msgs s) + 1"
    "length (tcp_ids (cookies (s1\<lparr>msgs := msgs s1 @ [?msg]\<rparr>))) = length (tcp_ids (cookies s)) + 1" by simp_all
  from Cons.IH [OF this(1)] this(2,3) Cons.prems s1 show ?case by simp
qed simp

lemma alloc_udp_total:
  "async_inv {#} s \<Longrightarrow> length (msgs s) + length oks \<le> 1019 \<Longrightarrow> list_all (\<lambda>ok. ok) oks \<Longrightarrow>
   \<exists>s'. alloc_udp_bufs oks s = Inr s'"
proof (induction oks arbitrary: s)
  case (Cons ok oks)
  let ?msg = "\<lparr>total_len = UDP_READ_SIZE, done_len = 0, msg_fd = udp_socket s, client_cookie = UDP_SOCKETS_ASYNC_ID\<rparr>"
  have "async_inv {#length (msgs s)#} (s\<lparr>msgs := msgs s @ [?msg]\<rparr>)"
    using Cons.prems by (intro new_msg_inv) (simp_all add: UDP_SOCKETS_ASYNC_ID_def)
  from add_rx_ok [OF this] obtain t where "add_available_rx (length (msgs s)) (s\<lparr>msgs := msgs s @ [?msg]\<rparr>) = Inr t"
    by blast
  then obtain s1 where s1: "add_available_rx (length (msgs s)) s = Inr s1"
    by (auto simp: add_available_rx_def split: if_splits)
  then have "alloc_udp_bufs [ok] s = Inr (s1\<lparr>msgs := msgs s1 @ [?msg]\<rparr>)" using Cons.prems(3) by simp
  from alloc_udp_inv [OF this Cons.prems(1)] Cons.prems(2) have
    "async_inv {#} (s1\<lparr>msgs := msgs s1 @ [?msg]\<rparr>)" "length (msgs (s1\<lparr>msgs := msgs s1 @ [?msg]\<rparr>)) = length (msgs s) + 1"
    by simp_all
  from Cons.IH [OF this(1)] this(2) Cons.prems s1 show ?case by simp
qed simp

lemma setup_total:
  "\<exists>s1 s0. setup_tcp_echo_socket 1 0 0 0 (\<lambda>_. True) echo_start = Inr s1 \<and>
     setup_udp_echo_socket 2 0 0 (\<lambda>_. True) s1 = Inr s0"
proof -
  have "\<exists>s1. alloc_tcp_bufs (map (\<lambda>_. True) [0..<510]) (echo_start\<lparr>socket_in := 1\<rparr>) = Inr s1"
    using echo_start_inv by (intro alloc_tcp_total) (simp_all add: cookies_def tcp_ids_def list_all_iff)
  then obtain s1 where s1: "alloc_tcp_bufs (map (\<lambda>_. True) [0..<510]) (echo_start\<lparr>socket_in := 1\<rparr>) = Inr s1" by blast
  from alloc_tcp_inv [OF s1] echo_start_inv have "async_inv {#} s1" "length (msgs s1) = 510"
    by (simp_all add: cookies_def tcp_ids_def)
  then have "\<exists>s0. alloc_udp_bufs (map (\<lambda>_. True) [0..<509]) (s1\<lparr>udp_socket := 2\<rparr>) = Inr s0"
    by (intro alloc_udp_total) (simp_all add: list_all_iff)
  with s1 show ?thesis
    by (simp add: setup_tcp_echo_socket_def setup_udp_echo_socket_def NUM_TCP_BUFS_def NUM_UDP_BUFS_def)
qed

section \<open>Properties\<close>

text \<open>A step: a queue returns a message to its handler, or the server notifies events.\<close>

inductive async_step :: "echo_async \<Rightarrow> echo_async \<Rightarrow> bool" where
  sent: "m \<in> set (tx_virtqueue s) \<Longrightarrow> async_sent m s = Inr s' \<Longrightarrow> async_step s s'"
| received: "m \<in> set (rx_virtqueue s) \<Longrightarrow> async_received m s = Inr s' \<Longrightarrow> async_step s s'"
| notified: "handle_picoserver_notification ps s = Inr (s', out) \<Longrightarrow> async_step s s'"

lemma async_step_inv: "async_step s s' \<Longrightarrow> async_inv {#} s \<Longrightarrow> async_inv {#} s'"
  by (induction rule: async_step.induct)
    (auto dest: handle_notification_inv async_sent_ok async_received_ok)

lemma async_reachable_inv: "async_step\<^sup>*\<^sup>* s s' \<Longrightarrow> async_inv {#} s \<Longrightarrow> async_inv {#} s'"
  by (induction rule: rtranclp_induct) (auto intro: async_step_inv)

lemma async_step_msgs: "async_inv {#} s \<Longrightarrow> rx_virtqueue s \<noteq> [] \<or> tx_virtqueue s \<noteq> [] \<Longrightarrow> \<exists>s'. async_step s s'"
  by (metis async_received_ok async_sent_ok hd_in_set async_step.intros(1,2))



text \<open>
  In every such state the handlers do not fault: a message a queue returns is
  always taken by its handler, without a full queue, and a connection the server accepts
  finds room for all pooled messages and leaves the pool empty.
\<close>

theorem echo_handlers_safe:
  assumes "setup_tcp_echo_socket o1 a1 b1 l1 alloc1 echo_start = Inr s1"
    and "setup_udp_echo_socket o2 a2 b2 alloc2 s1 = Inr s0" and "async_step\<^sup>*\<^sup>* s0 s"
    and "m \<in> set (rx_virtqueue s @ tx_virtqueue s)"
  shows "(m \<in> set (rx_virtqueue s) \<longrightarrow> (\<exists>t. async_received m s = Inr t)) \<and>
    (m \<in> set (tx_virtqueue s) \<longrightarrow> (\<exists>t. async_sent m s = Inr t)) \<and>
    (\<exists>t. give_pooled (s\<lparr>tcp_echo_client := peer\<rparr>) = Inr t \<and> num_rx_bufs t = 0)"
proof -
  have "async_inv {#} s" using async_reachable_inv [OF assms(3)] setup_inv [OF assms(1,2)] by blast
  then show ?thesis
    using async_received_ok async_sent_ok give_pooled_ok [of "{#}" "s\<lparr>tcp_echo_client := peer\<rparr>"] by simp blast
qed

theorem echo_handlers_safe_witness:
  "\<exists>s1 s0 m. setup_tcp_echo_socket 1 0 0 0 (\<lambda>_. True) echo_start = Inr s1 \<and>
     setup_udp_echo_socket 2 0 0 (\<lambda>_. True) s1 = Inr s0 \<and> m \<in> set (rx_virtqueue s0 @ tx_virtqueue s0) \<and>
     (\<exists>t. give_pooled (s0\<lparr>tcp_echo_client := 5\<rparr>) = Inr t \<and> num_rx_bufs t = 0)"
proof -
  obtain s1 s0 where s: "setup_tcp_echo_socket 1 0 0 0 (\<lambda>_. True) echo_start = Inr s1"
      "setup_udp_echo_socket 2 0 0 (\<lambda>_. True) s1 = Inr s0" using setup_total by blast
  have "rx_virtqueue s0 @ tx_virtqueue s0 \<noteq> []"
    using async_sizes [of "{#}" s0] setup_inv [OF s] by (auto simp: async_inv_def)
  then obtain m where m: "m \<in> set (rx_virtqueue s0 @ tx_virtqueue s0)" by (metis hd_in_set)
  from echo_handlers_safe [OF s rtranclp.rtrancl_refl m, of 5] s m show ?thesis by blast
qed

text \<open>
  A TCP message of the current client is echoed whole: received with \<open>n\<close> bytes
  done it goes to the send queue with exactly that length, and sent it goes back to the receive
  queue asking for a full read; one that carries no data asks for a full read again.
\<close>

theorem tcp_message_cycle:
  assumes "async_inv {#m#} s" "msg_fd (msgs s ! m) = tcp_echo_client s" "done_len (msgs s ! m) = n" "0 < n"
  shows "\<exists>t u. tcp_socket_handle_async_received m s = Inr t \<and>
    tx_virtqueue t = tx_virtqueue s @ [m] \<and> rx_virtqueue t = rx_virtqueue s \<and> total_len (msgs t ! m) = n \<and>
    tcp_socket_handle_async_sent m (t\<lparr>tx_virtqueue := tx_virtqueue s\<rparr>) = Inr u \<and>
    rx_virtqueue u = rx_virtqueue s @ [m] \<and> tx_virtqueue u = tx_virtqueue s \<and>
    total_len (msgs u ! m) = 1400 \<and> done_len (msgs u ! m) = 0"
proof -
  have m: "m < length (msgs s)" using held_bound [of m "{#}" s] assms(1) by simp
  have room: "length (tx_virtqueue s) < 1024" "length (rx_virtqueue s) < 1024"
    using async_sizes [OF assms(1)] assms(1) by (simp_all add: async_inv_def)
  show ?thesis using assms(2-4) m room
    by (simp add: tcp_socket_handle_async_received_def tcp_socket_handle_async_sent_def add_available_tx_def
        add_available_rx_def PICOTCP_SOCKET_ASYNC_QUEUE_LEN_def store_msg_def TCP_READ_SIZE_def)
qed

definition one_message :: echo_async where
  "one_message = echo_start\<lparr>msgs := [\<lparr>total_len = 1400, done_len = 7, msg_fd = 5,
     client_cookie = 1\<rparr>], tcp_echo_client := 5\<rparr>"

theorem tcp_message_cycle_witness:
  "\<exists>t. tcp_socket_handle_async_received 0 one_message = Inr t \<and> tx_virtqueue t = [0] \<and> total_len (msgs t ! 0) = 7"
proof -
  have inv: "async_inv {#0#} one_message"
    by (simp add: async_inv_def one_message_def echo_start_def cookies_def pooled_def tcp_ids_def NUM_TCP_BUFS_def)
  show ?thesis using tcp_message_cycle [OF inv, of 7] by (auto simp: one_message_def echo_start_def)
qed

text \<open>The first, third, fifth and so on, and handling all of a list.\<close>

fun every_other :: "'a list \<Rightarrow> 'a list" where
  "every_other [] = []"
| "every_other [x] = [x]"
| "every_other (x # y # xs) = x # every_other xs"

fun handle_all :: "polled list \<Rightarrow> echo_async \<Rightarrow> (echo_async \<times> echo_call list) result" where
  "handle_all [] s = Inr (s, [])"
| "handle_all (p # ps) s =
     rbind (handle_known p s) (\<lambda>(s', out). rbind (handle_all ps s') (\<lambda>(s'', out'). Inr (s'', out @ out')))"

lemma give_pooled_socket: "give_pooled s = Inr s' \<Longrightarrow> socket_in s' = socket_in s"
proof (induction s rule: give_pooled.induct)
  case (1 s)
  show ?case
    using "1.prems" [unfolded give_pooled.simps [of s]] "1.IH"
    by (auto simp: succeeds split: if_splits option.splits)
qed

lemma handle_known_socket: "handle_known p s = Inr (s', out) \<Longrightarrow> socket_in s' = socket_in s"
  by (auto simp: handle_known_def handle_tcp_echo_notification_def Let_def succeeds split: if_splits
      dest!: give_pooled_socket)

text \<open>
  Property C39. The server's events are handled only every second one: after an event for a
  socket with a handler the loop polls twice, so of a row of events for the listening socket
  those at odd places have no effect and produce nothing.
\<close>

theorem echo_every_second_event_lost:
  assumes "list_all (\<lambda>p. event_live (poll_event p) \<and> socket_fd (poll_event p) = socket_in s) ps"
  shows "handle_picoserver_notification ps s = handle_all (every_other ps) s"
  using assms
proof (induction ps arbitrary: s rule: every_other.induct)
  case (2 p s)
  then show ?case by (simp add: known_socket_def rbind_def split: sum.splits prod.splits)
next
  case (3 p q ps s)
  show ?case
  proof (cases "handle_known p s")
    case (Inl f)
    with "3.prems" show ?thesis by (simp add: known_socket_def)
  next
    case (Inr r)
    obtain s' out where r: "r = (s', out)" by (cases r)
    have "list_all (\<lambda>p. event_live (poll_event p) \<and> socket_fd (poll_event p) = socket_in s') ps"
      using "3.prems" handle_known_socket [of p s s' out] Inr r by simp
    with "3.IH" [OF this] "3.prems" Inr r show ?thesis by (simp add: known_socket_def)
  qed
qed simp

definition listening_event :: "bool \<Rightarrow> bool \<Rightarrow> polled" where
  "listening_event conn fin = \<lparr>poll_event = \<lparr>num_events_left = 1, socket_fd = 1, ev_conn = conn, ev_read = False,
     ev_close = False, ev_fin = fin, ev_err = False, peer_result = 0, peer_socket = 7\<rparr>, poll_async_ret = 0,
     poll_message = None, poll_idle = 0, poll_total = 0, poll_fmt = True\<rparr>"

theorem echo_every_second_event_lost_witness:
  "handle_picoserver_notification [listening_event False False, listening_event True False] (echo_start\<lparr>socket_in := 1\<rparr>) =
     handle_all [listening_event False False] (echo_start\<lparr>socket_in := 1\<rparr>)"
  using echo_every_second_event_lost [of "echo_start\<lparr>socket_in := 1\<rparr>" "[listening_event False False, listening_event True False]"]
  by (simp add: listening_event_def event_live_def echo_start_def)

end
