(* ===== verification/Picoserver_Echo.thy ===== *)
theory Picoserver_Echo
  imports Picoserver_Events
begin

text \<open>
  The picoserver applications: \<^verbatim>\<open>apps/picoserver/components/Echo/src/echo.c\<close>, which forwards what
  it receives to \<^verbatim>\<open>apps/picoserver/components/Listener/src/listener.c\<close>, which prints it, and
  \<^verbatim>\<open>apps/picoserver_uboot/components/Echo/src/echo.c\<close>, which prints what it receives. The
  two data ports of a component are byte lists of one page. A poll of the server is an event with
  the answer a receive on its socket would give: the bytes put in the receive port, or \<open>None\<close>
  for the error \<open>-1\<close>.
\<close>

type_synonym pico_poll = "picoserver_event \<times> bytes option"

record pico_ports =
  recv_buf :: bytes
  send_buf :: bytes

datatype pico_action =
    PicoSend int bytes
  | PicoPrint bytes
  | PicoPrintLen nat bytes
  | PicoShutdown int

definition PICO_BUF :: nat where "PICO_BUF = 4096"

section \<open>C strings in a data port\<close>

text \<open>
  \<open>strlen\<close> of a port: a string that fills the port has no terminator in it and is read past
  the end. \<open>strncpy\<close> with the length \<open>-1\<close> pads its destination without end.
\<close>

definition c_strlen :: "bytes \<Rightarrow> nat result" where
  "c_strlen buf =
     (let n = length (takeWhile (\<lambda>c. c \<noteq> 0) buf) in if n < length buf then Inr n else Inl IndexError)"

definition c_string :: "bytes \<Rightarrow> bytes result" where
  "c_string buf = rbind (c_strlen buf) (\<lambda>n. Inr (take n buf))"

definition strncpy_port :: "int \<Rightarrow> bytes \<Rightarrow> bytes \<Rightarrow> bytes result" where
  "strncpy_port n dst src =
     (if n < 0 then Inl IndexError else c_memcpy dst (strncpy_bytes (nat n) src))"

text \<open>A receive of at most a page: the value returned and the receive port.\<close>

definition pico_recv :: "bytes option \<Rightarrow> bytes \<Rightarrow> (int \<times> bytes) result" where
  "pico_recv got buf =
     (case got of
        None \<Rightarrow> Inr (-1, buf)
      | Some bs \<Rightarrow> rbind (c_memcpy buf (take PICO_BUF bs)) (\<lambda>b. Inr (int (min PICO_BUF (length bs)), b)))"

section \<open>Echo\<close>

definition echo_read :: "int \<Rightarrow> bytes option \<Rightarrow> pico_ports \<Rightarrow> (pico_ports \<times> pico_action list) result" where
  "echo_read listener_socket got s =
     rbind (pico_recv got (recv_buf s)) (\<lambda>(ret, r).
     rbind (strncpy_port ret (send_buf s) r) (\<lambda>d.
     rbind (c_strlen d) (\<lambda>n.
     Inr (s\<lparr>recv_buf := memset0 PICO_BUF r, send_buf := memset0 PICO_BUF d\<rparr>,
          [PicoSend listener_socket (take n d)]))))"

definition echo_event ::
  "int \<Rightarrow> pico_poll \<Rightarrow> pico_ports \<Rightarrow> (pico_ports \<times> pico_action list) result" where
  "echo_event listener_socket p s =
     (let e = fst p in
      rbind (if ev_conn e \<and> socket_fd e \<noteq> listener_socket then c_assert (peer_result e \<noteq> -1) else Inr ()) (\<lambda>_.
      rbind (if ev_read e then echo_read listener_socket (snd p) s else Inr (s, [])) (\<lambda>(s1, out).
      let out2 = (if ev_close e then [PicoShutdown (socket_fd e)] else []) in
      rbind (c_assert (\<not> ev_err e)) (\<lambda>_. Inr (s1, out @ out2)))))"

fun echo_notification ::
  "int \<Rightarrow> pico_poll list \<Rightarrow> pico_ports \<Rightarrow> (pico_ports \<times> pico_action list) result" where
  "echo_notification listener_socket [] s = Inr (s, [])"
| "echo_notification listener_socket (p # ps) s =
     (if event_live (fst p)
      then rbind (echo_event listener_socket p s) (\<lambda>(s', out).
           rbind (echo_notification listener_socket ps s') (\<lambda>(s'', out'). Inr (s'', out @ out')))
      else Inr (s, []))"

text \<open>The set-up of \<open>run\<close>: the results of the calls to the server; the listener's socket.\<close>

definition echo_setup :: "int \<Rightarrow> int \<Rightarrow> int \<Rightarrow> int \<Rightarrow> int \<Rightarrow> int result" where
  "echo_setup socket_in listener_socket bind_ret listen_ret connect_ret =
     rbind (c_assert (socket_in \<noteq> -1)) (\<lambda>_.
     rbind (c_assert (listener_socket \<noteq> -1)) (\<lambda>_.
     rbind (c_assert (bind_ret = 0)) (\<lambda>_.
     rbind (c_assert (listen_ret = 0)) (\<lambda>_.
     rbind (c_assert (connect_ret = 0)) (\<lambda>_. Inr listener_socket)))))"

section \<open>Listener\<close>

definition listener_read :: "bytes option \<Rightarrow> pico_ports \<Rightarrow> (pico_ports \<times> pico_action list) result" where
  "listener_read got s =
     rbind (pico_recv got (recv_buf s)) (\<lambda>(ret, r).
     rbind (c_string r) (\<lambda>txt. Inr (s\<lparr>recv_buf := memset0 PICO_BUF r\<rparr>, [PicoPrint txt])))"

definition listener_event :: "pico_poll \<Rightarrow> pico_ports \<Rightarrow> (pico_ports \<times> pico_action list) result" where
  "listener_event p s =
     (let e = fst p in
      rbind (if ev_conn e then c_assert (peer_result e \<noteq> -1) else Inr ()) (\<lambda>_.
      rbind (if ev_read e then listener_read (snd p) s else Inr (s, [])) (\<lambda>(s1, out).
      let out2 = (if ev_close e then [PicoShutdown (socket_fd e)] else []) in
      rbind (c_assert (\<not> ev_err e)) (\<lambda>_. Inr (s1, out @ out2)))))"

fun listener_notification :: "pico_poll list \<Rightarrow> pico_ports \<Rightarrow> (pico_ports \<times> pico_action list) result" where
  "listener_notification [] s = Inr (s, [])"
| "listener_notification (p # ps) s =
     (if event_live (fst p)
      then rbind (listener_event p s) (\<lambda>(s', out).
           rbind (listener_notification ps s') (\<lambda>(s'', out'). Inr (s'', out @ out')))
      else Inr (s, []))"

definition listener_setup :: "int \<Rightarrow> int \<Rightarrow> int \<Rightarrow> unit result" where
  "listener_setup socket bind_ret listen_ret =
     rbind (c_assert (socket \<noteq> -1)) (\<lambda>_.
     rbind (c_assert (bind_ret = 0)) (\<lambda>_. c_assert (listen_ret = 0)))"

section \<open>The echo of the U-Boot application\<close>

definition uboot_read :: "bytes option \<Rightarrow> pico_ports \<Rightarrow> (pico_ports \<times> pico_action list) result" where
  "uboot_read got s =
     rbind (pico_recv got (recv_buf s)) (\<lambda>(ret, r).
     rbind (c_string r) (\<lambda>txt.
     Inr (s\<lparr>recv_buf := memset0 PICO_BUF r\<rparr>, [PicoPrintLen (length txt) txt])))"

definition uboot_event ::
  "int \<Rightarrow> pico_poll \<Rightarrow> pico_ports \<Rightarrow> (pico_ports \<times> pico_action list) result" where
  "uboot_event listener_socket p s =
     (let e = fst p in
      rbind (if ev_conn e \<and> socket_fd e \<noteq> listener_socket then c_assert (peer_result e \<noteq> -1) else Inr ()) (\<lambda>_.
      rbind (if ev_read e then uboot_read (snd p) s else Inr (s, [])) (\<lambda>(s1, out).
      let out2 = (if ev_close e then [PicoShutdown (socket_fd e)] else []) in
      rbind (c_assert (\<not> ev_err e)) (\<lambda>_. Inr (s1, out @ out2)))))"

fun uboot_notification ::
  "int \<Rightarrow> pico_poll list \<Rightarrow> pico_ports \<Rightarrow> (pico_ports \<times> pico_action list) result" where
  "uboot_notification listener_socket [] s = Inr (s, [])"
| "uboot_notification listener_socket (p # ps) s =
     (if event_live (fst p)
      then rbind (uboot_event listener_socket p s) (\<lambda>(s', out).
           rbind (uboot_notification listener_socket ps s') (\<lambda>(s'', out'). Inr (s'', out @ out')))
      else Inr (s, []))"

definition uboot_setup :: "int \<Rightarrow> int \<Rightarrow> int \<Rightarrow> unit result" where
  "uboot_setup socket_in bind_ret listen_ret =
     rbind (c_assert (socket_in \<noteq> -1)) (\<lambda>_.
     rbind (c_assert (bind_ret = 0)) (\<lambda>_. c_assert (listen_ret = 0)))"

section \<open>Messages through the ports\<close>

definition clear_ports :: "pico_ports \<Rightarrow> bool" where
  "clear_ports s \<longleftrightarrow> recv_buf s = replicate 4096 0 \<and> send_buf s = replicate 4096 0"

text \<open>A message that fits a C string in a port.\<close>

definition text_message :: "bytes \<Rightarrow> bool" where
  "text_message m \<longleftrightarrow> 0 \<notin> set m \<and> length m < 4096"

lemma takeWhile_padded:
  "0 \<notin> set m \<Longrightarrow> takeWhile (\<lambda>c. c \<noteq> 0) (m @ 0 # zs) = m" for m :: bytes
  by (subst takeWhile_append2) auto

lemma padded_port:
  assumes "text_message m"
  shows "overwrite (replicate 4096 0) m = m @ 0 # replicate (4095 - length m) 0"
proof -
  have "4096 - length m = Suc (4095 - length m)" using assms by (auto simp: text_message_def)
  then have "replicate (4096 - length m) (0 :: u8) = 0 # replicate (4095 - length m) 0" by simp
  then show ?thesis by (simp add: overwrite_def)
qed

lemma c_strlen_padded: "text_message m \<Longrightarrow> c_strlen (overwrite (replicate 4096 0) m) = Inr (length m)"
  by (simp add: padded_port) (simp add: c_strlen_def takeWhile_padded text_message_def)

lemma c_string_padded: "text_message m \<Longrightarrow> c_string (overwrite (replicate 4096 0) m) = Inr m"
  by (simp add: c_string_def c_strlen_padded) (simp add: overwrite_def)

lemma memset0_page: "length buf = 4096 \<Longrightarrow> memset0 PICO_BUF buf = replicate 4096 0"
  by (simp add: memset0_def overwrite_def PICO_BUF_def)

lemma pico_recv_message:
  "text_message m \<Longrightarrow> length buf = 4096 \<Longrightarrow> pico_recv (Some m) buf = Inr (int (length m), overwrite buf m)"
  by (simp add: pico_recv_def PICO_BUF_def text_message_def)

lemma strncpy_message:
  assumes "text_message m" "length dst = 4096"
  shows "strncpy_port (int (length m)) dst (overwrite (replicate 4096 0) m) = Inr (overwrite dst m)"
proof -
  have "strncpy_bytes (length m) (overwrite (replicate 4096 0) m) = m"
    using assms(1) by (subst strncpy_bytes_no_null) (simp_all add: text_message_def overwrite_def)
  with assms show ?thesis by (simp add: strncpy_port_def text_message_def)
qed

lemma echo_read_message:
  assumes "clear_ports s" "text_message m"
  shows "echo_read listener (Some m) s = Inr (s, [PicoSend listener m])"
proof -
  have len: "length m < 4096" using assms(2) by (simp add: text_message_def)
  have "echo_read listener (Some m) s = Inr (s\<lparr>recv_buf := replicate 4096 0, send_buf := replicate 4096 0\<rparr>,
      [PicoSend listener m])"
    using assms len
    by (simp add: echo_read_def clear_ports_def pico_recv_message strncpy_message c_strlen_padded memset0_page
        length_overwrite take_overwrite)
  moreover have "s\<lparr>recv_buf := replicate 4096 0, send_buf := replicate 4096 0\<rparr> = s"
    using assms(1) by (cases s) (simp add: clear_ports_def)
  ultimately show ?thesis by simp
qed

lemma listener_read_message:
  assumes "clear_ports s" "text_message m"
  shows "listener_read (Some m) s = Inr (s, [PicoPrint m])"
proof -
  have len: "length m < 4096" using assms(2) by (simp add: text_message_def)
  have "listener_read (Some m) s = Inr (s\<lparr>recv_buf := replicate 4096 0\<rparr>, [PicoPrint m])"
    using assms len
    by (simp add: listener_read_def clear_ports_def pico_recv_message c_string_padded memset0_page length_overwrite)
  moreover have "s\<lparr>recv_buf := replicate 4096 0\<rparr> = s"
    using assms(1) by (cases s) (simp add: clear_ports_def)
  ultimately show ?thesis by simp
qed

text \<open>A read event alone, on some socket.\<close>

definition read_poll :: "int \<Rightarrow> bytes \<Rightarrow> pico_poll" where
  "read_poll socket m = (\<lparr>num_events_left = 0, socket_fd = socket, ev_conn = False, ev_read = True,
     ev_close = False, ev_fin = False, ev_err = False, peer_result = 0, peer_socket = 0\<rparr>, Some m)"

lemma read_poll_live: "event_live (fst (read_poll k m))"
  by (simp add: read_poll_def event_live_def events_nonzero_def)

lemma echo_event_read:
  "echo_read listener (Some m) s = Inr r \<Longrightarrow> echo_event listener (read_poll k m) s = Inr r"
  by (cases r) (simp add: echo_event_def read_poll_def)

lemma listener_event_read:
  "listener_read (Some m) s = Inr r \<Longrightarrow> listener_event (read_poll k m) s = Inr r"
  by (cases r) (simp add: listener_event_def read_poll_def)

lemma echo_messages:
  "clear_ports s \<Longrightarrow> list_all text_message ms \<Longrightarrow>
   echo_notification listener (map (read_poll k) ms) s = Inr (s, map (PicoSend listener) ms)"
  by (induction ms) (simp_all add: read_poll_live echo_event_read echo_read_message)

lemma listener_messages:
  "clear_ports s \<Longrightarrow> list_all text_message ms \<Longrightarrow>
   listener_notification (map (read_poll k) ms) s = Inr (s, map PicoPrint ms)"
  by (induction ms) (simp_all add: read_poll_live listener_event_read listener_read_message)

section \<open>Properties\<close>

fun sent_messages :: "pico_action list \<Rightarrow> bytes list" where
  "sent_messages [] = []"
| "sent_messages (PicoSend k m # as) = m # sent_messages as"
| "sent_messages (PicoPrint m # as) = sent_messages as"
| "sent_messages (PicoPrintLen n m # as) = sent_messages as"
| "sent_messages (PicoShutdown k # as) = sent_messages as"

text \<open>
  From Echo to Listener: text messages shorter than a page that arrive at Echo are sent to the
  listener one by one, and what Listener prints when it receives what was sent is those
  messages, whole and in order; both components' ports are clear again afterwards.
\<close>

theorem picoserver_messages_arrive:
  assumes "clear_ports s" "clear_ports t" "list_all text_message ms"
  shows "\<exists>out. echo_notification listener (map (read_poll k) ms) s = Inr (s, out) \<and>
    listener_notification (map (read_poll l) (sent_messages out)) t = Inr (t, map PicoPrint ms)"
proof -
  have "sent_messages (map (PicoSend listener) ms) = ms" by (induction ms) simp_all
  with echo_messages [OF assms(1,3)] listener_messages [OF assms(2,3)] show ?thesis by auto
qed

definition ports_start :: pico_ports where
  "ports_start = \<lparr>recv_buf = replicate 4096 0, send_buf = replicate 4096 0\<rparr>"

theorem picoserver_messages_arrive_witness:
  "\<exists>out. echo_notification 4 [read_poll 7 [104, 105], read_poll 7 [33]] ports_start = Inr (ports_start, out) \<and>
    listener_notification (map (read_poll 3) (sent_messages out)) ports_start =
      Inr (ports_start, [PicoPrint [104, 105], PicoPrint [33]])"
  using picoserver_messages_arrive [of ports_start ports_start "[[104, 105], [33]]" 4 7 3]
  by (simp add: clear_ports_def ports_start_def text_message_def)

text \<open>
  The forwarding has two gaps the code does not check: a receive that fails is
  taken as the length of the copy, and a message that fills the page has no terminator for the
  length computed afterwards; both leave the port.
\<close>

theorem echo_unchecked_receive:
  "echo_read listener None ports_start = Inl IndexError \<and>
   echo_read listener (Some (replicate 4096 65)) ports_start = Inl IndexError"
proof -
  have pre: "takeWhile (\<lambda>c. c \<noteq> 0) (replicate n 65) = replicate n (65 :: u8)" for n
    by (subst takeWhile_eq_all_conv) simp
  have "strncpy_bytes 4096 (replicate 4096 65) = replicate 4096 65"
    unfolding strncpy_bytes_def Let_def take_replicate by (simp add: pre)
  then have "echo_read listener (Some (replicate 4096 65)) ports_start = Inl IndexError"
    by (simp add: echo_read_def pico_recv_def PICO_BUF_def strncpy_port_def overwrite_def c_strlen_def pre ports_start_def)
  then show ?thesis by (simp add: echo_read_def pico_recv_def strncpy_port_def)
qed

end
