(* ===== verification/Terminal.thy ===== *)
theory Terminal
  imports Camkes_Prelude
begin

text \<open>
  The terminal application: \<^verbatim>\<open>apps/terminal/components/Manager/src/display.c\<close> with
  \<^verbatim>\<open>include/configuration.h\<close>, which gives each of two clients a rectangle of the terminal, and
  \<^verbatim>\<open>components/Client/src/client.c\<close>. The size of the terminal is found by the build, so it is a
  pair of parameters. The output is a list of what the \<open>printf\<close> calls print: a text, or a
  character behind the control sequence that moves to a row and a column; \<open>render\<close> gives the
  characters themselves. A \<open>static int border\<close> is a component of the state.
\<close>

definition ESC :: char where "ESC = CHR 0x1B"

datatype term_out = TermText string | CharAt int int char

definition DOMAIN1_X :: int where "DOMAIN1_X = 3"

definition DOMAIN1_Y :: int where "DOMAIN1_Y = 3"

definition DOMAIN1_WIDTH :: int where "DOMAIN1_WIDTH = 15"

definition DOMAIN1_HEIGHT :: int where "DOMAIN1_HEIGHT = 10"

definition DOMAIN2_X :: int where "DOMAIN2_X = 20"

definition DOMAIN2_Y :: int where "DOMAIN2_Y = 20"

definition DOMAIN2_WIDTH :: int where "DOMAIN2_WIDTH = 15"

definition DOMAIN2_HEIGHT :: int where "DOMAIN2_HEIGHT = 10"

definition DOMAIN1_COLOUR :: string where "DOMAIN1_COLOUR = ESC # ''[35m''"

definition DOMAIN2_COLOUR :: string where "DOMAIN2_COLOUR = ESC # ''[33m''"

definition RESET_ATTRIBUTES :: string where "RESET_ATTRIBUTES = ESC # ''[0m''"

definition write_char :: "int \<Rightarrow> int \<Rightarrow> char \<Rightarrow> term_out" where
  "write_char x y c = CharAt y (x + 1) c"

fun render :: "term_out \<Rightarrow> string" where
  "render (TermText s) = s"
| "render (CharAt row col c) = [ESC] @ ''['' @ show_int row @ '';'' @ show_int col @ ''H'' @ [c]"

section \<open>The manager\<close>

definition border_char :: "int \<Rightarrow> int \<Rightarrow> int \<Rightarrow> int \<Rightarrow> char \<Rightarrow> term_out list" where
  "border_char W H i j c =
     (if i \<ge> 0 \<and> j \<ge> 0 \<and> i \<le> W \<and> j \<le> H then [write_char i j c] else [])"

definition borderise ::
  "int \<Rightarrow> int \<Rightarrow> int \<Rightarrow> int \<Rightarrow> int \<Rightarrow> int \<Rightarrow> string \<Rightarrow> term_out list" where
  "borderise W H x y width height colour =
     [TermText colour] @
     border_char W H (x - 1) (y - 1) CHR ''+'' @
     border_char W H (x + width) (y - 1) CHR ''+'' @
     border_char W H (x - 1) (y + height) CHR ''+'' @
     border_char W H (x + width) (y + height) CHR ''+'' @
     concat (map (\<lambda>i. border_char W H i (y - 1) CHR ''-'') [x..x + width - 1]) @
     concat (map (\<lambda>j. border_char W H (x - 1) j CHR 0x7C) [y..y + height - 1]) @
     concat (map (\<lambda>i. border_char W H i (y + height) CHR ''-'') [x..x + width - 1]) @
     concat (map (\<lambda>j. border_char W H (x + width) j CHR 0x7C) [y..y + height - 1]) @
     [TermText RESET_ATTRIBUTES]"

definition domain1_init :: "int \<Rightarrow> int \<Rightarrow> term_out list" where
  "domain1_init W H =
     concat (map (\<lambda>i. map (\<lambda>j. write_char i j CHR '' '') [0..H - 1]) [0..W - 1])"

definition domain2_init :: "term_out list" where
  "domain2_init = []"

text \<open>The value returned, the new \<open>border\<close> flag and the output.\<close>

definition domain1_put_char ::
  "int \<Rightarrow> int \<Rightarrow> int \<Rightarrow> int \<Rightarrow> char \<Rightarrow> bool \<Rightarrow> int \<times> bool \<times> term_out list" where
  "domain1_put_char W H x y c border =
     (let out = (if \<not> border
                 then borderise W H DOMAIN1_X DOMAIN1_Y DOMAIN1_WIDTH DOMAIN1_HEIGHT DOMAIN1_COLOUR else []) in
      if c = ESC then (-1, True, out)
      else if x < 0 \<or> y < 0 \<or> x \<ge> DOMAIN1_WIDTH \<or> y \<ge> DOMAIN1_HEIGHT \<or>
              x + DOMAIN1_X \<ge> W \<or> y + DOMAIN1_HEIGHT \<ge> H
      then (-1, True, out)
      else (0, True, out @ [TermText DOMAIN1_COLOUR, write_char (DOMAIN1_X + x) (DOMAIN1_Y + y) c,
                            TermText RESET_ATTRIBUTES]))"

definition domain2_put_char ::
  "int \<Rightarrow> int \<Rightarrow> int \<Rightarrow> int \<Rightarrow> char \<Rightarrow> bool \<Rightarrow> int \<times> bool \<times> term_out list" where
  "domain2_put_char W H x y c border =
     (let out = (if \<not> border
                 then borderise W H DOMAIN2_X DOMAIN2_Y DOMAIN2_WIDTH DOMAIN2_HEIGHT DOMAIN2_COLOUR else []) in
      if c = ESC then (-1, True, out)
      else if x < 0 \<or> y < 0 \<or> x \<ge> DOMAIN2_WIDTH \<or> y \<ge> DOMAIN2_HEIGHT \<or>
              x + DOMAIN2_X \<ge> W \<or> y + DOMAIN2_HEIGHT \<ge> H
      then (-1, True, out)
      else (0, True, out @ [TermText DOMAIN2_COLOUR, write_char (DOMAIN2_X + x) (DOMAIN2_Y + y) c,
                            TermText RESET_ATTRIBUTES]))"

section \<open>The client\<close>

text \<open>
  \<open>print\<close> against a display operation: a character at \<open>(i, 0)\<close> after the other, until the
  message ends or one is refused. A message is a C string, so it holds no null character.
\<close>

fun term_print ::
  "(int \<Rightarrow> int \<Rightarrow> char \<Rightarrow> bool \<Rightarrow> int \<times> bool \<times> term_out list) \<Rightarrow> int \<Rightarrow> string \<Rightarrow> bool \<Rightarrow> bool \<times> term_out list" where
  "term_print d_put_char i [] border = (border, [])"
| "term_print d_put_char i (c # msg) border =
     (case d_put_char i 0 c border of (ret, border', out) \<Rightarrow>
        if ret \<noteq> 0 then (border', out)
        else case term_print d_put_char (i + 1) msg border' of (border'', out') \<Rightarrow> (border'', out @ out'))"

definition client_run ::
  "(int \<Rightarrow> int \<Rightarrow> char \<Rightarrow> bool \<Rightarrow> int \<times> bool \<times> term_out list) \<Rightarrow> string \<Rightarrow> bool \<Rightarrow> int \<times> bool \<times> term_out list" where
  "client_run d_put_char message border =
     (case term_print d_put_char 0 message border of (border', out) \<Rightarrow> (0, border', out))"

section \<open>Where characters go\<close>

text \<open>A cell, by its row and column, and the cells of the two rectangles.\<close>

fun out_cell :: "term_out \<Rightarrow> (int \<times> int) list" where
  "out_cell (TermText s) = []"
| "out_cell (CharAt row col c) = [(row, col)]"

definition cells :: "term_out list \<Rightarrow> (int \<times> int) list" where
  "cells out = concat (map out_cell out)"

definition domain1_cell :: "int \<times> int \<Rightarrow> bool" where
  "domain1_cell p \<longleftrightarrow> 3 \<le> fst p \<and> fst p < 13 \<and> 4 \<le> snd p \<and> snd p < 19"

definition domain2_cell :: "int \<times> int \<Rightarrow> bool" where
  "domain2_cell p \<longleftrightarrow> 20 \<le> fst p \<and> fst p < 30 \<and> 21 \<le> snd p \<and> snd p < 36"

text \<open>The border cells around a rectangle.\<close>

definition frame_cell :: "int \<Rightarrow> int \<Rightarrow> int \<Rightarrow> int \<Rightarrow> int \<times> int \<Rightarrow> bool" where
  "frame_cell x y width height p \<longleftrightarrow>
     y - 1 \<le> fst p \<and> fst p \<le> y + height \<and> x \<le> snd p \<and> snd p \<le> x + width + 1 \<and>
     (fst p = y - 1 \<or> fst p = y + height \<or> snd p = x \<or> snd p = x + width + 1)"

lemma cells_append [simp]: "cells (xs @ ys) = cells xs @ cells ys"
  by (simp add: cells_def)

lemma cells_Nil [simp]: "cells [] = []"
  by (simp add: cells_def)

lemma cells_Cons [simp]: "cells (c # xs) = out_cell c @ cells xs"
  by (simp add: cells_def)

lemma cells_border_char: "p \<in> set (cells (border_char W H i j c)) \<Longrightarrow> p = (j, i + 1)"
  by (auto simp: border_char_def write_char_def split: if_splits)

lemma cells_concat: "set (cells (concat xss)) = (\<Union>xs \<in> set xss. set (cells xs))"
  by (induction xss) auto

lemma borderise_cells:
  assumes "0 < width" "0 < height"
  shows "list_all (frame_cell x y width height) (cells (borderise W H x y width height colour))"
  using assms unfolding list_all_iff borderise_def
  by (auto simp: cells_concat frame_cell_def dest!: cells_border_char)

lemma domain1_put_char_cells:
  "domain1_put_char W H x y c border = (ret, border', out) \<Longrightarrow>
   list_all (\<lambda>p. domain1_cell p \<or> frame_cell 3 3 15 10 p) (cells out)"
  using borderise_cells [of 15 10 3 3 W H DOMAIN1_COLOUR]
  by (auto simp: domain1_put_char_def Let_def DOMAIN1_X_def DOMAIN1_Y_def DOMAIN1_WIDTH_def DOMAIN1_HEIGHT_def
      write_char_def domain1_cell_def list_all_iff split: if_splits)

lemma domain2_put_char_cells:
  "domain2_put_char W H x y c border = (ret, border', out) \<Longrightarrow>
   list_all (\<lambda>p. domain2_cell p \<or> frame_cell 20 20 15 10 p) (cells out)"
  using borderise_cells [of 15 10 20 20 W H DOMAIN2_COLOUR]
  by (auto simp: domain2_put_char_def Let_def DOMAIN2_X_def DOMAIN2_Y_def DOMAIN2_WIDTH_def DOMAIN2_HEIGHT_def
      write_char_def domain2_cell_def list_all_iff split: if_splits)

lemma terminal_domains_separate:
  assumes "domain1_cell p \<or> frame_cell 3 3 15 10 p" "domain2_cell p \<or> frame_cell 20 20 15 10 p"
  shows False
  using assms by (auto simp: domain1_cell_def domain2_cell_def frame_cell_def)

section \<open>Both clients at once\<close>

text \<open>
  Each of the two interfaces has a thread of its own in the manager, so the calls of the clients run at the same time. A \<open>printf\<close> is
  whole, because the stream is locked, but those of the two threads come in any order: the output is a shuffle of what each
  thread prints. The terminal shows in a cell the last character written there.
\<close>

fun domain_calls ::
  "(int \<Rightarrow> int \<Rightarrow> char \<Rightarrow> bool \<Rightarrow> int \<times> bool \<times> term_out list) \<Rightarrow> (int \<times> int \<times> char) list \<Rightarrow> bool \<Rightarrow> term_out list" where
  "domain_calls put_char [] border = []"
| "domain_calls put_char ((x, y, c) # rs) border =
     (case put_char x y c border of (ret, border', out) \<Rightarrow> out @ domain_calls put_char rs border')"

fun written :: "int \<times> int \<Rightarrow> term_out list \<Rightarrow> char list" where
  "written p [] = []"
| "written p (TermText s # out) = written p out"
| "written p (CharAt row col c # out) = (if (row, col) = p then c # written p out else written p out)"

definition screen :: "term_out list \<Rightarrow> int \<times> int \<Rightarrow> char option" where
  "screen out p = (if written p out = [] then None else Some (last (written p out)))"

text \<open>The characters a client has asked for in a cell of its rectangle, escapes left out.\<close>

definition asked :: "(int \<times> int \<times> char) list \<Rightarrow> int \<Rightarrow> int \<Rightarrow> char list" where
  "asked rs x y = map (\<lambda>(x', y', c). c) (filter (\<lambda>(x', y', c). x' = x \<and> y' = y \<and> c \<noteq> ESC) rs)"

lemma written_append [simp]: "written p (xs @ ys) = written p xs @ written p ys"
  by (induction p xs rule: written.induct) auto

lemma written_Nil: "p \<notin> set (cells out) \<Longrightarrow> written p out = []"
  by (induction p out rule: written.induct) auto

lemma written_shuffle: "out \<in> shuffles xs ys \<Longrightarrow> written p ys = [] \<Longrightarrow> written p out = written p xs"
proof (induction xs ys arbitrary: out rule: shuffles.induct)
  case (3 x xs y ys)
  then consider out' where "out = x # out'" "out' \<in> shuffles xs (y # ys)"
    | out' where "out = y # out'" "out' \<in> shuffles (x # xs) ys"
    by auto
  then show ?case
  proof cases
    case 1
    with "3.IH"(1) "3.prems"(2) show ?thesis by (cases x) auto
  next
    case 2
    have "written p ys = []" "written p (y # out') = written p out'"
      using "3.prems"(2) by (cases y; auto split: if_splits)+
    with "3.IH"(2) 2 show ?thesis by simp
  qed
qed auto

lemma append_shuffle: "xs @ ys \<in> shuffles xs ys"
  by (induction xs) (auto intro: Cons_in_shuffles_leftI)

lemma domain_calls_cells:
  assumes "\<And>x y c border ret border' out. put_char x y c border = (ret, border', out) \<Longrightarrow> list_all P (cells out)"
  shows "list_all P (cells (domain_calls put_char rs border))"
proof (induction rs arbitrary: border)
  case (Cons r rs)
  obtain x y c ret border' out where "r = (x, y, c)" "put_char x y c border = (ret, border', out)"
    by (metis prod_cases3)
  with Cons.IH [of border'] assms show ?case by simp
qed simp

lemma domain1_calls_cells:
  "list_all (\<lambda>p. domain1_cell p \<or> frame_cell 3 3 15 10 p) (cells (domain_calls (domain1_put_char W H) rs border))"
  by (rule domain_calls_cells) (rule domain1_put_char_cells)

lemma domain2_calls_cells:
  "list_all (\<lambda>p. domain2_cell p \<or> frame_cell 20 20 15 10 p) (cells (domain_calls (domain2_put_char W H) rs border))"
  by (rule domain_calls_cells) (rule domain2_put_char_cells)

lemma borderise_elsewhere:
  "0 < width \<Longrightarrow> 0 < height \<Longrightarrow> \<not> frame_cell x y width height p \<Longrightarrow> written p (borderise W H x y width height colour) = []"
  using borderise_cells [of width height x y W H colour] by (intro written_Nil) (auto simp: list_all_iff)

lemma domain1_written:
  assumes "0 \<le> x" "x < 15" "0 \<le> y" "y < 10"
  shows "written (3 + y, 4 + x) (domain_calls (domain1_put_char W H) rs border) =
    (if x + 3 < W \<and> y + 10 < H then asked rs x y else [])"
proof (induction rs arbitrary: border)
  case Nil
  then show ?case by (simp add: asked_def)
next
  case (Cons r rs)
  obtain x' y' c where r: "r = (x', y', c)" by (cases r)
  have frame: "written (3 + y, 4 + x) (borderise W H 3 3 15 10 DOMAIN1_COLOUR) = []"
    using assms by (intro borderise_elsewhere) (auto simp: frame_cell_def)
  show ?case
    using Cons.IH [of True] assms frame
    by (auto simp: r domain1_put_char_def asked_def write_char_def
        DOMAIN1_X_def DOMAIN1_Y_def DOMAIN1_WIDTH_def DOMAIN1_HEIGHT_def Let_def)
qed

lemma domain2_written:
  assumes "0 \<le> x" "x < 15" "0 \<le> y" "y < 10"
  shows "written (20 + y, 21 + x) (domain_calls (domain2_put_char W H) rs border) =
    (if x + 20 < W \<and> y + 10 < H then asked rs x y else [])"
proof (induction rs arbitrary: border)
  case Nil
  then show ?case by (simp add: asked_def)
next
  case (Cons r rs)
  obtain x' y' c where r: "r = (x', y', c)" by (cases r)
  have frame: "written (20 + y, 21 + x) (borderise W H 20 20 15 10 DOMAIN2_COLOUR) = []"
    using assms by (intro borderise_elsewhere) (auto simp: frame_cell_def)
  show ?case
    using Cons.IH [of True] assms frame
    by (auto simp: r domain2_put_char_def asked_def write_char_def
        DOMAIN2_X_def DOMAIN2_Y_def DOMAIN2_WIDTH_def DOMAIN2_HEIGHT_def Let_def)
qed

section \<open>Properties\<close>



text \<open>
  The bound on the rows is checked against the height of the rectangle and not its
  position: on a terminal of 24 rows the manager accepts a character for row 29.
\<close>

theorem domain2_row_unchecked:
  "fst (domain2_put_char 80 24 0 9 c True) = (if c = ESC then -1 else 0) \<and>
   (29, 21) \<in> set (cells (snd (snd (domain2_put_char 80 24 0 9 CHR ''x'' True))))"
  by (simp add: domain2_put_char_def DOMAIN2_X_def DOMAIN2_Y_def DOMAIN2_WIDTH_def DOMAIN2_HEIGHT_def
      write_char_def ESC_def)

definition shown :: "int \<Rightarrow> string \<Rightarrow> term_out list" where
  "shown i msg = concat (map (\<lambda>(k, c). [TermText DOMAIN1_COLOUR, CharAt 3 (4 + i + int k) c, TermText RESET_ATTRIBUTES])
     (enumerate 0 msg))"

lemma domain1_put_char_first_row:
  assumes "18 < W" "10 < H" "0 \<le> i"
  shows "domain1_put_char W H i 0 c True =
    (if c = ESC \<or> i \<ge> 15 then (-1, True, [])
     else (0, True, [TermText DOMAIN1_COLOUR, CharAt 3 (4 + i) c, TermText RESET_ATTRIBUTES]))"
  using assms
  by (auto simp: domain1_put_char_def DOMAIN1_X_def DOMAIN1_Y_def DOMAIN1_WIDTH_def DOMAIN1_HEIGHT_def write_char_def)

lemma shown_Cons:
  "shown i (c # msg) = [TermText DOMAIN1_COLOUR, CharAt 3 (4 + i) c, TermText RESET_ATTRIBUTES] @ shown (i + 1) msg"
proof -
  have "enumerate (Suc 0) msg = map (\<lambda>(k, c). (Suc k, c)) (enumerate 0 msg)"
    by (simp add: enumerate_eq_zip zip_map1 [symmetric] map_Suc_upt del: upt_Suc)
  then show ?thesis by (simp add: shown_def case_prod_unfold o_def algebra_simps)
qed

text \<open>
  A client's message appears on the first row of its rectangle: of the characters
  before the first escape the first fifteen, one column after the other, and nothing of
  what follows; the client cannot send a control sequence.
\<close>

theorem client_message_shown:
  assumes "18 < W" "10 < H" "0 \<le> i"
  shows "term_print (domain1_put_char W H) i msg True =
    (True, shown i (takeWhile (\<lambda>c. c \<noteq> ESC) (take (nat (15 - i)) msg)))"
  using assms(3)
proof (induction msg arbitrary: i)
  case Nil
  then show ?case by (simp add: shown_def)
next
  case (Cons c msg)
  show ?case
  proof (cases "c = ESC \<or> i \<ge> 15")
    case True
    then show ?thesis
      by (cases "i \<ge> 15") (simp_all add: domain1_put_char_first_row [OF assms(1,2) Cons.prems] shown_def take_Cons')
  next
    case False
    then have n: "nat (15 - i) = Suc (nat (15 - (i + 1)))" by arith
    from False Cons.IH [of "i + 1"] Cons.prems show ?thesis
      by (simp add: domain1_put_char_first_row [OF assms(1,2) Cons.prems] n shown_Cons)
  qed
qed

theorem client_message_shown_witness:
  "term_print (domain1_put_char 80 24) 0 [CHR ''h'', CHR ''i'', ESC, CHR ''t''] True = (True, shown 0 ''hi'')"
  using client_message_shown [of 80 24 0 "[CHR ''h'', CHR ''i'', ESC, CHR ''t'']"]
  by (simp only: takeWhile.simps) (simp add: ESC_def)

end
