(* ===== verification/Serial_Clients.thy ===== *)
theory Serial_Clients
  imports Ring_Buffer
begin

text \<open>
  Clients of the serial server:
  \<^verbatim>\<open>apps/serialserver_interrupt/components/Client/src/interrupt-client.c\<close>,
  \<^verbatim>\<open>apps/serialserver_polling/components/Client/src/polling-client.c\<close> and
  \<^verbatim>\<open>apps/serialserver_loopback/components/Client/src/client.c\<close>. The first two read characters
  from a cyclic buffer they share with the server and print them by lines. The server is
  external: a step of it stores a character at the tail and signals the client's
  notification, which is one flag however often it is signalled, and waiting on it clears it.
  Steps of server and client are interleaved in any order.
\<close>

definition CLIENT_BUF :: nat where "CLIENT_BUF = 20"

definition SERIAL_BUF :: nat where "SERIAL_BUF = 0x1000 - 8"

definition GETCHAR_BUF :: nat where "GETCHAR_BUF = 0x1000 - 8"

record getchar_buf =
  gc_head :: nat
  gc_tail :: nat
  gc_buf :: bytes
  gc_signal :: bool

definition server_put :: "u8 \<Rightarrow> getchar_buf \<Rightarrow> getchar_buf" where
  "server_put c s =
     s\<lparr>gc_buf := (gc_buf s)[gc_tail s := c], gc_tail := (gc_tail s + 1) mod SERIAL_BUF, gc_signal := True\<rparr>"

section \<open>One character\<close>

text \<open>\<open>None\<close>: the client blocks and nothing has changed.\<close>

definition interrupt_getc :: "getchar_buf \<Rightarrow> (u8 \<times> getchar_buf) option result" where
  "interrupt_getc s0 =
     (if gc_head s0 = gc_tail s0 \<and> \<not> gc_signal s0 then Inr None
      else let s = (if gc_head s0 = gc_tail s0 then s0\<lparr>gc_signal := False\<rparr> else s0) in
        rbind (array_read (gc_buf s) (gc_head s)) (\<lambda>c.
        Inr (Some (c, s\<lparr>gc_head := (gc_head s + 1) mod SERIAL_BUF\<rparr>))))"

definition polling_getc :: "getchar_buf \<Rightarrow> (u8 \<times> getchar_buf) option result" where
  "polling_getc s0 =
     (if gc_head s0 = gc_tail s0 \<and> \<not> gc_signal s0 then Inr None
      else let s = (if gc_head s0 = gc_tail s0 then s0\<lparr>gc_signal := False\<rparr> else s0) in
        rbind (array_read (gc_buf s) (gc_head s)) (\<lambda>c.
        Inr (Some (c, s\<lparr>gc_head := (gc_head s + 1) mod GETCHAR_BUF\<rparr>))))"

section \<open>A line\<close>

text \<open>
  The client's buffer and index inside the \<open>do\<close> loop. A character ends the line or is the next of it; the
  line printed is the buffer up to its first null character.
\<close>

record line_state =
  line_buf :: bytes
  line_i :: nat

definition print_line :: "bytes \<Rightarrow> bytes" where
  "print_line buf = takeWhile (\<lambda>c. c \<noteq> 0) buf"

definition line_char :: "u8 \<Rightarrow> line_state \<Rightarrow> (line_state \<times> bytes list) result" where
  "line_char c s =
     rbind (array_write (line_buf s) (line_i s) c) (\<lambda>b.
     let i' = (if c \<noteq> 13 then line_i s + 1 else line_i s) in
     if c \<noteq> 13 \<and> i' < CLIENT_BUF - 1
     then Inr (s\<lparr>line_buf := b, line_i := i'\<rparr>, [])
     else rbind (array_write b i' 0) (\<lambda>b'.
          Inr (s\<lparr>line_buf := b', line_i := 0\<rparr>, [print_line b'])))"

datatype serial_step = ServerPut u8 | ClientTurn

type_synonym serial_world = "getchar_buf \<times> line_state"

definition client_turn ::
  "(getchar_buf \<Rightarrow> (u8 \<times> getchar_buf) option result) \<Rightarrow> serial_world \<Rightarrow> (serial_world \<times> bytes list) result" where
  "client_turn getc w =
     rbind (getc (fst w)) (\<lambda>r.
     case r of None \<Rightarrow> Inr (w, [])
     | Some (c, s) \<Rightarrow> rbind (line_char c (snd w)) (\<lambda>(l, out). Inr ((s, l), out)))"

fun serial_run ::
  "(getchar_buf \<Rightarrow> (u8 \<times> getchar_buf) option result) \<Rightarrow> serial_step list \<Rightarrow> serial_world \<Rightarrow>
   (serial_world \<times> bytes list) result" where
  "serial_run getc [] w = Inr (w, [])"
| "serial_run getc (ServerPut c # steps) w = serial_run getc steps (server_put c (fst w), snd w)"
| "serial_run getc (ClientTurn # steps) w =
     rbind (client_turn getc w) (\<lambda>(w', out).
     rbind (serial_run getc steps w') (\<lambda>(w'', out'). Inr (w'', out @ out')))"

definition interrupt_client :: "serial_step list \<Rightarrow> serial_world \<Rightarrow> (serial_world \<times> bytes list) result" where
  "interrupt_client = serial_run interrupt_getc"

definition polling_client :: "serial_step list \<Rightarrow> serial_world \<Rightarrow> (serial_world \<times> bytes list) result" where
  "polling_client = serial_run polling_getc"

section \<open>Lines\<close>

text \<open>The characters cut into lines: at a carriage return, or after nineteen characters.\<close>

fun split_lines :: "bytes \<Rightarrow> bytes \<Rightarrow> bytes list" where
  "split_lines cur [] = []"
| "split_lines cur (c # cs) =
     (if c = 13 then cur # split_lines [] cs
      else if length cur = 18 then (cur @ [c]) # split_lines [] cs
      else split_lines (cur @ [c]) cs)"

fun line_chars :: "bytes \<Rightarrow> line_state \<Rightarrow> (line_state \<times> bytes list) result" where
  "line_chars [] s = Inr (s, [])"
| "line_chars (c # cs) s =
     rbind (line_char c s) (\<lambda>(s', out). rbind (line_chars cs s') (\<lambda>(s'', out'). Inr (s'', out @ out')))"

definition line_ok :: "line_state \<Rightarrow> bool" where
  "line_ok s \<longleftrightarrow> length (line_buf s) = 20 \<and> line_i s < 19"

lemma takeWhile_cut: "takeWhile P (xs @ y # ys) = takeWhile P xs" if "\<not> P y"
  using that by (induction xs) auto

lemma print_line_cut:
  assumes "i < length b"
  shows "print_line (b[i := 0]) = print_line (take i b)"
proof -
  have "b[i := 0] = take i b @ 0 # drop (Suc i) b" using assms by (simp add: upd_conv_take_nth_drop)
  then show ?thesis unfolding print_line_def by (simp add: takeWhile_cut)
qed

lemma line_char_ok:
  assumes "line_ok s"
  shows "\<exists>s' out. line_char c s = Inr (s', out) \<and> line_ok s' \<and>
    (if c = 13 then out = [print_line (take (line_i s) (line_buf s))] \<and> line_i s' = 0
     else if line_i s = 18 then out = [print_line (take (line_i s) (line_buf s) @ [c])] \<and> line_i s' = 0
     else out = [] \<and> take (line_i s') (line_buf s') = take (line_i s) (line_buf s) @ [c] \<and>
       line_i s' = line_i s + 1)"
proof -
  let ?b = "(line_buf s)[line_i s := c]"
  have len: "length (line_buf s) = 20" "line_i s < 19" using assms by (simp_all add: line_ok_def)
  have next': "take (Suc (line_i s)) ?b = take (line_i s) (line_buf s) @ [c]" using len by (intro take_Suc_update) simp
  consider "c = 13" | "c \<noteq> 13" "line_i s = 18" | "c \<noteq> 13" "line_i s < 18" using len by linarith
  then show ?thesis
  proof cases
    case 1
    then have "print_line (?b[line_i s := 0]) = print_line (take (line_i s) (line_buf s))"
      using print_line_cut [of "line_i s" ?b] len by simp
    with 1 len show ?thesis by (simp add: line_char_def line_ok_def CLIENT_BUF_def)
  next
    case 2
    then have "print_line (?b[19 := 0]) = print_line (take 18 (line_buf s) @ [c])"
      using print_line_cut [of 19 ?b] next' len by simp
    with 2 len show ?thesis by (simp add: line_char_def line_ok_def CLIENT_BUF_def)
  next
    case 3
    with len next' show ?thesis by (simp add: line_char_def line_ok_def CLIENT_BUF_def)
  qed
qed

lemma line_chars_ok:
  "line_ok s \<Longrightarrow> \<exists>s'. line_ok s' \<and>
     line_chars cs s = Inr (s', map print_line (split_lines (take (line_i s) (line_buf s)) cs))"
proof (induction cs arbitrary: s)
  case (Cons c cs)
  obtain s1 out where s1: "line_char c s = Inr (s1, out)" "line_ok s1" and eff:
    "if c = 13 then out = [print_line (take (line_i s) (line_buf s))] \<and> line_i s1 = 0
     else if line_i s = 18 then out = [print_line (take (line_i s) (line_buf s) @ [c])] \<and> line_i s1 = 0
     else out = [] \<and> take (line_i s1) (line_buf s1) = take (line_i s) (line_buf s) @ [c] \<and>
       line_i s1 = line_i s + 1" using line_char_ok [OF Cons.prems] by blast
  have "length (take (line_i s) (line_buf s)) = line_i s" using Cons.prems by (simp add: line_ok_def)
  with Cons.IH [OF s1(2)] s1(1) eff show ?case by (auto split: if_splits)
qed simp

section \<open>Properties\<close>

text \<open>
  Reading lines is safe and loses nothing: whatever characters arrive, the line
  buffer of twenty is never left, and what is printed is the characters cut at the
  carriage returns and after every nineteenth character of a line.
\<close>

theorem serial_lines:
  assumes "length buf = 20"
  shows "\<exists>s'. line_chars cs \<lparr>line_buf = buf, line_i = 0\<rparr> = Inr (s', map print_line (split_lines [] cs))"
  using line_chars_ok [of "\<lparr>line_buf = buf, line_i = 0\<rparr>" cs] assms by (auto simp: line_ok_def)

theorem serial_lines_witness:
  "\<exists>s'. line_chars [104, 105, 13, 33] \<lparr>line_buf = replicate 20 0, line_i = 0\<rparr> = Inr (s', [[104, 105]])"
  using serial_lines [of "replicate 20 0" "[104, 105, 13, 33]"] by (simp add: print_line_def)

text \<open>
  The wait for a character does not test again after the notification: when two
  characters arrive before the client looks, it reads both without waiting, and the
  signal that is left makes it read a third character nobody sent, after which the buffer looks
  full. Both clients do so.
\<close>

theorem serial_stale_read:
  assumes "length b = 4088" "length (line_buf l) = 20" "line_i l < 10" "a \<noteq> 13" "c \<noteq> 13" "b ! 2 \<noteq> 13"
  shows "\<exists>s l'. interrupt_client [ServerPut a, ServerPut c, ClientTurn, ClientTurn, ClientTurn]
      (\<lparr>gc_head = 0, gc_tail = 0, gc_buf = b, gc_signal = False\<rparr>, l) = Inr ((s, l'), []) \<and>
    take (line_i l') (line_buf l') = take (line_i l) (line_buf l) @ [a, c, b ! 2] \<and>
    gc_head s = 3 \<and> gc_tail s = 2 \<and>
    polling_client [ServerPut a, ServerPut c, ClientTurn, ClientTurn, ClientTurn]
      (\<lparr>gc_head = 0, gc_tail = 0, gc_buf = b, gc_signal = False\<rparr>, l) = Inr ((s, l'), [])"
proof -
  have ok: "line_ok l" using assms(2,3) by (simp add: line_ok_def)
  obtain l1 where l1: "line_char a l = Inr (l1, [])" "line_ok l1" "line_i l1 = line_i l + 1"
      "take (line_i l1) (line_buf l1) = take (line_i l) (line_buf l) @ [a]"
    using line_char_ok [OF ok, of a] assms(3,4) by auto
  obtain l2 where l2: "line_char c l1 = Inr (l2, [])" "line_ok l2" "line_i l2 = line_i l + 2"
      "take (line_i l2) (line_buf l2) = take (line_i l) (line_buf l) @ [a, c]"
    using line_char_ok [OF l1(2), of c] assms(3,5) l1(3,4) by auto
  obtain l3 where l3: "line_char (b ! 2) l2 = Inr (l3, [])"
      "take (line_i l3) (line_buf l3) = take (line_i l) (line_buf l) @ [a, c, b ! 2]"
    using line_char_ok [OF l2(2), of "b ! 2"] assms(3,6) l2(3,4) by auto
  show ?thesis using l1(1) l2(1) l3 assms(1)
    by (simp add: interrupt_client_def polling_client_def client_turn_def interrupt_getc_def polling_getc_def
        server_put_def SERIAL_BUF_def GETCHAR_BUF_def flip: numeral_2_eq_2)
qed

theorem serial_stale_read_witness:
  "\<exists>s l'. interrupt_client [ServerPut 65, ServerPut 66, ClientTurn, ClientTurn, ClientTurn]
      (\<lparr>gc_head = 0, gc_tail = 0, gc_buf = replicate 4088 0, gc_signal = False\<rparr>,
       \<lparr>line_buf = replicate 20 0, line_i = 0\<rparr>) = Inr ((s, l'), []) \<and>
    take (line_i l') (line_buf l') = [65, 66, 0]"
  using serial_stale_read [of "replicate 4088 0" "\<lparr>line_buf = replicate 20 0, line_i = 0\<rparr>" 65 66]
  by auto

text \<open>As long as characters wait, the client gets the one that arrived first.\<close>

lemma interrupt_getc_fifo:
  assumes "gc_head s < 4088" "gc_tail s < 4088" "length (gc_buf s) = 4088" "gc_head s \<noteq> gc_tail s"
  shows "\<exists>c s'. interrupt_getc s = Inr (Some (c, s')) \<and>
    ring_list 4088 ((!) (gc_buf s)) (gc_tail s) (gc_head s) =
      c # ring_list 4088 ((!) (gc_buf s')) (gc_tail s') (gc_head s')"
  using assms ring_list_pop [of "gc_tail s" 4088 "gc_head s" "(!) (gc_buf s)"]
  by (auto simp: interrupt_getc_def SERIAL_BUF_def)

section \<open>The loop-back client\<close>

text \<open>
  The virtqueue library's answers are arguments; what the client asks of it is a list. A
  buffer the client allocated is its bytes.
\<close>

datatype loopback_call =
    SendRead nat
  | SendWrite bytes
  | NotifyRead
  | NotifyWrite
  | FreeBuffer
  | FreeQueued

definition write_output :: "int \<Rightarrow> bytes \<Rightarrow> loopback_call list" where
  "write_output scatter_ret write_data =
     (if scatter_ret \<noteq> 0 then [SendWrite write_data] else [SendWrite write_data, NotifyWrite])"

definition loopback_test :: "int \<Rightarrow> loopback_call list" where
  "loopback_test scatter_ret =
     (let buffer_size = 4000 in
      if scatter_ret \<noteq> 0 then [SendRead buffer_size] else [SendRead buffer_size, NotifyRead])"

text \<open>
  \<open>used\<close>: the length \<open>virtqueue_get_used_buf\<close> reports; \<open>alloc\<close>: whether there is memory;
  \<open>gather\<close>: the bytes copied, or \<open>None\<close> when copying fails and the buffer stays clear.
\<close>

definition handle_read_callback ::
  "nat option \<Rightarrow> bool \<Rightarrow> bytes option \<Rightarrow> int \<Rightarrow> loopback_call list" where
  "handle_read_callback used alloc gather scatter_ret =
     (case used of None \<Rightarrow> []
      | Some len \<Rightarrow>
          if \<not> alloc then []
          else (if gather = None then [FreeBuffer] else []) @
            write_output scatter_ret (case gather of None \<Rightarrow> replicate len 0 | Some bs \<Rightarrow> take len bs))"

definition handle_write_callback :: "nat option \<Rightarrow> nat \<Rightarrow> int \<Rightarrow> loopback_call list" where
  "handle_write_callback used gathered scatter_ret =
     (case used of None \<Rightarrow> []
      | Some len \<Rightarrow> replicate gathered FreeQueued @ loopback_test scatter_ret)"

definition serial_read_wait_callback ::
  "bool \<Rightarrow> nat option \<Rightarrow> bool \<Rightarrow> bytes option \<Rightarrow> int \<Rightarrow> loopback_call list" where
  "serial_read_wait_callback poll used alloc gather scatter_ret =
     (if poll then handle_read_callback used alloc gather scatter_ret else [])"

definition serial_write_wait_callback :: "bool \<Rightarrow> nat option \<Rightarrow> nat \<Rightarrow> int \<Rightarrow> loopback_call list" where
  "serial_write_wait_callback poll used gathered scatter_ret =
     (if poll then handle_write_callback used gathered scatter_ret else [])"

definition loopback_run :: "int \<Rightarrow> int \<Rightarrow> int \<Rightarrow> int \<times> loopback_call list" where
  "loopback_run read_err write_err scatter_ret =
     (if read_err \<noteq> 0 then (1, [])
      else if write_err \<noteq> 0 then (1, [])
      else (0, loopback_test scatter_ret))"

text \<open>
  What is read is written back whole, and the next read is asked for when the write
  has been consumed; when copying fails the freed buffer is written all the same.
\<close>

lemma loopback_round:
  "serial_read_wait_callback True (Some (length bs)) True (Some bs) 0 = [SendWrite bs, NotifyWrite] \<and>
   serial_write_wait_callback True (Some n) 1 0 = [FreeQueued, SendRead 4000, NotifyRead]"
  by (simp add: serial_read_wait_callback_def serial_write_wait_callback_def handle_read_callback_def
      handle_write_callback_def write_output_def loopback_test_def)

lemma loopback_use_after_free:
  "handle_read_callback (Some n) True None 0 = [FreeBuffer, SendWrite (replicate n 0), NotifyWrite]"
  by (simp add: handle_read_callback_def write_output_def)

end
