(* ===== verification/String_Services.thy ===== *)
theory String_Services
  imports Camkes_Prelude
begin

text \<open>
  The string services: the processors of \<^verbatim>\<open>apps/hierarchical-components\<close> and
  \<^verbatim>\<open>apps/multiassembly\<close> (\<^verbatim>\<open>Reverse\<close>, \<^verbatim>\<open>UpperCase\<close>, \<^verbatim>\<open>Append\<close>), the string reversal over
  a shared buffer of \<^verbatim>\<open>apps/reversestring\<close> and \<^verbatim>\<open>apps/rumprun_ethernet\<close> as a call (its steps are in \<open>Reverse_Steps\<close>), the exchange of
  \<^verbatim>\<open>apps/exchangestring\<close> and the key-value filter of \<^verbatim>\<open>apps/filter\<close>. A C string is its characters
  as bytes, without the terminator where it is a value passed between components, a buffer is
  its bytes. A processor is the string it passes on.
\<close>

section \<open>Swapping a string from both ends\<close>

text \<open>The loop of the three reversals: \<open>n\<close> swaps from index \<open>i\<close>, \<open>last\<close> being the last index.\<close>

fun swap_loop :: "nat \<Rightarrow> nat \<Rightarrow> nat \<Rightarrow> 'a list \<Rightarrow> 'a list result" where
  "swap_loop 0 i last_idx str = Inr str"
| "swap_loop (Suc n) i last_idx str =
     rbind (array_read str i) (\<lambda>tmp.
     rbind (array_read str (last_idx - i)) (\<lambda>x.
     rbind (array_write str i x) (\<lambda>str1.
     rbind (array_write str1 (last_idx - i) tmp) (\<lambda>str2.
     swap_loop n (i + 1) last_idx str2))))"

text \<open>\<open>Reverse\<close>: the loop runs to \<open>last_idx / 2\<close>, in C division, which is 0 for \<open>-1\<close>.\<close>

definition reverse_process :: "bytes \<Rightarrow> bytes result" where
  "reverse_process arg =
     (let last_idx = int (length arg) - 1 in
      if last_idx < 0 then Inr arg else swap_loop (nat last_idx div 2) 0 (nat last_idx) arg)"

definition multi_reverse_process :: "bytes \<Rightarrow> bytes result" where
  "multi_reverse_process arg =
     (let last_idx = int (length arg) - 1 in
      if last_idx < 0 then Inr arg else swap_loop (nat last_idx div 2) 0 (nat last_idx) arg)"

text \<open>\<open>UpperCase\<close>: \<open>'A' - 'a'\<close> is added to the small letters.\<close>

definition TO_UPPER_DIST :: u8 where "TO_UPPER_DIST = 65 - 97"

definition upper_char :: "u8 \<Rightarrow> u8" where
  "upper_char c = (if 97 \<le> c \<and> c \<le> 122 then c + TO_UPPER_DIST else c)"

definition uppercase_process :: "bytes \<Rightarrow> bytes" where
  "uppercase_process arg = map upper_char arg"

definition multi_uppercase_process :: "bytes \<Rightarrow> bytes" where
  "multi_uppercase_process arg = map upper_char arg"

text \<open>\<open>Append\<close>: \<open>snprintf\<close> into 128 bytes keeps 127 characters.\<close>

definition APPEND_BUF_SIZE :: nat where "APPEND_BUF_SIZE = 128"

definition append_process :: "bytes \<Rightarrow> bytes \<Rightarrow> bytes" where
  "append_process string_to_append str = take (APPEND_BUF_SIZE - 1) (str @ string_to_append)"

definition multi_append_process :: "bytes \<Rightarrow> bytes \<Rightarrow> bytes" where
  "multi_append_process string_to_append str = take (APPEND_BUF_SIZE - 1) (str @ string_to_append)"

section \<open>Reversal in a shared buffer\<close>

definition REVERSE_STRING_BUFSIZE :: nat where "REVERSE_STRING_BUFSIZE = 4096"

definition REVERSE_STRING_END_IDX :: nat where "REVERSE_STRING_END_IDX = REVERSE_STRING_BUFSIZE - 1"

definition REVERSE_STRING_MAX_LEN :: nat where "REVERSE_STRING_MAX_LEN = REVERSE_STRING_END_IDX - 1"

definition c_strnlen :: "nat \<Rightarrow> bytes \<Rightarrow> nat" where
  "c_strnlen n buf = length (takeWhile (\<lambda>c. c \<noteq> 0) (take n buf))"

definition reverse_buffer :: "bytes \<Rightarrow> bytes result" where
  "reverse_buffer buffer_str =
     (let len = c_strnlen REVERSE_STRING_MAX_LEN buffer_str in swap_loop (len div 2) 0 (len - 1) buffer_str)"

definition rump_reverse_buffer :: "bytes \<Rightarrow> bytes result" where
  "rump_reverse_buffer buffer_str =
     (let len = c_strnlen REVERSE_STRING_MAX_LEN buffer_str in swap_loop (len div 2) 0 (len - 1) buffer_str)"

text \<open>
  The endless loop of the rump kernel's partner: for each event the string it prints and the buffer it leaves when it
  emits its own event. The arguments are the buffers at the events.
\<close>

definition rump_reverse_run :: "bytes list \<Rightarrow> (bytes \<times> bytes) list result" where
  "rump_reverse_run buffers =
     rmap (\<lambda>buffer_str. rbind (rump_reverse_buffer buffer_str) (\<lambda>b. Inr (takeWhile (\<lambda>c. c \<noteq> 0) buffer_str, b))) buffers"

section \<open>Exchanging strings\<close>

text \<open>
  \<open>strcpy\<close> of a string and its terminator at an offset of allocated memory. The reply, the
  output and the joint string; \<open>joint\<close> is what the caller passed in.
\<close>

definition strcpy_at :: "bytes \<Rightarrow> nat \<Rightarrow> bytes \<Rightarrow> bytes result" where
  "strcpy_at mem off str =
     (if off + length str + 1 \<le> length mem
      then Inr (take off mem @ str @ [0] @ drop (off + length str + 1) mem) else Inl IndexError)"

definition a_exchange :: "bytes \<Rightarrow> bytes \<Rightarrow> (bytes \<times> bytes \<times> bytes) result" where
  "a_exchange reply input =
     (let output = (strncpy_bytes 30 (reply @ [0]))[29 := 0] in
      rbind (strcpy_at (replicate 50 0) 0 input) (\<lambda>j1.
      rbind (strcpy_at j1 (length input) reply) (\<lambda>j2. Inr (reply, output, j2))))"

section \<open>The filter\<close>

text \<open>\<open>''foo''\<close> to \<open>''bar''\<close> and \<open>''secret''\<close> to \<open>''baz''\<close>; the empty string for a key not found.\<close>

definition store_dict :: "(string \<times> string) list" where
  "store_dict = [(''foo'', ''bar''), (''secret'', ''baz'')]"

fun dict_lookup :: "(string \<times> string) list \<Rightarrow> string \<Rightarrow> string" where
  "dict_lookup [] key = ''''"
| "dict_lookup ((k, v) # d) key = (if key = k then v else dict_lookup d key)"

definition l_get_value :: "string \<Rightarrow> string" where
  "l_get_value key = dict_lookup store_dict key"

definition external_get_value :: "(string \<Rightarrow> string) \<Rightarrow> string \<Rightarrow> string" where
  "external_get_value backing_get_value key = (if key = ''secret'' then '''' else backing_get_value key)"

definition filter_client :: "(string \<Rightarrow> string) \<Rightarrow> string list" where
  "filter_client get_value = [get_value ''foo'', get_value ''secret'']"

section \<open>What the swaps leave\<close>

text \<open>\<open>n\<close> pairs swapped from the ends of a list.\<close>

fun ends_swapped :: "nat \<Rightarrow> 'a list \<Rightarrow> 'a list" where
  "ends_swapped 0 m = m"
| "ends_swapped (Suc n) m = last m # ends_swapped n (butlast (tl m)) @ [hd m]"

lemma split_ends: "2 \<le> length m \<Longrightarrow> \<exists>x k y. m = x # k @ [y]"
  by (metis One_nat_def Suc_1 Suc_le_length_iff append_butlast_last_id list.size(3) not_less_eq_eq zero_le)

lemma swap_loop_ok:
  "2 * n \<le> length m \<Longrightarrow> last_idx + 1 = 2 * length pre + length m \<Longrightarrow>
   swap_loop n (length pre) last_idx (pre @ m @ post) = Inr (pre @ ends_swapped n m @ post)"
proof (induction n arbitrary: pre m post)
  case (Suc n)
  obtain x k y where m: "m = x # k @ [y]" using split_ends [of m] Suc.prems(1) by auto
  have idx: "last_idx - length pre = length pre + Suc (length k)" using Suc.prems(2) m by simp
  have read: "array_read (pre @ m @ post) (length pre) = Inr x"
      "array_read (pre @ m @ post) (length pre + Suc (length k)) = Inr y"
    by (simp_all add: array_read_def m nth_append)
  have wr1: "array_write (pre @ m @ post) (length pre) y = Inr (pre @ (y # k @ [y]) @ post)"
    by (simp add: array_write_def m list_update_append)
  have wr2: "array_write (pre @ (y # k @ [y]) @ post) (length pre + Suc (length k)) x = Inr (pre @ (y # k @ [x]) @ post)"
    by (simp add: array_write_def list_update_append)
  have "swap_loop n (length (pre @ [y])) last_idx ((pre @ [y]) @ k @ (x # post)) =
      Inr ((pre @ [y]) @ ends_swapped n k @ (x # post))"
    by (rule Suc.IH) (use Suc.prems m in simp_all)
  then have "swap_loop n (length pre + 1) last_idx (pre @ (y # k @ [x]) @ post) =
      Inr (pre @ ends_swapped (Suc n) m @ post)" by (simp add: m)
  then show ?case by (simp only: swap_loop.simps read wr1 wr2 idx rbind_Inr)
qed simp

lemma ends_swapped_half: "n = length m div 2 \<Longrightarrow> ends_swapped n m = rev m"
proof (induction n arbitrary: m)
  case 0
  then have "length m \<le> 1" by linarith
  then show ?case by (cases m) auto
next
  case (Suc n)
  then have "2 \<le> length m" by linarith
  then obtain x k y where m: "m = x # k @ [y]" using split_ends [of m] by blast
  have "n = length k div 2" using Suc.prems m by simp
  from Suc.IH [OF this] show ?case by (simp add: m)
qed

lemma ends_swapped_middle: "n = length u \<Longrightarrow> n = length v \<Longrightarrow> ends_swapped n (u @ [a, b] @ v) = rev v @ [a, b] @ rev u"
proof (induction n arbitrary: u v)
  case (Suc n)
  obtain x u' where u: "u = x # u'" using Suc.prems(1) by (cases u) auto
  obtain v' y where v: "v = v' @ [y]" using Suc.prems(2) by (cases v rule: rev_cases) auto
  have "n = length u'" "n = length v'" using Suc.prems u v by simp_all
  from Suc.IH [OF this] show ?case by (simp add: u v butlast_append)
qed simp

section \<open>Properties\<close>

lemma reverse_process_odd:
  assumes "odd (length s)"
  shows "reverse_process s = Inr (rev s)"
proof -
  have "0 < length s" using assms by (rule odd_pos)
  moreover have "(length s - 1) div 2 = length s div 2" using assms by (auto elim!: oddE)
  moreover have "nat (int (length s) - 1) = length s - 1" by arith
  ultimately show ?thesis
    using swap_loop_ok [of "length s div 2" s "length s - 1" "[]" "[]"] ends_swapped_half [of "length s div 2" s]
    by (simp add: reverse_process_def Let_def)
qed

text \<open>
  The bound of the \<open>Reverse\<close> processors is half the last index instead of half the
  length: strings of odd length are reversed, in those of even length the middle pair stays.
\<close>

theorem reverse_process_even:
  assumes "length u = length v"
  shows "reverse_process (u @ [a, b] @ v) = Inr (rev v @ [a, b] @ rev u) \<and>
    multi_reverse_process (u @ [a, b] @ v) = Inr (rev v @ [a, b] @ rev u)"
proof -
  let ?s = "u @ [a, b] @ v"
  have "nat (int (length ?s) - 1) div 2 = length u" "nat (int (length ?s) - 1) = 2 * length u + 1"
    using assms by simp_all
  with swap_loop_ok [of "length u" ?s "2 * length u + 1" "[]" "[]"] ends_swapped_middle [OF refl assms, of a b] assms
  show ?thesis by (simp add: reverse_process_def multi_reverse_process_def)
qed

lemma takeWhile_string: "0 \<notin> set s \<Longrightarrow> takeWhile (\<lambda>c. c \<noteq> 0) (s @ 0 # zs) = s" for s :: bytes
  by (subst takeWhile_append2) auto

lemma strnlen_string:
  assumes "0 \<notin> set s" "length s \<le> 4094"
  shows "c_strnlen 4094 (s @ 0 # zs) = length s"
proof (cases "length s = 4094")
  case True
  then have "take 4094 (s @ 0 # zs) = s" by simp
  moreover have "takeWhile (\<lambda>c. c \<noteq> 0) s = s" using assms(1) by (auto simp: takeWhile_eq_all_conv)
  ultimately show ?thesis by (simp only: c_strnlen_def)
next
  case False
  then obtain k where "4094 - length s = Suc k" using assms(2) by (cases "4094 - length s") auto
  then have "take 4094 (s @ 0 # zs) = s @ 0 # take k zs" by simp
  then show ?thesis by (simp only: c_strnlen_def takeWhile_string [OF assms(1)])
qed

lemma reverse_buffer_string:
  assumes "0 \<notin> set s" "length s \<le> 4094"
  shows "reverse_buffer (s @ 0 # zs) = Inr (rev s @ 0 # zs) \<and> rump_reverse_buffer (s @ 0 # zs) = Inr (rev s @ 0 # zs)"
proof (cases "s = []")
  case True
  with strnlen_string [OF assms, of zs] show ?thesis
    by (simp add: reverse_buffer_def rump_reverse_buffer_def REVERSE_STRING_MAX_LEN_def REVERSE_STRING_END_IDX_def
        REVERSE_STRING_BUFSIZE_def)
next
  case False
  then have "length s - 1 + 1 = length s" by (cases s) auto
  with swap_loop_ok [of "length s div 2" s "length s - 1" "[]" "0 # zs"] ends_swapped_half [of "length s div 2" s]
    strnlen_string [OF assms, of zs] show ?thesis
    by (simp add: reverse_buffer_def rump_reverse_buffer_def REVERSE_STRING_MAX_LEN_def REVERSE_STRING_END_IDX_def
        REVERSE_STRING_BUFSIZE_def)
qed

lemma rump_reverse_run_strings:
  assumes "list_all (\<lambda>s. 0 \<notin> set s \<and> length s \<le> 4094) ss"
  shows "rump_reverse_run (map (\<lambda>s. s @ 0 # f s) ss) = Inr (map (\<lambda>s. (s, rev s @ 0 # f s)) ss)"
  using assms
  by (induction ss) (simp_all add: rump_reverse_run_def reverse_buffer_string takeWhile_string)

text \<open>
  The exchange copies both strings into fifty bytes: it fits exactly when the client's string
  has at most twenty characters, and the application's own client sends twenty-four.
\<close>

theorem exchange_overflow:
  "a_exchange (replicate 29 82) input = Inl IndexError \<longleftrightarrow> 20 < length input"
  by (auto simp: a_exchange_def strcpy_at_def rbind_def split: sum.splits)

text \<open>The filter hides the secret and nothing else, whatever key is asked for.\<close>

theorem filter_hides_secret:
  "external_get_value l_get_value key = (if key = ''secret'' then '''' else l_get_value key) \<and>
   external_get_value l_get_value key \<noteq> ''baz'' \<and>
   filter_client (external_get_value l_get_value) = [''bar'', '''']"
  by (simp add: external_get_value_def l_get_value_def store_dict_def filter_client_def)

lemma rev_consts: "REVERSE_STRING_END_IDX = 4095" "REVERSE_STRING_MAX_LEN = 4094" "REVERSE_STRING_BUFSIZE = 4096"
  by (simp_all add: REVERSE_STRING_END_IDX_def REVERSE_STRING_MAX_LEN_def REVERSE_STRING_BUFSIZE_def)

end
