(* ===== verification/Fdt_Dump.thy ===== *)
theory Fdt_Dump
  imports Camkes_Prelude
begin

text \<open>
  \<^verbatim>\<open>apps/fdtgen/fdt_utils.c\<close>: the printer of flattened device trees. The blob is its
  bytes; a pointer into it is the offset from its start, an integer because a length
  read from the blob can be negative, and every read is checked against the blob. What is
  printed to the standard output is the result. The constants of libfdt and the fields of the
  header, as its macros read them, are parameters: two records. Conversions of libfdt read
  cells in big-endian order.
\<close>

record fdt_consts =
  FDT_BEGIN_NODE :: u32
  FDT_END_NODE :: u32
  FDT_PROP :: u32
  FDT_NOP :: u32
  FDT_END :: u32

record fdt_header =
  magic :: u32
  totalsize :: u32
  off_dt_struct :: u32
  off_dt_strings :: u32
  off_mem_rsvmap :: u32
  version :: u32
  last_comp_version :: u32
  boot_cpuid_phys :: u32
  size_dt_strings :: u32
  size_dt_struct :: u32

section \<open>Reading the blob\<close>

definition be_value :: "bytes \<Rightarrow> nat" where
  "be_value bs = foldl (\<lambda>v b. v * 256 + unat b) 0 bs"

definition load_bytes :: "bytes \<Rightarrow> int \<Rightarrow> nat \<Rightarrow> bytes result" where
  "load_bytes m p n =
     (if 0 \<le> p \<and> p + int n \<le> int (length m) then Inr (take n (drop (nat p) m)) else Inl IndexError)"

definition load_byte :: "bytes \<Rightarrow> int \<Rightarrow> u8 result" where
  "load_byte m p = rbind (load_bytes m p 1) (\<lambda>bs. Inr (hd bs))"

definition get_cell :: "bytes \<Rightarrow> int \<Rightarrow> u32 result" where
  "get_cell m p = rbind (load_bytes m p 4) (\<lambda>bs. Inr (of_nat (be_value bs)))"

definition load_u64 :: "bytes \<Rightarrow> int \<Rightarrow> u64 result" where
  "load_u64 m p = rbind (load_bytes m p 8) (\<lambda>bs. Inr (of_nat (be_value bs)))"

text \<open>The string at a pointer, without its terminator.\<close>

definition string_at :: "bytes \<Rightarrow> int \<Rightarrow> bytes result" where
  "string_at m p =
     (if 0 \<le> p \<and> p < int (length m) \<and> 0 \<in> set (drop (nat p) m)
      then Inr (takeWhile (\<lambda>c. c \<noteq> 0) (drop (nat p) m)) else Inl IndexError)"

definition chars :: "bytes \<Rightarrow> string" where
  "chars bs = map (\<lambda>b. char_of (unat b)) bs"

text \<open>Aligning the address of a pointer into a blob that starts at \<open>base\<close>.\<close>

definition FDT_ALIGN :: "u64 \<Rightarrow> u64 \<Rightarrow> u64" where
  "FDT_ALIGN x a = (x + (a - 1)) AND NOT (a - 1)"

definition PALIGN :: "u64 \<Rightarrow> int \<Rightarrow> u64 \<Rightarrow> int" where
  "PALIGN base p a = sint (FDT_ALIGN (base + of_int p) a - base)"

section \<open>Printing the value of a property\<close>

text \<open>\<open>isprint\<close> in the C locale.\<close>

definition isprint :: "u8 \<Rightarrow> bool" where
  "isprint c \<longleftrightarrow> 32 \<le> c \<and> c \<le> 126"

text \<open>The inner loop: the first place before \<open>se\<close> with a character that is null or not printable, or \<open>se\<close>.\<close>

function skip_printable :: "bytes \<Rightarrow> int \<Rightarrow> int \<Rightarrow> int result" where
  "skip_printable m s se =
     (if s < se
      then (case load_byte m s of
              Inl f \<Rightarrow> Inl f
            | Inr c \<Rightarrow> if c \<noteq> 0 \<and> isprint c then skip_printable m (s + 1) se else Inr s)
      else Inr s)"
  by pat_completeness auto
termination by (relation "measure (\<lambda>(m, s, se). nat (se - s))") auto

declare skip_printable.simps [simp del]

lemma skip_printable_le: "skip_printable m s se = Inr t \<Longrightarrow> s \<le> t"
proof (induction m s se rule: skip_printable.induct)
  case (1 m s se)
  show ?case
  proof (cases "s < se")
    case True
    from "1.prems" show ?thesis
      by (subst (asm) skip_printable.simps) (use "1.IH" True in \<open>auto split: sum.splits if_splits\<close>)
  next
    case False
    with "1.prems" show ?thesis by (simp add: skip_printable.simps [of m s])
  qed
qed

function printable_strings :: "bytes \<Rightarrow> int \<Rightarrow> int \<Rightarrow> bool result" where
  "printable_strings m ss se =
     (if ss < se
      then (case skip_printable m ss se of
              Inl f \<Rightarrow> Inl f
            | Inr s \<Rightarrow>
                (case load_byte m s of
                   Inl f \<Rightarrow> Inl f
                 | Inr c \<Rightarrow> if c \<noteq> 0 \<or> s = ss then Inr False else printable_strings m (s + 1) se))
      else Inr True)"
  by pat_completeness auto
termination
  by (relation "measure (\<lambda>(m, s, se). nat (se - s))") (auto dest: skip_printable_le)

declare printable_strings.simps [simp del]

definition util_is_printable_string :: "bytes \<Rightarrow> int \<Rightarrow> int \<Rightarrow> bool result" where
  "util_is_printable_string m s len =
     (if len = 0 then Inr False
      else rbind (load_byte m (s + len - 1)) (\<lambda>c.
        if c \<noteq> 0 then Inr False else printable_strings m s (s + len)))"

text \<open>\<open>%08x\<close> of a 32-bit number.\<close>

definition show_hex8 :: "u32 \<Rightarrow> string" where
  "show_hex8 w = (let h = show_hex (unat w) in replicate (8 - length h) CHR ''0'' @ h)"

text \<open>
  \<open>%02x\<close> of a \<open>char\<close>: where the type is signed the promotion to \<open>int\<close> extends the sign.
\<close>

definition show_char2 :: "bool \<Rightarrow> u8 \<Rightarrow> string" where
  "show_char2 char_signed c =
     (if char_signed \<and> 128 \<le> c then show_hex (unat (0xffffff00 OR ucast c :: u32)) else show_hex2 (unat c))"

function print_cells :: "bytes \<Rightarrow> int \<Rightarrow> int \<Rightarrow> int \<Rightarrow> string result" where
  "print_cells m p i len =
     (if i < len
      then rbind (get_cell m p) (\<lambda>w.
           rbind (print_cells m (p + 4) (i + 4) len) (\<lambda>rest.
           Inr (''0x'' @ show_hex8 w @ (if i < len - 4 then '' '' else '''') @ rest)))
      else Inr '''')"
  by pat_completeness auto
termination by (relation "measure (\<lambda>(m, p, i, len). nat (len - i))") auto

declare print_cells.simps [simp del]

function print_bytes :: "bool \<Rightarrow> bytes \<Rightarrow> int \<Rightarrow> int \<Rightarrow> int \<Rightarrow> string result" where
  "print_bytes char_signed m p i len =
     (if i < len
      then rbind (load_byte m p) (\<lambda>c.
           rbind (print_bytes char_signed m (p + 1) (i + 1) len) (\<lambda>rest.
           Inr (show_char2 char_signed c @ (if i < len - 1 then '' '' else '''') @ rest)))
      else Inr '''')"
  by pat_completeness auto
termination by (relation "measure (\<lambda>(cs, m, p, i, len). nat (len - i))") auto

declare print_bytes.simps [simp del]

definition print_data :: "bool \<Rightarrow> bytes \<Rightarrow> int \<Rightarrow> int \<Rightarrow> string result" where
  "print_data char_signed m data_ptr len =
     (if len = 0 then Inr ''''
      else rbind (util_is_printable_string m data_ptr len) (\<lambda>printable.
        if printable
        then rbind (string_at m data_ptr) (\<lambda>s. Inr ('' = '' @ [CHR 0x22] @ chars s @ [CHR 0x22]))
        else if len mod 4 = 0
        then rbind (print_cells m data_ptr 0 len) (\<lambda>out. Inr ('' = <'' @ out @ ''>''))
        else rbind (print_bytes char_signed m data_ptr 0 len) (\<lambda>out. Inr ('' = ['' @ out @ '']''))))"

section \<open>Printing the tree\<close>

definition newline :: string where "newline = [CHR 0x0a]"

definition tab :: string where "tab = [CHR 0x09]"

definition tabs :: string where "tabs = tab @ tab"

text \<open>\<open>%*s\<close> of the empty string: a negative width is one to the left.\<close>

definition indent :: "int \<Rightarrow> string" where
  "indent w = replicate (nat \<bar>w\<bar>) CHR '' ''"

text \<open>\<open>%d\<close> of a \<open>uint32_t\<close>.\<close>

definition show_signed :: "u32 \<Rightarrow> string" where
  "show_signed w = show_int (sint w)"

definition dump_header :: "fdt_header \<Rightarrow> string" where
  "dump_header h =
     ''/dts-v1/;'' @ newline @
     ''// magic:'' @ tabs @ ''0x'' @ show_hex (unat (magic h)) @ newline @
     ''// totalsize:'' @ tabs @ ''0x'' @ show_hex (unat (totalsize h)) @ '' ('' @ show_signed (totalsize h) @ '')'' @ newline @
     ''// off_dt_struct:'' @ tab @ ''0x'' @ show_hex (unat (off_dt_struct h)) @ newline @
     ''// off_dt_strings:'' @ tab @ ''0x'' @ show_hex (unat (off_dt_strings h)) @ newline @
     ''// off_mem_rsvmap:'' @ tab @ ''0x'' @ show_hex (unat (off_mem_rsvmap h)) @ newline @
     ''// version:'' @ tabs @ show_signed (version h) @ newline @
     ''// last_comp_version:'' @ tab @ show_signed (last_comp_version h) @ newline @
     (if version h \<ge> 2 then ''// boot_cpuid_phys:'' @ tab @ ''0x'' @ show_hex (unat (boot_cpuid_phys h)) @ newline else '''') @
     (if version h \<ge> 3 then ''// size_dt_strings:'' @ tab @ ''0x'' @ show_hex (unat (size_dt_strings h)) @ newline else '''') @
     (if version h \<ge> 17 then ''// size_dt_struct:'' @ tab @ ''0x'' @ show_hex (unat (size_dt_struct h)) @ newline else '''') @
     newline"

text \<open>The memory reservations, up to the one that is all zero.\<close>

function dump_rsvmap :: "bytes \<Rightarrow> int \<Rightarrow> string result" where
  "dump_rsvmap m p =
     (case load_u64 m p of
        Inl f \<Rightarrow> Inl f
      | Inr addr \<Rightarrow>
          (case load_u64 m (p + 8) of
             Inl f \<Rightarrow> Inl f
           | Inr sz \<Rightarrow>
               if addr = 0 \<and> sz = 0 then Inr ''''
               else rbind (dump_rsvmap m (p + 16)) (\<lambda>rest.
                 Inr (''/memreserve/ '' @ show_hex (unat addr) @ '' '' @ show_hex (unat sz) @ '';'' @ newline @ rest))))"
  by pat_completeness auto
termination
  by (relation "measure (\<lambda>(m, p). nat (int (length m) - p))")
     (auto simp: load_u64_def load_bytes_def split: if_splits)

declare dump_rsvmap.simps [simp del]

text \<open>
  The loop over the structure block. A length read from the blob can send it backwards, so
  nothing makes it end: \<open>None\<close> is the endless loop.
\<close>

partial_function (option) dump_struct ::
  "fdt_consts \<Rightarrow> bool \<Rightarrow> fdt_header \<Rightarrow> u64 \<Rightarrow> bytes \<Rightarrow> int \<Rightarrow> int \<Rightarrow> string \<Rightarrow> string result option" where
  "dump_struct K char_signed h base m p depth out =
     (case get_cell m p of
        Inl f \<Rightarrow> Some (Inl f)
      | Inr tag \<Rightarrow>
          if tag = FDT_END K then Some (Inr out)
          else if tag = FDT_BEGIN_NODE K then
            (case string_at m (p + 4) of
               Inl f \<Rightarrow> Some (Inl f)
             | Inr s \<Rightarrow>
                 dump_struct K char_signed h base m (PALIGN base (p + 4 + int (length s) + 1) 4) (depth + 1)
                   (out @ indent (depth * 4) @ (if s = [] then ''/'' else chars s) @ '' {'' @ newline))
          else if tag = FDT_END_NODE K then
            dump_struct K char_signed h base m (p + 4) (depth - 1)
              (out @ indent ((depth - 1) * 4) @ ''};'' @ newline)
          else if tag = FDT_NOP K then
            dump_struct K char_signed h base m (p + 4) depth
              (out @ indent (depth * 4) @ ''// [NOP]'' @ newline)
          else if tag \<noteq> FDT_PROP K then Some (Inr out)
          else
            (case get_cell m (p + 4) of
               Inl f \<Rightarrow> Some (Inl f)
             | Inr sz_cell \<Rightarrow>
                 (case get_cell m (p + 8) of
                    Inl f \<Rightarrow> Some (Inl f)
                  | Inr name_off \<Rightarrow>
                      let sz = sint sz_cell;
                          t = (if version h < 16 \<and> sz \<ge> 8 then PALIGN base (p + 12) 8 else p + 12) in
                      (case string_at m (int (unat (off_dt_strings h)) + int (unat name_off)) of
                         Inl f \<Rightarrow> Some (Inl f)
                       | Inr s \<Rightarrow>
                           (case print_data char_signed m t sz of
                              Inl f \<Rightarrow> Some (Inl f)
                            | Inr d \<Rightarrow>
                                dump_struct K char_signed h base m (PALIGN base (t + sz) 4) depth
                                  (out @ indent (depth * 4) @ chars s @ d @ '';'' @ newline))))))"

definition dump_blob ::
  "fdt_consts \<Rightarrow> bool \<Rightarrow> fdt_header \<Rightarrow> u64 \<Rightarrow> bytes \<Rightarrow> string result option" where
  "dump_blob K char_signed h base m =
     (case dump_rsvmap m (int (unat (off_mem_rsvmap h))) of
        Inl f \<Rightarrow> Some (Inl f)
      | Inr rsv \<Rightarrow>
          dump_struct K char_signed h base m (int (unat (off_dt_struct h))) 0 (dump_header h @ rsv))"

section \<open>Where bytes stand in the blob\<close>

definition holds :: "bytes \<Rightarrow> nat \<Rightarrow> bytes \<Rightarrow> bool" where
  "holds m p xs \<longleftrightarrow> p + length xs \<le> length m \<and> take (length xs) (drop p m) = xs"

lemma holds_append: "holds m p (xs @ ys) \<longleftrightarrow> holds m p xs \<and> holds m (p + length xs) ys"
proof -
  have "take (length xs + length ys) (drop p m) =
      take (length xs) (drop p m) @ take (length ys) (drop (p + length xs) m)"
    by (simp add: take_add add.commute)
  moreover have "length (take (length xs) (drop p m)) = length xs" if "p + length xs \<le> length m"
    using that by simp
  ultimately show ?thesis unfolding holds_def by (auto simp: append_eq_append_conv)
qed

lemma holds_whole: "holds (a @ xs @ b) (length a) xs"
  by (simp add: holds_def)

lemma load_holds: "holds m p xs \<Longrightarrow> load_bytes m (int p) (length xs) = Inr xs"
  by (auto simp: holds_def load_bytes_def)

lemma load_byte_holds: "holds m p (c # xs) \<Longrightarrow> load_byte m (int p) = Inr c"
  using load_holds [of m p "[c]"] holds_append [of m p "[c]" xs] by (simp add: load_byte_def)

lemma string_at_holds:
  assumes "holds m p (s @ 0 # r)" "0 \<notin> set s"
  shows "string_at m (int p) = Inr s"
proof -
  have d: "drop p m = (s @ 0 # r) @ drop (Suc (length s + length r)) (drop p m)"
    using assms(1) append_take_drop_id [of "Suc (length s + length r)" "drop p m"] by (simp add: holds_def)
  have "0 \<in> set (drop p m)" by (subst d) simp
  moreover have "takeWhile (\<lambda>c. c \<noteq> 0) (drop p m) = s"
    by (subst d) (use assms(2) in \<open>auto simp: takeWhile_append takeWhile_eq_all_conv\<close>)
  ultimately show ?thesis using assms(1) by (auto simp: string_at_def holds_def)
qed

fun be_bytes :: "nat \<Rightarrow> nat \<Rightarrow> bytes" where
  "be_bytes 0 n = []"
| "be_bytes (Suc k) n = be_bytes k (n div 256) @ [of_nat n]"

lemma length_be_bytes [simp]: "length (be_bytes k n) = k"
  by (induction k arbitrary: n) auto

lemma be_value_be_bytes: "be_value (be_bytes k n) = n mod 256 ^ k"
proof (induction k arbitrary: n)
  case (Suc k)
  have "unat (of_nat n :: u8) = n mod 256" by (simp add: unat_of_nat)
  then have "be_value (be_bytes (Suc k) n) = (n div 256 mod 256 ^ k) * 256 + n mod 256"
    using Suc [of "n div 256"] by (simp add: be_value_def)
  then show ?case by (simp add: mod_mult2_eq mult.commute)
qed (simp add: be_value_def)

definition cell_bytes :: "u32 \<Rightarrow> bytes" where
  "cell_bytes w = be_bytes 4 (unat w)"

lemma length_cell_bytes [simp]: "length (cell_bytes w) = 4"
  by (simp add: cell_bytes_def)

lemma get_cell_holds:
  assumes "holds m p (cell_bytes w)"
  shows "get_cell m (int p) = Inr w"
proof -
  have "be_value (cell_bytes w) = unat w"
    by (simp add: cell_bytes_def be_value_be_bytes)
  then show ?thesis using load_holds [OF assms] by (simp add: get_cell_def)
qed

definition u64_bytes :: "u64 \<Rightarrow> bytes" where
  "u64_bytes w = be_bytes 8 (unat w)"

lemma length_u64_bytes [simp]: "length (u64_bytes w) = 8"
  by (simp add: u64_bytes_def)

lemma load_u64_holds:
  assumes "holds m p (u64_bytes w)"
  shows "load_u64 m (int p) = Inr w"
proof -
  have "unat w < 256 ^ 8" using unsigned_less [of w] by simp
  then have "be_value (u64_bytes w) = unat w"
    by (simp add: u64_bytes_def be_value_be_bytes)
  then show ?thesis using load_holds [OF assms] by (simp add: load_u64_def)
qed

section \<open>Alignment\<close>

definition align_up :: "nat \<Rightarrow> nat \<Rightarrow> nat" where
  "align_up a x = (x + (a - 1)) div a * a"

lemma and_not_mask_eq: "(a :: u64) AND NOT (mask k) = a - take_bit k a"
proof -
  have "NOT a AND take_bit k a = 0"
    by (intro bit_word_eqI) (auto simp: bit_simps)
  then have "a - take_bit k a = a AND NOT (take_bit k a)" by (rule disjunctive_diff_eq_and_not)
  also have "\<dots> = a AND NOT (mask k)" by (intro bit_word_eqI) (auto simp: bit_simps)
  finally show ?thesis by simp
qed

lemma take_bit_aligned_add:
  assumes "take_bit k (base :: u64) = 0"
  shows "take_bit k (base + y) = take_bit k y"
proof -
  have z: "take_bit k (unat base) = 0" using assms by (metis unsigned_take_bit_eq unsigned_0)
  have "take_bit k (unat base + unat y) = take_bit k (unat y)"
    using take_bit_add [of k "unat base" "unat y"] z by simp
  moreover have "base + y = of_nat (unat base + unat y)" "y = of_nat (unat y)" by simp_all
  ultimately show ?thesis by (metis take_bit_of_nat)
qed

lemma PALIGN_align:
  assumes "take_bit k base = 0" "x + 2 ^ k < 2 ^ 63" "k < 63"
  shows "PALIGN base (int x) (2 ^ k) = int (align_up (2 ^ k) x)"
proof -
  define y :: u64 where "y = of_nat (x + (2 ^ k - 1))"
  have mask: "(2 :: u64) ^ k - 1 = mask k" by (simp add: mask_eq_exp_minus_1)
  have "(of_nat (2 ^ k - 1) :: u64) = mask k" by (simp add: of_nat_diff mask_eq_exp_minus_1)
  then have sum: "base + of_int (int x) + mask k = base + y" by (simp only: y_def of_nat_add) simp
  have "(base + y) AND NOT (mask k) = (base + y) - take_bit k (base + y)"
    by (rule and_not_mask_eq)
  also have "take_bit k (base + y) = take_bit k y"
    using assms(1) by (rule take_bit_aligned_add)
  finally have masked: "(base + y) AND NOT (mask k) = base + y - take_bit k y" .
  have diff: "((base + y) AND NOT (mask k)) - base = y - take_bit k y"
    unfolding masked by simp
  let ?z = "x + (2 ^ k - 1)"
  have "take_bit k y = of_nat (?z mod 2 ^ k)"
    using assms(3) by (simp only: y_def take_bit_of_nat take_bit_eq_mod [where 'a = nat])
  then have "y - take_bit k y = of_nat (?z - ?z mod 2 ^ k)"
    by (simp only: y_def of_nat_diff [OF mod_less_eq_dividend])
  then have rest: "y - take_bit k y = of_nat (align_up (2 ^ k) x)"
    by (simp only: align_up_def minus_mod_eq_div_mult)
  have eq: "FDT_ALIGN (base + of_int (int x)) (2 ^ k) - base = of_nat (align_up (2 ^ k) x)"
    by (simp only: FDT_ALIGN_def mask sum diff rest)
  have "align_up (2 ^ k) x \<le> x + (2 ^ k - 1)" by (simp add: align_up_def)
  then have "align_up (2 ^ k) x < 2 ^ 63" using assms(2) by linarith
  then show ?thesis unfolding PALIGN_def eq
    by (simp add: signed_of_nat signed_take_bit_int_eq_self)
qed

lemma PALIGN_4:
  "take_bit 2 base = 0 \<Longrightarrow> x < 2 ^ 62 \<Longrightarrow> PALIGN base (int x) 4 = int (align_up 4 x)"
  using PALIGN_align [of 2 base x] by simp

lemma align_up_4: "4 dvd p \<Longrightarrow> align_up 4 (p + n) = p + align_up 4 n"
  by (elim dvdE) (simp add: align_up_def add.assoc)

section \<open>What a value is printed as\<close>

text \<open>The pieces of a list of strings, cut at the null bytes; a value is a string list when none is empty.\<close>

fun split_null :: "bytes \<Rightarrow> bytes list" where
  "split_null [] = []"
| "split_null (c # cs) =
     (if c = 0 then [] # split_null cs
      else case split_null cs of [] \<Rightarrow> [[c]] | s # ss \<Rightarrow> (c # s) # ss)"

definition good_string :: "bytes \<Rightarrow> bool" where
  "good_string s \<longleftrightarrow> s \<noteq> [] \<and> list_all isprint s"

definition string_list :: "bytes \<Rightarrow> bool" where
  "string_list v \<longleftrightarrow> v \<noteq> [] \<and> last v = 0 \<and> list_all good_string (split_null v)"

fun join :: "string list \<Rightarrow> string" where
  "join [] = ''''"
| "join [x] = x"
| "join (x # y # ys) = x @ '' '' @ join (y # ys)"

fun cells4 :: "bytes \<Rightarrow> u32 list" where
  "cells4 (a # b # c # d # bs) = of_nat (be_value [a, b, c, d]) # cells4 bs"
| "cells4 _ = []"

definition show_value :: "bool \<Rightarrow> bytes \<Rightarrow> string" where
  "show_value char_signed v =
     (if v = [] then ''''
      else if string_list v then '' = '' @ [CHR 0x22] @ chars (takeWhile (\<lambda>c. c \<noteq> 0) v) @ [CHR 0x22]
      else if length v mod 4 = 0 then '' = <'' @ join (map (\<lambda>w. ''0x'' @ show_hex8 w) (cells4 v)) @ ''>''
      else '' = ['' @ join (map (show_char2 char_signed) v) @ '']'')"

lemma isprint_nonzero: "isprint c \<Longrightarrow> c \<noteq> 0"
  by (auto simp: isprint_def)

lemma split_null_prefix:
  "0 \<notin> set s \<Longrightarrow> split_null (s @ 0 # r) = s # split_null r"
  by (induction s) auto

lemma split_null_bad:
  assumes "0 \<notin> set s" "c \<noteq> 0" "\<not> isprint c"
  shows "\<not> list_all good_string (split_null (s @ c # r))"
proof -
  have "\<exists>u us. split_null (s @ c # r) = (s @ c # u) # us"
    using assms(1,2) by (induction s) (auto split: list.split)
  then obtain u us where "split_null (s @ c # r) = (s @ c # u) # us" by blast
  then show ?thesis using assms(3) by (simp add: good_string_def)
qed

lemma skip_printable_holds:
  "holds m p w \<Longrightarrow> skip_printable m (int p) (int (p + length w)) =
     Inr (int (p + length (takeWhile isprint w)))"
proof (induction w arbitrary: p)
  case (Cons c w)
  have c: "load_byte m (int p) = Inr c" using Cons.prems by (rule load_byte_holds)
  have "holds m (p + 1) w" using Cons.prems holds_append [of m p "[c]" w] by simp
  note ih = Cons.IH [OF this]
  show ?case
    by (subst skip_printable.simps) (use c ih isprint_nonzero [of c] in \<open>auto simp: ac_simps\<close>)
qed (simp add: skip_printable.simps)

lemma printable_strings_holds:
  "holds m p w \<Longrightarrow> w = [] \<or> last w = 0 \<Longrightarrow>
     printable_strings m (int p) (int (p + length w)) = Inr (list_all good_string (split_null w))"
proof (induction w arbitrary: p rule: length_induct)
  case (1 w)
  show ?case
  proof (cases "w = []")
    case True
    then show ?thesis by (simp add: printable_strings.simps)
  next
    case False
    let ?s = "takeWhile isprint w"
    have nz: "0 \<notin> set ?s" by (auto simp: isprint_def dest: set_takeWhileD)
    have "\<not> list_all isprint w"
      using False "1.prems"(2) isprint_nonzero [of "last w"] last_in_set [of w] by (auto simp: list_all_iff)
    then have "dropWhile isprint w \<noteq> []" by (auto simp: list_all_iff)
    then obtain c r where d: "dropWhile isprint w = c # r" by (cases "dropWhile isprint w") auto
    then have w: "w = ?s @ c # r" by (metis takeWhile_dropWhile_id)
    have np: "\<not> isprint c" using d by (metis hd_dropWhile list.sel(1) list.simps(3))
    have at: "holds m p ?s" "holds m (p + length ?s) (c # r)"
      using "1.prems"(1) w by (metis holds_append)+
    then have c: "load_byte m (int (p + length ?s)) = Inr c" by (blast intro: load_byte_holds)
    have r: "holds m (p + length ?s + 1) r" using at(2) holds_append [of m "p + length ?s" "[c]" r] by simp
    have len: "length w = length ?s + 1 + length r" by (subst w) simp
    have unf: "printable_strings m (int p) (int (p + length w)) =
        (if c \<noteq> 0 \<or> ?s = [] then Inr False
         else printable_strings m (int (p + length ?s) + 1) (int (p + length w)))"
      by (subst printable_strings.simps) (use False skip_printable_holds [OF "1.prems"(1)] c in simp)
    show ?thesis
    proof (cases "c = 0")
      case True
      have "last w = (if r = [] then c else last r)" by (subst w) simp
      then have "r = [] \<or> last r = 0" using "1.prems"(2) \<open>w \<noteq> []\<close> by (auto split: if_splits)
      moreover have "length r < length w" using len by simp
      ultimately have ih: "printable_strings m (int (p + length ?s + 1)) (int (p + length ?s + 1 + length r)) =
          Inr (list_all good_string (split_null r))"
        using "1.IH" r by blast
      have e: "int (p + length w) = int (p + length ?s + 1 + length r)" using len by simp
      have e1: "int (p + length ?s) + 1 = int (p + length ?s + 1)" by simp
      have "split_null w = ?s # split_null r"
        using split_null_prefix [OF nz, of r] w True by metis
      moreover have "list_all isprint ?s" by (auto simp: list_all_iff dest: set_takeWhileD)
      ultimately have "list_all good_string (split_null w) = (?s \<noteq> [] \<and> list_all good_string (split_null r))"
        by (simp only: list.pred_inject good_string_def simp_thms)
      then show ?thesis unfolding unf unfolding e e1 ih using True by simp
    next
      case False
      then have "\<not> list_all good_string (split_null w)"
        using split_null_bad [OF nz False np, of r] w by metis
      then show ?thesis using unf False by simp
    qed
  qed
qed

lemma util_is_printable_string_holds:
  assumes "holds m p v"
  shows "util_is_printable_string m (int p) (int (length v)) = Inr (string_list v)"
proof (cases "v = []")
  case False
  then have v: "v = butlast v @ [last v]" by simp
  then have "holds m (p + length (butlast v)) [last v]" using assms by (metis holds_append)
  then have l: "load_byte m (int (p + length (butlast v))) = Inr (last v)" by (rule load_byte_holds)
  have e: "int p + int (length v) - 1 = int (p + length (butlast v))" using False by (cases v) simp_all
  have "util_is_printable_string m (int p) (int (length v)) =
      (if last v \<noteq> 0 then Inr False else printable_strings m (int p) (int (p + length v)))"
    unfolding util_is_printable_string_def e l rbind_Inr using False by simp
  then show ?thesis using printable_strings_holds [OF assms] False by (simp add: string_list_def)
qed (simp add: util_is_printable_string_def string_list_def)

lemma join_Cons: "join (x # xs) = x @ (if xs = [] then '''' else '' '' @ join xs)"
  by (cases xs) simp_all

lemma not_4_dvd_small: "\<not> 4 dvd Suc 0" "\<not> 4 dvd Suc (Suc 0)" "\<not> 4 dvd Suc (Suc (Suc 0))"
  by presburger+

lemma cells4_empty: "4 dvd length v \<Longrightarrow> cells4 v = [] \<longleftrightarrow> v = []"
  by (cases v rule: cells4.cases) (auto simp: not_4_dvd_small)

lemma print_cells_holds:
  "holds m p v \<Longrightarrow> 4 dvd length v \<Longrightarrow>
     print_cells m (int p) i (i + int (length v)) = Inr (join (map (\<lambda>w. ''0x'' @ show_hex8 w) (cells4 v)))"
proof (induction v arbitrary: p i rule: cells4.induct)
  case (1 a b c d bs)
  have "holds m p [a, b, c, d]" "holds m (p + 4) bs"
    using "1.prems"(1) holds_append [of m p "[a, b, c, d]" bs]
    by (simp_all add: eval_nat_numeral)
  then have w: "get_cell m (int p) = Inr (of_nat (be_value [a, b, c, d]))"
    using load_holds [of m p "[a, b, c, d]"] by (simp add: get_cell_def eval_nat_numeral)
  have dvd: "4 dvd length bs" using "1.prems"(2) by simp presburger
  have ih: "print_cells m (int p + 4) (i + 4) (i + int (length (a # b # c # d # bs))) =
      Inr (join (map (\<lambda>w. ''0x'' @ show_hex8 w) (cells4 bs)))"
    using "1.IH" [OF \<open>holds m (p + 4) bs\<close> dvd, of "i + 4"] by (simp add: algebra_simps)
  show ?case
    by (subst print_cells.simps) (use w ih dvd in \<open>auto simp: join_Cons cells4_empty\<close>)
qed (auto simp: print_cells.simps not_4_dvd_small)

lemma print_bytes_holds:
  "holds m p v \<Longrightarrow>
     print_bytes cs m (int p) i (i + int (length v)) = Inr (join (map (show_char2 cs) v))"
proof (induction v arbitrary: p i)
  case (Cons c v)
  have c: "load_byte m (int p) = Inr c" using Cons.prems by (rule load_byte_holds)
  have "holds m (p + 1) v" using Cons.prems holds_append [of m p "[c]" v] by simp
  then have ih: "print_bytes cs m (int p + 1) (i + 1) (i + int (length (c # v))) =
      Inr (join (map (show_char2 cs) v))"
    using Cons.IH [of "p + 1" "i + 1"] by (simp add: algebra_simps)
  show ?case by (subst print_bytes.simps) (use c ih in \<open>auto simp: join_Cons\<close>)
qed (simp add: print_bytes.simps)

lemma string_list_at:
  assumes "holds m p v" "string_list v"
  shows "string_at m (int p) = Inr (takeWhile (\<lambda>c. c \<noteq> 0) v)"
proof -
  have "0 \<in> set v" using assms(2) last_in_set [of v] by (auto simp: string_list_def)
  then have "dropWhile (\<lambda>c. c \<noteq> 0) v \<noteq> []" by (auto simp: dropWhile_eq_Nil_conv)
  then obtain c r where d: "dropWhile (\<lambda>c. c \<noteq> 0) v = c # r" by (cases "dropWhile (\<lambda>c. c \<noteq> 0) v") auto
  then have "c = 0" using hd_dropWhile [of "\<lambda>c. c \<noteq> 0" v] by simp
  with d have "v = takeWhile (\<lambda>c. c \<noteq> 0) v @ 0 # r" using takeWhile_dropWhile_id [of "\<lambda>c. c \<noteq> 0" v] by simp
  then have "holds m p (takeWhile (\<lambda>c. c \<noteq> 0) v @ 0 # r)" using assms(1) by simp
  then show ?thesis by (rule string_at_holds) (auto dest: set_takeWhileD)
qed

lemma print_data_holds:
  assumes "holds m p v"
  shows "print_data cs m (int p) (int (length v)) = Inr (show_value cs v)"
proof -
  have cells: "print_cells m (int p) 0 (int (length v)) = Inr (join (map (\<lambda>w. ''0x'' @ show_hex8 w) (cells4 v)))"
    if "length v mod 4 = 0"
    using print_cells_holds [OF assms, of 0] that by auto
  have "int (length v) mod 4 = 0 \<longleftrightarrow> length v mod 4 = 0" by presburger
  then show ?thesis
    using util_is_printable_string_holds [OF assms] string_list_at [OF assms] cells print_bytes_holds [OF assms, of cs 0]
    by (auto simp: print_data_def show_value_def)
qed

section \<open>Flattened trees\<close>

text \<open>
  A device tree, the bytes of its structure block in the standard format, and the text the
  printer has to give. \<open>off\<close> is the offset of a property name in the strings block.
\<close>

datatype fdt_node = FdtNode bytes "(bytes \<times> bytes) list" "fdt_node list"

definition pad4 :: "bytes \<Rightarrow> bytes" where
  "pad4 xs = xs @ replicate (align_up 4 (length xs) - length xs) 0"

definition flat_prop :: "fdt_consts \<Rightarrow> (bytes \<Rightarrow> nat) \<Rightarrow> bytes \<times> bytes \<Rightarrow> bytes" where
  "flat_prop K off nv =
     cell_bytes (FDT_PROP K) @ cell_bytes (of_nat (length (snd nv))) @ cell_bytes (of_nat (off (fst nv))) @
     pad4 (snd nv)"

fun flatten :: "fdt_consts \<Rightarrow> (bytes \<Rightarrow> nat) \<Rightarrow> fdt_node \<Rightarrow> bytes" where
  "flatten K off (FdtNode name props nodes) =
     cell_bytes (FDT_BEGIN_NODE K) @ pad4 (name @ [0]) @ concat (map (flat_prop K off) props) @
     concat (map (flatten K off) nodes) @ cell_bytes (FDT_END_NODE K)"

definition show_prop :: "bool \<Rightarrow> nat \<Rightarrow> bytes \<times> bytes \<Rightarrow> string" where
  "show_prop cs depth nv = replicate (4 * depth) CHR '' '' @ chars (fst nv) @ show_value cs (snd nv) @ '';'' @ newline"

fun show_node :: "bool \<Rightarrow> nat \<Rightarrow> fdt_node \<Rightarrow> string" where
  "show_node cs depth (FdtNode name props nodes) =
     replicate (4 * depth) CHR '' '' @ (if name = [] then ''/'' else chars name) @ '' {'' @ newline @
     concat (map (show_prop cs (Suc depth)) props) @
     concat (map (show_node cs (Suc depth)) nodes) @
     replicate (4 * depth) CHR '' '' @ ''};'' @ newline"

definition prop_ok :: "bytes \<Rightarrow> fdt_header \<Rightarrow> (bytes \<Rightarrow> nat) \<Rightarrow> bytes \<times> bytes \<Rightarrow> bool" where
  "prop_ok m h off nv \<longleftrightarrow>
     0 \<notin> set (fst nv) \<and> length (snd nv) < 2 ^ 31 \<and> off (fst nv) < 2 ^ 32 \<and>
     holds m (unat (off_dt_strings h) + off (fst nv)) (fst nv @ [0])"

fun node_ok :: "bytes \<Rightarrow> fdt_header \<Rightarrow> (bytes \<Rightarrow> nat) \<Rightarrow> fdt_node \<Rightarrow> bool" where
  "node_ok m h off (FdtNode name props nodes) \<longleftrightarrow>
     0 \<notin> set name \<and> list_all (prop_ok m h off) props \<and> list_all (node_ok m h off) nodes"

definition consts_ok :: "fdt_consts \<Rightarrow> bool" where
  "consts_ok K \<longleftrightarrow> distinct [FDT_BEGIN_NODE K, FDT_END_NODE K, FDT_PROP K, FDT_NOP K, FDT_END K]"

lemma align_up_ge: "n \<le> align_up 4 n"
proof -
  have "n \<le> (n + 3) div 4 * 4" by presburger
  then show ?thesis by (simp add: align_up_def)
qed

lemma dvd_align_up [simp]: "4 dvd align_up 4 n"
  by (simp add: align_up_def)

lemma length_pad4 [simp]: "length (pad4 xs) = align_up 4 (length xs)"
  using align_up_ge [of "length xs"] by (simp add: pad4_def)

lemma holds_pad4: "holds m p (pad4 xs) \<Longrightarrow> holds m p xs"
  by (simp add: pad4_def holds_append)

lemma dvd_flat_prop [simp]: "4 dvd length (flat_prop K off nv)"
  by (simp add: flat_prop_def add.assoc [symmetric])

lemma dvd_concat: "(\<And>x. x \<in> set xs \<Longrightarrow> 4 dvd length (f x)) \<Longrightarrow> 4 dvd length (concat (map f xs))"
  by (induction xs) auto

lemma dvd_flatten [simp]: "4 dvd length (flatten K off t)"
proof (induction K off t rule: flatten.induct)
  case (1 K off name props nodes)
  have "4 dvd length (concat (map (flat_prop K off) props))" by (intro dvd_concat) simp
  moreover have "4 dvd length (concat (map (flatten K off) nodes))" using 1 by (intro dvd_concat) blast
  ultimately show ?case by (simp del: length_concat map_map)
qed

lemma indent_depth [simp]: "indent (int d * 4) = replicate (4 * d) CHR '' ''"
  by (simp add: indent_def nat_abs_mult_distrib mult.commute)

text \<open>What the printer needs of a blob around the tree.\<close>

definition blob_ok :: "fdt_consts \<Rightarrow> fdt_header \<Rightarrow> u64 \<Rightarrow> bytes \<Rightarrow> bool" where
  "blob_ok K h base m \<longleftrightarrow> consts_ok K \<and> 16 \<le> version h \<and> take_bit 2 base = 0 \<and> length m < 2 ^ 60"

lemma holds_bound: "holds m p xs \<Longrightarrow> p + length xs \<le> length m"
  by (simp add: holds_def)

lemma dump_prop:
  assumes "blob_ok K h base m" "4 dvd p" "prop_ok m h off nv" "holds m p (flat_prop K off nv)"
  shows "dump_struct K cs h base m (int p) (int d) out =
     dump_struct K cs h base m (int (p + length (flat_prop K off nv))) (int d) (out @ show_prop cs d nv)"
proof -
  obtain n v where nv: "nv = (n, v)" by (cases nv)
  have at: "holds m p (cell_bytes (FDT_PROP K))" "holds m (p + 4) (cell_bytes (of_nat (length v)))"
      "holds m (p + 8) (cell_bytes (of_nat (off n)))" "holds m (p + 12) (pad4 v)"
    using assms(4) by (simp_all add: flat_prop_def nv holds_append add.assoc)
  have sz: "sint (of_nat (length v) :: u32) = int (length v)"
    using assms(3) by (intro sint_small) (simp add: prop_ok_def nv)
  have name: "string_at m (int (unat (off_dt_strings h)) + int (unat (of_nat (off n) :: u32))) = Inr n"
    using assms(3) string_at_holds [of m "unat (off_dt_strings h) + off n" n "[]"]
    by (simp add: prop_ok_def nv unat_of_nat_u32)
  have val: "print_data cs m (int (p + 12)) (int (length v)) = Inr (show_value cs v)"
    by (rule print_data_holds [OF holds_pad4 [OF at(4)]])
  have "p + 12 + length v < 2 ^ 62"
    using holds_bound [OF at(4)] align_up_ge [of "length v"] assms(1) by (simp add: blob_ok_def)
  then have "PALIGN base (int (p + 12 + length v)) 4 = int (align_up 4 (p + 12 + length v))"
    using assms(1) by (intro PALIGN_4) (simp_all add: blob_ok_def)
  moreover have "align_up 4 (p + 12 + length v) = p + 12 + align_up 4 (length v)"
    using assms(2) by (intro align_up_4) simp
  ultimately have al: "PALIGN base (int p + 12 + int (length v)) 4 = int (p + length (flat_prop K off nv))"
    by (simp add: flat_prop_def nv add.assoc)
  have tags: "FDT_PROP K \<noteq> FDT_END K" "FDT_PROP K \<noteq> FDT_BEGIN_NODE K" "FDT_PROP K \<noteq> FDT_END_NODE K"
      "FDT_PROP K \<noteq> FDT_NOP K"
    using assms(1) by (auto simp: blob_ok_def consts_ok_def)
  have ver: "\<not> version h < 16" using assms(1) by (auto simp: blob_ok_def)
  have cells: "get_cell m (int p) = Inr (FDT_PROP K)" "get_cell m (int p + 4) = Inr (of_nat (length v))"
      "get_cell m (int p + 8) = Inr (of_nat (off n))"
    using get_cell_holds [OF at(1)] get_cell_holds [OF at(2)] get_cell_holds [OF at(3)] by simp_all
  show ?thesis
    by (subst dump_struct.simps) (use val name in \<open>simp add: cells tags ver sz al Let_def show_prop_def nv\<close>)
qed

lemma dump_props:
  "blob_ok K h base m \<Longrightarrow> 4 dvd p \<Longrightarrow> list_all (prop_ok m h off) ps \<Longrightarrow>
     holds m p (concat (map (flat_prop K off) ps)) \<Longrightarrow>
     dump_struct K cs h base m (int p) (int d) out =
     dump_struct K cs h base m (int (p + length (concat (map (flat_prop K off) ps)))) (int d)
       (out @ concat (map (show_prop cs d) ps))"
proof (induction ps arbitrary: p out)
  case (Cons nv ps)
  then have "holds m p (flat_prop K off nv)" "prop_ok m h off nv"
    and at: "holds m (p + length (flat_prop K off nv)) (concat (map (flat_prop K off) ps))"
    by (simp_all add: holds_append)
  from dump_prop [OF Cons.prems(1,2) this(2,1), of cs d out]
    Cons.IH [OF Cons.prems(1) _ _ at, of "out @ show_prop cs d nv"] Cons.prems(2,3)
  show ?case by (simp add: add.assoc del: length_concat)
qed simp

lemma dump_begin_node:
  assumes "blob_ok K h base m" "4 dvd p" "0 \<notin> set n"
    and "holds m p (cell_bytes (FDT_BEGIN_NODE K) @ pad4 (n @ [0]))"
  shows "dump_struct K cs h base m (int p) (int d) out =
     dump_struct K cs h base m (int (p + 4 + length (pad4 (n @ [0])))) (int (Suc d))
       (out @ replicate (4 * d) CHR '' '' @ (if n = [] then ''/'' else chars n) @ '' {'' @ newline)"
proof -
  have at: "holds m p (cell_bytes (FDT_BEGIN_NODE K))" "holds m (p + 4) (pad4 (n @ [0]))"
    using assms(4) by (simp_all add: holds_append)
  have name: "string_at m (int p + 4) = Inr n"
    using string_at_holds [of m "p + 4" n "[]"] holds_pad4 [OF at(2)] assms(3) by simp
  have "p + 4 + length (n @ [0]) < 2 ^ 62"
    using holds_bound [OF at(2)] align_up_ge [of "length (n @ [0])"] assms(1) by (simp add: blob_ok_def)
  then have "PALIGN base (int (p + 4 + length (n @ [0]))) 4 = int (align_up 4 (p + 4 + length (n @ [0])))"
    using assms(1) by (intro PALIGN_4) (simp_all add: blob_ok_def)
  moreover have "align_up 4 (p + 4 + length (n @ [0])) = p + 4 + length (pad4 (n @ [0]))"
    using assms(2) unfolding length_pad4 by (intro align_up_4) simp
  ultimately have al: "PALIGN base (int p + 4 + int (length n) + 1) 4 = int (p + 4 + length (pad4 (n @ [0])))"
    by (simp add: ac_simps)
  have tag: "FDT_BEGIN_NODE K \<noteq> FDT_END K" using assms(1) by (auto simp: blob_ok_def consts_ok_def)
  show ?thesis
    by (subst dump_struct.simps)
      (use al in \<open>cases "n = []"; simp add: get_cell_holds [OF at(1)] tag name ac_simps del: length_pad4\<close>)
qed

lemma dump_end_node:
  assumes "blob_ok K h base m" "holds m p (cell_bytes (FDT_END_NODE K))"
  shows "dump_struct K cs h base m (int p) (int (Suc d)) out =
     dump_struct K cs h base m (int (p + 4)) (int d) (out @ replicate (4 * d) CHR '' '' @ ''};'' @ newline)"
proof -
  have tags: "FDT_END_NODE K \<noteq> FDT_END K" "FDT_END_NODE K \<noteq> FDT_BEGIN_NODE K"
    using assms(1) by (auto simp: blob_ok_def consts_ok_def)
  show ?thesis
    by (subst dump_struct.simps) (simp add: get_cell_holds [OF assms(2)] tags)
qed

lemma dump_node:
  assumes "blob_ok K h base m"
  shows "4 dvd p \<Longrightarrow> node_ok m h off t \<Longrightarrow> holds m p (flatten K off t) \<Longrightarrow>
     dump_struct K cs h base m (int p) (int d) out =
     dump_struct K cs h base m (int (p + length (flatten K off t))) (int d) (out @ show_node cs d t)"
proof (induction t arbitrary: p d out)
  case (FdtNode name props nodes)
  let ?ps = "concat (map (flat_prop K off) props)" and ?ns = "concat (map (flatten K off) nodes)"
  let ?q = "p + 4 + length (pad4 (name @ [0]))"
  have at: "holds m p (cell_bytes (FDT_BEGIN_NODE K) @ pad4 (name @ [0]))" "holds m ?q ?ps"
      "holds m (?q + length ?ps) ?ns" "holds m (?q + length ?ps + length ?ns) (cell_bytes (FDT_END_NODE K))"
    using FdtNode.prems(3) by (simp_all add: holds_append add.assoc del: length_pad4 length_concat)
  have ok: "0 \<notin> set name" "list_all (prop_ok m h off) props" "list_all (node_ok m h off) nodes"
    using FdtNode.prems(2) by simp_all
  have q: "4 dvd ?q" using FdtNode.prems(1) by simp
  have nodes: "4 dvd r \<Longrightarrow> list_all (node_ok m h off) ts \<Longrightarrow> set ts \<subseteq> set nodes \<Longrightarrow>
      holds m r (concat (map (flatten K off) ts)) \<Longrightarrow>
      dump_struct K cs h base m (int r) (int (Suc d)) out =
      dump_struct K cs h base m (int (r + length (concat (map (flatten K off) ts)))) (int (Suc d))
        (out @ concat (map (show_node cs (Suc d)) ts))" for r ts out
  proof (induction ts arbitrary: r out)
    case (Cons t ts)
    then have "holds m r (flatten K off t)" "holds m (r + length (flatten K off t)) (concat (map (flatten K off) ts))"
      by (simp_all add: holds_append)
    with FdtNode.IH [of t r "Suc d" out] Cons.prems(1-3)
      Cons.IH [of "r + length (flatten K off t)" "out @ show_node cs (Suc d) t"]
    show ?case by (simp add: add.assoc del: length_concat)
  qed simp
  have r: "4 dvd ?q + length ?ps" using q dvd_concat [of props "flat_prop K off"]
    by (simp del: length_concat length_pad4)
  note dump_begin_node [OF assms FdtNode.prems(1) ok(1) at(1), of cs d out]
  also note dump_props [OF assms q ok(2) at(2)]
  also note nodes [OF r ok(3) subset_refl at(3)]
  also note dump_end_node [OF assms at(4)]
  finally show ?case by (simp add: add.assoc del: length_concat)
qed

section \<open>Properties\<close>

definition show_rsv :: "u64 \<times> u64 \<Rightarrow> string" where
  "show_rsv as = ''/memreserve/ '' @ show_hex (unat (fst as)) @ '' '' @ show_hex (unat (snd as)) @ '';'' @ newline"

definition flat_rsv :: "(u64 \<times> u64) list \<Rightarrow> bytes" where
  "flat_rsv rs = concat (map (\<lambda>as. u64_bytes (fst as) @ u64_bytes (snd as)) rs) @ u64_bytes 0 @ u64_bytes 0"

lemma dump_rsvmap_holds:
  "holds m p (flat_rsv rs) \<Longrightarrow> (0, 0) \<notin> set rs \<Longrightarrow> dump_rsvmap m (int p) = Inr (concat (map show_rsv rs))"
proof (induction rs arbitrary: p)
  case Nil
  then have "holds m p (u64_bytes 0)" "holds m (p + 8) (u64_bytes 0)" by (simp_all add: flat_rsv_def holds_append)
  from load_u64_holds [OF this(1)] load_u64_holds [OF this(2)]
  show ?case by (subst dump_rsvmap.simps) simp
next
  case (Cons as rs)
  then have at: "holds m p (u64_bytes (fst as))" "holds m (p + 8) (u64_bytes (snd as))"
      and rest: "holds m (p + 16) (flat_rsv rs)"
    by (simp_all add: flat_rsv_def holds_append add.assoc)
  have "\<not> (fst as = 0 \<and> snd as = 0)" using Cons.prems(2) by (cases as) auto
  with load_u64_holds [OF at(1)] load_u64_holds [OF at(2)] Cons.IH [OF rest] Cons.prems(2)
  show ?case by (subst dump_rsvmap.simps) (simp add: show_rsv_def [of as])
qed

text \<open>
  Property C3. The printer shows the tree: on a well-formed blob of version 16 or later, whose
  base is aligned to a word, the loop ends, no read leaves the blob, and what is printed is the header,
  the memory reservations and the tree of the structure block as nested text, each node with its properties
  and its children indented by its depth.
\<close>

theorem dump_blob_shows_tree:
  assumes "blob_ok K h base m" "node_ok m h off root" "4 dvd unat (off_dt_struct h)"
    and "holds m (unat (off_dt_struct h)) (flatten K off root @ cell_bytes (FDT_END K))"
    and "holds m (unat (off_mem_rsvmap h)) (flat_rsv rs)" "(0, 0) \<notin> set rs"
  shows "dump_blob K cs h base m =
     Some (Inr (dump_header h @ concat (map show_rsv rs) @ show_node cs 0 root))"
proof -
  let ?p = "unat (off_dt_struct h)"
  have at: "holds m ?p (flatten K off root)" "holds m (?p + length (flatten K off root)) (cell_bytes (FDT_END K))"
    using assms(4) by (simp_all add: holds_append)
  have "dump_struct K cs h base m (int (?p + length (flatten K off root))) 0 out = Some (Inr out)" for out
    by (subst dump_struct.simps) (simp add: get_cell_holds [OF at(2)] del: of_nat_add)
  with dump_node [OF assms(1,3,2) at(1), of cs 0] dump_rsvmap_holds [OF assms(5,6)]
  show ?thesis by (simp add: dump_blob_def)
qed

definition example_consts :: fdt_consts where
  "example_consts = \<lparr>FDT_BEGIN_NODE = 1, FDT_END_NODE = 2, FDT_PROP = 3, FDT_NOP = 4, FDT_END = 9\<rparr>"

definition example_tree :: fdt_node where
  "example_tree = FdtNode [] [([97], [104, 105, 0])] [FdtNode [98] [([97], [0, 0, 0, 1])] []]"

definition example_header :: fdt_header where
  "example_header = \<lparr>magic = 0xd00dfeed, totalsize = 94, off_dt_struct = 32, off_dt_strings = 92,
     off_mem_rsvmap = 0, version = 17, last_comp_version = 16, boot_cpuid_phys = 0, size_dt_strings = 2,
     size_dt_struct = 60\<rparr>"

definition example_blob :: bytes where
  "example_blob = flat_rsv [(1, 2)] @ flatten example_consts (\<lambda>_. 0) example_tree @
     cell_bytes (FDT_END example_consts) @ [97, 0]"

lemma example_lengths:
  "length (flat_rsv [(1, 2)]) = 32" "length (flatten example_consts (\<lambda>_. 0) example_tree) = 56"
  by (simp_all add: flat_rsv_def example_tree_def flat_prop_def align_up_def)

theorem dump_blob_shows_tree_witness:
  "dump_blob example_consts True example_header 0 example_blob =
     Some (Inr (dump_header example_header @ show_rsv (1, 2) @ show_node True 0 example_tree))"
proof -
  have str: "holds example_blob 92 [97, 0]"
    using holds_whole [of "flat_rsv [(1, 2)] @ flatten example_consts (\<lambda>_. 0) example_tree @
      cell_bytes (FDT_END example_consts)" "[97, 0]" "[]"] by (simp add: example_lengths example_blob_def)
  have "length example_blob = 94" by (simp add: example_blob_def example_lengths)
  then have "blob_ok example_consts example_header 0 example_blob"
    by (simp add: blob_ok_def consts_ok_def example_consts_def example_header_def)
  moreover have "node_ok example_blob example_header (\<lambda>_. 0) example_tree"
    using str by (simp add: example_tree_def prop_ok_def example_header_def)
  moreover have "holds example_blob 32 (flatten example_consts (\<lambda>_. 0) example_tree @ cell_bytes (FDT_END example_consts))"
    using holds_whole [of "flat_rsv [(1, 2)]" "flatten example_consts (\<lambda>_. 0) example_tree @
      cell_bytes (FDT_END example_consts)" "[97, 0]"] by (simp add: example_lengths example_blob_def)
  moreover have "holds example_blob 0 (flat_rsv [(1, 2)])"
    using holds_whole [of "[]" "flat_rsv [(1, 2)]"] by (simp add: example_blob_def)
  moreover have "4 dvd unat (off_dt_struct example_header)" by (simp add: example_header_def)
  ultimately show ?thesis
    using dump_blob_shows_tree [of example_consts example_header 0 example_blob "\<lambda>_. 0" example_tree "[(1, 2)]" True]
    by (simp add: example_header_def)
qed

text \<open>
  Two gaps of the printer. Of a value that is a list of strings only the first is printed, and
  where \<open>char\<close> is signed a byte from 128 up is printed with eight digits.
\<close>

lemma string_list_tail_lost:
  assumes "holds m p (s @ 0 # r)" "string_list (s @ 0 # r)" "0 \<notin> set s"
  shows "print_data cs m (int p) (int (length (s @ 0 # r))) = Inr ('' = '' @ [CHR 0x22] @ chars s @ [CHR 0x22])"
proof -
  have "takeWhile (\<lambda>c. c \<noteq> 0) (s @ 0 # r) = s"
    using assms(3) by (auto simp: takeWhile_append takeWhile_eq_all_conv)
  then show ?thesis
    using print_data_holds [OF assms(1), of cs] assms(2) by (auto simp: show_value_def)
qed

lemma signed_char_digits: "show_char2 True 0x80 = ''ffffff80''" "show_char2 False 0x80 = ''80''"
  by (simp_all add: show_char2_def show_hex2_def hex_digit_def show_hex.simps char_of_def bit_0)

text \<open>
  Property C36. The length of a property is not checked: a negative one that takes the pointer back
  to the property itself makes the loop print that property for ever.
\<close>

theorem negative_length_loops:
  assumes "consts_ok K" "16 \<le> version h" "take_bit 2 base = 0" "4 dvd p" "0 < p" "p < 2 ^ 60"
    and "holds m p (cell_bytes (FDT_PROP K) @ cell_bytes (- 12) @ cell_bytes (of_nat n))" "n < 2 ^ 32"
    and "holds m (p - 1) [c]" "c \<noteq> 0"
    and "string_at m (int (unat (off_dt_strings h)) + int n) = Inr s"
  shows "dump_struct K cs h base m (int p) depth out = None"
proof -
  have at: "holds m p (cell_bytes (FDT_PROP K))" "holds m (p + 4) (cell_bytes (- 12))"
      "holds m (p + 8) (cell_bytes (of_nat n))"
    using assms(7) by (simp_all add: holds_append add.assoc)
  have cells: "get_cell m (int p) = Inr (FDT_PROP K)" "get_cell m (int p + 4) = Inr (- 12)"
      "get_cell m (int p + 8) = Inr (of_nat n)"
    using get_cell_holds [OF at(1)] get_cell_holds [OF at(2)] get_cell_holds [OF at(3)] by simp_all
  have "load_byte m (int p - 1) = Inr c"
    using load_byte_holds [OF assms(9)] assms(5) by (simp add: of_nat_diff)
  then have pd: "print_data cs m (int p + 12) (- 12) = Inr '' = <>''"
    using assms(10) by (simp add: print_data_def util_is_printable_string_def print_cells.simps)
  have al: "PALIGN base (int p) 4 = int p"
    using PALIGN_4 [OF assms(3), of p] align_up_4 [OF assms(4), of 0] assms(6) by (simp add: align_up_def)
  have tags: "FDT_PROP K \<noteq> FDT_END K" "FDT_PROP K \<noteq> FDT_BEGIN_NODE K" "FDT_PROP K \<noteq> FDT_END_NODE K"
      "FDT_PROP K \<noteq> FDT_NOP K"
    using assms(1) by (auto simp: consts_ok_def)
  have ver: "\<not> version h < 16" using assms(2) by auto
  have str: "string_at m (int (unat (off_dt_strings h)) + int (unat (of_nat n :: u32))) = Inr s"
    using assms(8,11) by (simp add: unat_of_nat_u32)
  have never: "dump_struct K' cs' h' base' m' p' depth' out' = Some r \<Longrightarrow>
      (K', cs', h', base', m', p', depth') = (K, cs, h, base, m, int p, depth) \<longrightarrow> False"
    for K' cs' h' base' m' p' depth' out' r
  proof (erule dump_struct.raw_induct [where P = "\<lambda>K' cs' h' base' m' p' depth' out' r.
        (K', cs', h', base', m', p', depth') = (K, cs, h, base, m, int p, depth) \<longrightarrow> False", rotated], goal_cases)
    case (1 f K' cs' h' base' m' p' depth' out' r)
    show ?case
    proof
      assume e: "(K', cs', h', base', m', p', depth') = (K, cs, h, base, m, int p, depth)"
      from 1(2) e str pd
      have "f K cs h base m (int p) depth (out' @ indent (depth * 4) @ chars s @ '' = <>'' @ '';'' @ newline) = Some r"
        by (simp add: cells tags ver al Let_def)
      from 1(1) [OF this] show False by simp
    qed
  qed
  show ?thesis
    using never [of K cs h base m "int p" depth out] by (cases "dump_struct K cs h base m (int p) depth out") simp_all
qed

definition looping_blob :: bytes where
  "looping_blob = [0, 0, 0, 1] @ (cell_bytes 3 @ cell_bytes (- 12) @ cell_bytes (of_nat 0)) @ [97, 0]"

theorem negative_length_loops_witness:
  "dump_struct example_consts True (example_header\<lparr>off_dt_strings := 16\<rparr>) 0 looping_blob 4 1 [] = None"
proof -
  have "holds looping_blob 4 (cell_bytes 3 @ cell_bytes (- 12) @ cell_bytes (of_nat 0))"
    using holds_whole [of "[0, 0, 0, 1]" "cell_bytes 3 @ cell_bytes (- 12) @ cell_bytes (of_nat 0)" "[97, 0]"]
    by (simp add: looping_blob_def eval_nat_numeral)
  moreover have "holds looping_blob (4 - 1) [1]" by (simp add: holds_def looping_blob_def)
  moreover have "holds looping_blob 16 [97, 0]"
    using holds_whole [of "[0, 0, 0, 1] @ cell_bytes 3 @ cell_bytes (- 12) @ cell_bytes (of_nat 0)" "[97, 0]" "[]"]
    by (simp add: looping_blob_def)
  then have "string_at looping_blob (int (unat (16 :: u32)) + int 0) = Inr [97]"
    using string_at_holds [of looping_blob 16 "[97]" "[]"] by simp
  ultimately show ?thesis
    using negative_length_loops [of example_consts "example_header\<lparr>off_dt_strings := 16\<rparr>" 0 4 looping_blob 0 1 "[97]" True 1 "[]"]
    by (simp add: consts_ok_def example_consts_def example_header_def)
qed

end
