(* ===== verification/Cakeml_Tipc.thy ===== *)
theory Cakeml_Tipc
  imports Camkes_Prelude
begin

text \<open>
  \<^verbatim>\<open>apps/cakeml_tipc/components/client/client.c\<close> and the system of \<^verbatim>\<open>cakeml_tipc.camkes\<close>: four
  clients pass one counter around over virtqueues, with a filter written in CakeML between the
  first two. The virtqueue library is external; a queue is the payloads sent and not yet received,
  the number of buffers the receiver has returned and the sender not yet freed, and the
  number of buffers the sender can still allocate. A message is one buffer, so the gather
  loops run once. The client's prints are the values it received; its logs are left out.
\<close>

section \<open>The client\<close>

definition COUNT_LIMIT :: int where "COUNT_LIMIT = 20"

record vq =
  avail :: "int list"
  used_bufs :: nat
  free_bufs :: nat

definition handle_send_callback :: "vq \<Rightarrow> vq" where
  "handle_send_callback q =
     (if used_bufs q = 0 then q
      else q\<lparr>used_bufs := used_bufs q - 1, free_bufs := free_bufs q + 1\<rparr>)"

text \<open>
  \<open>ring\<close> is the number of places in the descriptor ring: when they are taken the send fails
  and the buffer just allocated is freed again.
\<close>

definition send_payload_message :: "nat \<Rightarrow> int \<Rightarrow> vq \<Rightarrow> vq" where
  "send_payload_message ring val q0 =
     (let q = (if used_bufs q0 > 0 then handle_send_callback q0 else q0) in
      if free_bufs q = 0 then q
      else if length (avail q) + used_bufs q \<ge> ring then q
      else q\<lparr>avail := avail q @ [val], free_bufs := free_bufs q - 1\<rparr>)"

definition handle_virtqueue_message :: "nat \<Rightarrow> int \<Rightarrow> vq \<Rightarrow> vq" where
  "handle_virtqueue_message ring val send =
     (if val = COUNT_LIMIT then send else send_payload_message ring (val + 1) send)"

text \<open>The receive queue, the send queue and the values printed.\<close>

definition handle_recv_callback :: "nat \<Rightarrow> vq \<Rightarrow> vq \<Rightarrow> vq \<times> vq \<times> int list" where
  "handle_recv_callback ring recv send =
     (case avail recv of
        [] \<Rightarrow> (recv, send, [])
      | v # vs \<Rightarrow>
          (recv\<lparr>avail := vs, used_bufs := used_bufs recv + 1\<rparr>, handle_virtqueue_message ring v send, [v]))"

definition virtqueue_wait_callback :: "nat \<Rightarrow> vq \<Rightarrow> vq \<Rightarrow> vq \<times> vq \<times> int list" where
  "virtqueue_wait_callback ring recv send =
     (case (if avail recv \<noteq> [] then handle_recv_callback ring recv send else (recv, send, [])) of
        (recv', send', out) \<Rightarrow>
          (recv', if used_bufs send' > 0 then handle_send_callback send' else send', out))"

text \<open>
  The start, by the results of the two initialisations: the value returned early, or the
  client waits for notifications from then on.
\<close>

definition client_start :: "nat \<Rightarrow> int \<Rightarrow> int \<Rightarrow> int \<Rightarrow> vq \<Rightarrow> int option \<times> vq" where
  "client_start ring driver_err device_err client_id send =
     (if driver_err \<noteq> 0 then (Some 1, send)
      else if device_err \<noteq> 0 then (Some 1, send)
      else (None, if client_id = 0 then send_payload_message ring 1 send else send))"

section \<open>The system\<close>

text \<open>
  The five queues as the assembly connects them: 0 from client 0 to the filter, 1 from the
  filter to client 1, then one from each client to the next. The filter is external: as the
  documentation of the application says, it passes each payload on, in two steps like the
  clients: it frees a returned buffer, or it moves a payload when it can allocate a buffer for it.
\<close>

record tipc =
  queues :: "nat \<Rightarrow> vq"
  prints :: "(nat \<times> int) list"

definition recv_queue :: "nat \<Rightarrow> nat" where
  "recv_queue i = (if i = 0 then 4 else i)"

definition send_queue :: "nat \<Rightarrow> nat" where
  "send_queue i = (if i = 0 then 0 else i + 1)"

definition client_step :: "nat \<Rightarrow> nat \<Rightarrow> tipc \<Rightarrow> tipc" where
  "client_step ring i s =
     (case virtqueue_wait_callback ring (queues s (recv_queue i)) (queues s (send_queue i)) of
        (r, t, out) \<Rightarrow>
          \<lparr>queues = (queues s)(recv_queue i := r, send_queue i := t), prints = prints s @ map (\<lambda>v. (i, v)) out\<rparr>)"

definition filter_move :: "tipc \<Rightarrow> tipc" where
  "filter_move s =
     (case avail (queues s 0) of
        [] \<Rightarrow> s
      | v # vs \<Rightarrow>
          if free_bufs (queues s 1) = 0 then s
          else s\<lparr>queues := (queues s)
            (0 := (queues s 0)\<lparr>avail := vs, used_bufs := used_bufs (queues s 0) + 1\<rparr>,
             1 := (queues s 1)\<lparr>avail := avail (queues s 1) @ [v], free_bufs := free_bufs (queues s 1) - 1\<rparr>)\<rparr>)"

inductive tipc_step :: "nat \<Rightarrow> tipc \<Rightarrow> tipc \<Rightarrow> bool" for ring where
  Client: "i < 4 \<Longrightarrow> tipc_step ring s (client_step ring i s)"
| Filter: "tipc_step ring s (filter_move s)"
| FilterFree: "tipc_step ring s (s\<lparr>queues := (queues s)(1 := handle_send_callback (queues s 1))\<rparr>)"

text \<open>The start: every queue has \<open>b\<close> free buffers, and client 0 has sent its first message.\<close>

definition tipc_start :: "nat \<Rightarrow> nat \<Rightarrow> tipc" where
  "tipc_start ring b =
     (let q = \<lparr>avail = [], used_bufs = 0, free_bufs = b\<rparr> in
      \<lparr>queues = (\<lambda>i. if i = 0 then snd (client_start ring 0 0 0 q) else q), prints = []\<rparr>)"

section \<open>Invariant\<close>

definition vq_ok :: "nat \<Rightarrow> vq \<Rightarrow> bool" where
  "vq_ok b q \<longleftrightarrow> length (avail q) + used_bufs q + free_bufs q = b"

text \<open>What has been printed when \<open>k\<close> messages have been received.\<close>

definition tipc_prints :: "nat \<Rightarrow> (nat \<times> int) list" where
  "tipc_prints k = map (\<lambda>j. (j mod 4, int j)) [1..<Suc k]"

text \<open>The queues the message with a value can be in.\<close>

definition message_queues :: "nat \<Rightarrow> nat set" where
  "message_queues v = (if v mod 4 = 1 then {0, 1} else {recv_queue (v mod 4)})"

definition only_message :: "nat \<Rightarrow> int \<Rightarrow> tipc \<Rightarrow> bool" where
  "only_message p v s \<longleftrightarrow> (\<forall>j < 5. avail (queues s j) = (if j = p then [v] else []))"

definition tipc_inv :: "nat \<Rightarrow> nat \<Rightarrow> tipc \<Rightarrow> bool" where
  "tipc_inv b k s \<longleftrightarrow>
     k \<le> 20 \<and> (\<forall>j < 5. vq_ok b (queues s j)) \<and> prints s = tipc_prints k \<and>
     (if k = 20 then \<forall>j < 5. avail (queues s j) = []
      else \<exists>p \<in> message_queues (Suc k). only_message p (int (Suc k)) s)"

lemma vq_ok_send_callback: "vq_ok b q \<Longrightarrow> vq_ok b (handle_send_callback q)"
  by (simp add: vq_ok_def handle_send_callback_def)

lemma avail_send_callback [simp]: "avail (handle_send_callback q) = avail q"
  by (simp add: handle_send_callback_def)

lemma send_payload_empty:
  assumes "vq_ok b q" "avail q = []" "0 < b" "b \<le> ring"
  shows "vq_ok b (send_payload_message ring v q)" "avail (send_payload_message ring v q) = [v]"
  using assms by (auto simp: send_payload_message_def vq_ok_def handle_send_callback_def Let_def)

lemma message_queues_less: "p \<in> message_queues v \<Longrightarrow> p < 5"
  by (auto simp: message_queues_def recv_queue_def split: if_splits)

lemma queue_eqs [simp]: "recv_queue 0 = 4" "send_queue 0 = 0" "0 < i \<Longrightarrow> recv_queue i = i"
  "0 < i \<Longrightarrow> send_queue i = Suc i"
  by (simp_all add: recv_queue_def send_queue_def)

lemma queues_less: "i < 4 \<Longrightarrow> recv_queue i < 5" "i < 4 \<Longrightarrow> send_queue i < 5" "i < 4 \<Longrightarrow> recv_queue i \<noteq> send_queue i"
  by (auto simp: recv_queue_def send_queue_def)

text \<open>A client whose receive queue is empty only frees a buffer.\<close>

lemma client_idle:
  assumes "avail (queues s (recv_queue i)) = []" "i < 4" "\<forall>j < 5. vq_ok b (queues s j)"
  shows "prints (client_step ring i s) = prints s" "\<forall>j < 5. vq_ok b (queues (client_step ring i s) j)"
    "avail (queues (client_step ring i s) j) = avail (queues s j)"
  using assms queues_less [of i]
  by (auto simp: client_step_def virtqueue_wait_callback_def vq_ok_send_callback)

text \<open>A client that has a message prints it and, below the limit, sends the next value.\<close>

lemma client_receives:
  assumes "only_message (recv_queue i) v s" "i < 4" "\<forall>j < 5. vq_ok b (queues s j)" "0 < b" "b \<le> ring"
  shows "prints (client_step ring i s) = prints s @ [(i, v)]"
    and "\<forall>j < 5. vq_ok b (queues (client_step ring i s) j)"
    and "v \<noteq> COUNT_LIMIT \<Longrightarrow> only_message (send_queue i) (v + 1) (client_step ring i s)"
    and "v = COUNT_LIMIT \<Longrightarrow> \<forall>j < 5. avail (queues (client_step ring i s) j) = []"
proof -
  let ?r = "queues s (recv_queue i)" and ?t = "queues s (send_queue i)"
  note q = queues_less [OF assms(2)]
  have r: "avail ?r = [v]" and t: "avail ?t = []" and ok: "vq_ok b ?r" "vq_ok b ?t"
    using assms(1,3) q by (auto simp: only_message_def)
  let ?u = "handle_virtqueue_message ring v ?t"
  have u: "vq_ok b ?u" "avail ?u = (if v = COUNT_LIMIT then [] else [v + 1])"
    using send_payload_empty [OF ok(2) t assms(4,5)] ok(2) t by (simp_all add: handle_virtqueue_message_def)
  have r': "vq_ok b (?r\<lparr>avail := [], used_bufs := Suc (used_bufs ?r)\<rparr>)"
    using ok(1) r by (simp add: vq_ok_def)
  have step: "client_step ring i s = \<lparr>queues = (queues s)
        (recv_queue i := ?r\<lparr>avail := [], used_bufs := used_bufs ?r + 1\<rparr>,
         send_queue i := (if used_bufs ?u > 0 then handle_send_callback ?u else ?u)),
       prints = prints s @ [(i, v)]\<rparr>"
    by (simp add: client_step_def virtqueue_wait_callback_def handle_recv_callback_def r)
  show "prints (client_step ring i s) = prints s @ [(i, v)]" by (simp add: step)
  show "\<forall>j < 5. vq_ok b (queues (client_step ring i s) j)"
    using assms(3) u(1) r' by (simp add: step vq_ok_send_callback)
  show "v \<noteq> COUNT_LIMIT \<Longrightarrow> only_message (send_queue i) (v + 1) (client_step ring i s)"
    using assms(1) u(2) q by (auto simp: step only_message_def)
  show "v = COUNT_LIMIT \<Longrightarrow> \<forall>j < 5. avail (queues (client_step ring i s) j) = []"
    using assms(1) u(2) q by (auto simp: step only_message_def)
qed

lemma send_queue_message: "send_queue (j mod 4) \<in> message_queues (Suc j)"
proof -
  consider "j mod 4 = 0" | "j mod 4 = 1" | "j mod 4 = 2" | "j mod 4 = 3" by linarith
  then show ?thesis by cases (simp_all add: message_queues_def send_queue_def recv_queue_def mod_Suc)
qed

lemma message_queue_client:
  assumes "p \<in> message_queues j" "p = recv_queue i" "i < 4"
  shows "i = j mod 4"
  using assms by (auto simp: message_queues_def recv_queue_def split: if_splits)

lemma tipc_prints_Suc: "tipc_prints (Suc k) = tipc_prints k @ [(Suc k mod 4, int (Suc k))]"
  by (simp add: tipc_prints_def)

lemma client_advance:
  assumes "tipc_inv b k s" "k < 20" "only_message (recv_queue i) (int (Suc k)) s" "i = Suc k mod 4" "0 < b" "b \<le> ring"
  shows "tipc_inv b (Suc k) (client_step ring i s)"
proof -
  have i: "i < 4" using assms(4) by simp
  have ok: "\<forall>j < 5. vq_ok b (queues s j)" using assms(1) by (simp add: tipc_inv_def)
  note r = client_receives [OF assms(3) i ok assms(5,6)]
  have "prints (client_step ring i s) = tipc_prints (Suc k)"
    using r(1) assms(1,4) by (simp add: tipc_inv_def tipc_prints_Suc)
  moreover have "int (Suc k) = COUNT_LIMIT \<longleftrightarrow> Suc k = 20" by (simp add: COUNT_LIMIT_def)
  moreover have "send_queue i \<in> message_queues (Suc (Suc k))" using send_queue_message assms(4) by simp
  moreover have "int (Suc k) + 1 = int (Suc (Suc k))" by simp
  ultimately show ?thesis
    using r(2-4) assms(2) unfolding tipc_inv_def by (metis Suc_leI)
qed

lemma client_keeps:
  assumes "tipc_inv b k s" "i < 4" "avail (queues s (recv_queue i)) = []"
  shows "tipc_inv b k (client_step ring i s)"
proof -
  have ok: "\<forall>j < 5. vq_ok b (queues s j)" using assms(1) by (simp add: tipc_inv_def)
  note r = client_idle [OF assms(3,2) ok]
  have "only_message p v (client_step ring i s) = only_message p v s" for p v by (simp add: only_message_def r(3))
  then show ?thesis using assms(1) r by (auto simp: tipc_inv_def)
qed

lemma filter_keeps:
  assumes "tipc_inv b k s"
  shows "tipc_inv b k (filter_move s)"
proof (cases "avail (queues s 0)")
  case (Cons v vs)
  have k: "k < 20" using assms Cons by (auto simp: tipc_inv_def split: if_splits)
  then obtain p where p: "p \<in> message_queues (Suc k)" "only_message p (int (Suc k)) s"
    using assms by (auto simp: tipc_inv_def)
  have "p = 0" using p(2) Cons by (auto simp: only_message_def dest: spec [of _ 0] split: if_splits)
  then have one: "Suc k mod 4 = 1" using p(1) by (auto simp: message_queues_def recv_queue_def split: if_splits)
  have v: "v = int (Suc k)" "vs = []" "avail (queues s 1) = []"
    using p(2) Cons \<open>p = 0\<close> by (auto simp: only_message_def)
  show ?thesis
  proof (cases "free_bufs (queues s 1) = 0")
    case False
    have "only_message 1 (int (Suc k)) (filter_move s)"
      using p(2) Cons False v \<open>p = 0\<close> by (auto simp: only_message_def filter_move_def)
    moreover have "1 \<in> message_queues (Suc k)" using one by (simp add: message_queues_def)
    moreover have ok: "vq_ok b (queues s 0)" "vq_ok b (queues s 1)" "\<forall>j < 5. vq_ok b (queues s j)"
      using assms by (simp_all add: tipc_inv_def)
    have "vq_ok b ((queues s 0)\<lparr>avail := vs, used_bufs := Suc (used_bufs (queues s 0))\<rparr>)"
      "vq_ok b ((queues s 1)\<lparr>avail := avail (queues s 1) @ [v], free_bufs := free_bufs (queues s 1) - 1\<rparr>)"
      using ok(1,2) Cons False by (simp_all add: vq_ok_def)
    then have "\<forall>j < 5. vq_ok b (queues (filter_move s) j)"
      using ok(3) Cons False by (simp add: filter_move_def)
    moreover have "prints (filter_move s) = tipc_prints k"
      using assms Cons False by (simp add: tipc_inv_def filter_move_def)
    ultimately show ?thesis using assms k unfolding tipc_inv_def by auto
  qed (use assms Cons in \<open>simp add: filter_move_def\<close>)
qed (use assms in \<open>simp add: filter_move_def\<close>)

lemma filter_free_keeps:
  assumes "tipc_inv b k s"
  shows "tipc_inv b k (s\<lparr>queues := (queues s)(1 := handle_send_callback (queues s 1))\<rparr>)"
proof -
  let ?s = "s\<lparr>queues := (queues s)(1 := handle_send_callback (queues s 1))\<rparr>"
  have "only_message p v ?s = only_message p v s" for p v
  proof -
    have "avail (queues ?s j) = avail (queues s j)" for j by simp
    then show ?thesis by (simp only: only_message_def)
  qed
  then show ?thesis using assms by (auto simp: tipc_inv_def vq_ok_send_callback)
qed

lemma tipc_inv_step:
  assumes "tipc_step ring s t" "tipc_inv b k s" "0 < b" "b \<le> ring"
  shows "tipc_inv b k t \<or> tipc_inv b (Suc k) t"
  using assms(1)
proof cases
  case (Client i)
  show ?thesis
  proof (cases "avail (queues s (recv_queue i)) = []")
    case True
    then show ?thesis using client_keeps [OF assms(2) Client(2) True] Client by simp
  next
    case False
    then have k: "k < 20" using assms(2) queues_less(1) [OF Client(2)] by (auto simp: tipc_inv_def split: if_splits)
    then obtain p where p: "p \<in> message_queues (Suc k)" "only_message p (int (Suc k)) s"
      using assms(2) by (auto simp: tipc_inv_def)
    then have "p = recv_queue i" using False queues_less(1) [OF Client(2)] by (auto simp: only_message_def split: if_splits)
    then show ?thesis
      using client_advance [OF assms(2) k _ _ assms(3,4)] message_queue_client [OF p(1) _ Client(2)] p(2) Client by simp
  qed
qed (use filter_keeps [OF assms(2)] filter_free_keeps [OF assms(2)] in auto)

lemma tipc_inv_start:
  assumes "0 < b" "b \<le> ring"
  shows "tipc_inv b 0 (tipc_start ring b)"
proof -
  have "avail (queues (tipc_start ring b) j) = (if j = 0 then [1] else [])" for j
    using send_payload_empty(2) [of b "\<lparr>avail = [], used_bufs = 0, free_bufs = b\<rparr>" ring 1] assms
    by (simp add: tipc_start_def client_start_def vq_ok_def Let_def)
  then have "only_message 0 1 (tipc_start ring b)" by (simp add: only_message_def)
  moreover have "\<forall>j < 5. vq_ok b (queues (tipc_start ring b) j)"
    using send_payload_empty(1) [of b "\<lparr>avail = [], used_bufs = 0, free_bufs = b\<rparr>" ring 1] assms
    by (simp add: tipc_start_def client_start_def vq_ok_def Let_def)
  moreover have "prints (tipc_start ring b) = []" by (simp add: tipc_start_def Let_def)
  ultimately show ?thesis by (auto simp: tipc_inv_def tipc_prints_def message_queues_def)
qed

lemma tipc_reachable_inv:
  assumes "(tipc_step ring)\<^sup>*\<^sup>* s0 s" "tipc_inv b 0 s0" "0 < b" "b \<le> ring"
  shows "\<exists>k. tipc_inv b k s"
  using assms(1)
proof (induction rule: rtranclp_induct)
  case base
  then show ?case using assms(2) by blast
next
  case (step y z)
  then show ?case using tipc_inv_step [OF step(2) _ assms(3,4)] by blast
qed

text \<open>From every state short of the limit the system can receive the next value.\<close>

lemma filter_delivers:
  assumes "tipc_inv b k s" "only_message 0 (int (Suc k)) s" "0 < b"
  shows "\<exists>t. (tipc_step ring)\<^sup>*\<^sup>* s t \<and> tipc_inv b k t \<and> only_message 1 (int (Suc k)) t"
proof -
  define u where "u = s\<lparr>queues := (queues s)(1 := handle_send_callback (queues s 1))\<rparr>"
  have u: "tipc_step ring s u" "tipc_inv b k u" "only_message 0 (int (Suc k)) u"
    unfolding u_def using FilterFree filter_free_keeps [OF assms(1)] assms(2) by (auto simp: only_message_def)
  have "vq_ok b (queues s 1)" "avail (queues s 1) = []" using assms(1,2) by (simp_all add: tipc_inv_def only_message_def)
  then have "0 < free_bufs (queues u 1)"
    using assms(3) by (auto simp: u_def vq_ok_def handle_send_callback_def)
  moreover have "avail (queues u 0) = [int (Suc k)]" "avail (queues u 1) = []"
    using u(3) by (simp_all add: only_message_def)
  ultimately have "only_message 1 (int (Suc k)) (filter_move u)"
    using u(3) by (auto simp: only_message_def filter_move_def)
  moreover have "tipc_inv b k (filter_move u)" by (rule filter_keeps [OF u(2)])
  moreover have "(tipc_step ring)\<^sup>*\<^sup>* s (filter_move u)"
    using u(1) Filter by (meson converse_rtranclp_into_rtranclp r_into_rtranclp)
  ultimately show ?thesis by blast
qed

lemma tipc_advance:
  assumes "tipc_inv b k s" "k < 20" "0 < b" "b \<le> ring"
  shows "\<exists>t. (tipc_step ring)\<^sup>*\<^sup>* s t \<and> tipc_inv b (Suc k) t"
proof -
  obtain p where p: "p \<in> message_queues (Suc k)" "only_message p (int (Suc k)) s"
    using assms(1,2) by (auto simp: tipc_inv_def)
  have "\<exists>u. (tipc_step ring)\<^sup>*\<^sup>* s u \<and> tipc_inv b k u \<and> only_message (recv_queue (Suc k mod 4)) (int (Suc k)) u"
  proof (cases "p = 0")
    case True
    then have "Suc k mod 4 = 1" using p(1) by (auto simp: message_queues_def recv_queue_def split: if_splits)
    then show ?thesis using filter_delivers [OF assms(1) _ assms(3), of ring] p(2) True by simp
  next
    case False
    then have "p = recv_queue (Suc k mod 4)" using p(1) by (auto simp: message_queues_def split: if_splits)
    then show ?thesis using p(2) assms(1) by blast
  qed
  then obtain u where u: "(tipc_step ring)\<^sup>*\<^sup>* s u" "tipc_inv b k u"
      "only_message (recv_queue (Suc k mod 4)) (int (Suc k)) u" by blast
  have "tipc_inv b (Suc k) (client_step ring (Suc k mod 4) u)"
    using client_advance [OF u(2) assms(2) u(3) refl assms(3,4)] .
  moreover have "tipc_step ring u (client_step ring (Suc k mod 4) u)" by (rule Client) simp
  ultimately show ?thesis using u(1) by (meson rtranclp.rtrancl_into_rtrancl)
qed

lemma tipc_finishes:
  assumes "tipc_inv b k s" "0 < b" "b \<le> ring"
  shows "\<exists>t. (tipc_step ring)\<^sup>*\<^sup>* s t \<and> tipc_inv b 20 t"
proof -
  have "k \<le> 20" using assms(1) by (simp add: tipc_inv_def)
  then show ?thesis using assms(1)
  proof (induction k arbitrary: s rule: inc_induct)
    case base
    then show ?case by blast
  next
    case (step n)
    from tipc_advance [OF step.prems step.hyps(2) assms(2,3)] obtain t where
      "(tipc_step ring)\<^sup>*\<^sup>* s t" "tipc_inv b (Suc n) t" by blast
    with step.IH show ?case by (meson rtranclp_trans)
  qed
qed

section \<open>Properties\<close>



end
