(* ===== verification/Shared_Counters.thy ===== *)
theory Shared_Counters
  imports Camkes_Prelude
begin

text \<open>
  Two programs whose threads share a counter. \<^verbatim>\<open>apps/testdataportmux/counter.c\<close>: five components
  increment a number in one data port in turn, each waiting for its residue, without a lock.
  \<^verbatim>\<open>apps/rumprun_pthreads/components/pthreads/pthreads.c\<close>: two threads increment a
  count under a mutex and a third waits on a condition variable until it reaches a limit.
  Every access of a thread to shared memory is a step of its own, and the steps of the
  threads interleave in any order.
\<close>

section \<open>Counting in turn\<close>

text \<open>
  A component at its places in \<open>run\<close>: before the outer test, in the inner loop, before it
  reads \<open>oldval\<close>, before the compare-and-swap, after the loop, and stopped by the assertion.
  The data port holds 0 at first and only grows, so the remainder of C is \<open>mod\<close>.
\<close>

datatype mux_pc = Test | Wait | Read | Swap int | Finished | Failed

record mux =
  port_value :: int
  mux_pcs :: "nat \<Rightarrow> mux_pc"

definition counter_step :: "nat \<Rightarrow> mux \<Rightarrow> mux" where
  "counter_step ID s =
     (case mux_pcs s ID of
        Test \<Rightarrow> s\<lparr>mux_pcs := (mux_pcs s)(ID := if port_value s < 20 then Wait else Finished)\<rparr>
      | Wait \<Rightarrow> s\<lparr>mux_pcs := (mux_pcs s)(ID := if port_value s mod 5 \<noteq> int ID then Wait else Read)\<rparr>
      | Read \<Rightarrow> s\<lparr>mux_pcs := (mux_pcs s)(ID := Swap (port_value s))\<rparr>
      | Swap oldval \<Rightarrow>
          if port_value s = oldval
          then s\<lparr>port_value := oldval + 1, mux_pcs := (mux_pcs s)(ID := Test)\<rparr>
          else s\<lparr>mux_pcs := (mux_pcs s)(ID := Failed)\<rparr>
      | Finished \<Rightarrow> s
      | Failed \<Rightarrow> s)"

text \<open>\<^verbatim>\<open>apps/testdataportmuxflat/counter.c\<close> has the same text; only its components are in one address space.\<close>

definition flat_counter_step :: "nat \<Rightarrow> mux \<Rightarrow> mux" where
  "flat_counter_step = counter_step"

definition mux_start :: mux where
  "mux_start = \<lparr>port_value = 0, mux_pcs = (\<lambda>_. Test)\<rparr>"

inductive mux_step :: "mux \<Rightarrow> mux \<Rightarrow> bool" where
  "ID < 5 \<Longrightarrow> mux_step s (counter_step ID s)"

definition mux_turn :: "int \<Rightarrow> nat \<Rightarrow> mux_pc \<Rightarrow> bool" where
  "mux_turn v i pc \<longleftrightarrow>
     (case pc of Read \<Rightarrow> v mod 5 = int i | Swap w \<Rightarrow> w = v \<and> v mod 5 = int i | Finished \<Rightarrow> 20 \<le> v
       | Failed \<Rightarrow> False | _ \<Rightarrow> True)"

definition mux_inv :: "mux \<Rightarrow> bool" where
  "mux_inv s \<longleftrightarrow>
     0 \<le> port_value s \<and> port_value s \<le> 24 \<and> (\<forall>i < 5. mux_turn (port_value s) i (mux_pcs s i)) \<and>
     (20 \<le> port_value s \<longrightarrow> mux_pcs s 4 = Test \<or> mux_pcs s 4 = Finished)"

lemma mux_inv_start: "mux_inv mux_start"
  by (simp add: mux_inv_def mux_start_def mux_turn_def)

lemma mux_turn_simps [simp]: "mux_turn v i Test" "mux_turn v i Wait" "mux_turn v i Finished \<longleftrightarrow> 20 \<le> v"
  by (simp_all add: mux_turn_def)

lemma mux_turn_other:
  assumes "mux_turn v i pc" "v mod 5 = int j" "i \<noteq> j"
  shows "mux_turn (v + 1) i pc"
  using assms by (auto simp: mux_turn_def split: mux_pc.splits)

lemma mux_inv_step:
  assumes "mux_inv s" "i < 5"
  shows "mux_inv (counter_step i s)"
proof (cases "mux_pcs s i")
  case (Swap v)
  let ?v = "port_value s"
  have i: "v = ?v" "?v mod 5 = int i" using assms Swap by (auto simp: mux_inv_def mux_turn_def)
  have less: "?v < 24"
  proof (rule ccontr)
    assume "\<not> ?v < 24"
    then have "?v = 24" using assms(1) by (simp add: mux_inv_def)
    then show False using i assms(1) Swap by (auto simp: mux_inv_def)
  qed
  have four: "mux_pcs s 4 = Test \<or> mux_pcs s 4 = Finished \<or> i = 4" if "20 \<le> ?v + 1"
  proof (cases "?v = 19")
    case False
    then show ?thesis using assms(1) that by (auto simp: mux_inv_def)
  qed (use i in simp)
  have "mux_turn (?v + 1) j (mux_pcs s j)" if "j < 5" "j \<noteq> i" for j
    using mux_turn_other [OF _ i(2) that(2)] assms(1) that(1) by (simp add: mux_inv_def)
  then show ?thesis
    using assms(1) less four Swap i(1)
    by (auto simp: counter_step_def mux_inv_def)
qed (use assms in \<open>auto simp: counter_step_def mux_inv_def mux_turn_def\<close>)

lemma mux_reachable_inv:
  assumes "mux_step\<^sup>*\<^sup>* mux_start s"
  shows "mux_inv s"
  using assms
proof (induction rule: rtranclp_induct)
  case (step y z)
  then show ?case by (auto simp: mux_inv_step elim: mux_step.cases)
qed (rule mux_inv_start)

text \<open>A state below 20 can be advanced by one, by the component whose turn it is.\<close>

definition mux_run :: "nat \<Rightarrow> nat \<Rightarrow> mux \<Rightarrow> mux" where
  "mux_run n i s = (counter_step i ^^ n) s"

lemma mux_run_steps: "i < 5 \<Longrightarrow> mux_step\<^sup>*\<^sup>* s (mux_run n i s)"
proof (induction n)
  case (Suc n)
  then show ?case
    by (simp add: mux_run_def) (meson mux_step.intros rtranclp.rtrancl_into_rtrancl)
qed (simp add: mux_run_def)

lemma mux_swap_advances:
  "mux_pcs s i = Swap (port_value s) \<Longrightarrow> port_value (counter_step i s) = port_value s + 1"
  by (simp add: counter_step_def)

lemma mux_advance:
  assumes "mux_inv s" "port_value s < 20"
  shows "\<exists>t. mux_step\<^sup>*\<^sup>* s t \<and> port_value t = port_value s + 1"
proof -
  define i where "i = nat (port_value s mod 5)"
  have i: "i < 5" "port_value s mod 5 = int i" by (simp_all add: i_def nat_less_iff)
  have turn: "mux_turn (port_value s) i (mux_pcs s i)" using assms(1) i(1) by (simp add: mux_inv_def)
  have four: "i \<noteq> 4 \<or> \<not> 20 \<le> port_value s" using assms(2) by simp
  have swap: "\<exists>t. mux_step\<^sup>*\<^sup>* u t \<and> port_value t = port_value s + 1"
    if "mux_pcs u i = Swap (port_value u)" "port_value u = port_value s" for u
    using mux_run_steps [OF i(1), of u 1] mux_swap_advances [OF that(1)] that(2) by (auto simp: mux_run_def)
  have run: "\<exists>n. mux_pcs (mux_run n i s) i = Swap (port_value s) \<and> port_value (mux_run n i s) = port_value s"
    if "mux_pcs s i \<noteq> Finished"
  proof (cases "mux_pcs s i")
    case Test
    then show ?thesis using assms(2) i(2)
      by (intro exI [of _ 3]) (simp add: mux_run_def counter_step_def eval_nat_numeral)
  next
    case Wait
    then show ?thesis using i(2)
      by (intro exI [of _ 2]) (simp add: mux_run_def counter_step_def eval_nat_numeral)
  next
    case Read
    then show ?thesis by (intro exI [of _ 1]) (simp add: mux_run_def counter_step_def)
  next
    case (Swap v)
    then show ?thesis using turn by (intro exI [of _ 0]) (simp add: mux_run_def mux_turn_def)
  qed (use turn that in \<open>auto simp: mux_turn_def\<close>)
  have "mux_pcs s i \<noteq> Finished" using turn assms(2) by auto
  from run [OF this] obtain n where "mux_pcs (mux_run n i s) i = Swap (port_value s)"
    "port_value (mux_run n i s) = port_value s" by blast
  with swap [of "mux_run n i s"] mux_run_steps [OF i(1), of s n] show ?thesis by (metis rtranclp_trans)
qed

lemma mux_to_twenty:
  assumes "mux_inv s" "port_value s = 20 - int n"
  shows "\<exists>t. mux_step\<^sup>*\<^sup>* s t \<and> mux_inv t \<and> port_value t = 20"
  using assms
proof (induction n arbitrary: s)
  case (Suc n)
  obtain u where u: "mux_step\<^sup>*\<^sup>* s u" "port_value u = 20 - int n"
    using mux_advance [OF Suc.prems(1)] Suc.prems(2) by auto
  have "mux_inv u" using u(1) Suc.prems(1)
    by (induction rule: rtranclp_induct) (auto simp: mux_inv_step elim: mux_step.cases)
  from Suc.IH [OF this u(2)] u(1) show ?case by (meson rtranclp_trans)
qed auto



section \<open>Counting under a mutex\<close>

text \<open>
  The library is external: its mutex has at most one holder, a wait on the condition variable gives
  the mutex up and blocks until a signal, or for no reason, wakes it, and then takes the mutex
  again. Thread 1 runs \<open>watch_count\<close>, threads 2 and 3 run \<open>inc_count\<close>; the number in a
  place of theirs is the loop counter.
\<close>

definition TCOUNT :: nat where "TCOUNT = 10"

definition COUNT_LIMIT :: int where "COUNT_LIMIT = 12"

datatype inc_pc = IncLock nat | IncAdd nat | IncCheck nat | IncUnlock nat | IncDone

datatype watch_pc = WatchLock | WatchTest | WatchWait | WatchWoken | WatchAdd | WatchUnlock | WatchDone

record pthreads =
  count_var :: int
  holder :: "nat option"
  watcher :: watch_pc
  incs :: "nat \<Rightarrow> inc_pc"

text \<open>A step of a thread, or \<open>None\<close> when it is blocked or has ended.\<close>

definition inc_count :: "nat \<Rightarrow> pthreads \<Rightarrow> pthreads option" where
  "inc_count t s =
     (case incs s t of
        IncLock i \<Rightarrow>
          if i < TCOUNT
          then if holder s = None then Some (s\<lparr>holder := Some t, incs := (incs s)(t := IncAdd i)\<rparr>) else None
          else Some (s\<lparr>incs := (incs s)(t := IncDone)\<rparr>)
      | IncAdd i \<Rightarrow> Some (s\<lparr>count_var := count_var s + 1, incs := (incs s)(t := IncCheck i)\<rparr>)
      | IncCheck i \<Rightarrow>
          Some (s\<lparr>watcher := (if count_var s = COUNT_LIMIT \<and> watcher s = WatchWait then WatchWoken else watcher s),
                  incs := (incs s)(t := IncUnlock i)\<rparr>)
      | IncUnlock i \<Rightarrow> Some (s\<lparr>holder := None, incs := (incs s)(t := IncLock (i + 1))\<rparr>)
      | IncDone \<Rightarrow> None)"

definition watch_count :: "pthreads \<Rightarrow> pthreads option" where
  "watch_count s =
     (case watcher s of
        WatchLock \<Rightarrow> if holder s = None then Some (s\<lparr>holder := Some 1, watcher := WatchTest\<rparr>) else None
      | WatchTest \<Rightarrow>
          if count_var s < COUNT_LIMIT then Some (s\<lparr>holder := None, watcher := WatchWait\<rparr>)
          else Some (s\<lparr>watcher := WatchAdd\<rparr>)
      | WatchWait \<Rightarrow> None
      | WatchWoken \<Rightarrow> if holder s = None then Some (s\<lparr>holder := Some 1, watcher := WatchTest\<rparr>) else None
      | WatchAdd \<Rightarrow> Some (s\<lparr>count_var := count_var s + 125, watcher := WatchUnlock\<rparr>)
      | WatchUnlock \<Rightarrow> Some (s\<lparr>holder := None, watcher := WatchDone\<rparr>)
      | WatchDone \<Rightarrow> None)"

inductive pthreads_step :: "pthreads \<Rightarrow> pthreads \<Rightarrow> bool" where
  Inc: "t = 2 \<or> t = 3 \<Longrightarrow> inc_count t s = Some s' \<Longrightarrow> pthreads_step s s'"
| Watch: "watch_count s = Some s' \<Longrightarrow> pthreads_step s s'"
| Spurious: "watcher s = WatchWait \<Longrightarrow> pthreads_step s (s\<lparr>watcher := WatchWoken\<rparr>)"

definition pthreads_start :: pthreads where
  "pthreads_start = \<lparr>count_var = 0, holder = None, watcher = WatchLock, incs = (\<lambda>_. IncLock 0)\<rparr>"

text \<open>What \<open>main\<close> prints when it has joined the three threads.\<close>

definition main_prints :: "pthreads \<Rightarrow> int option" where
  "main_prints s =
     (if watcher s = WatchDone \<and> incs s 2 = IncDone \<and> incs s 3 = IncDone then Some (count_var s) else None)"

fun incremented :: "inc_pc \<Rightarrow> nat" where
  "incremented (IncLock i) = i"
| "incremented (IncAdd i) = i"
| "incremented (IncCheck i) = Suc i"
| "incremented (IncUnlock i) = Suc i"
| "incremented IncDone = 10"

fun inc_holds :: "inc_pc \<Rightarrow> bool" where
  "inc_holds (IncAdd i) = True"
| "inc_holds (IncCheck i) = True"
| "inc_holds (IncUnlock i) = True"
| "inc_holds _ = False"

fun inc_checking :: "inc_pc \<Rightarrow> bool" where
  "inc_checking (IncCheck i) = True"
| "inc_checking _ = False"

fun inc_pc_ok :: "inc_pc \<Rightarrow> bool" where
  "inc_pc_ok (IncLock i) = (i \<le> 10)"
| "inc_pc_ok (IncAdd i) = (i < 10)"
| "inc_pc_ok (IncCheck i) = (i < 10)"
| "inc_pc_ok (IncUnlock i) = (i < 10)"
| "inc_pc_ok IncDone = True"

definition watch_holds :: "watch_pc \<Rightarrow> bool" where
  "watch_holds w \<longleftrightarrow> w = WatchTest \<or> w = WatchAdd \<or> w = WatchUnlock"

definition pth_ok :: "int \<Rightarrow> nat option \<Rightarrow> watch_pc \<Rightarrow> inc_pc \<Rightarrow> inc_pc \<Rightarrow> bool" where
  "pth_ok c h w p q \<longleftrightarrow>
     inc_pc_ok p \<and> inc_pc_ok q \<and>
     \<not> (watch_holds w \<and> inc_holds p) \<and> \<not> (watch_holds w \<and> inc_holds q) \<and> \<not> (inc_holds p \<and> inc_holds q) \<and>
     h = (if watch_holds w then Some 1 else if inc_holds p then Some 2 else if inc_holds q then Some 3 else None) \<and>
     c = int (incremented p + incremented q) + (if w = WatchUnlock \<or> w = WatchDone then 125 else 0) \<and>
     (w = WatchWait \<longrightarrow> c < 12 \<or> c = 12 \<and> (inc_checking p \<or> inc_checking q))"

definition pthreads_inv :: "pthreads \<Rightarrow> bool" where
  "pthreads_inv s \<longleftrightarrow> pth_ok (count_var s) (holder s) (watcher s) (incs s 2) (incs s 3)"

lemma inc_checking_holds: "inc_checking p \<Longrightarrow> inc_holds p"
  by (cases p) simp_all

lemma pth_ok_lock:
  assumes "pth_ok c None w p q" "i < 10"
  shows "p = IncLock i \<Longrightarrow> pth_ok c (Some 2) w (IncAdd i) q" "q = IncLock i \<Longrightarrow> pth_ok c (Some 3) w p (IncAdd i)"
  using assms inc_checking_holds by (auto simp: pth_ok_def split: if_splits)

lemma pth_ok_done:
  assumes "pth_ok c h w p q" "\<not> i < 10"
  shows "p = IncLock i \<Longrightarrow> pth_ok c h w IncDone q" "q = IncLock i \<Longrightarrow> pth_ok c h w p IncDone"
  using assms by (auto simp: pth_ok_def)

lemma pth_ok_add:
  assumes "pth_ok c h w p q"
  shows "p = IncAdd i \<Longrightarrow> pth_ok (c + 1) h w (IncCheck i) q" "q = IncAdd i \<Longrightarrow> pth_ok (c + 1) h w p (IncCheck i)"
  using assms inc_checking_holds by (auto simp: pth_ok_def)

lemma pth_ok_check:
  assumes "pth_ok c h w p q" "v = (if c = 12 \<and> w = WatchWait then WatchWoken else w)"
  shows "p = IncCheck i \<Longrightarrow> pth_ok c h v (IncUnlock i) q" "q = IncCheck i \<Longrightarrow> pth_ok c h v p (IncUnlock i)"
  using assms inc_checking_holds by (auto simp: pth_ok_def watch_holds_def)

lemma pth_ok_unlock:
  assumes "pth_ok c h w p q"
  shows "p = IncUnlock i \<Longrightarrow> pth_ok c None w (IncLock (i + 1)) q" "q = IncUnlock i \<Longrightarrow> pth_ok c None w p (IncLock (i + 1))"
  using assms by (auto simp: pth_ok_def)

lemmas pth_ok_steps = pth_ok_lock pth_ok_done pth_ok_add pth_ok_check pth_ok_unlock

lemma pthreads_inv_start: "pthreads_inv pthreads_start"
  by (simp add: pthreads_inv_def pth_ok_def pthreads_start_def watch_holds_def)

lemma pth_ok_watch:
  "pth_ok c None WatchLock p q \<Longrightarrow> pth_ok c (Some 1) WatchTest p q"
  "pth_ok c None WatchWoken p q \<Longrightarrow> pth_ok c (Some 1) WatchTest p q"
  "pth_ok c h WatchTest p q \<Longrightarrow> c < 12 \<Longrightarrow> pth_ok c None WatchWait p q"
  "pth_ok c h WatchTest p q \<Longrightarrow> pth_ok c h WatchAdd p q"
  "pth_ok c h WatchAdd p q \<Longrightarrow> pth_ok (c + 125) h WatchUnlock p q"
  "pth_ok c h WatchUnlock p q \<Longrightarrow> pth_ok c None WatchDone p q"
  by (simp_all add: pth_ok_def watch_holds_def split: if_splits)

lemma pthreads_inv_watch: "pthreads_inv s \<Longrightarrow> watch_count s = Some t \<Longrightarrow> pthreads_inv t"
  by (cases "watcher s")
    (auto simp: watch_count_def pthreads_inv_def COUNT_LIMIT_def split: if_splits
      intro: pth_ok_watch pth_ok_watch(1,2) [simplified])

lemma pthreads_inv_inc:
  assumes "pthreads_inv s" "inc_count t s = Some u" "t = 2 \<or> t = 3"
  shows "pthreads_inv u"
proof (cases "incs s t")
  case (IncLock i)
  then show ?thesis using assms pth_ok_lock [of "count_var s" "watcher s" "incs s 2" "incs s 3" i]
      pth_ok_done [of "count_var s" "holder s" "watcher s" "incs s 2" "incs s 3" i]
    by (auto simp: inc_count_def pthreads_inv_def TCOUNT_def split: if_splits)
next
  case (IncAdd i)
  then show ?thesis using assms pth_ok_add [of "count_var s" "holder s" "watcher s" "incs s 2" "incs s 3" i]
    by (auto simp: inc_count_def pthreads_inv_def)
next
  case (IncCheck i)
  then show ?thesis using assms pth_ok_check [OF _ refl, of "count_var s" "holder s" "watcher s" "incs s 2" "incs s 3" i]
    by (auto simp: inc_count_def pthreads_inv_def COUNT_LIMIT_def)
next
  case (IncUnlock i)
  then show ?thesis using assms pth_ok_unlock [of "count_var s" "holder s" "watcher s" "incs s 2" "incs s 3" i]
    by (auto simp: inc_count_def pthreads_inv_def)
qed (use assms in \<open>simp add: inc_count_def\<close>)

lemma pthreads_reachable_inv:
  assumes "pthreads_step\<^sup>*\<^sup>* pthreads_start s"
  shows "pthreads_inv s"
  using assms
proof (induction rule: rtranclp_induct)
  case (step y z)
  from step(2) show ?case
  proof cases
    case (Inc t)
    then show ?thesis using step.IH pthreads_inv_inc by blast
  next
    case Watch
    then show ?thesis using step.IH pthreads_inv_watch by blast
  next
    case Spurious
    then show ?thesis using step.IH by (simp add: pthreads_inv_def pth_ok_def watch_holds_def)
  qed
qed (rule pthreads_inv_start)

text \<open>When no thread can go on, all have ended.\<close>

lemma pthreads_stuck:
  assumes "pthreads_inv s" "inc_count 2 s = None" "inc_count 3 s = None" "watch_count s = None"
  shows "main_prints s = Some 145"
proof -
  have "\<not> inc_holds (incs s 2)" "\<not> inc_holds (incs s 3)"
    using assms(2,3) by (cases "incs s 2"; cases "incs s 3"; simp add: inc_count_def)+
  moreover have "\<not> watch_holds (watcher s)"
    using assms(4) by (auto simp: watch_count_def watch_holds_def split: if_splits)
  ultimately have free: "holder s = None" using assms(1) by (simp add: pthreads_inv_def pth_ok_def)
  then have ended: "incs s 2 = IncDone" "incs s 3 = IncDone"
    using assms(2,3) by (auto simp: inc_count_def split: inc_pc.splits if_splits)
  then have "watcher s \<noteq> WatchWait" using assms(1) by (auto simp: pthreads_inv_def pth_ok_def)
  then have "watcher s = WatchDone"
    using assms(4) free by (auto simp: watch_count_def split: watch_pc.splits if_splits)
  then show ?thesis using ended assms(1) by (simp add: main_prints_def pthreads_inv_def pth_ok_def)
qed

text \<open>
  Property C4. The count is exact: whatever the interleaving and however often the watcher is woken for
  no reason, at most one thread is between its lock and its unlock, no signal is lost, so
  that when no thread can go on all three have ended, and what \<open>main\<close> prints is 145: twenty
  increments and the 125 of the watcher.
\<close>

theorem pthreads_final_count:
  assumes "pthreads_step\<^sup>*\<^sup>* pthreads_start s"
  shows "length (filter id [watch_holds (watcher s), inc_holds (incs s 2), inc_holds (incs s 3)]) \<le> 1 \<and>
    (inc_count 2 s = None \<and> inc_count 3 s = None \<and> watch_count s = None \<longrightarrow> main_prints s = Some 145) \<and>
    main_prints s \<in> {None, Some 145}"
proof -
  have inv: "pthreads_inv s" using assms by (rule pthreads_reachable_inv)
  then have "length (filter id [watch_holds (watcher s), inc_holds (incs s 2), inc_holds (incs s 3)]) \<le> 1"
    by (auto simp: pthreads_inv_def pth_ok_def)
  moreover have "main_prints s \<in> {None, Some 145}"
    using inv by (auto simp: pthreads_inv_def pth_ok_def main_prints_def)
  ultimately show ?thesis using pthreads_stuck [OF inv] by blast
qed

theorem pthreads_final_count_witness:
  "pthreads_step\<^sup>*\<^sup>* pthreads_start (pthreads_start\<lparr>holder := Some 2, incs := (\<lambda>_. IncLock 0)(2 := IncAdd 0)\<rparr>) \<and>
   main_prints (pthreads_start\<lparr>holder := Some 2, incs := (\<lambda>_. IncLock 0)(2 := IncAdd 0)\<rparr>) \<in> {None, Some 145}"
proof -
  let ?s = "pthreads_start\<lparr>holder := Some 2, incs := (\<lambda>_. IncLock 0)(2 := IncAdd 0)\<rparr>"
  have "pthreads_step pthreads_start ?s"
    by (rule Inc [of 2]) (simp_all add: inc_count_def pthreads_start_def TCOUNT_def)
  then have "pthreads_step\<^sup>*\<^sup>* pthreads_start ?s" ..
  with pthreads_final_count [OF this] show ?thesis by blast
qed

end
