(* ===== verification/Vga_Terminal.thy ===== *)
theory Vga_Terminal
  imports Camkes_Prelude
begin

text \<open>
  \<^verbatim>\<open>apps/vgatest/components/VGADriver/vgadriver.c\<close>: a text terminal in the memory of the VGA
  card. The buffer is the list of its 16-bit cells; its size belongs to the data port and is
  not known to the code, so every write is checked. The prints to the console are left out.
\<close>

section \<open>The driver\<close>

datatype vga_color =
    VGA_COLOR_BLACK | VGA_COLOR_BLUE | VGA_COLOR_GREEN | VGA_COLOR_CYAN | VGA_COLOR_RED | VGA_COLOR_MAGENTA
  | VGA_COLOR_BROWN | VGA_COLOR_LIGHT_GREY | VGA_COLOR_DARK_GREY | VGA_COLOR_LIGHT_BLUE | VGA_COLOR_LIGHT_GREEN
  | VGA_COLOR_LIGHT_CYAN | VGA_COLOR_LIGHT_RED | VGA_COLOR_LIGHT_MAGENTA | VGA_COLOR_LIGHT_BROWN
  | VGA_COLOR_WHITE

fun color_code :: "vga_color \<Rightarrow> u8" where
  "color_code VGA_COLOR_BLACK = 0"
| "color_code VGA_COLOR_BLUE = 1"
| "color_code VGA_COLOR_GREEN = 2"
| "color_code VGA_COLOR_CYAN = 3"
| "color_code VGA_COLOR_RED = 4"
| "color_code VGA_COLOR_MAGENTA = 5"
| "color_code VGA_COLOR_BROWN = 6"
| "color_code VGA_COLOR_LIGHT_GREY = 7"
| "color_code VGA_COLOR_DARK_GREY = 8"
| "color_code VGA_COLOR_LIGHT_BLUE = 9"
| "color_code VGA_COLOR_LIGHT_GREEN = 10"
| "color_code VGA_COLOR_LIGHT_CYAN = 11"
| "color_code VGA_COLOR_LIGHT_RED = 12"
| "color_code VGA_COLOR_LIGHT_MAGENTA = 13"
| "color_code VGA_COLOR_LIGHT_BROWN = 14"
| "color_code VGA_COLOR_WHITE = 15"

definition vga_entry_color :: "vga_color \<Rightarrow> vga_color \<Rightarrow> u8" where
  "vga_entry_color fg bg = color_code fg OR push_bit 4 (color_code bg)"

definition vga_entry :: "u8 \<Rightarrow> u8 \<Rightarrow> u16" where
  "vga_entry uc color = ucast uc OR push_bit 8 (ucast color)"

definition VGA_WIDTH :: nat where "VGA_WIDTH = 80"

definition VGA_HEIGHT :: nat where "VGA_HEIGHT = 25"

record vga =
  terminal_row :: nat
  terminal_column :: nat
  terminal_color :: u8
  terminal_buffer :: "u16 list"

definition write_cell :: "nat \<Rightarrow> u16 \<Rightarrow> vga \<Rightarrow> vga result" where
  "write_cell index v s = rbind (array_write (terminal_buffer s) index v) (\<lambda>b. Inr (s\<lparr>terminal_buffer := b\<rparr>))"

definition terminal_initialize :: "vga \<Rightarrow> vga result" where
  "terminal_initialize s0 =
     (let s = s0\<lparr>terminal_row := 0, terminal_column := 0,
                 terminal_color := vga_entry_color VGA_COLOR_LIGHT_GREY VGA_COLOR_BLACK\<rparr> in
      rfold (\<lambda>y. rfold (\<lambda>x. write_cell (y * VGA_WIDTH + x) (vga_entry 32 (terminal_color s))) [0..<VGA_WIDTH])
        [0..<VGA_HEIGHT] s)"

definition terminal_setcolor :: "u8 \<Rightarrow> vga \<Rightarrow> vga" where
  "terminal_setcolor color s = s\<lparr>terminal_color := color\<rparr>"

definition terminal_putentryat :: "u8 \<Rightarrow> u8 \<Rightarrow> nat \<Rightarrow> nat \<Rightarrow> vga \<Rightarrow> vga result" where
  "terminal_putentryat c color x y s = write_cell (y * VGA_WIDTH + x) (vga_entry c color) s"

definition terminal_putchar :: "u8 \<Rightarrow> vga \<Rightarrow> vga result" where
  "terminal_putchar c s0 =
     rbind (terminal_putentryat c (terminal_color s0) (terminal_column s0) (terminal_row s0) s0) (\<lambda>s.
     if terminal_column s + 1 = VGA_WIDTH
     then if terminal_row s + 1 = VGA_HEIGHT then Inr (s\<lparr>terminal_column := 0, terminal_row := 0\<rparr>)
          else Inr (s\<lparr>terminal_column := 0, terminal_row := terminal_row s + 1\<rparr>)
     else Inr (s\<lparr>terminal_column := terminal_column s + 1\<rparr>))"

definition terminal_write :: "bytes \<Rightarrow> nat \<Rightarrow> vga \<Rightarrow> vga result" where
  "terminal_write chars n s =
     rfold (\<lambda>i s. rbind (array_read chars i) (\<lambda>c. terminal_putchar c s)) [0..<n] s"

text \<open>The driver's own \<open>strlen\<close>: the index of the first null byte.\<close>

function vga_strlen :: "bytes \<Rightarrow> nat \<Rightarrow> nat result" where
  "vga_strlen str len =
     (if len < length str then if str ! len \<noteq> 0 then vga_strlen str (len + 1) else Inr len
      else Inl IndexError)"
  by pat_completeness auto
termination by (relation "measure (\<lambda>(str, len). length str - len)") auto

declare vga_strlen.simps [simp del]

definition terminal_writestring :: "bytes \<Rightarrow> vga \<Rightarrow> vga result" where
  "terminal_writestring chars s = rbind (vga_strlen chars 0) (\<lambda>n. terminal_write chars n s)"

definition welcome_message :: bytes where
  "welcome_message = map (\<lambda>c. of_nat (of_char c)) ''Hello, I am a CamKes component!'' @ [10, 0]"

definition vga_run :: "vga \<Rightarrow> vga result" where
  "vga_run s = rbind (terminal_initialize s) (terminal_writestring welcome_message)"

section \<open>The terminal as a cyclic text\<close>

text \<open>The specification: the next cell, the cells of the screen and the rest of the data port.\<close>

definition vga_ok :: "vga \<Rightarrow> bool" where
  "vga_ok s \<longleftrightarrow> terminal_row s < 25 \<and> terminal_column s < 80 \<and> 2000 \<le> length (terminal_buffer s)"

definition cell :: "vga \<Rightarrow> nat" where
  "cell s = terminal_row s * 80 + terminal_column s"

definition screen :: "vga \<Rightarrow> nat \<times> u16 list" where
  "screen s = (cell s, terminal_buffer s)"

definition text_put :: "u8 \<Rightarrow> u8 \<Rightarrow> nat \<times> u16 list \<Rightarrow> nat \<times> u16 list" where
  "text_put color c kb = (case kb of (k, b) \<Rightarrow> ((k + 1) mod 2000, b[k := vga_entry c color]))"

lemma cell_less: "vga_ok s \<Longrightarrow> cell s < 2000"
  by (simp add: vga_ok_def cell_def)

lemma terminal_putchar_refines:
  assumes "vga_ok s"
  shows "\<exists>t. terminal_putchar c s = Inr t \<and> vga_ok t \<and> terminal_color t = terminal_color s \<and>
     screen t = text_put (terminal_color s) c (screen s)"
proof -
  have "terminal_row s * 80 + terminal_column s < length (terminal_buffer s)"
    using assms by (simp add: vga_ok_def)
  then have w: "terminal_putentryat c (terminal_color s) (terminal_column s) (terminal_row s) s =
      Inr (s\<lparr>terminal_buffer := (terminal_buffer s)[cell s := vga_entry c (terminal_color s)]\<rparr>)"
    by (simp add: terminal_putentryat_def write_cell_def VGA_WIDTH_def cell_def)
  let ?b = "(terminal_buffer s)[cell s := vga_entry c (terminal_color s)]"
  have put: "terminal_putchar c s = Inr (s\<lparr>terminal_buffer := ?b,
      terminal_column := (if terminal_column s = 79 then 0 else terminal_column s + 1),
      terminal_row := (if terminal_column s = 79 then if terminal_row s = 24 then 0 else terminal_row s + 1
                       else terminal_row s)\<rparr>)"
    unfolding terminal_putchar_def w rbind_Inr VGA_WIDTH_def VGA_HEIGHT_def by (cases s) simp
  consider "terminal_column s = 79" "terminal_row s = 24" | "terminal_column s = 79" "terminal_row s < 24"
    | "terminal_column s < 79"
    using assms by (auto simp: vga_ok_def) linarith
  then show ?thesis
    using assms by cases (simp_all add: put vga_ok_def screen_def text_put_def cell_def)
qed

lemma terminal_write_refines:
  "vga_ok s \<Longrightarrow> n \<le> length str \<Longrightarrow>
     \<exists>t. terminal_write str n s = Inr t \<and> vga_ok t \<and> terminal_color t = terminal_color s \<and>
       screen t = fold (text_put (terminal_color s)) (take n str) (screen s)"
proof (induction n)
  case (Suc n)
  then obtain t where t: "terminal_write str n s = Inr t" "vga_ok t" "terminal_color t = terminal_color s"
      "screen t = fold (text_put (terminal_color s)) (take n str) (screen s)" by auto
  obtain u where "terminal_putchar (str ! n) t = Inr u" "vga_ok u" "terminal_color u = terminal_color t"
      "screen u = text_put (terminal_color t) (str ! n) (screen t)"
    using terminal_putchar_refines [OF t(2)] by blast
  then show ?case
    using t Suc.prems(2) by (simp add: terminal_write_def take_Suc_conv_app_nth rfold_append)
qed (simp add: terminal_write_def)

lemma vga_strlen_ok:
  "0 \<notin> set s \<Longrightarrow> k \<le> length s \<Longrightarrow> vga_strlen (s @ 0 # r) (length s - k) = Inr (length s)"
proof (induction k)
  case 0
  then show ?case by (subst vga_strlen.simps) simp
next
  case (Suc k)
  then have "(s @ 0 # r) ! (length s - Suc k) \<noteq> 0" by (auto simp: nth_append dest: nth_mem)
  moreover have "length s - Suc k + 1 = length s - k" using Suc.prems by simp
  ultimately show ?case using Suc by (subst vga_strlen.simps) simp
qed

lemma terminal_writestring_refines:
  assumes "vga_ok s" "0 \<notin> set str"
  shows "\<exists>t. terminal_writestring (str @ 0 # r) s = Inr t \<and> vga_ok t \<and> terminal_color t = terminal_color s \<and>
     screen t = fold (text_put (terminal_color s)) str (screen s)"
  using terminal_write_refines [OF assms(1), of "length str" "str @ 0 # r"]
    vga_strlen_ok [OF assms(2), of "length str" r]
  by (simp add: terminal_writestring_def)

text \<open>The start clears the screen.\<close>

lemma write_cells:
  assumes "a + n \<le> length (terminal_buffer s)"
  shows "rfold (\<lambda>x. write_cell (a + x) v) [0..<n] s =
     Inr (s\<lparr>terminal_buffer := take a (terminal_buffer s) @ replicate n v @ drop (a + n) (terminal_buffer s)\<rparr>)"
  using assms
proof (induction n)
  case (Suc n)
  let ?b = "take a (terminal_buffer s) @ replicate n v @ drop (a + n) (terminal_buffer s)"
  have "?b[a + n := v] = take a (terminal_buffer s) @ replicate (Suc n) v @ drop (a + Suc n) (terminal_buffer s)"
    using Suc.prems by (simp add: list_update_append Cons_nth_drop_Suc [symmetric] replicate_append_same [symmetric])
  then show ?case using Suc by (simp add: rfold_append write_cell_def)
qed simp

lemma clear_rows:
  assumes "n * 80 \<le> length (terminal_buffer s)"
  shows "rfold (\<lambda>y. rfold (\<lambda>x. write_cell (y * 80 + x) v) [0..<80]) [0..<n] s =
     Inr (s\<lparr>terminal_buffer := replicate (n * 80) v @ drop (n * 80) (terminal_buffer s)\<rparr>)"
  using assms
proof (induction n)
  case (Suc n)
  let ?s = "s\<lparr>terminal_buffer := replicate (n * 80) v @ drop (n * 80) (terminal_buffer s)\<rparr>"
  have "n * 80 + 80 \<le> length (terminal_buffer ?s)" using Suc.prems by simp
  from write_cells [OF this, of v] show ?case
    using Suc replicate_add [of "n * 80" 80 v] by (simp add: rfold_append add.commute del: upt_rec_numeral)
qed simp

lemma terminal_initialize_ok:
  assumes "2000 \<le> length (terminal_buffer s)"
  shows "\<exists>t. terminal_initialize s = Inr t \<and> vga_ok t \<and> terminal_color t = 7 \<and>
     screen t = (0, replicate 2000 (vga_entry 32 7) @ drop 2000 (terminal_buffer s))"
proof -
  let ?s = "s\<lparr>terminal_row := 0, terminal_column := 0, terminal_color := 7\<rparr>"
  have "vga_entry_color VGA_COLOR_LIGHT_GREY VGA_COLOR_BLACK = 7" by (simp add: vga_entry_color_def)
  then have "terminal_initialize s =
      rfold (\<lambda>y. rfold (\<lambda>x. write_cell (y * 80 + x) (vga_entry 32 7)) [0..<80]) [0..<25] ?s"
    by (simp add: terminal_initialize_def Let_def VGA_WIDTH_def VGA_HEIGHT_def del: upt_rec_numeral)
  then show ?thesis
    using clear_rows [of 25 ?s "vga_entry 32 7"] assms
    by (simp add: vga_ok_def screen_def cell_def del: upt_rec_numeral)
qed

text \<open>A text that fits before the end of the screen stands in the cells after the cursor.\<close>

lemma fold_text_put:
  "k + length cs < 2000 \<Longrightarrow> k + length cs \<le> length b \<Longrightarrow>
     fold (text_put color) cs (k, b) =
       (k + length cs, take k b @ map (\<lambda>c. vga_entry c color) cs @ drop (k + length cs) b)"
proof (induction cs arbitrary: k b)
  case (Cons c cs)
  then have "fold (text_put color) (c # cs) (k, b) = fold (text_put color) cs (Suc k, b[k := vga_entry c color])"
    by (simp add: text_put_def)
  also have "\<dots> = (Suc k + length cs, take (Suc k) (b[k := vga_entry c color]) @
      map (\<lambda>c. vga_entry c color) cs @ drop (Suc k + length cs) (b[k := vga_entry c color]))"
    using Cons.prems by (intro Cons.IH) simp_all
  finally show ?case using Cons.prems by (simp add: take_Suc_update)
qed simp

section \<open>Properties\<close>

text \<open>
  Property C20. The driver implements a cyclic text of 2000 cells: in a data port that holds the
  screen, writing a string never leaves the buffer, puts each character in the cell at
  the cursor with the current color and moves the cursor to the next cell, after the last one back to the
  first; the color stays.
\<close>

theorem vga_text_refines:
  assumes "vga_ok s" "0 \<notin> set str"
  shows "\<exists>t. terminal_writestring (str @ 0 # r) s = Inr t \<and> vga_ok t \<and> terminal_color t = terminal_color s \<and>
     screen t = fold (text_put (terminal_color s)) str (screen s)"
  by (rule terminal_writestring_refines [OF assms])

definition blank_vga :: vga where
  "blank_vga = \<lparr>terminal_row = 24, terminal_column = 79, terminal_color = 7, terminal_buffer = replicate 2048 0\<rparr>"

theorem vga_text_refines_witness:
  "\<exists>t. terminal_writestring [65, 66, 0] blank_vga = Inr t \<and> vga_ok t \<and> terminal_color t = 7 \<and>
     screen t = fold (text_put 7) [65, 66] (1999, replicate 2048 0)"
  using vga_text_refines [of blank_vga "[65, 66]" "[]"]
  by (simp add: blank_vga_def vga_ok_def screen_def cell_def)

text \<open>What the component shows: the welcome at the top of a blank screen.\<close>

lemma vga_run_shows:
  assumes "2000 \<le> length (terminal_buffer s)"
  shows "\<exists>t. vga_run s = Inr t \<and> vga_ok t \<and> cell t = 32 \<and>
     take 32 (terminal_buffer t) = map (\<lambda>c. vga_entry c 7) (butlast welcome_message)"
proof -
  obtain t where t: "terminal_initialize s = Inr t" "vga_ok t" "terminal_color t = 7"
      "screen t = (0, replicate 2000 (vga_entry 32 7) @ drop 2000 (terminal_buffer s))"
    using terminal_initialize_ok [OF assms] by blast
  have w: "welcome_message = butlast welcome_message @ 0 # []" "length (butlast welcome_message) = 32"
      "0 \<notin> set (butlast welcome_message)"
    by (simp_all add: welcome_message_def of_char_def)
  obtain u where u: "terminal_writestring welcome_message t = Inr u" "vga_ok u"
      "screen u = fold (text_put 7) (butlast welcome_message) (screen t)"
    using terminal_writestring_refines [OF t(2) w(3), of "[]"] w(1) t(3) by auto
  have "screen u = (32, map (\<lambda>c. vga_entry c 7) (butlast welcome_message) @
      drop 32 (replicate 2000 (vga_entry 32 7) @ drop 2000 (terminal_buffer s)))"
    using u(3) t(4) fold_text_put [of 0 "butlast welcome_message"] w(2) assms by simp
  then show ?thesis using t(1) u(1,2) w(2) by (simp add: vga_run_def screen_def)
qed

end
