(* ===== verification/Device_Drivers.thy ===== *)
theory Device_Drivers
  imports Camkes_Prelude
begin

text \<open>
  Small device drivers and their clients: the UART of \<^verbatim>\<open>apps/uart\<close> (with the client of
  \<^verbatim>\<open>apps/uart_cogent\<close> and the two drivers of \<^verbatim>\<open>apps/testnto1mmio\<close>), the keyboard controller of
  \<^verbatim>\<open>apps/keyboard\<close>, the timers of \<^verbatim>\<open>apps/epit\<close> and \<^verbatim>\<open>apps/pit\<close> and the counting loop of
  \<^verbatim>\<open>apps/periodic\<close>. A device is the values its registers give to the successive reads,
  a list argument, and the accesses of the driver, in order, as the result. A busy loop that is still
  waiting when the list ends is \<open>None\<close>.
\<close>

section \<open>The UART\<close>

definition UART1_RX_RDY :: u32 where "UART1_RX_RDY = push_bit 9 1"

definition UART1_TX_RDY :: u32 where "UART1_TX_RDY = push_bit 13 1"

definition UART1_RX_MASK :: u32 where "UART1_RX_MASK = 0xFF"

datatype uart_access = StatRead u32 | RxRead u32 | TxWrite u32

definition uart_received :: "u32 \<Rightarrow> u32" where
  "uart_received stat = stat AND UART1_RX_RDY"

definition is_transmit_empty :: "u32 \<Rightarrow> u32" where
  "is_transmit_empty stat = stat AND UART1_TX_RDY"

text \<open>A \<open>char\<close> stored in a 32-bit register: the sign is extended where the type is signed.\<close>

definition char_to_u32 :: "bool \<Rightarrow> u8 \<Rightarrow> u32" where
  "char_to_u32 char_signed c = (if char_signed then scast c else ucast c)"

fun uart_put_char :: "bool \<Rightarrow> u8 \<Rightarrow> u32 list \<Rightarrow> (u32 list \<times> uart_access list) option" where
  "uart_put_char char_signed c [] = None"
| "uart_put_char char_signed c (stat # stats) =
     (if is_transmit_empty stat = 0
      then map_option (\<lambda>(rest, out). (rest, StatRead stat # out)) (uart_put_char char_signed c stats)
      else Some (stats, [StatRead stat, TxWrite (char_to_u32 char_signed c)]))"

fun uart_get_char :: "u32 list \<Rightarrow> u32 \<Rightarrow> (u8 \<times> u32 list \<times> uart_access list) option" where
  "uart_get_char [] rx = None"
| "uart_get_char (stat # stats) rx =
     (if uart_received stat = 0
      then map_option (\<lambda>(c, rest, out). (c, rest, StatRead stat # out)) (uart_get_char stats rx)
      else Some (ucast (rx AND UART1_RX_MASK), stats, [StatRead stat, RxRead rx]))"

text \<open>\<open>uart_write\<close> of the client: the characters one by one.\<close>

fun uart_write :: "bool \<Rightarrow> bytes \<Rightarrow> u32 list \<Rightarrow> (nat \<times> u32 list \<times> uart_access list) option" where
  "uart_write char_signed [] stats = Some (0, stats, [])"
| "uart_write char_signed (c # cs) stats =
     (case uart_put_char char_signed c stats of
        None \<Rightarrow> None
      | Some (rest, out) \<Rightarrow>
          map_option (\<lambda>(n, rest', out'). (Suc n, rest', out @ out')) (uart_write char_signed cs rest))"

text \<open>The header of the two drivers that share the port has the same accessors.\<close>

definition mmio_uart_received :: "u32 \<Rightarrow> u32" where
  "mmio_uart_received = uart_received"

definition mmio_is_transmit_empty :: "u32 \<Rightarrow> u32" where
  "mmio_is_transmit_empty = is_transmit_empty"

definition mmio_uart_put_char :: "bool \<Rightarrow> u8 \<Rightarrow> u32 list \<Rightarrow> (u32 list \<times> uart_access list) option" where
  "mmio_uart_put_char = uart_put_char"

definition cogent_uart_write :: "bool \<Rightarrow> bytes \<Rightarrow> u32 list \<Rightarrow> (nat \<times> u32 list \<times> uart_access list) option" where
  "cogent_uart_write = uart_write"

text \<open>Their string function: up to the terminator.\<close>

fun uart_put :: "bool \<Rightarrow> bytes \<Rightarrow> u32 list \<Rightarrow> (u32 list \<times> uart_access list) option" where
  "uart_put char_signed [] stats = Some (stats, [])"
| "uart_put char_signed (c # cs) stats =
     (if c = 0 then Some (stats, [])
      else case uart_put_char char_signed c stats of
        None \<Rightarrow> None
      | Some (rest, out) \<Rightarrow> map_option (\<lambda>(rest', out'). (rest', out @ out')) (uart_put char_signed cs rest))"

text \<open>
  The loops of the two clients over the characters the driver returns: what they print, and whether
  they have left. The \<open>signed char\<close> of the second is compared with -1.
\<close>

fun uart_client :: "bytes \<Rightarrow> bytes \<times> bool" where
  "uart_client [] = ([], False)"
| "uart_client (c # cs) =
     (if c = 113 then ([c], True) else case uart_client cs of (out, done) \<Rightarrow> (c # out, done))"

fun uart_cogent_client :: "bytes \<Rightarrow> bytes \<times> bool" where
  "uart_cogent_client [] = ([], False)"
| "uart_cogent_client (c # cs) =
     (let out1 = (if c \<noteq> 0xff then [c] else []) in
      if c = 113 then (out1, True) else case uart_cogent_client cs of (out, done) \<Rightarrow> (out1 @ out, done))"

text \<open>What goes over the line, and whether every write follows a status read that reported room.\<close>

fun transmitted :: "uart_access list \<Rightarrow> u32 list" where
  "transmitted [] = []"
| "transmitted (TxWrite v # es) = v # transmitted es"
| "transmitted (e # es) = transmitted es"

fun paced :: "bool \<Rightarrow> uart_access list \<Rightarrow> bool" where
  "paced room [] = True"
| "paced room (StatRead stat # es) = paced (stat AND UART1_TX_RDY \<noteq> 0) es"
| "paced room (RxRead v # es) = paced False es"
| "paced room (TxWrite v # es) = (room \<and> paced False es)"

definition ready_count :: "u32 list \<Rightarrow> nat" where
  "ready_count stats = length (filter (\<lambda>stat. stat AND UART1_TX_RDY \<noteq> 0) stats)"

lemma transmitted_append: "transmitted (xs @ ys) = transmitted xs @ transmitted ys"
  by (induction xs rule: transmitted.induct) auto

lemma uart_put_char_paced:
  "0 < ready_count stats \<Longrightarrow> \<exists>rest out. uart_put_char cs c stats = Some (rest, out) \<and>
     transmitted out = [char_to_u32 cs c] \<and> (\<forall>more room. paced room (out @ more) = paced False more) \<and>
     ready_count rest = ready_count stats - 1"
  by (induction stats) (auto simp: ready_count_def is_transmit_empty_def)

lemma uart_put_char_blocks: "ready_count stats = 0 \<Longrightarrow> uart_put_char cs c stats = None"
  by (induction stats) (auto simp: ready_count_def is_transmit_empty_def split: if_splits)

lemma uart_write_sends:
  "length str \<le> ready_count stats \<Longrightarrow> \<exists>rest out. uart_write cs str stats = Some (length str, rest, out) \<and>
     transmitted out = map (char_to_u32 cs) str \<and> (\<forall>room. paced room out) \<and>
     ready_count rest = ready_count stats - length str"
proof (induction str arbitrary: stats)
  case (Cons c str)
  then have "0 < ready_count stats" by simp
  from uart_put_char_paced [OF this] obtain rest out where o: "uart_put_char cs c stats = Some (rest, out)"
      "transmitted out = [char_to_u32 cs c]" "\<And>more room. paced room (out @ more) = paced False more"
      "ready_count rest = ready_count stats - 1" by blast
  with Cons.prems have "length str \<le> ready_count rest" by simp
  from Cons.IH [OF this] o show ?case by (auto simp: transmitted_append)
qed simp

lemma uart_write_blocks: "ready_count stats < length str \<Longrightarrow> uart_write cs str stats = None"
proof (induction str arbitrary: stats)
  case (Cons c str)
  show ?case
  proof (cases "ready_count stats = 0")
    case False
    then obtain rest out where "uart_put_char cs c stats = Some (rest, out)" "ready_count rest = ready_count stats - 1"
      using uart_put_char_paced [of stats cs c] by auto
    with Cons False show ?thesis by auto
  qed (simp add: uart_put_char_blocks)
qed simp

lemma uart_put_write:
  "0 \<notin> set str \<Longrightarrow> uart_put cs (str @ 0 # r) stats = map_option (\<lambda>(n, rest, out). (rest, out)) (uart_write cs str stats)"
  by (induction str arbitrary: stats) (auto split: option.split simp: map_option_case)

section \<open>The keyboard controller\<close>

definition KEYBOARD_STATUS_PORT :: u16 where "KEYBOARD_STATUS_PORT = 0x64"

definition KEYBOARD_DATA_PORT :: u16 where "KEYBOARD_DATA_PORT = 0x60"

definition KEYBOARD_ENABLE :: u32 where "KEYBOARD_ENABLE = 0xae"

datatype kbd_action =
    KbdPrintStatus u8 | KbdPortOut u16 u32 | KbdPrintScancode u8 | KeypressEmit | KbdAcknowledge

definition port_in8 :: "(u16 \<Rightarrow> int \<times> u32) \<Rightarrow> u16 \<Rightarrow> u8" where
  "port_in8 ps_io_port_in port =
     (case ps_io_port_in port of (error, v) \<Rightarrow> if error \<noteq> 0 then 0 else ucast v)"

definition read_status :: "(u16 \<Rightarrow> int \<times> u32) \<Rightarrow> u8 \<times> kbd_action list" where
  "read_status ps_io_port_in =
     (let c = port_in8 ps_io_port_in KEYBOARD_STATUS_PORT in (c, [KbdPrintStatus c]))"

definition read_scancode :: "(u16 \<Rightarrow> int \<times> u32) \<Rightarrow> u8" where
  "read_scancode ps_io_port_in = port_in8 ps_io_port_in KEYBOARD_DATA_PORT"

definition keyboard_enable :: "int \<times> kbd_action list" where
  "keyboard_enable = (0, [KbdPortOut KEYBOARD_STATUS_PORT KEYBOARD_ENABLE])"

definition keyboard_interrupt_handle :: "(u16 \<Rightarrow> int \<times> u32) \<Rightarrow> kbd_action list" where
  "keyboard_interrupt_handle ps_io_port_in =
     [KbdPrintScancode (read_scancode ps_io_port_in), KeypressEmit, KbdAcknowledge]"

definition kbd_init :: "int \<Rightarrow> (u16 \<Rightarrow> int \<times> u32) \<Rightarrow> kbd_action list result" where
  "kbd_init error ps_io_port_in =
     rbind (c_assert (error = 0)) (\<lambda>_. Inr (snd (read_status ps_io_port_in) @ snd keyboard_enable))"

definition kbd_get_scancode :: "(u16 \<Rightarrow> int \<times> u32) \<Rightarrow> int" where
  "kbd_get_scancode ps_io_port_in = int (unat (read_scancode ps_io_port_in))"

text \<open>
  The interrupt has already taken the code from the controller when the client, told of the event,
  asks for it: each reads the port once, so the client gets what the next read of the
  port gives.
\<close>

definition key_event :: "(u16 \<Rightarrow> int \<times> u32) \<Rightarrow> (u16 \<Rightarrow> int \<times> u32) \<Rightarrow> kbd_action list \<times> int" where
  "key_event first_read second_read =
     (keyboard_interrupt_handle first_read, kbd_get_scancode second_read)"

lemma ucast_u8_u32_u8: "(ucast (ucast (c :: u8) :: u32) :: u8) = c"
  by (rule bit_word_eqI) (simp add: bit_simps)

lemma key_event_codes:
  assumes "r KEYBOARD_DATA_PORT = (0, ucast (c :: u8))" "r' KEYBOARD_DATA_PORT = (0, ucast (d :: u8))"
  shows "key_event r r' = ([KbdPrintScancode c, KeypressEmit, KbdAcknowledge], int (unat d))"
  using assms
  by (simp add: key_event_def keyboard_interrupt_handle_def kbd_get_scancode_def read_scancode_def port_in8_def
      ucast_u8_u32_u8)

section \<open>Timers\<close>

text \<open>The PIT: one print a second, of a hundred interrupts.\<close>

definition IRQS_PER_SECOND :: int where "IRQS_PER_SECOND = 100"

record pit =
  irq_count :: int
  seconds :: int

definition pit_irq_handle :: "pit \<Rightarrow> pit \<times> int list" where
  "pit_irq_handle s0 =
     (let s = s0\<lparr>irq_count := irq_count s0 + 1\<rparr> in
      if irq_count s = IRQS_PER_SECOND
      then (s\<lparr>seconds := seconds s + 1, irq_count := 0\<rparr>, [seconds s + 1])
      else (s, []))"

fun pit_irqs :: "nat \<Rightarrow> pit \<Rightarrow> pit \<times> int list" where
  "pit_irqs 0 s = (s, [])"
| "pit_irqs (Suc n) s =
     (case pit_irqs n s of (t, out) \<Rightarrow> case pit_irq_handle t of (u, out') \<Rightarrow> (u, out @ out'))"

definition pit_pre_init :: "int \<Rightarrow> int \<Rightarrow> int \<Rightarrow> unit result" where
  "pit_pre_init ops_error init_error timeout_error =
     rbind (c_assert (ops_error = 0)) (\<lambda>_.
     rbind (c_assert (init_error = 0)) (\<lambda>_. c_assert (timeout_error = 0)))"

lemma pit_seconds:
  "pit_irqs n \<lparr>irq_count = 0, seconds = 0\<rparr> =
     (\<lparr>irq_count = int (n mod 100), seconds = int (n div 100)\<rparr>, map int [1..<Suc (n div 100)])"
proof (induction n)
  case (Suc n)
  show ?case
  proof (cases "Suc (n mod 100) = 100")
    case True
    then have "Suc n mod 100 = 0" "Suc n div 100 = Suc (n div 100)" by (simp_all add: mod_Suc div_Suc)
    moreover have "int (n mod 100) + 1 = 100" using True by linarith
    ultimately show ?thesis using Suc by (simp add: pit_irq_handle_def IRQS_PER_SECOND_def)
  next
    case False
    then have "Suc n mod 100 = Suc (n mod 100)" "Suc n div 100 = n div 100" by (simp_all add: mod_Suc div_Suc)
    moreover have "int (n mod 100) + 1 \<noteq> 100" using False by linarith
    ultimately show ?thesis using Suc by (simp add: pit_irq_handle_def IRQS_PER_SECOND_def Let_def)
  qed
qed simp

text \<open>
  The EPIT: the accesses to its registers, by their offsets. A read returns what the device
  gives, so the read-modify-writes take the values read as arguments.
\<close>

datatype epit_access = RegWrite u32 u32 | RegRead u32 | IrqAcknowledge | PrintTimeout int

definition CTRL_EN :: u32 where "CTRL_EN = push_bit 0 1"

definition CTRL_ENMOD :: u32 where "CTRL_ENMOD = push_bit 1 1"

definition CTRL_OCIEN :: u32 where "CTRL_OCIEN = push_bit 2 1"

definition CTRL_RLD :: u32 where "CTRL_RLD = push_bit 3 1"

definition CTRL_SWR :: u32 where "CTRL_SWR = push_bit 17 1"

definition CLKSRC_IPG :: u32 where "CLKSRC_IPG = 1"

definition IPG_CLK_KHZ :: u32 where "IPG_CLK_KHZ = 66000"

definition epit_init :: "u32 \<Rightarrow> u32 \<Rightarrow> epit_access list" where
  "epit_init read1 read2 =
     [RegWrite 0 0, RegWrite 0 CTRL_SWR, RegWrite 0 (push_bit 24 CLKSRC_IPG),
      RegRead 0, RegWrite 0 (read1 OR (CTRL_RLD OR CTRL_ENMOD)),
      RegRead 0, RegWrite 0 (read2 OR CTRL_OCIEN)]"

definition epit_set_interval :: "u32 \<Rightarrow> epit_access list" where
  "epit_set_interval interval = [RegWrite 8 (IPG_CLK_KHZ * interval), RegWrite 12 0]"

definition epit_start_timer :: "u32 \<Rightarrow> epit_access list" where
  "epit_start_timer read3 = [RegWrite 4 1, RegRead 0, RegWrite 0 (read3 OR CTRL_EN)]"

definition epit_irq_handle :: "int \<Rightarrow> int \<times> epit_access list" where
  "epit_irq_handle count = (count + 1, [RegWrite 4 1, IrqAcknowledge, PrintTimeout count])"

definition epit_run :: "u32 \<Rightarrow> u32 \<Rightarrow> u32 \<Rightarrow> epit_access list" where
  "epit_run read1 read2 read3 = epit_init read1 read2 @ epit_set_interval 1000 @ epit_start_timer read3"

text \<open>On registers that hold what was written last: enabled, from the load register, once a second at 66 MHz.\<close>

fun epit_regs :: "epit_access list \<Rightarrow> (u32 \<Rightarrow> u32) \<Rightarrow> u32 \<Rightarrow> u32" where
  "epit_regs [] r = r"
| "epit_regs (RegWrite a v # es) r = epit_regs es (r(a := v))"
| "epit_regs (_ # es) r = epit_regs es r"

lemma epit_configured:
  fixes r :: "u32 \<Rightarrow> u32"
  defines "src \<equiv> push_bit 24 CLKSRC_IPG"
  shows "epit_regs (epit_run src (src OR (CTRL_RLD OR CTRL_ENMOD))
      (src OR (CTRL_RLD OR CTRL_ENMOD) OR CTRL_OCIEN)) r 0 = 0x100000f"
    "epit_regs (epit_run src read2 read3) r 8 = 66000000"
  by (simp_all add: src_def epit_run_def epit_init_def epit_set_interval_def epit_start_timer_def CLKSRC_IPG_def
      CTRL_EN_def CTRL_ENMOD_def CTRL_OCIEN_def CTRL_RLD_def IPG_CLK_KHZ_def)

section \<open>The counting loop\<close>

definition MAX_VALUE :: u64 where "MAX_VALUE = 100000"

definition RATE :: u64 where "RATE = 10000"

definition periodic_body :: "u64 \<Rightarrow> u64" where
  "periodic_body acc = (acc * 17 + 1) div 17 + 1"

text \<open>The loop of \<open>run\<close> from a value of \<open>acc\<close>, with the values it prints; \<open>None\<close> would be an endless loop.\<close>

partial_function (option) periodic_loop :: "u64 \<Rightarrow> u64 list \<Rightarrow> (u64 \<times> u64 list) option" where
  "periodic_loop acc out =
     (if acc < MAX_VALUE
      then (let acc' = periodic_body acc in
            periodic_loop acc' (if acc' mod RATE = 0 then out @ [acc'] else out))
      else Some (acc, out))"

lemma periodic_body_Suc:
  assumes "n < 100000"
  shows "periodic_body (of_nat n) = of_nat (Suc n)"
proof -
  have "(of_nat n * 17 + 1 :: u64) = of_nat (n * 17 + 1)" by simp
  moreover have "(of_nat (n * 17 + 1) :: u64) div 17 = of_nat ((n * 17 + 1) div 17)"
  proof -
    have "unat (of_nat (n * 17 + 1) :: u64) = n * 17 + 1"
      unfolding unat_of_nat by (rule mod_less) (use assms in simp)
    then show ?thesis by (simp add: word_arith_nat_div del: of_nat_add of_nat_mult)
  qed
  moreover have "(n * 17 + 1) div 17 = n" by simp
  ultimately show ?thesis by (simp add: periodic_body_def add.commute)
qed

lemma periodic_steps:
  assumes "n \<le> 100000"
  shows "periodic_loop (of_nat (100000 - n)) out =
     Some (100000, out @ map of_nat (filter (\<lambda>k. k mod 10000 = 0) [Suc (100000 - n)..<100001]))"
  using assms
proof (induction n arbitrary: out)
  case 0
  then show ?case by (subst periodic_loop.simps) (simp add: MAX_VALUE_def)
next
  case (Suc n)
  define k where "k = 100000 - Suc n"
  have k: "k < 100000" "100000 - n = Suc k" using Suc.prems by (simp_all add: k_def)
  have u: "unat (of_nat j :: u64) = j" if "j \<le> 100000" for j
    using that by (simp add: unat_of_nat take_bit_nat_eq_self)
  have lt: "(of_nat k :: u64) < MAX_VALUE" using u [of k] k by (simp add: MAX_VALUE_def word_less_nat_alt)
  have rate: "(of_nat (Suc k) :: u64) mod RATE = 0 \<longleftrightarrow> Suc k mod 10000 = 0"
    using u [of "Suc k"] k by (simp add: RATE_def word_arith_nat_mod word_unat_eq_iff unat_of_nat take_bit_nat_eq_self del: of_nat_Suc)
  have upt: "[Suc k..<100001] = Suc k # [Suc (Suc k)..<100001]" using k by (simp add: upt_conv_Cons)
  show ?case
    unfolding k_def [symmetric]
    by (subst periodic_loop.simps)
      (use Suc.IH [of "if Suc k mod 10000 = 0 then out @ [of_nat (Suc k)] else out"] Suc.prems lt rate k
        in \<open>simp add: periodic_body_Suc Let_def upt del: of_nat_Suc upt_rec_numeral upt_Suc\<close>)
qed

lemma filter_multiples:
  fixes m :: nat
  assumes "0 < m"
  shows "filter (\<lambda>k. k mod m = 0) [1..<Suc (m * n)] = map (\<lambda>k. m * k) [1..<Suc n]"
proof (induction n)
  case (Suc n)
  have between: "filter (\<lambda>k. k mod m = 0) [Suc (m * n)..<m * Suc n] = []"
  proof -
    have "k mod m \<noteq> 0" if "m * n < k" "k < m * Suc n" for k
    proof
      assume "k mod m = 0"
      then obtain j where "k = m * j" by (auto elim: dvdE)
      with that have "n < j" "j < Suc n" by (simp_all only: mult_less_cancel1)
      then show False by simp
    qed
    then show ?thesis by (auto simp: filter_empty_conv simp del: mult_Suc_right)
  qed
  have "[1..<Suc (m * Suc n)] = [1..<Suc (m * n)] @ [Suc (m * n)..<m * Suc n] @ [m * Suc n]"
  proof -
    have "[1..<Suc (m * n) + m] = [1..<Suc (m * n)] @ [Suc (m * n)..<Suc (m * n) + m]"
      by (rule upt_add_eq_append) simp
    moreover have "[Suc (m * n)..<Suc (m * n + m)] = [Suc (m * n)..<m * n + m] @ [m * n + m]"
      using assms by (intro upt_Suc_append) simp
    moreover have "Suc (m * n) + m = Suc (m * n + m)" "m * Suc n = m * n + m" by simp_all
    ultimately show ?thesis by (simp only:)
  qed
  then have "filter (\<lambda>k. k mod m = 0) [1..<Suc (m * Suc n)] = map (\<lambda>k. m * k) [1..<Suc n] @ [m * Suc n]"
    using Suc between by (simp only: filter_append) simp
  moreover have "[1..<Suc (Suc n)] = [1..<Suc n] @ [Suc n]" by (intro upt_Suc_append) simp
  ultimately show ?case by (simp only: map_append) simp
qed simp

section \<open>Properties\<close>

text \<open>
  Sending over the UART loses nothing and never overruns it: when the device reports room
  as often as there are characters, \<open>uart_write\<close> returns their number, has written them in order, each
  right after a status read that reported room; when it reports room less often the call
  is still waiting.
\<close>

theorem uart_write_paced:
  "(if length str \<le> ready_count stats
    then \<exists>rest out. uart_write cs str stats = Some (length str, rest, out) \<and>
      transmitted out = map (char_to_u32 cs) str \<and> paced False out
    else uart_write cs str stats = None)"
  using uart_write_sends [of str stats cs] uart_write_blocks [of stats str cs] by auto

text \<open>
  The calculation that wastes time advances the accumulator by exactly one each round,
  without overflow, so the loop ends, at 100000, having reported the ten multiples of 10000.
\<close>

theorem periodic_terminates:
  "periodic_loop 0 [] = Some (100000, map (\<lambda>k. of_nat (10000 * k)) [1..<11])"
proof -
  have "filter (\<lambda>k :: nat. k mod 10000 = 0) [1..<Suc (10000 * 10)] = map (\<lambda>k. 10000 * k) [1..<Suc 10]"
    by (rule filter_multiples) simp
  then have "filter (\<lambda>k :: nat. k mod 10000 = 0) [1..<100001] = map (\<lambda>k. 10000 * k) [1..<11]"
    by (simp del: upt_rec_numeral upt_Suc)
  with periodic_steps [of 100000 "[]"] show ?thesis
    by (simp add: comp_def del: upt_rec_numeral upt_Suc of_nat_mult)
qed

end
