(* ===== verification/Platform_Devices.thy ===== *)
theory Platform_Devices
  imports Camkes_Prelude "HOL-Library.Sublist"
begin

text \<open>
  The board descriptions of the applications that use the U-Boot driver library:
  \<^verbatim>\<open>eth_platform_devices.h\<close>, \<^verbatim>\<open>mmc_platform_devices.h\<close> and \<^verbatim>\<open>usb_platform_devices.h\<close> of
  \<^verbatim>\<open>apps/security_demo\<close>, and \<^verbatim>\<open>platform_devices.h\<close> of \<^verbatim>\<open>apps/picoserver_uboot\<close> and of
  \<^verbatim>\<open>apps/uboot-driver-example\<close> (two boards). Each header gives two arrays of device tree paths
  with their lengths, which a component hands to the library, and the three fragments of the
  CAmkES description that connect the memory of the devices to the component.
  A path is written as a macro, defined by a string or by another macro that is
  defined before it.
\<close>

section \<open>The form of a header\<close>

text \<open>
  The names: the interface \<open>eth\<close> is \<open>Eth\<close>, the connection \<open>eth_conn\<close> is \<open>Conn Eth\<close>, the macros
  \<open>REG_ETH_PATH\<close>, \<open>DEV_ETH_PATH\<close> and \<open>BUS_PATH\<close> are \<open>REG Eth\<close>, \<open>DEV Eth\<close> and \<open>PATH Bus\<close>.
\<close>

datatype part =
    Timer | Ccm | Iomuxc | Ocotp | Syscon | Eth | Clk_1 | Clk_2 | Clk_3 | Clk_4 | Clk_5 | Clk_6
    | Clk_7 | Dummy_source | Mmc | Usb_2 | Usb_phy_2 | Gpio | Gpio_1 | Gpio_2 | Gpio_3 | Gpio_4
    | Gpio_5 | I2c_0 | I2c_1 | I2c_2 | I2c_3 | Spi_0 | Leds | Bus | Periphs | Pinctrl1
    | Pinctrl2

datatype connection = Conn part

datatype path_macro = REG part | DEV part | PATH part

datatype macro_body = Quoted string | Alias path_macro

datatype hw_interface = Consumes part | Emits part

record board =
  macros :: "(path_macro \<times> macro_body) list"
  reg_paths :: "path_macro list"
  reg_count :: nat
  dev_paths :: "path_macro list"
  dev_count :: nat
  interfaces :: "hw_interface list"
  composition :: "(connection \<times> part \<times> part) list"
  configuration :: "(part \<times> path_macro) list"

text \<open>The expansion of a macro, the definitions listed from the last to the first.\<close>

fun expand :: "(path_macro \<times> macro_body) list \<Rightarrow> path_macro \<Rightarrow> string option" where
  "expand [] n = None"
| "expand ((m, b) # ms) n =
     (if m = n then (case b of Quoted s \<Rightarrow> Some s | Alias k \<Rightarrow> expand ms k) else expand ms n)"

definition path_array :: "board \<Rightarrow> path_macro list \<Rightarrow> string option list" where
  "path_array b ns = map (expand (rev (macros b))) ns"

text \<open>
  The library reads as many paths as it is told: the call of \<open>initialise_uboot_drivers\<close> with
  the two arrays and the two counts.
\<close>

definition read_array :: "'a list \<Rightarrow> nat \<Rightarrow> 'a list result" where
  "read_array xs n = rmap (array_read xs) [0..<n]"

definition library_paths :: "board \<Rightarrow> (string option list \<times> string option list) result" where
  "library_paths b =
     rbind (read_array (path_array b (reg_paths b)) (reg_count b)) (\<lambda>rs.
     rbind (read_array (path_array b (dev_paths b)) (dev_count b)) (\<lambda>ds. Inr (rs, ds)))"

section \<open>The boards\<close>

definition sec_eth_reg_macros :: "(path_macro \<times> macro_body) list" where
  "sec_eth_reg_macros =
     [(REG Timer, Quoted ''/soc@0/bus@30400000/timer@306a0000''),
      (REG Ccm, Quoted ''/soc@0/bus@30000000/clock-controller@30380000''),
      (REG Iomuxc, Quoted ''/soc@0/bus@30000000/iomuxc@30330000''),
      (REG Ocotp, Quoted ''/soc@0/bus@30000000/ocotp-ctrl@30350000''),
      (REG Syscon, Quoted ''/soc@0/bus@30000000/syscon@30360000''),
      (REG Eth, Quoted ''/soc@0/bus@30800000/ethernet@30be0000'')]"

definition sec_eth_reg_paths :: "path_macro list" where
  "sec_eth_reg_paths =
     [REG Eth, REG Timer, REG Ccm, REG Ocotp, REG Syscon, REG Iomuxc]"

definition sec_eth_reg_count :: nat where "sec_eth_reg_count = 6"

definition sec_eth_dev_macros :: "(path_macro \<times> macro_body) list" where
  "sec_eth_dev_macros =
     [(DEV Timer, Alias (REG Timer)), (DEV Ccm, Alias (REG Ccm)),
      (DEV Iomuxc, Alias (REG Iomuxc)), (DEV Ocotp, Alias (REG Ocotp)),
      (DEV Syscon, Alias (REG Syscon)), (DEV Eth, Alias (REG Eth)),
      (DEV Clk_1, Quoted ''/clock-ckil''), (DEV Clk_2, Quoted ''/clock-osc-25m''),
      (DEV Clk_3, Quoted ''/clock-osc-27m''), (DEV Clk_4, Quoted ''/clock-ext1''),
      (DEV Clk_5, Quoted ''/clock-ext2''), (DEV Clk_6, Quoted ''/clock-ext3''),
      (DEV Clk_7, Quoted ''/clock-ext4'')]"

definition sec_eth_dev_paths :: "path_macro list" where
  "sec_eth_dev_paths =
     [DEV Eth, DEV Timer, DEV Ccm, DEV Ocotp, DEV Syscon, DEV Iomuxc, DEV Clk_1, DEV Clk_2,
      DEV Clk_3, DEV Clk_4, DEV Clk_5, DEV Clk_6, DEV Clk_7]"

definition sec_eth_dev_count :: nat where "sec_eth_dev_count = 13"

definition sec_eth_interfaces :: "hw_interface list" where
  "sec_eth_interfaces =
     [Consumes Eth, Consumes Timer, Consumes Ccm, Consumes Iomuxc, Consumes Ocotp,
      Consumes Syscon, Emits Dummy_source]"

definition sec_eth_composition :: "(connection \<times> part \<times> part) list" where
  "sec_eth_composition =
     [(Conn Eth, Dummy_source, Eth), (Conn Timer, Dummy_source, Timer),
      (Conn Ccm, Dummy_source, Ccm), (Conn Syscon, Dummy_source, Syscon),
      (Conn Ocotp, Dummy_source, Ocotp), (Conn Iomuxc, Dummy_source, Iomuxc)]"

definition sec_eth_configuration :: "(part \<times> path_macro) list" where
  "sec_eth_configuration =
     [(Eth, REG Eth), (Timer, REG Timer), (Ccm, REG Ccm), (Syscon, REG Syscon),
      (Ocotp, REG Ocotp), (Iomuxc, REG Iomuxc)]"

definition sec_eth_board :: board where
  "sec_eth_board =
     \<lparr>macros = sec_eth_reg_macros @ sec_eth_dev_macros, reg_paths = sec_eth_reg_paths, reg_count = sec_eth_reg_count,
      dev_paths = sec_eth_dev_paths, dev_count = sec_eth_dev_count, interfaces = sec_eth_interfaces,
      composition = sec_eth_composition, configuration = sec_eth_configuration\<rparr>"

definition sec_mmc_reg_macros :: "(path_macro \<times> macro_body) list" where
  "sec_mmc_reg_macros =
     [(REG Timer, Quoted ''/soc@0/bus@30400000/timer@306a0000''),
      (REG Ccm, Quoted ''/soc@0/bus@30000000/clock-controller@30380000''),
      (REG Syscon, Quoted ''/soc@0/bus@30000000/syscon@30360000''),
      (REG Iomuxc, Quoted ''/soc@0/bus@30000000/iomuxc@30330000''),
      (REG Mmc, Quoted ''/soc@0/bus@30800000/mmc@30b40000'')]"

definition sec_mmc_reg_paths :: "path_macro list" where
  "sec_mmc_reg_paths =
     [REG Mmc, REG Timer, REG Ccm, REG Syscon, REG Iomuxc]"

definition sec_mmc_reg_count :: nat where "sec_mmc_reg_count = 5"

definition sec_mmc_dev_macros :: "(path_macro \<times> macro_body) list" where
  "sec_mmc_dev_macros =
     [(DEV Timer, Alias (REG Timer)), (DEV Ccm, Alias (REG Ccm)),
      (DEV Syscon, Alias (REG Syscon)), (DEV Mmc, Alias (REG Mmc)),
      (DEV Iomuxc, Alias (REG Iomuxc)), (DEV Clk_1, Quoted ''/clock-ckil''),
      (DEV Clk_2, Quoted ''/clock-osc-25m''), (DEV Clk_3, Quoted ''/clock-osc-27m''),
      (DEV Clk_4, Quoted ''/clock-ext1''), (DEV Clk_5, Quoted ''/clock-ext2''),
      (DEV Clk_6, Quoted ''/clock-ext3''), (DEV Clk_7, Quoted ''/clock-ext4'')]"

definition sec_mmc_dev_paths :: "path_macro list" where
  "sec_mmc_dev_paths =
     [DEV Mmc, DEV Timer, DEV Ccm, DEV Syscon, DEV Iomuxc, DEV Clk_1, DEV Clk_2, DEV Clk_3,
      DEV Clk_4, DEV Clk_5, DEV Clk_6, DEV Clk_7]"

definition sec_mmc_dev_count :: nat where "sec_mmc_dev_count = 12"

definition sec_mmc_interfaces :: "hw_interface list" where
  "sec_mmc_interfaces =
     [Consumes Mmc, Consumes Timer, Consumes Ccm, Consumes Syscon, Consumes Iomuxc,
      Emits Dummy_source]"

definition sec_mmc_composition :: "(connection \<times> part \<times> part) list" where
  "sec_mmc_composition =
     [(Conn Mmc, Dummy_source, Mmc), (Conn Timer, Dummy_source, Timer),
      (Conn Ccm, Dummy_source, Ccm), (Conn Syscon, Dummy_source, Syscon),
      (Conn Iomuxc, Dummy_source, Iomuxc)]"

definition sec_mmc_configuration :: "(part \<times> path_macro) list" where
  "sec_mmc_configuration =
     [(Mmc, REG Mmc), (Timer, REG Timer), (Ccm, REG Ccm), (Syscon, REG Syscon),
      (Iomuxc, REG Iomuxc)]"

definition sec_mmc_board :: board where
  "sec_mmc_board =
     \<lparr>macros = sec_mmc_reg_macros @ sec_mmc_dev_macros, reg_paths = sec_mmc_reg_paths, reg_count = sec_mmc_reg_count,
      dev_paths = sec_mmc_dev_paths, dev_count = sec_mmc_dev_count, interfaces = sec_mmc_interfaces,
      composition = sec_mmc_composition, configuration = sec_mmc_configuration\<rparr>"

definition sec_usb_reg_macros :: "(path_macro \<times> macro_body) list" where
  "sec_usb_reg_macros =
     [(REG Timer, Quoted ''/soc@0/bus@30400000/timer@306a0000''),
      (REG Ccm, Quoted ''/soc@0/bus@30000000/clock-controller@30380000''),
      (REG Syscon, Quoted ''/soc@0/bus@30000000/syscon@30360000''),
      (REG Usb_2, Quoted ''/soc@0/usb@38200000''),
      (REG Usb_phy_2, Quoted ''/soc@0/usb-phy@382f0040'')]"

definition sec_usb_reg_paths :: "path_macro list" where
  "sec_usb_reg_paths =
     [REG Usb_2, REG Usb_phy_2, REG Timer, REG Ccm, REG Syscon]"

definition sec_usb_reg_count :: nat where "sec_usb_reg_count = 5"

definition sec_usb_dev_macros :: "(path_macro \<times> macro_body) list" where
  "sec_usb_dev_macros =
     [(DEV Timer, Alias (REG Timer)), (DEV Ccm, Alias (REG Ccm)),
      (DEV Syscon, Alias (REG Syscon)), (DEV Usb_2, Alias (REG Usb_2)),
      (DEV Usb_phy_2, Alias (REG Usb_phy_2)), (DEV Clk_1, Quoted ''/clock-ckil''),
      (DEV Clk_2, Quoted ''/clock-osc-25m''), (DEV Clk_3, Quoted ''/clock-osc-27m''),
      (DEV Clk_4, Quoted ''/clock-ext1''), (DEV Clk_5, Quoted ''/clock-ext2''),
      (DEV Clk_6, Quoted ''/clock-ext3''), (DEV Clk_7, Quoted ''/clock-ext4'')]"

definition sec_usb_dev_paths :: "path_macro list" where
  "sec_usb_dev_paths =
     [DEV Usb_2, DEV Usb_phy_2, DEV Timer, DEV Ccm, DEV Syscon, DEV Clk_1, DEV Clk_2,
      DEV Clk_3, DEV Clk_4, DEV Clk_5, DEV Clk_6, DEV Clk_7]"

definition sec_usb_dev_count :: nat where "sec_usb_dev_count = 12"

definition sec_usb_interfaces :: "hw_interface list" where
  "sec_usb_interfaces =
     [Consumes Usb_2, Consumes Usb_phy_2, Consumes Timer, Consumes Ccm, Consumes Syscon,
      Emits Dummy_source]"

definition sec_usb_composition :: "(connection \<times> part \<times> part) list" where
  "sec_usb_composition =
     [(Conn Usb_2, Dummy_source, Usb_2), (Conn Usb_phy_2, Dummy_source, Usb_phy_2),
      (Conn Timer, Dummy_source, Timer), (Conn Ccm, Dummy_source, Ccm),
      (Conn Syscon, Dummy_source, Syscon)]"

definition sec_usb_configuration :: "(part \<times> path_macro) list" where
  "sec_usb_configuration =
     [(Usb_2, REG Usb_2), (Usb_phy_2, REG Usb_phy_2), (Timer, REG Timer), (Ccm, REG Ccm),
      (Syscon, REG Syscon)]"

definition sec_usb_board :: board where
  "sec_usb_board =
     \<lparr>macros = sec_usb_reg_macros @ sec_usb_dev_macros, reg_paths = sec_usb_reg_paths, reg_count = sec_usb_reg_count,
      dev_paths = sec_usb_dev_paths, dev_count = sec_usb_dev_count, interfaces = sec_usb_interfaces,
      composition = sec_usb_composition, configuration = sec_usb_configuration\<rparr>"

definition pico_reg_macros :: "(path_macro \<times> macro_body) list" where
  "pico_reg_macros =
     [(REG Timer, Quoted ''/soc@0/bus@30400000/timer@306a0000''),
      (REG Ccm, Quoted ''/soc@0/bus@30000000/clock-controller@30380000''),
      (REG Iomuxc, Quoted ''/soc@0/bus@30000000/iomuxc@30330000''),
      (REG Ocotp, Quoted ''/soc@0/bus@30000000/ocotp-ctrl@30350000''),
      (REG Syscon, Quoted ''/soc@0/bus@30000000/syscon@30360000''),
      (REG Eth, Quoted ''/soc@0/bus@30800000/ethernet@30be0000''),
      (REG Gpio, Quoted ''/soc@0/bus@30000000/gpio@30200000'')]"

definition pico_reg_paths :: "path_macro list" where
  "pico_reg_paths =
     [REG Eth, REG Timer, REG Ccm, REG Ocotp, REG Syscon, REG Iomuxc, REG Gpio]"

definition pico_reg_count :: nat where "pico_reg_count = 7"

definition pico_dev_macros :: "(path_macro \<times> macro_body) list" where
  "pico_dev_macros =
     [(DEV Timer, Alias (REG Timer)), (DEV Ccm, Alias (REG Ccm)),
      (DEV Iomuxc, Alias (REG Iomuxc)), (DEV Ocotp, Alias (REG Ocotp)),
      (DEV Syscon, Alias (REG Syscon)), (DEV Eth, Alias (REG Eth)),
      (DEV Gpio, Alias (REG Gpio)), (DEV Clk_1, Quoted ''/clock-ckil''),
      (DEV Clk_2, Quoted ''/clock-osc-25m''), (DEV Clk_3, Quoted ''/clock-osc-27m''),
      (DEV Clk_4, Quoted ''/clock-ext1''), (DEV Clk_5, Quoted ''/clock-ext2''),
      (DEV Clk_6, Quoted ''/clock-ext3''), (DEV Clk_7, Quoted ''/clock-ext4'')]"

definition pico_dev_paths :: "path_macro list" where
  "pico_dev_paths =
     [DEV Eth, DEV Timer, DEV Ccm, DEV Ocotp, DEV Syscon, DEV Iomuxc, DEV Clk_1, DEV Clk_2,
      DEV Clk_3, DEV Clk_4, DEV Clk_5, DEV Clk_6, DEV Clk_7]"

definition pico_dev_count :: nat where "pico_dev_count = 14"

definition pico_interfaces :: "hw_interface list" where
  "pico_interfaces =
     [Consumes Eth, Consumes Timer, Consumes Ccm, Consumes Iomuxc, Consumes Ocotp,
      Consumes Syscon, Consumes Gpio, Emits Dummy_source]"

definition pico_composition :: "(connection \<times> part \<times> part) list" where
  "pico_composition =
     [(Conn Eth, Dummy_source, Eth), (Conn Timer, Dummy_source, Timer),
      (Conn Ccm, Dummy_source, Ccm), (Conn Syscon, Dummy_source, Syscon),
      (Conn Ocotp, Dummy_source, Ocotp), (Conn Iomuxc, Dummy_source, Iomuxc),
      (Conn Gpio, Dummy_source, Gpio)]"

definition pico_configuration :: "(part \<times> path_macro) list" where
  "pico_configuration =
     [(Eth, REG Eth), (Timer, REG Timer), (Ccm, REG Ccm), (Syscon, REG Syscon),
      (Ocotp, REG Ocotp), (Iomuxc, REG Iomuxc), (Gpio, REG Gpio)]"

definition pico_board :: board where
  "pico_board =
     \<lparr>macros = pico_reg_macros @ pico_dev_macros, reg_paths = pico_reg_paths, reg_count = pico_reg_count,
      dev_paths = pico_dev_paths, dev_count = pico_dev_count, interfaces = pico_interfaces,
      composition = pico_composition, configuration = pico_configuration\<rparr>"

definition maaxboard_reg_macros :: "(path_macro \<times> macro_body) list" where
  "maaxboard_reg_macros =
     [(REG Timer, Quoted ''/soc@0/bus@30400000/timer@306a0000''),
      (REG Ccm, Quoted ''/soc@0/bus@30000000/clock-controller@30380000''),
      (REG Iomuxc, Quoted ''/soc@0/bus@30000000/iomuxc@30330000''),
      (REG Ocotp, Quoted ''/soc@0/bus@30000000/ocotp-ctrl@30350000''),
      (REG Syscon, Quoted ''/soc@0/bus@30000000/syscon@30360000''),
      (REG Usb_2, Quoted ''/soc@0/usb@38200000''),
      (REG Usb_phy_2, Quoted ''/soc@0/usb-phy@382f0040''),
      (REG Mmc, Quoted ''/soc@0/bus@30800000/mmc@30b40000''),
      (REG Eth, Quoted ''/soc@0/bus@30800000/ethernet@30be0000''),
      (REG Gpio_1, Quoted ''/soc@0/bus@30000000/gpio@30200000''),
      (REG Gpio_2, Quoted ''/soc@0/bus@30000000/gpio@30210000''),
      (REG Gpio_3, Quoted ''/soc@0/bus@30000000/gpio@30220000''),
      (REG Gpio_4, Quoted ''/soc@0/bus@30000000/gpio@30230000''),
      (REG Gpio_5, Quoted ''/soc@0/bus@30000000/gpio@30240000''),
      (REG I2c_0, Quoted ''/soc@0/bus@30800000/i2c@30a20000''),
      (REG I2c_1, Quoted ''/soc@0/bus@30800000/i2c@30a30000''),
      (REG I2c_2, Quoted ''/soc@0/bus@30800000/i2c@30a40000''),
      (REG I2c_3, Quoted ''/soc@0/bus@30800000/i2c@30a50000''),
      (REG Spi_0, Quoted ''/soc@0/bus@30800000/spi@30820000'')]"

definition maaxboard_reg_paths :: "path_macro list" where
  "maaxboard_reg_paths =
     [REG Usb_2, REG Usb_phy_2, REG Mmc, REG Eth, REG Timer, REG Ccm, REG Ocotp, REG Syscon,
      REG Iomuxc, REG Gpio_1, REG Gpio_2, REG Gpio_3, REG Gpio_4, REG Gpio_5, REG I2c_0,
      REG I2c_1, REG I2c_2, REG I2c_3, REG Spi_0]"

definition maaxboard_reg_count :: nat where "maaxboard_reg_count = 19"

definition maaxboard_dev_macros :: "(path_macro \<times> macro_body) list" where
  "maaxboard_dev_macros =
     [(DEV Timer, Alias (REG Timer)), (DEV Ccm, Alias (REG Ccm)),
      (DEV Iomuxc, Alias (REG Iomuxc)), (DEV Ocotp, Alias (REG Ocotp)),
      (DEV Syscon, Alias (REG Syscon)), (DEV Usb_2, Alias (REG Usb_2)),
      (DEV Usb_phy_2, Alias (REG Usb_phy_2)), (DEV Mmc, Alias (REG Mmc)),
      (DEV Eth, Alias (REG Eth)), (DEV Gpio_1, Alias (REG Gpio_1)),
      (DEV Gpio_2, Alias (REG Gpio_2)), (DEV Gpio_3, Alias (REG Gpio_3)),
      (DEV Gpio_4, Alias (REG Gpio_4)), (DEV Gpio_5, Alias (REG Gpio_5)),
      (DEV I2c_0, Alias (REG I2c_0)), (DEV I2c_1, Alias (REG I2c_1)),
      (DEV I2c_2, Alias (REG I2c_2)), (DEV I2c_3, Alias (REG I2c_3)),
      (DEV Spi_0, Alias (REG Spi_0)), (DEV Leds, Quoted ''/leds''),
      (DEV Clk_1, Quoted ''/clock-ckil''), (DEV Clk_2, Quoted ''/clock-osc-25m''),
      (DEV Clk_3, Quoted ''/clock-osc-27m''), (DEV Clk_4, Quoted ''/clock-ext1''),
      (DEV Clk_5, Quoted ''/clock-ext2''), (DEV Clk_6, Quoted ''/clock-ext3''),
      (DEV Clk_7, Quoted ''/clock-ext4'')]"

definition maaxboard_dev_paths :: "path_macro list" where
  "maaxboard_dev_paths =
     [DEV Usb_2, DEV Usb_phy_2, DEV Mmc, DEV Eth, DEV Timer, DEV Ccm, DEV Ocotp, DEV Syscon,
      DEV Iomuxc, DEV Gpio_1, DEV Gpio_2, DEV Gpio_3, DEV Gpio_4, DEV Gpio_5, DEV I2c_0,
      DEV I2c_1, DEV I2c_2, DEV I2c_3, DEV Spi_0, DEV Leds, DEV Clk_1, DEV Clk_2, DEV Clk_3,
      DEV Clk_4, DEV Clk_5, DEV Clk_6, DEV Clk_7]"

definition maaxboard_dev_count :: nat where "maaxboard_dev_count = 27"

definition maaxboard_interfaces :: "hw_interface list" where
  "maaxboard_interfaces =
     [Consumes Usb_2, Consumes Usb_phy_2, Consumes Mmc, Consumes Eth, Consumes Timer,
      Consumes Ccm, Consumes Iomuxc, Consumes Ocotp, Consumes Syscon, Consumes Gpio_1,
      Consumes Gpio_2, Consumes Gpio_3, Consumes Gpio_4, Consumes Gpio_5, Consumes I2c_0,
      Consumes I2c_1, Consumes I2c_2, Consumes I2c_3, Consumes Spi_0, Emits Dummy_source]"

definition maaxboard_composition :: "(connection \<times> part \<times> part) list" where
  "maaxboard_composition =
     [(Conn Usb_2, Dummy_source, Usb_2), (Conn Usb_phy_2, Dummy_source, Usb_phy_2),
      (Conn Mmc, Dummy_source, Mmc), (Conn Eth, Dummy_source, Eth),
      (Conn Timer, Dummy_source, Timer), (Conn Ccm, Dummy_source, Ccm),
      (Conn Syscon, Dummy_source, Syscon), (Conn Ocotp, Dummy_source, Ocotp),
      (Conn Iomuxc, Dummy_source, Iomuxc), (Conn Gpio_1, Dummy_source, Gpio_1),
      (Conn Gpio_2, Dummy_source, Gpio_2), (Conn Gpio_3, Dummy_source, Gpio_3),
      (Conn Gpio_4, Dummy_source, Gpio_4), (Conn Gpio_5, Dummy_source, Gpio_5),
      (Conn I2c_0, Dummy_source, I2c_0), (Conn I2c_1, Dummy_source, I2c_1),
      (Conn I2c_2, Dummy_source, I2c_2), (Conn I2c_3, Dummy_source, I2c_3),
      (Conn Spi_0, Dummy_source, Spi_0)]"

definition maaxboard_configuration :: "(part \<times> path_macro) list" where
  "maaxboard_configuration =
     [(Usb_2, REG Usb_2), (Usb_phy_2, REG Usb_phy_2), (Mmc, REG Mmc), (Eth, REG Eth),
      (Timer, REG Timer), (Ccm, REG Ccm), (Syscon, REG Syscon), (Ocotp, REG Ocotp),
      (Iomuxc, REG Iomuxc), (Gpio_1, REG Gpio_1), (Gpio_2, REG Gpio_2), (Gpio_3, REG Gpio_3),
      (Gpio_4, REG Gpio_4), (Gpio_5, REG Gpio_5), (I2c_0, REG I2c_0), (I2c_1, REG I2c_1),
      (I2c_2, REG I2c_2), (I2c_3, REG I2c_3), (Spi_0, REG Spi_0)]"

definition maaxboard_board :: board where
  "maaxboard_board =
     \<lparr>macros = maaxboard_reg_macros @ maaxboard_dev_macros, reg_paths = maaxboard_reg_paths, reg_count = maaxboard_reg_count,
      dev_paths = maaxboard_dev_paths, dev_count = maaxboard_dev_count, interfaces = maaxboard_interfaces,
      composition = maaxboard_composition, configuration = maaxboard_configuration\<rparr>"

definition odroidc2_reg_macros :: "(path_macro \<times> macro_body) list" where
  "odroidc2_reg_macros =
     [(PATH Bus, Quoted ''/soc/bus@c8100000''),
      (PATH Periphs, Quoted ''/soc/periphs@c8834000'')]"

definition odroidc2_reg_paths :: "path_macro list" where
  "odroidc2_reg_paths =
     [PATH Bus, PATH Periphs]"

definition odroidc2_reg_count :: nat where "odroidc2_reg_count = 2"

definition odroidc2_dev_macros :: "(path_macro \<times> macro_body) list" where
  "odroidc2_dev_macros =
     [(PATH Pinctrl1, Quoted ''/soc/bus@c8100000/pinctrl@14''),
      (PATH Pinctrl2, Quoted ''/soc/periphs@c8834000/pinctrl@4b0''),
      (PATH Leds, Quoted ''/leds'')]"

definition odroidc2_dev_paths :: "path_macro list" where
  "odroidc2_dev_paths =
     [PATH Pinctrl1, PATH Pinctrl2, PATH Leds]"

definition odroidc2_dev_count :: nat where "odroidc2_dev_count = 3"

definition odroidc2_interfaces :: "hw_interface list" where
  "odroidc2_interfaces =
     [Consumes Bus, Consumes Periphs, Emits Dummy_source]"

definition odroidc2_composition :: "(connection \<times> part \<times> part) list" where
  "odroidc2_composition =
     [(Conn Bus, Dummy_source, Bus), (Conn Periphs, Dummy_source, Periphs)]"

definition odroidc2_configuration :: "(part \<times> path_macro) list" where
  "odroidc2_configuration =
     [(Bus, PATH Bus), (Periphs, PATH Periphs)]"

definition odroidc2_board :: board where
  "odroidc2_board =
     \<lparr>macros = odroidc2_reg_macros @ odroidc2_dev_macros, reg_paths = odroidc2_reg_paths, reg_count = odroidc2_reg_count,
      dev_paths = odroidc2_dev_paths, dev_count = odroidc2_dev_count, interfaces = odroidc2_interfaces,
      composition = odroidc2_composition, configuration = odroidc2_configuration\<rparr>"

section \<open>What makes a description right\<close>

fun consumed :: "hw_interface list \<Rightarrow> part list" where
  "consumed [] = []"
| "consumed (Consumes n # is) = n # consumed is"
| "consumed (Emits n # is) = consumed is"

definition same_entries :: "'a list \<Rightarrow> 'a list \<Rightarrow> bool" where
  "same_entries xs ys \<longleftrightarrow> list_all (\<lambda>x. x \<in> set ys) xs \<and> list_all (\<lambda>y. y \<in> set xs) ys"

lemma same_entries_set: "same_entries xs ys \<longleftrightarrow> set xs = set ys"
  by (auto simp: same_entries_def list_all_iff)

text \<open>
  Every consumed interface is connected exactly once, from an emitted one, and is given exactly
  one path; the paths given are those the library maps.
\<close>

definition wired :: "board \<Rightarrow> bool" where
  "wired b \<longleftrightarrow>
     distinct (consumed (interfaces b)) \<and> distinct (map fst (composition b)) \<and>
     distinct (map (snd \<circ> snd) (composition b)) \<and>
     same_entries (map (snd \<circ> snd) (composition b)) (consumed (interfaces b)) \<and>
     list_all (\<lambda>(c, from, to). Emits from \<in> set (interfaces b)) (composition b) \<and>
     distinct (map fst (configuration b)) \<and>
     same_entries (map fst (configuration b)) (consumed (interfaces b)) \<and>
     same_entries (map snd (configuration b)) (reg_paths b)"

text \<open>
  A listed device is one of the mapped regions, or lies in one, or has no registers: its path
  is not below \<open>/soc\<close>.
\<close>

definition registers_mapped :: "board \<Rightarrow> path_macro \<Rightarrow> bool" where
  "registers_mapped b d =
     (case map_of (macros b) d of
        None \<Rightarrow> False
      | Some (Alias r) \<Rightarrow> r \<in> set (reg_paths b)
      | Some (Quoted s) \<Rightarrow> prefix ''/soc'' s \<longrightarrow>
          list_ex (\<lambda>r. case expand (rev (macros b)) r of None \<Rightarrow> False | Some q \<Rightarrow> prefix q s) (reg_paths b))"

definition board_sound :: "board \<Rightarrow> bool" where
  "board_sound b \<longleftrightarrow> wired b \<and>
     distinct (map fst (macros b)) \<and> distinct (reg_paths b) \<and> distinct (dev_paths b) \<and>
     list_all (\<lambda>n. expand (rev (macros b)) n \<noteq> None) (reg_paths b @ dev_paths b) \<and>
     list_all (registers_mapped b) (dev_paths b)"

text \<open>
  Whether a macro has a text does not depend on the texts, which are long terms: they are
  dropped before the question is evaluated.
\<close>

fun alias_of :: "macro_body \<Rightarrow> path_macro option" where
  "alias_of (Quoted s) = None"
| "alias_of (Alias k) = Some k"

fun has_text :: "(path_macro \<times> path_macro option) list \<Rightarrow> path_macro \<Rightarrow> bool" where
  "has_text [] n = False"
| "has_text ((m, a) # ms) n =
     (if m = n then (case a of None \<Rightarrow> True | Some k \<Rightarrow> has_text ms k) else has_text ms n)"

lemma expand_has_text: "expand ms n \<noteq> None \<longleftrightarrow> has_text (map (map_prod id alias_of) ms) n"
  by (induction ms n rule: expand.induct) (auto split: macro_body.splits)

text \<open>
  Devices whose macro names a mapped region, and devices without registers; the others have to be
  looked at.
\<close>

fun no_registers :: "macro_body option \<Rightarrow> bool" where
  "no_registers (Some (Quoted s)) = (\<not> prefix ''/soc'' s)"
| "no_registers _ = False"

lemma mapped_check:
  assumes "list_all (\<lambda>d. case map_of (map (map_prod id alias_of) (macros b)) d of
      Some (Some r) \<Rightarrow> r \<in> set (reg_paths b) | Some None \<Rightarrow> d \<in> set qs | None \<Rightarrow> False) ds"
    and "list_all (\<lambda>d. no_registers (map_of (macros b) d) \<or> registers_mapped b d) qs"
  shows "list_all (registers_mapped b) ds"
proof -
  have named: "registers_mapped b d"
    if "map_of (map (map_prod id alias_of) (macros b)) d = Some (Some r)" "r \<in> set (reg_paths b)" for d r
    using that by (auto simp: registers_mapped_def map_prod_def map_of_map elim!: alias_of.elims)
  have none: "registers_mapped b d" if "no_registers (map_of (macros b) d)" for d
    using that by (auto simp: registers_mapped_def prefix_def elim!: no_registers.elims)
  show ?thesis unfolding list_all_iff
  proof
    fix d assume d: "d \<in> set ds"
    let ?a = "map_of (map (map_prod id alias_of) (macros b)) d"
    consider "?a = None" | "?a = Some None" | r where "?a = Some (Some r)" by (cases ?a) auto
    then show "registers_mapped b d"
    proof cases
      case 1
      with assms(1) d show ?thesis by (force simp: list_all_iff)
    next
      case 2
      with assms(1) d have "d \<in> set qs" by (force simp: list_all_iff)
      with assms(2) none show ?thesis by (auto simp: list_all_iff)
    next
      case 3
      with assms(1) d have "r \<in> set (reg_paths b)" by (force simp: list_all_iff)
      with 3 show ?thesis by (rule named)
    qed
  qed
qed

text \<open>
  What the library is given: exactly the two arrays when the counts are right, and a read past
  the end of the second when its count is too large.
\<close>

lemma read_array_all [simp]: "n = length xs \<Longrightarrow> read_array xs n = Inr xs"
  using rmap_total [of "[0..<n]" "array_read xs" "(!) xs"] by (simp add: read_array_def map_nth)

lemma read_array_past: "length xs < n \<Longrightarrow> read_array xs n = Inl IndexError"
proof -
  assume less: "length xs < n"
  have "rmap (array_read xs) (ms @ length xs # ns) = Inl IndexError" if "\<forall>m \<in> set ms. m < length xs" for ms ns
    using that by (induction ms) (auto simp: array_read_def)
  moreover have "[0..<n] = [0..<length xs] @ length xs # [Suc (length xs)..<n]"
    using less upt_add_eq_append [of 0 "length xs" "n - length xs"] by (simp add: upt_conv_Cons)
  ultimately show ?thesis by (simp add: read_array_def)
qed

lemma length_path_array [simp]: "length (path_array b ns) = length ns"
  by (simp add: path_array_def)

definition counts_right :: "board \<Rightarrow> bool" where
  "counts_right b \<longleftrightarrow> reg_count b = length (reg_paths b) \<and> dev_count b = length (dev_paths b)"

lemma library_paths_exact:
  "counts_right b \<Longrightarrow> library_paths b = Inr (path_array b (reg_paths b), path_array b (dev_paths b))"
  by (simp add: library_paths_def counts_right_def)

lemma library_paths_past:
  assumes "reg_count b = length (reg_paths b)" "length (dev_paths b) < dev_count b"
  shows "library_paths b = Inl IndexError"
  using assms by (simp add: library_paths_def read_array_past)

section \<open>The boards are described soundly, but one count\<close>

lemmas sec_eth_defs =
  sec_eth_board_def sec_eth_reg_macros_def sec_eth_dev_macros_def sec_eth_reg_paths_def
  sec_eth_dev_paths_def sec_eth_reg_count_def sec_eth_dev_count_def sec_eth_interfaces_def
  sec_eth_composition_def sec_eth_configuration_def

lemmas sec_mmc_defs =
  sec_mmc_board_def sec_mmc_reg_macros_def sec_mmc_dev_macros_def sec_mmc_reg_paths_def
  sec_mmc_dev_paths_def sec_mmc_reg_count_def sec_mmc_dev_count_def sec_mmc_interfaces_def
  sec_mmc_composition_def sec_mmc_configuration_def

lemmas sec_usb_defs =
  sec_usb_board_def sec_usb_reg_macros_def sec_usb_dev_macros_def sec_usb_reg_paths_def
  sec_usb_dev_paths_def sec_usb_reg_count_def sec_usb_dev_count_def sec_usb_interfaces_def
  sec_usb_composition_def sec_usb_configuration_def

lemmas pico_defs =
  pico_board_def pico_reg_macros_def pico_dev_macros_def pico_reg_paths_def
  pico_dev_paths_def pico_reg_count_def pico_dev_count_def pico_interfaces_def
  pico_composition_def pico_configuration_def

lemmas maaxboard_defs =
  maaxboard_board_def maaxboard_reg_macros_def maaxboard_dev_macros_def maaxboard_reg_paths_def
  maaxboard_dev_paths_def maaxboard_reg_count_def maaxboard_dev_count_def maaxboard_interfaces_def
  maaxboard_composition_def maaxboard_configuration_def

lemmas odroidc2_defs =
  odroidc2_board_def odroidc2_reg_macros_def odroidc2_dev_macros_def odroidc2_reg_paths_def
  odroidc2_dev_paths_def odroidc2_reg_count_def odroidc2_dev_count_def odroidc2_interfaces_def
  odroidc2_composition_def odroidc2_configuration_def

lemma sec_eth_sound: "board_sound sec_eth_board"
proof -
  have "list_all (registers_mapped sec_eth_board) (dev_paths sec_eth_board)"
    by (rule mapped_check [where qs = "map DEV [Clk_1, Clk_2, Clk_3, Clk_4, Clk_5, Clk_6, Clk_7]"]) (simp_all add: sec_eth_defs)
  moreover have "list_all (\<lambda>n. expand (rev (macros sec_eth_board)) n \<noteq> None) (reg_paths sec_eth_board @ dev_paths sec_eth_board)"
    unfolding expand_has_text by (simp add: sec_eth_defs)
  moreover have "distinct (map fst (macros sec_eth_board)) \<and> distinct (reg_paths sec_eth_board) \<and> distinct (dev_paths sec_eth_board)"
    by (simp add: sec_eth_defs)
  moreover have "wired sec_eth_board" by (simp add: wired_def same_entries_def sec_eth_defs)
  ultimately show ?thesis by (simp add: board_sound_def)
qed

lemma sec_mmc_sound: "board_sound sec_mmc_board"
proof -
  have "list_all (registers_mapped sec_mmc_board) (dev_paths sec_mmc_board)"
    by (rule mapped_check [where qs = "map DEV [Clk_1, Clk_2, Clk_3, Clk_4, Clk_5, Clk_6, Clk_7]"]) (simp_all add: sec_mmc_defs)
  moreover have "list_all (\<lambda>n. expand (rev (macros sec_mmc_board)) n \<noteq> None) (reg_paths sec_mmc_board @ dev_paths sec_mmc_board)"
    unfolding expand_has_text by (simp add: sec_mmc_defs)
  moreover have "distinct (map fst (macros sec_mmc_board)) \<and> distinct (reg_paths sec_mmc_board) \<and> distinct (dev_paths sec_mmc_board)"
    by (simp add: sec_mmc_defs)
  moreover have "wired sec_mmc_board" by (simp add: wired_def same_entries_def sec_mmc_defs)
  ultimately show ?thesis by (simp add: board_sound_def)
qed

lemma sec_usb_sound: "board_sound sec_usb_board"
proof -
  have "list_all (registers_mapped sec_usb_board) (dev_paths sec_usb_board)"
    by (rule mapped_check [where qs = "map DEV [Clk_1, Clk_2, Clk_3, Clk_4, Clk_5, Clk_6, Clk_7]"]) (simp_all add: sec_usb_defs)
  moreover have "list_all (\<lambda>n. expand (rev (macros sec_usb_board)) n \<noteq> None) (reg_paths sec_usb_board @ dev_paths sec_usb_board)"
    unfolding expand_has_text by (simp add: sec_usb_defs)
  moreover have "distinct (map fst (macros sec_usb_board)) \<and> distinct (reg_paths sec_usb_board) \<and> distinct (dev_paths sec_usb_board)"
    by (simp add: sec_usb_defs)
  moreover have "wired sec_usb_board" by (simp add: wired_def same_entries_def sec_usb_defs)
  ultimately show ?thesis by (simp add: board_sound_def)
qed

lemma pico_sound: "board_sound pico_board"
proof -
  have "list_all (registers_mapped pico_board) (dev_paths pico_board)"
    by (rule mapped_check [where qs = "map DEV [Clk_1, Clk_2, Clk_3, Clk_4, Clk_5, Clk_6, Clk_7]"]) (simp_all add: pico_defs)
  moreover have "list_all (\<lambda>n. expand (rev (macros pico_board)) n \<noteq> None) (reg_paths pico_board @ dev_paths pico_board)"
    unfolding expand_has_text by (simp add: pico_defs)
  moreover have "distinct (map fst (macros pico_board)) \<and> distinct (reg_paths pico_board) \<and> distinct (dev_paths pico_board)"
    by (simp add: pico_defs)
  moreover have "wired pico_board" by (simp add: wired_def same_entries_def pico_defs)
  ultimately show ?thesis by (simp add: board_sound_def)
qed

lemma maaxboard_sound: "board_sound maaxboard_board"
proof -
  have "list_all (registers_mapped maaxboard_board) (dev_paths maaxboard_board)"
    by (rule mapped_check [where qs = "map DEV [Clk_1, Clk_2, Clk_3, Clk_4, Clk_5, Clk_6, Clk_7, Leds]"]) (simp_all add: maaxboard_defs)
  moreover have "list_all (\<lambda>n. expand (rev (macros maaxboard_board)) n \<noteq> None) (reg_paths maaxboard_board @ dev_paths maaxboard_board)"
    unfolding expand_has_text by (simp add: maaxboard_defs)
  moreover have "distinct (map fst (macros maaxboard_board)) \<and> distinct (reg_paths maaxboard_board) \<and> distinct (dev_paths maaxboard_board)"
    by (simp add: maaxboard_defs)
  moreover have "wired maaxboard_board" by (simp add: wired_def same_entries_def maaxboard_defs)
  ultimately show ?thesis by (simp add: board_sound_def)
qed

lemma odroidc2_sound: "board_sound odroidc2_board"
proof -
  have "list_all (registers_mapped odroidc2_board) (dev_paths odroidc2_board)"
    by (rule mapped_check [where qs = "[PATH Leds, PATH Pinctrl1, PATH Pinctrl2]"]) (simp_all add: odroidc2_defs registers_mapped_def)
  moreover have "list_all (\<lambda>n. expand (rev (macros odroidc2_board)) n \<noteq> None) (reg_paths odroidc2_board @ dev_paths odroidc2_board)"
    unfolding expand_has_text by (simp add: odroidc2_defs)
  moreover have "distinct (map fst (macros odroidc2_board)) \<and> distinct (reg_paths odroidc2_board) \<and> distinct (dev_paths odroidc2_board)"
    by (simp add: odroidc2_defs)
  moreover have "wired odroidc2_board" by (simp add: wired_def same_entries_def odroidc2_defs)
  ultimately show ?thesis by (simp add: board_sound_def)
qed

lemma counts_right:
  "counts_right sec_eth_board" "counts_right sec_mmc_board" "counts_right sec_usb_board"
  "counts_right maaxboard_board" "counts_right odroidc2_board"
  by (simp_all add: counts_right_def sec_eth_defs sec_mmc_defs sec_usb_defs maaxboard_defs odroidc2_defs)

text \<open>
  Every header describes its board soundly: each device interface is connected once and given
  one path, the paths given are those the library maps, each listed macro has a text, and each
  listed device has its registers mapped. The library is given exactly the two arrays by all but one:
  the count of the devices of the picoserver is 14 while the list has 13 entries, the GPIO device being missing,
  so the library reads past its end.
\<close>

theorem boards_described:
  "list_all board_sound
     [sec_eth_board, sec_mmc_board, sec_usb_board, pico_board, maaxboard_board, odroidc2_board] \<and>
   list_all (\<lambda>b. library_paths b = Inr (path_array b (reg_paths b), path_array b (dev_paths b)))
     [sec_eth_board, sec_mmc_board, sec_usb_board, maaxboard_board, odroidc2_board] \<and>
   library_paths pico_board = Inl IndexError \<and> DEV Gpio \<notin> set (dev_paths pico_board)"
proof -
  have "library_paths pico_board = Inl IndexError"
    by (rule library_paths_past) (simp_all add: pico_defs)
  moreover have "DEV Gpio \<notin> set (dev_paths pico_board)"
    by (simp add: pico_defs)
  ultimately show ?thesis
    using sec_eth_sound sec_mmc_sound sec_usb_sound pico_sound maaxboard_sound odroidc2_sound
    by (simp add: library_paths_exact counts_right)
qed

end
