(* ===== verification/Uboot_Example.thy ===== *)
theory Uboot_Example
  imports Platform_Devices
begin

text \<open>
  \<^verbatim>\<open>apps/uboot-driver-example/components/Test/src/test.c\<close>: a run through the commands of the
  U-Boot driver library, with the parts a board has selected by the preprocessor. The
  library is external: the run is the list of what it asks of it and prints. The keys
  the library has in each of the rounds of the keyboard loop, the addresses of the two
  arrays on the stack, what the array the file is read into held before, and the bytes the library puts
  there are arguments.
\<close>

section \<open>The parts of a board\<close>

datatype platform = CONFIG_PLAT_MAAXBOARD | CONFIG_PLAT_ODROIDC2 | Unrecognised

datatype feature =
    TEST_CLK | TEST_CLOCKS | TEST_SPI | TEST_LED | TEST_I2C | TEST_ETHERNET | TEST_USB | TEST_MMC
  | TEST_PINMUX | TEST_GPIO | TEST_FILESYSTEM

fun features :: "platform \<Rightarrow> feature list" where
  "features CONFIG_PLAT_MAAXBOARD =
     [TEST_CLK, TEST_CLOCKS, TEST_SPI, TEST_LED, TEST_I2C, TEST_ETHERNET, TEST_USB, TEST_MMC,
      TEST_PINMUX, TEST_GPIO, TEST_FILESYSTEM]"
| "features CONFIG_PLAT_ODROIDC2 = [TEST_PINMUX, TEST_GPIO, TEST_LED]"
| "features Unrecognised =
     [TEST_CLK, TEST_CLOCKS, TEST_SPI, TEST_LED, TEST_I2C, TEST_ETHERNET, TEST_USB, TEST_MMC,
      TEST_PINMUX, TEST_GPIO, TEST_FILESYSTEM]"

fun TEST_LED_NAME_1 :: "platform \<Rightarrow> string" where
  "TEST_LED_NAME_1 CONFIG_PLAT_MAAXBOARD = ''usr_led''"
| "TEST_LED_NAME_1 CONFIG_PLAT_ODROIDC2 = ''c2:blue:alive''"
| "TEST_LED_NAME_1 Unrecognised = ''dummy_led''"

fun TEST_LED_NAME_2 :: "platform \<Rightarrow> string" where
  "TEST_LED_NAME_2 CONFIG_PLAT_MAAXBOARD = ''sys_led''"
| "TEST_LED_NAME_2 CONFIG_PLAT_ODROIDC2 = ''c2:blue:alive''"
| "TEST_LED_NAME_2 Unrecognised = ''dummy_led''"

text \<open>Only used where \<open>TEST_FILESYSTEM\<close> is defined.\<close>

fun TEST_FILESYSTEM_PARTITION :: "platform \<Rightarrow> string" where
  "TEST_FILESYSTEM_PARTITION CONFIG_PLAT_MAAXBOARD = ''mmc 0:1''"
| "TEST_FILESYSTEM_PARTITION CONFIG_PLAT_ODROIDC2 = []"
| "TEST_FILESYSTEM_PARTITION Unrecognised = ''dummy_partition''"

definition TEST_FILESYSTEM_FILENAME :: string where "TEST_FILESYSTEM_FILENAME = ''test_file.txt''"

section \<open>The run\<close>

datatype example_call =
    Command string
  | Delay nat
  | Printed string
  | KeyPrinted u8
  | FilePrinted bytes
  | Shutdown

definition if_defined :: "feature \<Rightarrow> platform \<Rightarrow> example_call list \<Rightarrow> example_call list" where
  "if_defined f p calls = (if f \<in> set (features p) then calls else [])"

definition spi_test :: "example_call list" where
  "spi_test =
     [Printed ''Initialising BMP280 sensor on SPI bus (if connected):'',
      Command ''sspi 0:0.3@1000000 16 D000'', Command ''sspi 0:0.3@1000000 16 7508'',
      Command ''sspi 0:0.3@1000000 16 7437'', Printed ''Raw temperature data from BMP280 sensor:''] @
     replicate 11 (Command ''sspi 0:0.3@1000000 24 FA0000'')"

definition led_test :: "platform \<Rightarrow> example_call list" where
  "led_test p =
     Command ''led list'' #
     concat (replicate 4
       [Delay 125, Command (''led '' @ TEST_LED_NAME_1 p @ '' off''),
        Delay 125, Command (''led '' @ TEST_LED_NAME_2 p @ '' on''),
        Delay 125, Command (''led '' @ TEST_LED_NAME_1 p @ '' on''),
        Delay 125, Command (''led '' @ TEST_LED_NAME_2 p @ '' off'')])"

definition i2c_test :: "example_call list" where
  "i2c_test = [Command ''i2c dev 0'', Command ''i2c probe'', Command ''i2c md 0x4b 0x0.1 0x20'']"

definition ethernet_test :: "example_call list" where
  "ethernet_test = [Command ''setenv ipaddr 192.168.1.106'', Command ''ping 192.168.1.194'']"

definition usb_test :: "example_call list" where
  "usb_test =
     [Command ''setenv stdin usbkbd'', Command ''usb start'', Command ''part list usb 0'',
      Command ''fatls usb 0'']"

definition mmc_test :: "example_call list" where
  "mmc_test = [Command ''mmc info'', Command ''part list mmc 0'', Command ''fatls mmc 0'']"

text \<open>
  The commands on the file are built in an array of 64 characters. An address is printed
  with \<open>%x\<close>, which prints its lower 32 bits.
\<close>

definition UBOOT_CMD :: nat where "UBOOT_CMD = 64"

definition sprintf_cmd :: "string \<Rightarrow> string result" where
  "sprintf_cmd s = (if length s < UBOOT_CMD then Inr s else Inl IndexError)"

definition show_addr :: "u64 \<Rightarrow> string" where
  "show_addr a = show_hex (unat (ucast a :: u32))"

definition test_string :: string where "test_string = ''Hello file!''"

definition MAX_BYTES_TO_READ :: nat where "MAX_BYTES_TO_READ = 32"

definition fatwrite_cmd :: "platform \<Rightarrow> u64 \<Rightarrow> string" where
  "fatwrite_cmd p a =
     ''fatwrite '' @ TEST_FILESYSTEM_PARTITION p @ '' 0x'' @ show_addr a @ '' '' @ TEST_FILESYSTEM_FILENAME @
     '' '' @ show_hex (length test_string) @ '' '' @ show_hex 0"

definition fatload_cmd :: "platform \<Rightarrow> u64 \<Rightarrow> string" where
  "fatload_cmd p a =
     ''fatload '' @ TEST_FILESYSTEM_PARTITION p @ '' 0x'' @ show_addr a @ '' '' @ TEST_FILESYSTEM_FILENAME @
     '' '' @ show_hex MAX_BYTES_TO_READ @ '' '' @ show_hex 0"

definition fatrm_cmd :: "platform \<Rightarrow> string" where
  "fatrm_cmd p = ''fatrm '' @ TEST_FILESYSTEM_PARTITION p @ '' '' @ TEST_FILESYSTEM_FILENAME"

text \<open>\<open>%s\<close> of the array: up to the first null byte, which has to be in it.\<close>

definition print_string :: "bytes \<Rightarrow> bytes result" where
  "print_string buf = (if 0 \<in> set buf then Inr (takeWhile (\<lambda>c. c \<noteq> 0) buf) else Inl IndexError)"

definition filesystem_test ::
  "platform \<Rightarrow> u64 \<Rightarrow> u64 \<Rightarrow> bytes \<Rightarrow> bytes \<Rightarrow> example_call list result" where
  "filesystem_test p test_addr read_addr read_string loaded =
     rbind (sprintf_cmd (fatwrite_cmd p test_addr)) (\<lambda>w.
     rbind (sprintf_cmd (fatload_cmd p read_addr)) (\<lambda>l.
     rbind (c_memcpy read_string loaded) (\<lambda>buf.
     rbind (print_string buf) (\<lambda>s.
     rbind (sprintf_cmd (fatrm_cmd p)) (\<lambda>r.
     Inr [Command w, Command l, FilePrinted s, Command r])))))"

text \<open>The keyboard loop: in each of its rounds the keys that are waiting are printed.\<close>

fun keyboard_loop :: "nat \<Rightarrow> bytes list \<Rightarrow> example_call list" where
  "keyboard_loop 0 rounds = []"
| "keyboard_loop (Suc n) [] = Delay 10 # keyboard_loop n []"
| "keyboard_loop (Suc n) (ks # rounds) = map KeyPrinted ks @ Delay 10 # keyboard_loop n rounds"

definition usb_echo :: "bytes list \<Rightarrow> example_call list" where
  "usb_echo rounds =
     [Command ''usb tree'', Command ''usb info'', Printed ''Echoing input from the USB keyboard:''] @
     keyboard_loop 1001 rounds @ [Command ''usb stop'']"

definition run_uboot_driver_example ::
  "platform \<Rightarrow> int \<Rightarrow> u64 \<Rightarrow> u64 \<Rightarrow> bytes \<Rightarrow> bytes \<Rightarrow> bytes list \<Rightarrow> example_call list result" where
  "run_uboot_driver_example p init_err test_addr read_addr read_string loaded rounds =
     rbind (c_assert (init_err = 0)) (\<lambda>_.
     rbind (if TEST_FILESYSTEM \<in> set (features p)
            then filesystem_test p test_addr read_addr read_string loaded else Inr []) (\<lambda>fs.
     Inr (Command ''dm tree'' #
          if_defined TEST_CLK p [Command ''clk dump''] @
          if_defined TEST_SPI p spi_test @
          if_defined TEST_CLOCKS p [Command ''clocks''] @
          if_defined TEST_LED p (led_test p) @
          if_defined TEST_I2C p i2c_test @
          if_defined TEST_ETHERNET p ethernet_test @
          if_defined TEST_USB p usb_test @
          if_defined TEST_MMC p mmc_test @
          if_defined TEST_PINMUX p [Command ''pinmux status -a''] @
          if_defined TEST_GPIO p [Command ''gpio status -a''] @
          Command ''dm tree'' # fs @
          if_defined TEST_USB p (usb_echo rounds) @ [Shutdown])))"

section \<open>The commands fit, the keys come back\<close>

lemma length_show_addr: "length (show_addr a) \<le> 8"
  using length_show_hex_bound [of "unat (ucast a :: u32)" 7] by (simp add: show_addr_def)

lemma show_hex_sizes: "length (show_hex 11) = 1" "length (show_hex 0) = 1" "length (show_hex 32) = 2"
  by (simp_all add: show_hex.simps [of 11] show_hex.simps [of 0] show_hex.simps [of 32] show_hex.simps [of 2])

lemma command_parts:
  "length test_string = 11" "length TEST_FILESYSTEM_FILENAME = 13" "length (TEST_FILESYSTEM_PARTITION p) \<le> 15"
  by (cases p; simp add: test_string_def TEST_FILESYSTEM_FILENAME_def)+

lemma commands_fit:
  "sprintf_cmd (fatwrite_cmd p a) = Inr (fatwrite_cmd p a)"
  "sprintf_cmd (fatload_cmd p a) = Inr (fatload_cmd p a)"
  "sprintf_cmd (fatrm_cmd p) = Inr (fatrm_cmd p)"
proof -
  note lengths = length_show_addr [of a] command_parts(3) [of p]
  show "sprintf_cmd (fatwrite_cmd p a) = Inr (fatwrite_cmd p a)"
    using lengths by (simp add: sprintf_cmd_def fatwrite_cmd_def UBOOT_CMD_def command_parts(1,2) show_hex_sizes)
  show "sprintf_cmd (fatload_cmd p a) = Inr (fatload_cmd p a)"
    using lengths
    by (simp add: sprintf_cmd_def fatload_cmd_def UBOOT_CMD_def MAX_BYTES_TO_READ_def command_parts(2) show_hex_sizes)
  show "sprintf_cmd (fatrm_cmd p) = Inr (fatrm_cmd p)"
    using lengths by (simp add: sprintf_cmd_def fatrm_cmd_def UBOOT_CMD_def command_parts(2))
qed

definition keys_printed :: "example_call list \<Rightarrow> bytes" where
  "keys_printed calls = concat (map (\<lambda>c. case c of KeyPrinted k \<Rightarrow> [k] | _ \<Rightarrow> []) calls)"

lemma keys_printed_simps [simp]:
  "keys_printed [] = []" "keys_printed (xs @ ys) = keys_printed xs @ keys_printed ys"
  "keys_printed (KeyPrinted k # xs) = k # keys_printed xs"
  "keys_printed (Command s # xs) = keys_printed xs" "keys_printed (Delay n # xs) = keys_printed xs"
  "keys_printed (Printed s # xs) = keys_printed xs" "keys_printed (Shutdown # xs) = keys_printed xs"
  "keys_printed (FilePrinted f # xs) = keys_printed xs" "keys_printed (map KeyPrinted ks) = ks"
  by (simp_all add: keys_printed_def comp_def)

lemma keys_printed_parts [simp]:
  "keys_printed spi_test = []" "keys_printed (led_test p) = []" "keys_printed i2c_test = []"
  "keys_printed ethernet_test = []" "keys_printed usb_test = []" "keys_printed mmc_test = []"
  by (simp_all add: spi_test_def led_test_def i2c_test_def ethernet_test_def usb_test_def mmc_test_def
        numeral_eq_Suc)

lemma keys_printed_if_defined [simp]:
  "keys_printed (if_defined f p calls) = (if f \<in> set (features p) then keys_printed calls else [])"
  by (simp add: if_defined_def)

lemma keyboard_loop_keys: "length rounds \<le> n \<Longrightarrow> keys_printed (keyboard_loop n rounds) = concat rounds"
  by (induction n rounds rule: keyboard_loop.induct) simp_all

text \<open>
  The file is read back without a terminator, since none was written: what follows the text is
  what the array held before, and without a null byte there the print runs past its end.
\<close>

lemma file_read_back:
  assumes "length read_string = MAX_BYTES_TO_READ"
  shows "filesystem_test p a b read_string (map of_char test_string) =
     (if 0 \<in> set (drop 11 read_string)
      then Inr [Command (fatwrite_cmd p a), Command (fatload_cmd p b),
                FilePrinted (map of_char test_string @ takeWhile (\<lambda>c. c \<noteq> 0) (drop 11 read_string)),
                Command (fatrm_cmd p)]
      else Inl IndexError)"
proof -
  let ?text = "map of_char test_string :: bytes"
  have chars: "length ?text = 11" "0 \<notin> set ?text"
    by (simp_all add: command_parts(1)) (simp add: test_string_def)
  have "takeWhile (\<lambda>c. c \<noteq> 0) (?text @ drop 11 read_string) = ?text @ takeWhile (\<lambda>c. c \<noteq> 0) (drop 11 read_string)"
    using chars(2) by (subst takeWhile_append2) auto
  then have "print_string (overwrite read_string ?text) =
      (if 0 \<in> set (drop 11 read_string)
       then Inr (?text @ takeWhile (\<lambda>c. c \<noteq> 0) (drop 11 read_string)) else Inl IndexError)"
    using chars unfolding print_string_def overwrite_def by auto
  moreover have "c_memcpy read_string ?text = Inr (overwrite read_string ?text)"
    using assms chars(1) by (simp add: MAX_BYTES_TO_READ_def del: length_map)
  ultimately show ?thesis by (simp add: filesystem_test_def commands_fit)
qed

lemma filesystem_keys: "filesystem_test p a b rs l = Inr fs \<Longrightarrow> keys_printed fs = []"
  by (auto simp: filesystem_test_def rbind_eq_Inr)

lemma keyboard_echoed:
  assumes "run_uboot_driver_example p init_err a b read_string loaded rounds = Inr calls"
    and "TEST_USB \<in> set (features p)" "length rounds \<le> 1001"
  shows "keys_printed calls = concat rounds \<and> last calls = Shutdown"
proof -
  from assms(1) obtain fs where fs: "keys_printed fs = []"
    and calls: "calls = Command ''dm tree'' #
          if_defined TEST_CLK p [Command ''clk dump''] @ if_defined TEST_SPI p spi_test @
          if_defined TEST_CLOCKS p [Command ''clocks''] @ if_defined TEST_LED p (led_test p) @
          if_defined TEST_I2C p i2c_test @ if_defined TEST_ETHERNET p ethernet_test @
          if_defined TEST_USB p usb_test @ if_defined TEST_MMC p mmc_test @
          if_defined TEST_PINMUX p [Command ''pinmux status -a''] @
          if_defined TEST_GPIO p [Command ''gpio status -a''] @
          Command ''dm tree'' # fs @ if_defined TEST_USB p (usb_echo rounds) @ [Shutdown]"
    by (auto simp: run_uboot_driver_example_def rbind_eq_Inr intro: filesystem_keys split: if_splits)
  show ?thesis unfolding calls
    using assms(2,3) fs by (simp add: usb_echo_def keyboard_loop_keys del: keyboard_loop.simps)
qed

end
