(* ===== verification/Picoserver_Ethdriver.thy ===== *)
theory Picoserver_Ethdriver
  imports Uboot_Ethdriver
begin

text \<open>
  \<^verbatim>\<open>apps/picoserver_uboot/components/EthdriverUboot/src/ethdriver.c\<close>: the Ethernet server of the
  picoserver on U-Boot. Its code is that of \<^verbatim>\<open>eth_driver_uboot.c\<close> of \<^verbatim>\<open>apps/security_demo\<close>,
  statement by statement; only comments and the header with the device paths differ. Each
  of its functions is therefore the function of \<open>Uboot_Ethdriver\<close>, on the same state, and what is proved
  there holds here. In this application the server has one client, the stack.
\<close>

section \<open>The server\<close>

type_synonym pico_rx_frame = rx_frame

type_synonym pico_client_t = client_t

type_synonym pico_server = eth_server

definition pico_detect_client :: "pico_client_t list \<Rightarrow> bytes \<Rightarrow> nat option" where
  "pico_detect_client = detect_client"

definition pico_is_broadcast :: "bytes \<Rightarrow> bool" where
  "pico_is_broadcast = is_broadcast"

definition pico_is_multicast :: "bytes \<Rightarrow> bool" where
  "pico_is_multicast = is_multicast"

definition pico_client_rx :: "bytes list \<Rightarrow> nat \<Rightarrow> pico_server \<Rightarrow> rx_answer result" where
  "pico_client_rx = client_rx"

definition pico_client_tx :: "int \<Rightarrow> int \<Rightarrow> nat \<Rightarrow> eth_server \<Rightarrow> (int \<times> eth_call list) result" where
  "pico_client_tx = client_tx"

definition pico_client_mac :: "nat \<Rightarrow> eth_server \<Rightarrow> bytes result" where
  "pico_client_mac = client_mac"

definition pico_server_init ::
  "int \<Rightarrow> int \<Rightarrow> nat list \<Rightarrow> (nat \<Rightarrow> bytes) \<Rightarrow> (nat \<Rightarrow> bytes option) \<Rightarrow> bytes \<Rightarrow>
   (eth_server \<times> eth_call list) result" where
  "pico_server_init = server_init"

lemmas pico_server_defs =
  pico_detect_client_def pico_is_broadcast_def pico_is_multicast_def pico_client_rx_def pico_client_tx_def
  pico_client_mac_def pico_server_init_def

section \<open>One client\<close>

text \<open>
  The stack has no configured address, so it gets the card's; the start succeeds
  and each frame sent to that address while it has room reaches it, in order of arrival.
\<close>

definition stack_server :: "nat \<Rightarrow> bytes \<Rightarrow> bytes \<Rightarrow> eth_server" where
  "stack_server badge port hw_mac =
     \<lparr>clients = [(new_client (\<lambda>_. port) badge)\<lparr>mac := hw_mac\<rparr>], done_init = True\<rparr>"

lemma pico_start:
  "pico_server_init 0 0 [badge] (\<lambda>_. port) (\<lambda>_. None) hw_mac =
     Inr (stack_server badge port hw_mac, [ClientEmit badge])"
  by (simp add: pico_server_defs server_init_def stack_server_def new_client_def)

lemma deliver_one: "take 6 p = m \<Longrightarrow> 6 \<le> length p \<Longrightarrow> deliver [m] p [q] = [take 127 (q @ [p])]"
  by (simp add: deliver_def for_client_def enqueue_def)

lemma one_client_receives:
  assumes "list_all (\<lambda>p. take 6 p = m \<and> 6 \<le> length p \<and> length p \<le> 2048) ps" "length q \<le> 127"
  shows "spec_receive [m] ps [q] = ([take 127 (q @ ps)], [])"
  using assms
proof (induction ps arbitrary: q)
  case (Cons p ps)
  from Cons.prems(1) have "p \<noteq> []" by auto
  have "take 127 (take 127 (q @ [p]) @ ps) = take 127 (q @ p # ps)"
    using Cons.prems(2) by (cases "length q = 127") simp_all
  moreover have "spec_receive [m] ps [take 127 (q @ [p])] = ([take 127 (take 127 (q @ [p]) @ ps)], [])"
    by (rule Cons.IH) (use Cons.prems in auto)
  ultimately show ?case
    using Cons.prems deliver_one [of p m q] \<open>p \<noteq> []\<close> by simp
qed simp

lemma stack_server_receives:
  assumes "list_all (\<lambda>p. take 6 p = hw_mac \<and> 6 \<le> length p \<and> length p \<le> 2048) ps"
    and "2048 \<le> length port" "length hw_mac = 6"
  shows "\<exists>cs calls. receive_frames ps (clients (stack_server badge port hw_mac)) = Inr (cs, [], calls) \<and>
    queues cs = [take 127 ps]"
proof -
  let ?cs = "clients (stack_server badge port hw_mac)"
  have ok: "list_all client_ok ?cs" "abs_macs ?cs = [hw_mac]" "queues ?cs = [[]]"
    using new_client_ok [of "\<lambda>_. port" badge hw_mac] assms(2,3)
    by (simp_all add: stack_server_def abs_macs_def queues_def)
  from receive_frames_refines [OF ok(1), of ps] show ?thesis
    using one_client_receives [OF assms(1), of "[]"] by (auto simp: ok)
qed

end
