(* ===== verification/Tcp_Server.thy ===== *)
theory Tcp_Server
  imports String_Services
begin

text \<open>
  \<^verbatim>\<open>apps/rumprun_ethernet/components/rump_ether/tcp_server.c\<close>, a TCP server that answers each
  message with its reverse, which the component \<^verbatim>\<open>reverse_string\<close> computes in a shared
  buffer between two events (\<open>rump_reverse_buffer\<close>). The POSIX interface is external: what
  \<open>accept\<close>, \<open>recv\<close> and \<open>send\<close> return is an argument. An exit of the program is \<open>Aborted\<close>.
\<close>

section \<open>The server\<close>

text \<open>
  What was received is the format of the \<open>snprintf\<close> that copies it: the text ends at a null
  byte, \<open>%%\<close> is one percent sign, and any other conversion asks for an argument that is not
  there.
\<close>

fun format_text :: "bytes \<Rightarrow> bytes result" where
  "format_text [] = Inr []"
| "format_text (c # cs) =
     (if c = 0 then Inr []
      else if c = 37 then
        (case cs of
           d # ds \<Rightarrow> if d = 37 then rbind (format_text ds) (\<lambda>s. Inr (37 # s)) else Inl IndexError
         | [] \<Rightarrow> Inl IndexError)
      else rbind (format_text cs) (\<lambda>s. Inr (c # s)))"

definition c_snprintf :: "bytes \<Rightarrow> nat \<Rightarrow> bytes \<Rightarrow> bytes result" where
  "c_snprintf dst n fmt =
     rbind (format_text fmt) (\<lambda>s. c_memcpy dst (take (n - 1) s @ [0]))"

text \<open>
  One message: the array the message is in has \<open>REVERSE_STRING_BUFSIZE\<close> bytes and \<open>recv\<close> may
  fill it; the terminator goes behind the message.
\<close>

definition answer_message :: "bytes \<Rightarrow> bytes \<Rightarrow> (bytes \<times> bytes) result" where
  "answer_message msg buffer_str =
     (if length msg \<ge> REVERSE_STRING_BUFSIZE then Inl IndexError
      else rbind (c_snprintf buffer_str (length msg + 1) msg) (\<lambda>b.
           rbind (rump_reverse_buffer b) (\<lambda>b'.
           rbind (c_bytes b' (length msg)) (\<lambda>out. Inr (b', out)))))"

text \<open>
  A call of \<open>recv\<close>: the peer has closed, an error, or a message and what \<open>send\<close> returns then. A message
  without a byte is how the call tells that the peer has closed. After the listed calls the peer
  closes.
\<close>

datatype recv_result = Closed | RecvFailed | Message bytes int

fun serve_client :: "recv_result list \<Rightarrow> bytes \<Rightarrow> (bytes \<times> bytes list) result" where
  "serve_client [] b = Inr (b, [])"
| "serve_client (Closed # rs) b = Inr (b, [])"
| "serve_client (RecvFailed # rs) b = Inl Aborted"
| "serve_client (Message msg err # rs) b =
     (if msg = [] then Inr (b, [])
      else rbind (answer_message msg b) (\<lambda>(b', out).
           if err < 0 then Inl Aborted
           else rbind (serve_client rs b') (\<lambda>(b'', outs). Inr (b'', out # outs))))"

text \<open>The connections in the order they are accepted; \<open>None\<close> is a failed \<open>accept\<close>.\<close>

fun accept_loop :: "recv_result list option list \<Rightarrow> bytes \<Rightarrow> (bytes \<times> bytes list list) result" where
  "accept_loop [] b = Inr (b, [])"
| "accept_loop (None # cs) b = Inl Aborted"
| "accept_loop (Some rs # cs) b =
     rbind (serve_client rs b) (\<lambda>(b', outs).
     rbind (accept_loop cs b') (\<lambda>(b'', rest). Inr (b'', outs # rest)))"

definition hello_text :: bytes where
  "hello_text = [72, 101, 108, 108, 111, 44, 32, 87, 111, 114, 108, 100, 33]"

definition tcp_main ::
  "nat \<Rightarrow> int \<Rightarrow> int \<Rightarrow> int \<Rightarrow> recv_result list option list \<Rightarrow> bytes \<Rightarrow> (bytes \<times> bytes list list) result" where
  "tcp_main argc server_fd bind_err listen_err conns camkes_buffer =
     (if argc < 2 then Inl Aborted
      else rbind (c_snprintf camkes_buffer REVERSE_STRING_MAX_LEN hello_text) (\<lambda>b.
           rbind (rump_reverse_buffer b) (\<lambda>b'.
           if server_fd < 0 then Inl Aborted
           else if bind_err < 0 then Inl Aborted
           else if listen_err < 0 then Inl Aborted
           else accept_loop conns b')))"

section \<open>Plain messages\<close>

definition plain_message :: "bytes \<Rightarrow> bool" where
  "plain_message msg \<longleftrightarrow> msg \<noteq> [] \<and> 0 \<notin> set msg \<and> 37 \<notin> set msg \<and> length msg \<le> 4094"

lemma format_plain: "0 \<notin> set s \<Longrightarrow> 37 \<notin> set s \<Longrightarrow> format_text (s @ zs) = rbind (format_text zs) (\<lambda>t. Inr (s @ t))"
  by (induction s) (auto simp: rbind_def split: sum.splits)

lemma answer_plain:
  assumes "plain_message msg" "length b = 4096"
  shows "answer_message msg b = Inr (rev msg @ 0 # drop (length msg + 1) b, rev msg)"
proof -
  let ?zs = "drop (length msg + 1) b"
  have m: "0 \<notin> set msg" "37 \<notin> set msg" "length msg \<le> 4094" using assms(1) by (simp_all add: plain_message_def)
  have "c_snprintf b (length msg + 1) msg = Inr (msg @ 0 # ?zs)"
    using format_plain [OF m(1,2), of "[]"] assms(2) m(3) by (simp add: c_snprintf_def overwrite_def)
  then show ?thesis
    using reverse_buffer_string [OF m(1,3), of ?zs] m(3)
    by (simp add: answer_message_def REVERSE_STRING_BUFSIZE_def)
qed

lemma serve_plain:
  assumes "list_all plain_message msgs" "length b = 4096"
  shows "\<exists>b'. serve_client (map (\<lambda>m. Message m (int (length m))) msgs @ [Closed]) b = Inr (b', map rev msgs) \<and>
    length b' = 4096"
  using assms
proof (induction msgs arbitrary: b)
  case (Cons m msgs)
  let ?b = "rev m @ 0 # drop (length m + 1) b"
  have "length ?b = 4096" using Cons.prems by (simp add: plain_message_def)
  moreover have "m \<noteq> []" using Cons.prems by (auto simp: plain_message_def)
  ultimately show ?case using Cons.IH [of ?b] Cons.prems answer_plain [of m b] by auto
qed simp

lemma accept_plain:
  assumes "list_all (list_all plain_message) cs" "length b = 4096"
  shows "\<exists>b'. accept_loop (map (\<lambda>msgs. Some (map (\<lambda>m. Message m (int (length m))) msgs @ [Closed])) cs) b =
    Inr (b', map (map rev) cs)"
  using assms
proof (induction cs arbitrary: b)
  case (Cons msgs cs)
  from Cons.prems serve_plain [of msgs b] obtain b1 where
    "serve_client (map (\<lambda>m. Message m (int (length m))) msgs @ [Closed]) b = Inr (b1, map rev msgs)"
    "length b1 = 4096" by auto
  with Cons.IH [of b1] Cons.prems show ?case by auto
qed simp



section \<open>Other messages\<close>

lemma full_message_overflows: "length msg = REVERSE_STRING_BUFSIZE \<Longrightarrow> answer_message msg b = Inl IndexError"
  by (simp add: answer_message_def)

lemma percent_sign_faults: "answer_message [37, 100] b = Inl IndexError"
  by (simp add: answer_message_def c_snprintf_def REVERSE_STRING_BUFSIZE_def)

text \<open>
  Property C38. A null byte in a message leaks what another client sent: the copy stops at it, but as many
  bytes are sent back as were received, so the rest of the answer is what the buffer held before, the end
  of the last message of the client before.
\<close>

theorem null_byte_leaks:
  assumes "plain_message secret" "k + 2 \<le> length secret" "length b = 4096"
    and "c \<noteq> 0" "c \<noteq> 37" "length xs = k" "0 \<le> e1" "0 \<le> e2"
  shows "\<exists>b'. accept_loop [Some [Message secret e1, Closed], Some [Message (c # 0 # xs) e2, Closed]] b =
    Inr (b', [[rev secret], [c # 0 # take k (drop 2 (rev secret))]])"
proof -
  let ?b = "rev secret @ 0 # drop (length secret + 1) b"
  have len: "length ?b = 4096" "length secret \<le> 4094"
    using assms(1,3) by (simp_all add: plain_message_def)
  have "c_snprintf ?b (k + 3) (c # 0 # xs) = Inr (c # 0 # drop 2 ?b)"
    using assms(4,5) len by (simp add: c_snprintf_def overwrite_def numeral_2_eq_2)
  moreover have "rump_reverse_buffer (c # 0 # drop 2 ?b) = Inr (c # 0 # drop 2 ?b)"
    using reverse_buffer_string [of "[c]" "drop 2 ?b"] assms(4) by simp
  moreover have "take (k + 2) (c # 0 # drop 2 ?b) = c # 0 # take k (drop 2 (rev secret))"
    using assms(2) by (simp add: drop_append)
  ultimately have "answer_message (c # 0 # xs) ?b = Inr (c # 0 # drop 2 ?b, c # 0 # take k (drop 2 (rev secret)))"
    using assms(2,6) len by (simp add: answer_message_def REVERSE_STRING_BUFSIZE_def numeral_3_eq_3)
  moreover have "secret \<noteq> []" using assms(2) by auto
  ultimately show ?thesis using answer_plain [OF assms(1,3)] assms(7,8) by simp
qed

theorem null_byte_leaks_witness:
  "\<exists>b'. accept_loop [Some [Message [112, 105, 110, 52, 50] 5, Closed], Some [Message [97, 0, 120, 120] 4, Closed]]
      (replicate 4096 0) = Inr (b', [[[50, 52, 110, 105, 112]], [[97, 0, 110, 105]]])"
  using null_byte_leaks [of "[112, 105, 110, 52, 50]" 2 "replicate 4096 0" 97 "[120, 120]" 5 4]
  by (simp add: plain_message_def)

end
