(* ===== verification/Lock_Protocols.thy ===== *)
theory Lock_Protocols
  imports Camkes_Prelude
begin

text \<open>
  Applications whose components exclude each other by a lock, and what they share: the
  interface of a protocol with an invariant, from which mutual exclusion and the possibility to
  finish follow once. \<^verbatim>\<open>apps/lockserver\<close>: three clients of one mutex, called through
  \<^verbatim>\<open>src/server.c\<close>. \<^verbatim>\<open>apps/mutex\<close>: a connector written for the application, which lets the component A lock
  a mutex of the component B by messages, from \<^verbatim>\<open>seL4MyConnector-from.c\<close> to
  \<^verbatim>\<open>seL4MyConnector-to.c\<close>. The mutex libraries and the kernel's message passing are external: a
  lock waits until the mutex is free, and a send and a receive on an endpoint happen together.
\<close>

section \<open>The interface of a protocol\<close>

locale lock_protocol =
  fixes step :: "'s \<Rightarrow> 's \<Rightarrow> bool"
    and start :: 's
    and inv :: "'s \<Rightarrow> bool"
    and owner :: "'s \<Rightarrow> nat option"
    and inside :: "nat \<Rightarrow> 's \<Rightarrow> bool"
  assumes inv_start: "inv start"
    and inv_step: "inv s \<Longrightarrow> step s t \<Longrightarrow> inv t"
    and owned: "inv s \<Longrightarrow> inside i s \<Longrightarrow> owner s = Some i"
begin

lemma reachable_inv: "step\<^sup>*\<^sup>* start s \<Longrightarrow> inv s"
  by (induction rule: rtranclp_induct) (auto intro: inv_start inv_step)

lemma exclusive: "step\<^sup>*\<^sup>* start s \<Longrightarrow> inside i s \<Longrightarrow> inside j s \<Longrightarrow> i = j"
  by (metis option.inject owned reachable_inv)

end

text \<open>A protocol that can always get closer to an end.\<close>

locale finishing_protocol = lock_protocol +
  fixes finished :: "'s \<Rightarrow> bool"
    and remaining :: "'s \<Rightarrow> nat"
  assumes progress: "inv s \<Longrightarrow> \<not> finished s \<Longrightarrow> \<exists>t. step s t \<and> remaining t < remaining s"
begin

lemma inv_finishes: "inv s \<Longrightarrow> \<exists>t. step\<^sup>*\<^sup>* s t \<and> inv t \<and> finished t"
proof (induction "remaining s" arbitrary: s rule: less_induct)
  case less
  show ?case
  proof (cases "finished s")
    case False
    with progress less.prems obtain t where t: "step s t" "remaining t < remaining s" by blast
    from less.hyps [OF t(2) inv_step [OF less.prems t(1)]] t(1) show ?thesis
      by (meson converse_rtranclp_into_rtranclp)
  qed (use less.prems in blast)
qed

lemma can_finish: "step\<^sup>*\<^sup>* start s \<Longrightarrow> \<exists>t. step\<^sup>*\<^sup>* s t \<and> inv t \<and> finished t"
  using inv_finishes reachable_inv by blast

end

section \<open>The lock server\<close>

text \<open>
  The clients 0, 1 and 2 call through the interfaces a, b and c, each served by its own thread
  of the server. \<open>None\<close>: the call waits.
\<close>

datatype lock_client_pc = Starting | GotLock | Released

record lock_server =
  m_owner :: "nat option"
  client_pcs :: "nat \<Rightarrow> lock_client_pc"

definition m_lock :: "nat \<Rightarrow> nat option \<Rightarrow> nat option option" where
  "m_lock i m = (if m = None then Some (Some i) else None)"

definition m_unlock :: "nat option \<Rightarrow> nat option" where
  "m_unlock m = None"

definition a_lock :: "nat option \<Rightarrow> nat option option" where "a_lock m = m_lock 0 m"

definition a_unlock :: "nat option \<Rightarrow> nat option" where "a_unlock m = m_unlock m"

definition b_lock :: "nat option \<Rightarrow> nat option option" where "b_lock m = m_lock 1 m"

definition b_unlock :: "nat option \<Rightarrow> nat option" where "b_unlock m = m_unlock m"

definition c_lock :: "nat option \<Rightarrow> nat option option" where "c_lock m = m_lock 2 m"

definition c_unlock :: "nat option \<Rightarrow> nat option" where "c_unlock m = m_unlock m"

text \<open>The connections of the assembly: client \<open>ci\<close> is given the interface a, b or c.\<close>

definition l_lock :: "nat \<Rightarrow> nat option \<Rightarrow> nat option option" where
  "l_lock i = (if i = 0 then a_lock else if i = 1 then b_lock else c_lock)"

definition l_unlock :: "nat \<Rightarrow> nat option \<Rightarrow> nat option" where
  "l_unlock i = (if i = 0 then a_unlock else if i = 1 then b_unlock else c_unlock)"

definition lock_client_run :: "nat \<Rightarrow> lock_server \<Rightarrow> lock_server option" where
  "lock_client_run i s =
     (case client_pcs s i of
        Starting \<Rightarrow>
          (case l_lock i (m_owner s) of
             None \<Rightarrow> None
           | Some m \<Rightarrow> Some (s\<lparr>m_owner := m, client_pcs := (client_pcs s)(i := GotLock)\<rparr>))
      | GotLock \<Rightarrow> Some (s\<lparr>m_owner := l_unlock i (m_owner s), client_pcs := (client_pcs s)(i := Released)\<rparr>)
      | Released \<Rightarrow> None)"

inductive lock_server_step :: "lock_server \<Rightarrow> lock_server \<Rightarrow> bool" where
  "i < 3 \<Longrightarrow> lock_client_run i s = Some t \<Longrightarrow> lock_server_step s t"

definition lock_server_start :: lock_server where
  "lock_server_start = \<lparr>m_owner = None, client_pcs = (\<lambda>_. Starting)\<rparr>"

definition lock_server_inv :: "lock_server \<Rightarrow> bool" where
  "lock_server_inv s \<longleftrightarrow>
     (\<forall>i < 3. client_pcs s i = GotLock \<longleftrightarrow> m_owner s = Some i) \<and>
     (\<forall>i. m_owner s = Some i \<longrightarrow> i < 3)"

definition pc_rank :: "lock_client_pc \<Rightarrow> nat" where
  "pc_rank p = (case p of Starting \<Rightarrow> 2 | GotLock \<Rightarrow> 1 | Released \<Rightarrow> 0)"

text \<open>The places of a client in the order of its program: a client never goes back.\<close>

instantiation lock_client_pc :: linorder
begin

definition less_eq_lock_client_pc :: "lock_client_pc \<Rightarrow> lock_client_pc \<Rightarrow> bool" where
  "p \<le> q \<longleftrightarrow> pc_rank q \<le> pc_rank p"

definition less_lock_client_pc :: "lock_client_pc \<Rightarrow> lock_client_pc \<Rightarrow> bool" where
  "p < q \<longleftrightarrow> pc_rank q < pc_rank p"

instance
proof intro_classes
  show "x = y" if "x \<le> y" "y \<le> x" for x y :: lock_client_pc
    using that by (cases x; cases y) (simp_all add: less_eq_lock_client_pc_def pc_rank_def)
qed (auto simp: less_eq_lock_client_pc_def less_lock_client_pc_def)

end

lemma lock_client_advances: "lock_client_run i s = Some t \<Longrightarrow> client_pcs s i < client_pcs t i"
  by (auto simp: lock_client_run_def less_lock_client_pc_def pc_rank_def split: lock_client_pc.splits option.splits)

lemma lock_clients_monotone: "lock_server_step\<^sup>*\<^sup>* s t \<Longrightarrow> client_pcs s i \<le> client_pcs t i"
proof (induction rule: rtranclp_induct)
  case (step t u)
  from step.hyps(2) have "client_pcs t i \<le> client_pcs u i"
  proof cases
    case (1 j)
    then have "client_pcs u = (client_pcs t)(j := client_pcs u j)"
      by (auto simp: lock_client_run_def split: lock_client_pc.splits option.splits)
    then have "i \<noteq> j \<Longrightarrow> client_pcs u i = client_pcs t i" by (metis fun_upd_other)
    with lock_client_advances [OF 1(2)] show ?thesis by (cases "i = j") auto
  qed
  with step.IH show ?case by (rule order_trans)
qed simp

definition lock_server_remaining :: "lock_server \<Rightarrow> nat" where
  "lock_server_remaining s =
     pc_rank (client_pcs s 0) + pc_rank (client_pcs s 1) + pc_rank (client_pcs s 2)"

lemma l_lock_eq: "i < 3 \<Longrightarrow> l_lock i m = (if m = None then Some (Some i) else None)"
  by (auto simp: l_lock_def a_lock_def b_lock_def c_lock_def m_lock_def)

lemma l_unlock_eq [simp]: "l_unlock i m = None"
  by (simp add: l_unlock_def a_unlock_def b_unlock_def c_unlock_def m_unlock_def)

lemma lock_server_inv_step: "lock_server_inv s \<Longrightarrow> lock_server_step s t \<Longrightarrow> lock_server_inv t"
  by (auto simp: lock_server_inv_def lock_client_run_def l_lock_eq elim!: lock_server_step.cases
      split: lock_client_pc.splits if_splits)

lemma lock_server_progress:
  assumes "lock_server_inv s" "\<not> (client_pcs s 0 = Released \<and> client_pcs s 1 = Released \<and> client_pcs s 2 = Released)"
  shows "\<exists>t. lock_server_step s t \<and> lock_server_remaining t < lock_server_remaining s"
proof -
  have run: "\<exists>t. lock_server_step s t \<and> lock_server_remaining t < lock_server_remaining s"
    if "i < 3" "client_pcs s i = GotLock \<or> client_pcs s i = Starting \<and> m_owner s = None" for i
  proof -
    let ?t = "the (lock_client_run i s)"
    have "lock_client_run i s = Some ?t" "lock_server_remaining ?t < lock_server_remaining s"
      using that by (auto simp: lock_client_run_def l_lock_eq lock_server_remaining_def pc_rank_def
          less_Suc_eq numeral_3_eq_3 numeral_2_eq_2)
    with that(1) show ?thesis by (blast intro: lock_server_step.intros)
  qed
  show ?thesis
  proof (cases "m_owner s")
    case None
    then have "client_pcs s i = Released" if "i < 3" "client_pcs s i \<noteq> Starting" for i
      using that assms(1) by (cases "client_pcs s i") (auto simp: lock_server_inv_def)
    with assms(2) obtain i where "i < 3" "client_pcs s i = Starting"
      by (metis One_nat_def lessI less_Suc_eq numeral_2_eq_2 numeral_3_eq_3 zero_less_Suc)
    with None run show ?thesis by blast
  next
    case (Some i)
    with assms(1) run show ?thesis by (auto simp: lock_server_inv_def)
  qed
qed

interpretation lock_server: finishing_protocol lock_server_step lock_server_start lock_server_inv m_owner
    "\<lambda>i s. i < 3 \<and> client_pcs s i = GotLock"
    "\<lambda>s. client_pcs s 0 = Released \<and> client_pcs s 1 = Released \<and> client_pcs s 2 = Released"
    lock_server_remaining
  by unfold_locales
    (simp_all add: lock_server_inv_step lock_server_progress, auto simp: lock_server_inv_def lock_server_start_def)

section \<open>The mutex connector\<close>

text \<open>
  The places of the component A, in its two calls of the connector and between them; of the
  thread that serves the connector in B, with the message it has received; and of B's own
  thread, which calls the same mutex directly, twice. \<open>ALock\<close> and \<open>AInside\<close> are about to send,
  \<open>ALockWait\<close> and \<open>AUnlockWait\<close> wait for the reply.
\<close>

datatype mutex_a_pc = ALock | ALockWait | AInside | AUnlockWait | ASpin

datatype mutex_server_pc = MRecv | MGot nat | MReply

datatype mutex_b_pc = BLock | BInside | BLockAgain | BInsideAgain | BExit

record mutex_connector =
  mutex_owner :: "nat option"
  a_pc :: mutex_a_pc
  server_pc :: mutex_server_pc
  b_pc :: mutex_b_pc

text \<open>The owner 0 is the serving thread, on behalf of A, and 1 is B's own thread.\<close>

definition connector_lock :: "nat \<Rightarrow> nat option \<Rightarrow> nat option option" where
  "connector_lock i m = (if m = None then Some (Some i) else None)"

definition connector_unlock :: "nat option \<Rightarrow> nat option" where
  "connector_unlock m = None"

definition connector_init :: mutex_connector where
  "connector_init = \<lparr>mutex_owner = None, a_pc = ALock, server_pc = MRecv, b_pc = BLock\<rparr>"

text \<open>A sends the message 0 to lock and 1 to unlock, when the server receives.\<close>

definition from_send :: "mutex_connector \<Rightarrow> mutex_connector option" where
  "from_send s =
     (if server_pc s \<noteq> MRecv then None
      else case a_pc s of
        ALock \<Rightarrow> Some (s\<lparr>a_pc := ALockWait, server_pc := MGot 0\<rparr>)
      | AInside \<Rightarrow> Some (s\<lparr>a_pc := AUnlockWait, server_pc := MGot 1\<rparr>)
      | _ \<Rightarrow> None)"

text \<open>The body of the server's loop: it acts on the message, then its reply meets the wait of A.\<close>

definition to_run :: "mutex_connector \<Rightarrow> mutex_connector option" where
  "to_run s =
     (case server_pc s of
        MRecv \<Rightarrow> None
      | MGot mr \<Rightarrow>
          if mr = 0
          then (case connector_lock 0 (mutex_owner s) of
                  None \<Rightarrow> None | Some m \<Rightarrow> Some (s\<lparr>mutex_owner := m, server_pc := MReply\<rparr>))
          else Some (s\<lparr>mutex_owner := connector_unlock (mutex_owner s), server_pc := MReply\<rparr>)
      | MReply \<Rightarrow>
          (case a_pc s of
             ALockWait \<Rightarrow> Some (s\<lparr>a_pc := AInside, server_pc := MRecv\<rparr>)
           | AUnlockWait \<Rightarrow> Some (s\<lparr>a_pc := ASpin, server_pc := MRecv\<rparr>)
           | _ \<Rightarrow> None))"

fun factorial :: "nat \<Rightarrow> u64" where
  "factorial 0 = 1"
| "factorial (Suc n) = of_nat (Suc n) * factorial n"

definition b_run :: "mutex_connector \<Rightarrow> mutex_connector option" where
  "b_run s =
     (case b_pc s of
        BLock \<Rightarrow>
          (case connector_lock 1 (mutex_owner s) of
             None \<Rightarrow> None | Some m \<Rightarrow> Some (s\<lparr>mutex_owner := m, b_pc := BInside\<rparr>))
      | BInside \<Rightarrow> Some (s\<lparr>mutex_owner := connector_unlock (mutex_owner s), b_pc := BLockAgain\<rparr>)
      | BLockAgain \<Rightarrow>
          (case connector_lock 1 (mutex_owner s) of
             None \<Rightarrow> None | Some m \<Rightarrow> Some (s\<lparr>mutex_owner := m, b_pc := BInsideAgain\<rparr>))
      | BInsideAgain \<Rightarrow> Some (s\<lparr>mutex_owner := connector_unlock (mutex_owner s), b_pc := BExit\<rparr>)
      | BExit \<Rightarrow> None)"

inductive mutex_step :: "mutex_connector \<Rightarrow> mutex_connector \<Rightarrow> bool" where
  "from_send s = Some t \<Longrightarrow> mutex_step s t"
| "to_run s = Some t \<Longrightarrow> mutex_step s t"
| "b_run s = Some t \<Longrightarrow> mutex_step s t"

inductive_simps mutex_step_iff: "mutex_step s t"

text \<open>B prints the factorial of 20, which fits in 64 bits; that of 21 would not.\<close>

lemma factorial_20: "factorial 20 = 2432902008176640000"
  by (simp add: numeral_eq_Suc)

lemma factorial_exact: "n \<le> 20 \<Longrightarrow> unat (factorial n) = fact n"
proof -
  have "factorial n = of_nat (fact n)" by (induction n) (simp_all add: algebra_simps)
  moreover have "(fact n :: nat) \<le> fact 20" if "n \<le> 20" using that by (rule fact_mono)
  moreover have "(fact 20 :: nat) < 2 ^ 64" by (simp add: fact_numeral)
  ultimately show ?thesis if "n \<le> 20" using that by (simp add: unat_of_nat take_bit_nat_eq_self)
qed

text \<open>A owns the mutex from the lock in the server to the unlock there, across the messages.\<close>

definition mutex_inv :: "mutex_connector \<Rightarrow> bool" where
  "mutex_inv s \<longleftrightarrow>
     (case a_pc s of
        ALock \<Rightarrow> server_pc s = MRecv \<and> mutex_owner s \<noteq> Some 0
      | ALockWait \<Rightarrow> server_pc s = MGot 0 \<and> mutex_owner s \<noteq> Some 0 \<or> server_pc s = MReply \<and> mutex_owner s = Some 0
      | AInside \<Rightarrow> server_pc s = MRecv \<and> mutex_owner s = Some 0
      | AUnlockWait \<Rightarrow> server_pc s = MGot 1 \<and> mutex_owner s = Some 0 \<or> server_pc s = MReply \<and> mutex_owner s \<noteq> Some 0
      | ASpin \<Rightarrow> server_pc s = MRecv \<and> mutex_owner s \<noteq> Some 0) \<and>
     (mutex_owner s = Some 1 \<longleftrightarrow> b_pc s = BInside \<or> b_pc s = BInsideAgain) \<and>
     (\<forall>i. mutex_owner s = Some i \<longrightarrow> i < 2)"

definition mutex_remaining :: "mutex_connector \<Rightarrow> nat" where
  "mutex_remaining s =
     (case a_pc s of ALock \<Rightarrow> 12 | ALockWait \<Rightarrow> 9 | AInside \<Rightarrow> 6 | AUnlockWait \<Rightarrow> 3 | ASpin \<Rightarrow> 0) +
     (case server_pc s of MRecv \<Rightarrow> 0 | MGot _ \<Rightarrow> 2 | MReply \<Rightarrow> 1) +
     (case b_pc s of BLock \<Rightarrow> 4 | BInside \<Rightarrow> 3 | BLockAgain \<Rightarrow> 2 | BInsideAgain \<Rightarrow> 1 | BExit \<Rightarrow> 0)"

lemmas connector_defs = from_send_def to_run_def b_run_def connector_lock_def connector_unlock_def

lemma mutex_inv_from: "mutex_inv s \<Longrightarrow> from_send s = Some t \<Longrightarrow> mutex_inv t"
  by (cases "a_pc s"; auto simp: mutex_inv_def from_send_def split: if_splits)

lemma mutex_inv_to: "mutex_inv s \<Longrightarrow> to_run s = Some t \<Longrightarrow> mutex_inv t"
  by (cases "a_pc s"; cases "server_pc s"; cases "b_pc s";
      auto simp: mutex_inv_def to_run_def connector_lock_def connector_unlock_def split: if_splits)

lemma mutex_inv_b: "mutex_inv s \<Longrightarrow> b_run s = Some t \<Longrightarrow> mutex_inv t"
  by (cases "b_pc s"; cases "a_pc s";
      auto simp: mutex_inv_def b_run_def connector_lock_def connector_unlock_def split: if_splits)

lemma mutex_inv_step: "mutex_inv s \<Longrightarrow> mutex_step s t \<Longrightarrow> mutex_inv t"
  by (auto elim!: mutex_step.cases intro: mutex_inv_from mutex_inv_to mutex_inv_b)

text \<open>While B has the mutex it is B's turn, and otherwise it is A's or its server's, if they are not done.\<close>

lemma mutex_b_runs:
  assumes "mutex_inv s" "mutex_owner s = Some 1 \<or> a_pc s = ASpin" "b_pc s \<noteq> BExit"
  shows "\<exists>t. mutex_step s t \<and> mutex_remaining t < mutex_remaining s"
proof -
  have "\<exists>t. b_run s = Some t \<and> mutex_remaining t < mutex_remaining s"
    using assms
    by (cases "b_pc s"; cases "mutex_owner s";
        auto simp: mutex_inv_def b_run_def connector_lock_def connector_unlock_def mutex_remaining_def less_2_cases_iff)
  then show ?thesis by (blast intro: mutex_step.intros)
qed

lemma mutex_a_runs:
  assumes "mutex_inv s" "mutex_owner s \<noteq> Some 1" "a_pc s \<noteq> ASpin"
  shows "\<exists>t. mutex_step s t \<and> mutex_remaining t < mutex_remaining s"
proof -
  have "\<exists>t. (from_send s = Some t \<or> to_run s = Some t) \<and> mutex_remaining t < mutex_remaining s"
    using assms
    by (cases "a_pc s"; cases "mutex_owner s";
        auto simp: mutex_inv_def from_send_def to_run_def connector_lock_def connector_unlock_def mutex_remaining_def
          less_2_cases_iff)
  then show ?thesis by (blast intro: mutex_step.intros)
qed

lemma mutex_progress:
  assumes "mutex_inv s" "\<not> (a_pc s = ASpin \<and> b_pc s = BExit)"
  shows "\<exists>t. mutex_step s t \<and> mutex_remaining t < mutex_remaining s"
proof (cases "mutex_owner s = Some 1 \<or> a_pc s = ASpin")
  case True
  moreover have "b_pc s \<noteq> BExit" using True assms by (auto simp: mutex_inv_def)
  ultimately show ?thesis using mutex_b_runs assms(1) by blast
next
  case False
  then show ?thesis using mutex_a_runs assms(1) by blast
qed

definition mutex_inside :: "nat \<Rightarrow> mutex_connector \<Rightarrow> bool" where
  "mutex_inside i s \<longleftrightarrow>
     i = 0 \<and> a_pc s = AInside \<or> i = 1 \<and> (b_pc s = BInside \<or> b_pc s = BInsideAgain)"

interpretation connector: finishing_protocol mutex_step connector_init mutex_inv mutex_owner mutex_inside
    "\<lambda>s. a_pc s = ASpin \<and> b_pc s = BExit" mutex_remaining
proof unfold_locales
  show "mutex_inv connector_init" by (simp add: mutex_inv_def connector_init_def)
  show "mutex_owner s = Some i" if "mutex_inv s" "mutex_inside i s" for s i
    using that by (auto simp: mutex_inv_def mutex_inside_def)
qed (use mutex_inv_step mutex_progress in blast)+

text \<open>
  Property C5. The locks exclude: in the lock server at most one of the three clients has the lock, and in the
  application with its own connector A and B are never both between lock and unlock, although A's lock
  is taken by a thread of B on a message. In both, from every state they can reach
  all components can still get through, so no order of their calls leaves one waiting for ever.
\<close>

theorem locks_exclude_and_pass:
  assumes "lock_server_step\<^sup>*\<^sup>* lock_server_start s" "mutex_step\<^sup>*\<^sup>* connector_init c"
  shows "(i < 3 \<and> client_pcs s i = GotLock \<longrightarrow> j < 3 \<and> client_pcs s j = GotLock \<longrightarrow> i = j) \<and>
    (\<exists>t. lock_server_step\<^sup>*\<^sup>* s t \<and> client_pcs t 0 = Released \<and> client_pcs t 1 = Released \<and> client_pcs t 2 = Released) \<and>
    \<not> (a_pc c = AInside \<and> (b_pc c = BInside \<or> b_pc c = BInsideAgain)) \<and>
    (\<exists>d. mutex_step\<^sup>*\<^sup>* c d \<and> a_pc d = ASpin \<and> b_pc d = BExit)"
proof (intro conjI)
  show "i < 3 \<and> client_pcs s i = GotLock \<longrightarrow> j < 3 \<and> client_pcs s j = GotLock \<longrightarrow> i = j"
    using lock_server.exclusive [OF assms(1), of i j] by blast
  show "\<exists>t. lock_server_step\<^sup>*\<^sup>* s t \<and> client_pcs t 0 = Released \<and> client_pcs t 1 = Released \<and> client_pcs t 2 = Released"
    using lock_server.can_finish [OF assms(1)] by blast
  show "\<not> (a_pc c = AInside \<and> (b_pc c = BInside \<or> b_pc c = BInsideAgain))"
    using connector.exclusive [OF assms(2), of 0 1] by (auto simp: mutex_inside_def)
  show "\<exists>d. mutex_step\<^sup>*\<^sup>* c d \<and> a_pc d = ASpin \<and> b_pc d = BExit"
    using connector.can_finish [OF assms(2)] by blast
qed

text \<open>The state in which client 1 has the lock, and the one in which A has it and B waits.\<close>

theorem locks_exclude_and_pass_witness:
  "client_pcs (the (lock_client_run 1 lock_server_start)) 1 = GotLock \<and>
   (\<exists>t. lock_server_step\<^sup>*\<^sup>* (the (lock_client_run 1 lock_server_start)) t \<and> client_pcs t 0 = Released) \<and>
   a_pc (the (to_run (the (to_run (the (from_send connector_init)))))) = AInside \<and>
   (\<exists>d. mutex_step\<^sup>*\<^sup>* (the (to_run (the (to_run (the (from_send connector_init)))))) d \<and> b_pc d = BExit)"
proof -
  let ?s = "the (lock_client_run 1 lock_server_start)"
  let ?c1 = "the (from_send connector_init)"
  let ?c2 = "the (to_run ?c1)"
  let ?c3 = "the (to_run ?c2)"
  have run: "lock_client_run 1 lock_server_start =
      Some \<lparr>m_owner = Some 1, client_pcs = (\<lambda>_. Starting)(1 := GotLock)\<rparr>"
    by (simp add: lock_client_run_def lock_server_start_def l_lock_eq)
  have "lock_server_step\<^sup>*\<^sup>* lock_server_start ?s"
    by (rule r_into_rtranclp, rule lock_server_step.intros [of 1]) (use run in simp_all)
  moreover have steps: "from_send connector_init = Some ?c1" "to_run ?c1 = Some ?c2" "to_run ?c2 = Some ?c3"
      "a_pc ?c3 = AInside"
    by (simp_all add: from_send_def to_run_def connector_init_def connector_lock_def)
  then have "mutex_step\<^sup>*\<^sup>* connector_init ?c3"
    by (meson mutex_step.intros converse_rtranclp_into_rtranclp r_into_rtranclp)
  ultimately show ?thesis
    using locks_exclude_and_pass [of ?s ?c3 1 1] run steps(4) by auto
qed

end
