(* ===== verification/Socket_Pipeline.thy ===== *)
theory Socket_Pipeline
  imports Lock_Protocols
begin

text \<open>
  \<^verbatim>\<open>apps/socket\<close>: a sender, a transport and a receiver, where each pair shares a socket, which
  is a spin lock, a flag and an array. The string goes through byte by byte, and every access of a
  component to a socket is a step of its own. The spin lock library is external: taking a lock
  waits until it is free, initialising frees it. A notification is remembered until it is
  waited for. A component that waits, or that would leave an array, has no step.
\<close>

section \<open>The components\<close>

record sock =
  sk_lock :: "nat option"
  sk_full :: bool
  sk_data :: bytes

datatype sender_pc =
  SndInit | SndEmit | SndLock | SndCopy nat | SndFull | SndUnlock | SndDone

datatype transport_pc =
  TrWait | TrInit | TrEmit | TrLock | TrTest | TrLockOut | TrCopy nat | TrFull | TrUnlockOut
  | TrUnlock bool | TrDone

datatype receiver_pc = RcWait | RcLock | RcTest | RcUnlock bool | RcDone

record pipeline =
  incoming :: sock
  outgoing :: sock
  init1 :: bool
  init2 :: bool
  snd_pc :: sender_pc
  tr_pc :: transport_pc
  rc_pc :: receiver_pc
  received :: "bytes option"

definition hello_world :: bytes where
  "hello_world = [104, 101, 108, 108, 111, 32, 119, 111, 114, 108, 100]"

definition hello0 :: bytes where "hello0 = hello_world @ [0]"

definition spin_init :: "sock \<Rightarrow> sock" where
  "spin_init k = k\<lparr>sk_lock := None\<rparr>"

definition spin_lock :: "nat \<Rightarrow> sock \<Rightarrow> sock option" where
  "spin_lock i k = (if sk_lock k = None then Some (k\<lparr>sk_lock := Some i\<rparr>) else None)"

definition spin_unlock :: "sock \<Rightarrow> sock" where
  "spin_unlock k = k\<lparr>sk_lock := None\<rparr>"

definition put_byte :: "nat \<Rightarrow> u8 \<Rightarrow> sock \<Rightarrow> sock option" where
  "put_byte i c k = (if i < length (sk_data k) then Some (k\<lparr>sk_data := (sk_data k)[i := c]\<rparr>) else None)"

definition sender_run :: "pipeline \<Rightarrow> pipeline option" where
  "sender_run s =
     (case snd_pc s of
        SndInit \<Rightarrow> Some (s\<lparr>incoming := spin_init (incoming s), snd_pc := SndEmit\<rparr>)
      | SndEmit \<Rightarrow> Some (s\<lparr>init1 := True, snd_pc := SndLock\<rparr>)
      | SndLock \<Rightarrow>
          (case spin_lock 0 (incoming s) of None \<Rightarrow> None
           | Some k \<Rightarrow> Some (s\<lparr>incoming := k, snd_pc := SndCopy 0\<rparr>))
      | SndCopy i \<Rightarrow>
          (case put_byte i (hello0 ! i) (incoming s) of None \<Rightarrow> None
           | Some k \<Rightarrow> Some (s\<lparr>incoming := k, snd_pc := (if hello0 ! i = 0 then SndFull else SndCopy (i + 1))\<rparr>))
      | SndFull \<Rightarrow> Some (s\<lparr>incoming := (incoming s)\<lparr>sk_full := True\<rparr>, snd_pc := SndUnlock\<rparr>)
      | SndUnlock \<Rightarrow> Some (s\<lparr>incoming := spin_unlock (incoming s), snd_pc := SndDone\<rparr>)
      | SndDone \<Rightarrow> None)"

definition transport_run :: "pipeline \<Rightarrow> pipeline option" where
  "transport_run s =
     (case tr_pc s of
        TrWait \<Rightarrow> if init1 s then Some (s\<lparr>init1 := False, tr_pc := TrInit\<rparr>) else None
      | TrInit \<Rightarrow> Some (s\<lparr>outgoing := spin_init (outgoing s), tr_pc := TrEmit\<rparr>)
      | TrEmit \<Rightarrow> Some (s\<lparr>init2 := True, tr_pc := TrLock\<rparr>)
      | TrLock \<Rightarrow>
          (case spin_lock 1 (incoming s) of None \<Rightarrow> None
           | Some k \<Rightarrow> Some (s\<lparr>incoming := k, tr_pc := TrTest\<rparr>))
      | TrTest \<Rightarrow> Some (s\<lparr>tr_pc := (if sk_full (incoming s) then TrLockOut else TrUnlock False)\<rparr>)
      | TrLockOut \<Rightarrow>
          (case spin_lock 1 (outgoing s) of None \<Rightarrow> None
           | Some k \<Rightarrow> Some (s\<lparr>outgoing := k, tr_pc := TrCopy 0\<rparr>))
      | TrCopy i \<Rightarrow>
          if i < length (sk_data (incoming s)) then
            let c = sk_data (incoming s) ! i in
            (case put_byte i c (outgoing s) of None \<Rightarrow> None
             | Some k \<Rightarrow> Some (s\<lparr>outgoing := k, tr_pc := (if c = 0 then TrFull else TrCopy (i + 1))\<rparr>))
          else None
      | TrFull \<Rightarrow> Some (s\<lparr>outgoing := (outgoing s)\<lparr>sk_full := True\<rparr>, tr_pc := TrUnlockOut\<rparr>)
      | TrUnlockOut \<Rightarrow> Some (s\<lparr>outgoing := spin_unlock (outgoing s), tr_pc := TrUnlock True\<rparr>)
      | TrUnlock r \<Rightarrow> Some (s\<lparr>incoming := spin_unlock (incoming s), tr_pc := (if r then TrDone else TrLock)\<rparr>)
      | TrDone \<Rightarrow> None)"

definition receiver_run :: "pipeline \<Rightarrow> pipeline option" where
  "receiver_run s =
     (case rc_pc s of
        RcWait \<Rightarrow> if init2 s then Some (s\<lparr>init2 := False, rc_pc := RcLock\<rparr>) else None
      | RcLock \<Rightarrow>
          (case spin_lock 2 (outgoing s) of None \<Rightarrow> None
           | Some k \<Rightarrow> Some (s\<lparr>outgoing := k, rc_pc := RcTest\<rparr>))
      | RcTest \<Rightarrow>
          if sk_full (outgoing s)
          then if 0 \<in> set (sk_data (outgoing s))
            then Some (s\<lparr>received := Some (takeWhile (\<lambda>c. c \<noteq> 0) (sk_data (outgoing s))), rc_pc := RcUnlock True\<rparr>)
            else None
          else Some (s\<lparr>rc_pc := RcUnlock False\<rparr>)
      | RcUnlock r \<Rightarrow> Some (s\<lparr>outgoing := spin_unlock (outgoing s), rc_pc := (if r then RcDone else RcLock)\<rparr>)
      | RcDone \<Rightarrow> None)"

inductive pipeline_step :: "pipeline \<Rightarrow> pipeline \<Rightarrow> bool" where
  "sender_run s = Some t \<Longrightarrow> pipeline_step s t"
| "transport_run s = Some t \<Longrightarrow> pipeline_step s t"
| "receiver_run s = Some t \<Longrightarrow> pipeline_step s t"

text \<open>The flags of fresh data ports are zero; the locks and the arrays may hold anything.\<close>

definition pipeline_start :: "nat option \<Rightarrow> nat option \<Rightarrow> bytes \<Rightarrow> bytes \<Rightarrow> pipeline" where
  "pipeline_start l1 l2 d1 d2 =
     \<lparr>incoming = \<lparr>sk_lock = l1, sk_full = False, sk_data = d1\<rparr>,
      outgoing = \<lparr>sk_lock = l2, sk_full = False, sk_data = d2\<rparr>,
      init1 = False, init2 = False, snd_pc = SndInit, tr_pc = TrWait, rc_pc = RcWait, received = None\<rparr>"

section \<open>The invariant\<close>

fun snd_holds :: "sender_pc \<Rightarrow> bool" where
  "snd_holds (SndCopy i) = True"
| "snd_holds SndFull = True"
| "snd_holds SndUnlock = True"
| "snd_holds _ = False"

fun tr_holds_in :: "transport_pc \<Rightarrow> bool" where
  "tr_holds_in TrWait = False"
| "tr_holds_in TrInit = False"
| "tr_holds_in TrEmit = False"
| "tr_holds_in TrLock = False"
| "tr_holds_in TrDone = False"
| "tr_holds_in _ = True"

fun tr_holds_out :: "transport_pc \<Rightarrow> bool" where
  "tr_holds_out (TrCopy i) = True"
| "tr_holds_out TrFull = True"
| "tr_holds_out TrUnlockOut = True"
| "tr_holds_out _ = False"

fun rc_holds :: "receiver_pc \<Rightarrow> bool" where
  "rc_holds RcTest = True"
| "rc_holds (RcUnlock r) = True"
| "rc_holds _ = False"

text \<open>How far the string has been copied: not begun, the first bytes, or all of it.\<close>

fun snd_copied :: "sender_pc \<Rightarrow> bytes \<Rightarrow> bool" where
  "snd_copied (SndCopy i) d \<longleftrightarrow> i < 12 \<and> take i d = take i hello0"
| "snd_copied SndFull d \<longleftrightarrow> take 12 d = hello0"
| "snd_copied SndUnlock d \<longleftrightarrow> take 12 d = hello0"
| "snd_copied SndDone d \<longleftrightarrow> take 12 d = hello0"
| "snd_copied _ d \<longleftrightarrow> True"

fun tr_copied :: "transport_pc \<Rightarrow> bytes \<Rightarrow> bool" where
  "tr_copied (TrCopy i) d \<longleftrightarrow> i < 12 \<and> take i d = take i hello0"
| "tr_copied TrFull d \<longleftrightarrow> take 12 d = hello0"
| "tr_copied TrUnlockOut d \<longleftrightarrow> take 12 d = hello0"
| "tr_copied (TrUnlock r) d \<longleftrightarrow> (r \<longrightarrow> take 12 d = hello0)"
| "tr_copied TrDone d \<longleftrightarrow> take 12 d = hello0"
| "tr_copied _ d \<longleftrightarrow> True"

text \<open>The transport has seen the flag of its incoming socket; it has set that of the outgoing one.\<close>

fun tr_saw :: "transport_pc \<Rightarrow> bool" where
  "tr_saw TrLockOut = True"
| "tr_saw (TrCopy i) = True"
| "tr_saw TrFull = True"
| "tr_saw TrUnlockOut = True"
| "tr_saw (TrUnlock r) = r"
| "tr_saw TrDone = True"
| "tr_saw _ = False"

fun tr_set :: "transport_pc \<Rightarrow> bool" where
  "tr_set TrUnlockOut = True"
| "tr_set (TrUnlock r) = r"
| "tr_set TrDone = True"
| "tr_set _ = False"

definition in_inv :: "sock \<Rightarrow> bool \<Rightarrow> sender_pc \<Rightarrow> transport_pc \<Rightarrow> bool" where
  "in_inv k i1 p q \<longleftrightarrow>
     length (sk_data k) = 100 \<and> snd_copied p (sk_data k) \<and>
     (sk_full k \<longleftrightarrow> p = SndUnlock \<or> p = SndDone) \<and> (tr_saw q \<longrightarrow> sk_full k) \<and>
     (if p = SndInit \<or> p = SndEmit then q = TrWait \<and> \<not> i1 else i1 \<longleftrightarrow> q = TrWait) \<and>
     (p \<noteq> SndInit \<longrightarrow>
        sk_lock k = (if snd_holds p then Some 0 else if tr_holds_in q then Some 1 else None)) \<and>
     \<not> (snd_holds p \<and> tr_holds_in q)"

definition out_inv :: "sock \<Rightarrow> bool \<Rightarrow> transport_pc \<Rightarrow> receiver_pc \<Rightarrow> bytes option \<Rightarrow> bool" where
  "out_inv k i2 q r got \<longleftrightarrow>
     length (sk_data k) = 100 \<and> tr_copied q (sk_data k) \<and> (sk_full k \<longleftrightarrow> tr_set q) \<and>
     (if q = TrWait \<or> q = TrInit \<or> q = TrEmit then r = RcWait \<and> \<not> i2 else i2 \<longleftrightarrow> r = RcWait) \<and>
     (q \<noteq> TrWait \<and> q \<noteq> TrInit \<longrightarrow>
        sk_lock k = (if tr_holds_out q then Some 1 else if rc_holds r then Some 2 else None)) \<and>
     \<not> (tr_holds_out q \<and> rc_holds r) \<and>
     (if r = RcUnlock True \<or> r = RcDone then sk_full k \<and> got = Some hello_world else got = None)"

definition pipeline_inv :: "pipeline \<Rightarrow> bool" where
  "pipeline_inv s \<longleftrightarrow>
     in_inv (incoming s) (init1 s) (snd_pc s) (tr_pc s) \<and>
     out_inv (outgoing s) (init2 s) (tr_pc s) (rc_pc s) (received s)"

lemma hello0_length [simp]: "length hello0 = 12"
  by (simp add: hello0_def hello_world_def)

lemma hello0_null:
  assumes "i < 12"
  shows "hello0 ! i = 0 \<longleftrightarrow> i = 11"
proof (cases "i < 11")
  case True
  have "length hello_world = 11" "0 \<notin> set hello_world" by (simp_all add: hello_world_def)
  with True have "hello0 ! i \<noteq> 0" by (metis hello0_def nth_append nth_mem)
  with True show ?thesis by simp
next
  case False
  with assms have "i = 11" by simp
  then show ?thesis by (simp add: hello0_def hello_world_def)
qed

lemma copy_byte:
  assumes "take i d = take i hello0" "i < 12" "length d = 100"
  shows "take (Suc i) (d[i := hello0 ! i]) = take (Suc i) hello0"
  using assms by (simp add: take_Suc_update take_Suc_conv_app_nth)

lemma hello0_string:
  assumes "take 12 d = hello0"
  shows "0 \<in> set d" "takeWhile (\<lambda>c. c \<noteq> 0) d = hello_world"
proof -
  have d: "d = hello_world @ 0 # drop 12 d"
    using assms append_take_drop_id [of 12 d] by (simp add: hello0_def)
  show "0 \<in> set d" by (subst d) simp
  show "takeWhile (\<lambda>c. c \<noteq> 0) d = hello_world"
    by (subst d, subst takeWhile_append2) (auto simp: hello_world_def)
qed

lemma in_inv_data: "in_inv k i1 p q \<Longrightarrow> tr_saw q \<Longrightarrow> take 12 (sk_data k) = hello0"
  by (auto simp: in_inv_def)

section \<open>The invariant is kept\<close>

lemma in_inv_snd_init: "in_inv k i1 SndInit q \<Longrightarrow> in_inv (k\<lparr>sk_lock := None\<rparr>) i1 SndEmit q"
  by (cases q) (simp_all add: in_inv_def)

lemma in_inv_snd_emit: "in_inv k i1 SndEmit q \<Longrightarrow> in_inv k True SndLock q"
  by (cases q) (simp_all add: in_inv_def)

lemma in_inv_snd_lock:
  "in_inv k i1 SndLock q \<Longrightarrow> sk_lock k = None \<Longrightarrow> in_inv (k\<lparr>sk_lock := Some 0\<rparr>) i1 (SndCopy 0) q"
  by (cases q) (auto simp: in_inv_def)

lemma in_inv_snd_full: "in_inv k i1 SndFull q \<Longrightarrow> in_inv (k\<lparr>sk_full := True\<rparr>) i1 SndUnlock q"
  by (cases q) (simp_all add: in_inv_def)

lemma in_inv_snd_unlock: "in_inv k i1 SndUnlock q \<Longrightarrow> in_inv (k\<lparr>sk_lock := None\<rparr>) i1 SndDone q"
  by (cases q) (simp_all add: in_inv_def)

lemma in_inv_copy:
  assumes "in_inv k i1 (SndCopy i) q"
  shows "in_inv (k\<lparr>sk_data := (sk_data k)[i := hello0 ! i]\<rparr>) i1 (if hello0 ! i = 0 then SndFull else SndCopy (Suc i)) q"
proof -
  have i: "i < 12" "take i (sk_data k) = take i hello0" "length (sk_data k) = 100"
    using assms by (simp_all add: in_inv_def)
  have "take (Suc i) ((sk_data k)[i := hello0 ! i]) = take (Suc i) hello0" by (rule copy_byte [OF i(2,1,3)])
  moreover have "hello0 ! i = 0 \<longleftrightarrow> i = 11" by (rule hello0_null [OF i(1)])
  ultimately show ?thesis using i assms by (cases q) (auto simp: in_inv_def)
qed

lemma sender_run_frame:
  "sender_run s = Some t \<Longrightarrow>
   outgoing t = outgoing s \<and> init2 t = init2 s \<and> tr_pc t = tr_pc s \<and> rc_pc t = rc_pc s \<and> received t = received s"
  by (auto simp: sender_run_def split: sender_pc.splits option.splits)

lemma receiver_run_frame:
  "receiver_run s = Some t \<Longrightarrow>
   incoming t = incoming s \<and> init1 t = init1 s \<and> tr_pc t = tr_pc s \<and> snd_pc t = snd_pc s"
  by (auto simp: receiver_run_def split: receiver_pc.splits option.splits if_splits)


lemma sender_keeps:
  assumes "pipeline_inv s" "sender_run s = Some t"
  shows "pipeline_inv t"
proof -
  have "in_inv (incoming t) (init1 t) (snd_pc t) (tr_pc t)"
    using assms
    by (auto simp: pipeline_inv_def sender_run_def spin_init_def spin_lock_def spin_unlock_def put_byte_def
        in_inv_snd_init in_inv_snd_emit in_inv_snd_lock in_inv_snd_full in_inv_snd_unlock
        dest: in_inv_copy split: sender_pc.splits if_splits)
  with assms sender_run_frame [OF assms(2)] show ?thesis by (simp add: pipeline_inv_def)
qed

text \<open>The transport, on its incoming and on its outgoing socket.\<close>

lemma in_inv_tr:
  "in_inv k i1 p TrWait \<Longrightarrow> i1 \<Longrightarrow> in_inv k False p TrInit"
  "in_inv k i1 p TrInit \<Longrightarrow> in_inv k i1 p TrEmit"
  "in_inv k i1 p TrEmit \<Longrightarrow> in_inv k i1 p TrLock"
  "in_inv k i1 p TrLock \<Longrightarrow> sk_lock k = None \<Longrightarrow> in_inv (k\<lparr>sk_lock := Some 1\<rparr>) i1 p TrTest"
  "in_inv k i1 p TrTest \<Longrightarrow> in_inv k i1 p (if sk_full k then TrLockOut else TrUnlock False)"
  "in_inv k i1 p TrLockOut \<Longrightarrow> in_inv k i1 p (TrCopy 0)"
  "in_inv k i1 p (TrCopy i) \<Longrightarrow> in_inv k i1 p (if b then TrFull else TrCopy (Suc i))"
  "in_inv k i1 p TrFull \<Longrightarrow> in_inv k i1 p TrUnlockOut"
  "in_inv k i1 p TrUnlockOut \<Longrightarrow> in_inv k i1 p (TrUnlock True)"
  "in_inv k i1 p (TrUnlock r) \<Longrightarrow> in_inv (k\<lparr>sk_lock := None\<rparr>) i1 p (if r then TrDone else TrLock)"
  by (cases p; auto simp: in_inv_def; fail)+

lemma out_inv_tr:
  "out_inv k i2 TrWait r got \<Longrightarrow> out_inv k i2 TrInit r got"
  "out_inv k i2 TrInit r got \<Longrightarrow> out_inv (k\<lparr>sk_lock := None\<rparr>) i2 TrEmit r got"
  "out_inv k i2 TrEmit r got \<Longrightarrow> out_inv k True TrLock r got"
  "out_inv k i2 TrLock r got \<Longrightarrow> out_inv k i2 TrTest r got"
  "out_inv k i2 TrTest r got \<Longrightarrow> out_inv k i2 (if b then TrLockOut else TrUnlock False) r got"
  "out_inv k i2 TrLockOut r got \<Longrightarrow> sk_lock k = None \<Longrightarrow> out_inv (k\<lparr>sk_lock := Some 1\<rparr>) i2 (TrCopy 0) r got"
  "out_inv k i2 TrFull r got \<Longrightarrow> out_inv (k\<lparr>sk_full := True\<rparr>) i2 TrUnlockOut r got"
  "out_inv k i2 TrUnlockOut r got \<Longrightarrow> out_inv (k\<lparr>sk_lock := None\<rparr>) i2 (TrUnlock True) r got"
  "out_inv k i2 (TrUnlock b) r got \<Longrightarrow> out_inv k i2 (if b then TrDone else TrLock) r got"
  by (cases r; auto simp: out_inv_def; fail)+

lemma out_inv_copy:
  assumes "out_inv k i2 (TrCopy i) r got"
  shows "out_inv (k\<lparr>sk_data := (sk_data k)[i := hello0 ! i]\<rparr>) i2 (if hello0 ! i = 0 then TrFull else TrCopy (Suc i)) r got"
proof -
  have i: "i < 12" "take i (sk_data k) = take i hello0" "length (sk_data k) = 100"
    using assms by (simp_all add: out_inv_def)
  have "take (Suc i) ((sk_data k)[i := hello0 ! i]) = take (Suc i) hello0" by (rule copy_byte [OF i(2,1,3)])
  moreover have "hello0 ! i = 0 \<longleftrightarrow> i = 11" by (rule hello0_null [OF i(1)])
  ultimately show ?thesis using i assms by (cases r) (auto simp: out_inv_def)
qed

lemma out_inv_rc:
  "out_inv k i2 q RcWait got \<Longrightarrow> i2 \<Longrightarrow> out_inv k False q RcLock got"
  "out_inv k i2 q RcLock got \<Longrightarrow> sk_lock k = None \<Longrightarrow> out_inv (k\<lparr>sk_lock := Some 2\<rparr>) i2 q RcTest got"
  "out_inv k i2 q RcTest got \<Longrightarrow> \<not> sk_full k \<Longrightarrow> out_inv k i2 q (RcUnlock False) got"
  "out_inv k i2 q (RcUnlock b) got \<Longrightarrow> out_inv (k\<lparr>sk_lock := None\<rparr>) i2 q (if b then RcDone else RcLock) got"
  by (cases q; auto simp: out_inv_def; fail)+

lemma out_inv_full: "out_inv k i2 q r got \<Longrightarrow> sk_full k \<Longrightarrow> take 12 (sk_data k) = hello0"
  by (cases q) (auto simp: out_inv_def)

lemma out_inv_received:
  assumes "out_inv k i2 q RcTest got" "sk_full k"
  shows "out_inv k i2 q (RcUnlock True) (Some (takeWhile (\<lambda>c. c \<noteq> 0) (sk_data k)))"
  using assms hello0_string [OF out_inv_full [OF assms]] by (cases q) (auto simp: out_inv_def)

text \<open>The byte the transport copies is the byte of the string.\<close>

lemma transport_byte:
  assumes "in_inv k i1 p (TrCopy i)" "i < 12"
  shows "sk_data k ! i = hello0 ! i"
proof -
  have "take 12 (sk_data k) = hello0" using assms(1) by (rule in_inv_data) simp
  then show ?thesis using assms(2) by (metis nth_take)
qed

lemma transport_keeps:
  assumes "pipeline_inv s" "transport_run s = Some t"
  shows "pipeline_inv t"
proof (cases "tr_pc s")
  case (TrCopy i)
  have inv: "in_inv (incoming s) (init1 s) (snd_pc s) (TrCopy i)"
      "out_inv (outgoing s) (init2 s) (TrCopy i) (rc_pc s) (received s)"
    using assms(1) TrCopy by (simp_all add: pipeline_inv_def)
  then have "i < 12" by (simp add: out_inv_def)
  from transport_byte [OF inv(1) this] assms(2) TrCopy
    in_inv_tr(7) [OF inv(1), of "hello0 ! i = 0"] out_inv_copy [OF inv(2)] show ?thesis
    by (auto simp: transport_run_def put_byte_def pipeline_inv_def Let_def split: if_splits)
next
  case TrWait
  with assms show ?thesis
    by (auto simp: transport_run_def pipeline_inv_def split: if_splits
        intro: in_inv_tr(1) out_inv_tr(1))
next
  case TrInit
  with assms show ?thesis
    by (auto simp: transport_run_def pipeline_inv_def spin_init_def split: if_splits
        intro: in_inv_tr(2) out_inv_tr(2))
next
  case TrEmit
  with assms show ?thesis
    by (auto simp: transport_run_def pipeline_inv_def split: if_splits
        intro: in_inv_tr(3) out_inv_tr(3))
next
  case TrLock
  with assms show ?thesis
    by (auto simp: transport_run_def pipeline_inv_def spin_lock_def simp del: One_nat_def split: if_splits
        intro: in_inv_tr(4) out_inv_tr(4))
next
  case TrTest
  with assms in_inv_tr(5) out_inv_tr(5) show ?thesis
    unfolding transport_run_def pipeline_inv_def by force
next
  case TrLockOut
  with assms show ?thesis
    by (auto simp: transport_run_def pipeline_inv_def spin_lock_def simp del: One_nat_def split: if_splits
        intro: in_inv_tr(6) out_inv_tr(6))
next
  case TrFull
  with assms show ?thesis
    by (auto simp: transport_run_def pipeline_inv_def split: if_splits
        intro: in_inv_tr(8) out_inv_tr(7))
next
  case TrUnlockOut
  with assms show ?thesis
    by (auto simp: transport_run_def pipeline_inv_def spin_unlock_def split: if_splits
        intro: in_inv_tr(9) out_inv_tr(8))
next
  case (TrUnlock r)
  with assms in_inv_tr(10) out_inv_tr(9) show ?thesis
    unfolding transport_run_def pipeline_inv_def spin_unlock_def by force
next
  case TrDone
  with assms(2) show ?thesis by (simp add: transport_run_def)
qed

lemma receiver_keeps:
  assumes "pipeline_inv s" "receiver_run s = Some t"
  shows "pipeline_inv t"
proof -
  have "out_inv (outgoing t) (init2 t) (tr_pc t) (rc_pc t) (received t)"
    using assms
    by (auto simp: pipeline_inv_def receiver_run_def spin_lock_def spin_unlock_def
        out_inv_received intro: out_inv_rc dest: out_inv_rc(4) split: receiver_pc.splits if_splits)
  with assms receiver_run_frame [OF assms(2)] show ?thesis by (simp add: pipeline_inv_def)
qed

section \<open>Progress\<close>

fun snd_rank :: "sender_pc \<Rightarrow> nat" where
  "snd_rank SndInit = 30"
| "snd_rank SndEmit = 29"
| "snd_rank SndLock = 28"
| "snd_rank (SndCopy i) = 27 - i"
| "snd_rank SndFull = 10"
| "snd_rank SndUnlock = 9"
| "snd_rank SndDone = 0"

text \<open>A test that will fail is further from the end than one that will succeed.\<close>

fun tr_rank :: "bool \<Rightarrow> transport_pc \<Rightarrow> nat" where
  "tr_rank full TrWait = 60"
| "tr_rank full TrInit = 59"
| "tr_rank full TrEmit = 58"
| "tr_rank full TrLock = 55"
| "tr_rank full TrTest = (if full then 54 else 57)"
| "tr_rank full TrLockOut = 53"
| "tr_rank full (TrCopy i) = 52 - i"
| "tr_rank full TrFull = 30"
| "tr_rank full TrUnlockOut = 29"
| "tr_rank full (TrUnlock r) = (if r then 28 else 56)"
| "tr_rank full TrDone = 0"

fun rc_rank :: "bool \<Rightarrow> receiver_pc \<Rightarrow> nat" where
  "rc_rank full RcWait = 9"
| "rc_rank full RcLock = 6"
| "rc_rank full RcTest = (if full then 5 else 8)"
| "rc_rank full (RcUnlock r) = (if r then 4 else 7)"
| "rc_rank full RcDone = 0"

definition pipeline_remaining :: "pipeline \<Rightarrow> nat" where
  "pipeline_remaining s =
     snd_rank (snd_pc s) + tr_rank (sk_full (incoming s)) (tr_pc s) + rc_rank (sk_full (outgoing s)) (rc_pc s)"

lemma sender_progress:
  assumes "in_inv (incoming s) (init1 s) (snd_pc s) (tr_pc s)" "snd_pc s \<noteq> SndDone" "\<not> tr_holds_in (tr_pc s)"
  shows "\<exists>t. sender_run s = Some t \<and> pipeline_remaining t < pipeline_remaining s"
proof (cases "snd_pc s")
  case (SndCopy i)
  with assms(1) have "i < 12" "length (sk_data (incoming s)) = 100" by (simp_all add: in_inv_def)
  with SndCopy show ?thesis by (simp add: sender_run_def put_byte_def pipeline_remaining_def) arith
next
  case SndFull
  with assms(3) show ?thesis by (cases "tr_pc s") (simp_all add: sender_run_def pipeline_remaining_def)
qed (use assms in \<open>auto simp: in_inv_def sender_run_def spin_init_def spin_lock_def spin_unlock_def
  pipeline_remaining_def\<close>)

text \<open>The transport moves unless it waits for the sender or for the receiver.\<close>

lemma transport_progress:
  assumes "pipeline_inv s" "snd_pc s = SndDone \<or> tr_holds_in (tr_pc s)" "tr_pc s \<noteq> TrDone"
    and "\<not> (tr_pc s = TrLockOut \<and> rc_holds (rc_pc s))"
  shows "\<exists>t. transport_run s = Some t \<and> pipeline_remaining t < pipeline_remaining s"
proof (cases "tr_pc s")
  case (TrCopy i)
  with assms(1) have "i < 12" "length (sk_data (incoming s)) = 100" "length (sk_data (outgoing s)) = 100"
    by (simp_all add: pipeline_inv_def in_inv_def out_inv_def)
  with TrCopy show ?thesis by (simp add: transport_run_def put_byte_def pipeline_remaining_def Let_def) arith
next
  case TrFull
  with assms(1) have "\<not> rc_holds (rc_pc s)" by (simp add: pipeline_inv_def out_inv_def)
  with TrFull show ?thesis by (cases "rc_pc s") (simp_all add: transport_run_def pipeline_remaining_def)
next
  case TrTest
  then show ?thesis by (simp add: transport_run_def pipeline_remaining_def)
qed (use assms in \<open>auto simp: pipeline_inv_def in_inv_def out_inv_def transport_run_def spin_init_def spin_lock_def
  spin_unlock_def pipeline_remaining_def\<close>)

lemma receiver_progress:
  assumes "out_inv (outgoing s) (init2 s) (tr_pc s) (rc_pc s) (received s)" "rc_pc s \<noteq> RcDone"
    and "tr_pc s = TrDone \<or> rc_holds (rc_pc s)"
  shows "\<exists>t. receiver_run s = Some t \<and> pipeline_remaining t < pipeline_remaining s"
proof (cases "rc_pc s")
  case RcTest
  then show ?thesis
    using hello0_string(1) [OF out_inv_full [OF assms(1)]] by (simp add: receiver_run_def pipeline_remaining_def)
qed (use assms in \<open>auto simp: out_inv_def receiver_run_def spin_lock_def spin_unlock_def pipeline_remaining_def\<close>)

definition pipeline_done :: "pipeline \<Rightarrow> bool" where
  "pipeline_done s \<longleftrightarrow> snd_pc s = SndDone \<and> tr_pc s = TrDone \<and> rc_pc s = RcDone"

lemma pipeline_progress:
  assumes "pipeline_inv s" "\<not> pipeline_done s"
  shows "\<exists>t. pipeline_step s t \<and> pipeline_remaining t < pipeline_remaining s"
proof -
  have inv: "in_inv (incoming s) (init1 s) (snd_pc s) (tr_pc s)"
      "out_inv (outgoing s) (init2 s) (tr_pc s) (rc_pc s) (received s)"
    using assms(1) by (simp_all add: pipeline_inv_def)
  consider "snd_pc s \<noteq> SndDone" "\<not> tr_holds_in (tr_pc s)"
    | "tr_pc s = TrLockOut \<and> rc_holds (rc_pc s) \<or> tr_pc s = TrDone" "rc_pc s \<noteq> RcDone"
    | "snd_pc s = SndDone \<or> tr_holds_in (tr_pc s)" "tr_pc s \<noteq> TrDone" "\<not> (tr_pc s = TrLockOut \<and> rc_holds (rc_pc s))"
    using assms(2) inv by (cases "rc_pc s"; cases "tr_pc s") (auto simp: pipeline_done_def)
  then show ?thesis
  proof cases
    case 1
    with sender_progress [OF inv(1)] show ?thesis by (blast intro: pipeline_step.intros)
  next
    case 2
    with receiver_progress [OF inv(2)] show ?thesis by (blast intro: pipeline_step.intros)
  next
    case 3
    with transport_progress [OF assms(1)] show ?thesis by (blast intro: pipeline_step.intros)
  qed
qed

lemma pipeline_inv_step: "pipeline_inv s \<Longrightarrow> pipeline_step s t \<Longrightarrow> pipeline_inv t"
  by (auto elim!: pipeline_step.cases intro: sender_keeps transport_keeps receiver_keeps)

lemma pipeline_inv_start: "length d1 = 100 \<Longrightarrow> length d2 = 100 \<Longrightarrow> pipeline_inv (pipeline_start l1 l2 d1 d2)"
  by (simp add: pipeline_inv_def pipeline_start_def in_inv_def out_inv_def)

definition holds_incoming :: "nat \<Rightarrow> pipeline \<Rightarrow> bool" where
  "holds_incoming i s \<longleftrightarrow> snd_pc s \<noteq> SndInit \<and>
     (i = 0 \<and> snd_holds (snd_pc s) \<or> i = 1 \<and> tr_holds_in (tr_pc s))"

definition holds_outgoing :: "nat \<Rightarrow> pipeline \<Rightarrow> bool" where
  "holds_outgoing i s \<longleftrightarrow> tr_pc s \<noteq> TrWait \<and> tr_pc s \<noteq> TrInit \<and>
     (i = 1 \<and> tr_holds_out (tr_pc s) \<or> i = 2 \<and> rc_holds (rc_pc s))"

definition full_start :: "nat option \<times> nat option \<Rightarrow> bytes \<times> bytes \<Rightarrow> pipeline" where
  "full_start l d = pipeline_start (fst l) (snd l) (take 100 (fst d @ replicate 100 0)) (take 100 (snd d @ replicate 100 0))"

text \<open>Both locks are protocols of the interface, with the same invariant; the arrays have 100 bytes.\<close>

interpretation incoming_lock: finishing_protocol pipeline_step "full_start l d" pipeline_inv
    "sk_lock \<circ> incoming" holds_incoming pipeline_done pipeline_remaining
proof unfold_locales
  show "pipeline_inv (full_start l d)" by (simp add: full_start_def pipeline_inv_start)
  show "(sk_lock \<circ> incoming) s = Some i" if "pipeline_inv s" "holds_incoming i s" for s i
    using that by (auto simp: pipeline_inv_def in_inv_def holds_incoming_def)
qed (use pipeline_inv_step pipeline_progress in blast)+

interpretation outgoing_lock: lock_protocol pipeline_step "full_start l d" pipeline_inv
    "sk_lock \<circ> outgoing" holds_outgoing
proof unfold_locales
  show "(sk_lock \<circ> outgoing) s = Some i" if "pipeline_inv s" "holds_outgoing i s" for s i
    using that by (auto simp: pipeline_inv_def out_inv_def holds_outgoing_def)
qed (use pipeline_inv_step incoming_lock.inv_start in blast)+

text \<open>
  Property C6. The string goes through whole: whatever the arrays and the locks hold before and however the
  byte accesses of the three components interleave, no two components are in the critical section of one
  socket, the receiver never prints anything but the string of the sender, and from every state they can
  go on until all three are done and it has been printed.
\<close>

theorem socket_string_whole:
  assumes "pipeline_step\<^sup>*\<^sup>* (pipeline_start l1 l2 d1 d2) s" "length d1 = 100" "length d2 = 100"
  shows "\<not> (snd_holds (snd_pc s) \<and> tr_holds_in (tr_pc s)) \<and> \<not> (tr_holds_out (tr_pc s) \<and> rc_holds (rc_pc s)) \<and>
    received s \<in> {None, Some hello_world} \<and>
    (\<exists>t. pipeline_step\<^sup>*\<^sup>* s t \<and> pipeline_done t \<and> received t = Some hello_world)"
proof -
  have "full_start (l1, l2) (d1, d2) = pipeline_start l1 l2 d1 d2" using assms(2,3) by (simp add: full_start_def)
  with assms(1) have steps: "pipeline_step\<^sup>*\<^sup>* (full_start (l1, l2) (d1, d2)) s" by simp
  have inv: "pipeline_inv s" by (rule incoming_lock.reachable_inv [OF steps])
  have "\<not> (snd_holds (snd_pc s) \<and> tr_holds_in (tr_pc s))"
    using incoming_lock.exclusive [OF steps, of 0 1] by (cases "snd_pc s") (auto simp: holds_incoming_def)
  moreover have "\<not> (tr_holds_out (tr_pc s) \<and> rc_holds (rc_pc s))"
    using outgoing_lock.exclusive [OF steps, of 1 2] by (cases "tr_pc s") (auto simp: holds_outgoing_def)
  moreover have "received s \<in> {None, Some hello_world}"
    using inv by (auto simp: pipeline_inv_def out_inv_def split: if_splits)
  moreover obtain t where "pipeline_step\<^sup>*\<^sup>* s t" "pipeline_inv t" "pipeline_done t"
    using incoming_lock.can_finish [OF steps] by blast
  then have "pipeline_step\<^sup>*\<^sup>* s t \<and> pipeline_done t \<and> received t = Some hello_world"
    by (auto simp: pipeline_inv_def out_inv_def pipeline_done_def)
  ultimately show ?thesis by blast
qed

text \<open>The sender has taken its lock and copied the first byte.\<close>

definition after_four :: pipeline where
  "after_four = ((the \<circ> sender_run) ^^ 4) (pipeline_start None (Some 7) (replicate 100 0) (replicate 100 1))"

theorem socket_string_whole_witness:
  "snd_pc after_four = SndCopy 1 \<and> (\<exists>t. pipeline_step\<^sup>*\<^sup>* after_four t \<and> received t = Some hello_world)"
proof -
  let ?s0 = "pipeline_start None (Some 7) (replicate 100 0) (replicate 100 1)"
  let ?s1 = "the (sender_run ?s0)"
  let ?s2 = "the (sender_run ?s1)"
  let ?s3 = "the (sender_run ?s2)"
  let ?s4 = "the (sender_run ?s3)"
  have four: "after_four = ?s4" by (simp add: after_four_def numeral_eq_Suc)
  have runs: "sender_run ?s0 = Some ?s1" "sender_run ?s1 = Some ?s2" "sender_run ?s2 = Some ?s3"
      "sender_run ?s3 = Some ?s4" "snd_pc ?s4 = SndCopy 1"
    by (simp_all add: sender_run_def pipeline_start_def spin_init_def spin_lock_def put_byte_def hello0_def hello_world_def)
  then have "pipeline_step\<^sup>*\<^sup>* ?s0 ?s4"
    by (meson pipeline_step.intros converse_rtranclp_into_rtranclp r_into_rtranclp)
  with socket_string_whole [of None "Some 7" "replicate 100 0" "replicate 100 1" ?s4] runs(5) show ?thesis
    unfolding four by (metis length_replicate)
qed

end
