(* ===== verification/Event_Examples.thy ===== *)
theory Event_Examples
  imports Lock_Protocols
begin

text \<open>
  Applications that only signal each other: \<^verbatim>\<open>apps/global_async\<close>, where a sender and a client hand one
  buffer over by notifications, \<^verbatim>\<open>apps/binary-semaphore\<close>, where a call waits for an event's callback,
  \<^verbatim>\<open>apps/event-driven\<close>, where a callback registers itself again until it has been called a hundred times,
  and \<^verbatim>\<open>apps/testsel4notification\<close>. A notification is remembered until it is waited for. The
  connectors are generated.
\<close>

section \<open>Handing a buffer over\<close>

text \<open>
  Places of the sender with the number of the message: writing its character \<open>i\<close>, the terminator, before the
  signal and waiting for the answer. The client waits, handles the event, or is about to answer. The
  random numbers are a sequence, an argument.
\<close>

definition SEND_DATA_LENGTH :: nat where "SEND_DATA_LENGTH = 20"

datatype async_sender_pc =
  AFill nat nat | ATerminate nat | ASignal nat | AWait nat | AFinished

datatype async_client_pc = CWait | CHandle | CReply

record async_system =
  data_buffer :: bytes
  sender_note :: bool
  client_note :: bool
  async_sender :: async_sender_pc
  async_client :: async_client_pc
  shown :: "bytes list"

definition random_char :: "nat \<Rightarrow> u8" where
  "random_char r = (let rand_value = r mod 72 in 48 + of_nat rand_value)"

definition async_sender_run :: "(nat \<Rightarrow> nat) \<Rightarrow> async_system \<Rightarrow> async_system option" where
  "async_sender_run rand s =
     (case async_sender s of
        AFill n i \<Rightarrow>
          if i < length (data_buffer s)
          then Some (s\<lparr>data_buffer := (data_buffer s)[i := random_char (rand (20 * n + i))],
                      async_sender := (if i + 1 < SEND_DATA_LENGTH then AFill n (i + 1) else ATerminate n)\<rparr>)
          else None
      | ATerminate n \<Rightarrow>
          if SEND_DATA_LENGTH < length (data_buffer s)
          then Some (s\<lparr>data_buffer := (data_buffer s)[SEND_DATA_LENGTH := 0], async_sender := ASignal n\<rparr>)
          else None
      | ASignal n \<Rightarrow> Some (s\<lparr>client_note := True, async_sender := AWait n\<rparr>)
      | AWait n \<Rightarrow>
          if sender_note s
          then Some (s\<lparr>sender_note := False, async_sender := (if n + 1 < 10 then AFill (n + 1) 0 else AFinished)\<rparr>)
          else None
      | AFinished \<Rightarrow> None)"

definition event_handler :: "async_system \<Rightarrow> async_system option" where
  "event_handler s =
     (if 0 \<in> set (data_buffer s)
      then Some (s\<lparr>shown := shown s @ [takeWhile (\<lambda>c. c \<noteq> 0) (data_buffer s)], async_client := CReply\<rparr>)
      else None)"

definition event_handler_reply :: "async_system \<Rightarrow> async_system" where
  "event_handler_reply s = s\<lparr>sender_note := True, async_client := CWait\<rparr>"

definition notification_event_loop :: "async_system \<Rightarrow> async_system option" where
  "notification_event_loop s =
     (case async_client s of
        CWait \<Rightarrow> if client_note s then Some (s\<lparr>client_note := False, async_client := CHandle\<rparr>) else None
      | CHandle \<Rightarrow> event_handler s
      | CReply \<Rightarrow> Some (event_handler_reply s))"

inductive async_step :: "(nat \<Rightarrow> nat) \<Rightarrow> async_system \<Rightarrow> async_system \<Rightarrow> bool" for rand where
  "async_sender_run rand s = Some t \<Longrightarrow> async_step rand s t"
| "notification_event_loop s = Some t \<Longrightarrow> async_step rand s t"

text \<open>The data port has a page.\<close>

definition async_start :: async_system where
  "async_start =
     \<lparr>data_buffer = replicate 4096 0, sender_note = False, client_note = False, async_sender = AFill 0 0,
      async_client = CWait, shown = []\<rparr>"

definition message :: "(nat \<Rightarrow> nat) \<Rightarrow> nat \<Rightarrow> bytes" where
  "message rand n = map (\<lambda>i. random_char (rand (20 * n + i))) [0..<20]"

text \<open>Who may look at the buffer, by the places.\<close>

fun buffer_owner :: "async_sender_pc \<Rightarrow> async_client_pc \<Rightarrow> nat option" where
  "buffer_owner (AFill n i) c = Some 0"
| "buffer_owner (ATerminate n) c = Some 0"
| "buffer_owner p CHandle = Some 1"
| "buffer_owner p c = None"

fun async_phase :: "(nat \<Rightarrow> nat) \<Rightarrow> async_sender_pc \<Rightarrow> async_client_pc \<Rightarrow> bool \<Rightarrow> bool \<Rightarrow> bytes \<Rightarrow> nat \<Rightarrow> bool" where
  "async_phase rand (AFill n i) c sn cn d k \<longleftrightarrow>
     n < 10 \<and> i < 20 \<and> c = CWait \<and> \<not> sn \<and> \<not> cn \<and> k = n \<and> take i d = take i (message rand n)"
| "async_phase rand (ATerminate n) c sn cn d k \<longleftrightarrow>
     n < 10 \<and> c = CWait \<and> \<not> sn \<and> \<not> cn \<and> k = n \<and> take 20 d = message rand n"
| "async_phase rand (ASignal n) c sn cn d k \<longleftrightarrow>
     n < 10 \<and> c = CWait \<and> \<not> sn \<and> \<not> cn \<and> k = n \<and> take 21 d = message rand n @ [0]"
| "async_phase rand (AWait n) c sn cn d k \<longleftrightarrow>
     n < 10 \<and> take 21 d = message rand n @ [0] \<and>
     (case c of CWait \<Rightarrow> (cn \<and> \<not> sn \<and> k = n) \<or> (\<not> cn \<and> sn \<and> k = n + 1)
      | CHandle \<Rightarrow> \<not> cn \<and> \<not> sn \<and> k = n
      | CReply \<Rightarrow> \<not> cn \<and> \<not> sn \<and> k = n + 1)"
| "async_phase rand AFinished c sn cn d k \<longleftrightarrow> c = CWait \<and> \<not> sn \<and> \<not> cn \<and> k = 10"

definition async_inv :: "(nat \<Rightarrow> nat) \<Rightarrow> async_system \<Rightarrow> bool" where
  "async_inv rand s \<longleftrightarrow>
     length (data_buffer s) = 4096 \<and>
     async_phase rand (async_sender s) (async_client s) (sender_note s) (client_note s) (data_buffer s) (length (shown s)) \<and>
     shown s = map (message rand) [0..<length (shown s)]"

lemma random_char_nonzero: "random_char r \<noteq> 0"
proof -
  have "unat (random_char r) = 48 + r mod 72"
  proof -
    have "r mod 72 < 72" by simp
    then have "unat (of_nat (r mod 72) :: u8) = r mod 72" "48 + r mod 72 < 256" by (simp_all add: unat_of_nat_u8)
    then show ?thesis by (simp add: random_char_def Let_def unat_word_ariths)
  qed
  then show ?thesis by auto
qed

lemma length_message [simp]: "length (message rand n) = 20"
  by (simp add: message_def)

lemma message_string:
  assumes "take 21 d = message rand n @ [0]"
  shows "0 \<in> set d" "takeWhile (\<lambda>c. c \<noteq> 0) d = message rand n"
proof -
  have d: "d = message rand n @ 0 # drop 21 d" using append_take_drop_id [of 21 d] by (simp add: assms)
  show "0 \<in> set d" by (subst d) simp
  have "\<forall>c \<in> set (message rand n). c \<noteq> 0" by (simp add: message_def random_char_nonzero)
  then show "takeWhile (\<lambda>c. c \<noteq> 0) d = message rand n" by (subst d, subst takeWhile_append2) auto
qed

lemma fill_byte:
  assumes "take i d = take i (message rand n)" "i < 20" "length d = 4096"
  shows "take (Suc i) (d[i := random_char (rand (20 * n + i))]) = take (Suc i) (message rand n)"
  using assms by (simp add: take_Suc_update take_Suc_conv_app_nth) (simp add: message_def)

lemma async_sender_keeps:
  assumes "async_inv rand s" "async_sender_run rand s = Some t"
  shows "async_inv rand t"
proof (cases "async_sender s")
  case (AFill n i)
  have i: "i < 20" "take i (data_buffer s) = take i (message rand n)" "length (data_buffer s) = 4096"
    using assms(1) AFill by (simp_all add: async_inv_def)
  note fill = fill_byte [OF i(2,1,3)]
  show ?thesis
  proof (cases "i = 19")
    case True
    with fill assms AFill show ?thesis by (auto simp: async_inv_def async_sender_run_def SEND_DATA_LENGTH_def)
  next
    case False
    with fill i(1) assms AFill show ?thesis
      by (auto simp: async_inv_def async_sender_run_def SEND_DATA_LENGTH_def)
  qed
next
  case (ATerminate n)
  then have "take 21 ((data_buffer s)[20 := 0]) = message rand n @ [0]"
    using assms(1) take_Suc_update [of 20 "data_buffer s" 0] by (simp add: async_inv_def)
  with assms ATerminate show ?thesis
    by (auto simp: async_inv_def async_sender_run_def SEND_DATA_LENGTH_def)
next
  case (AWait n)
  with assms show ?thesis
    by (cases "async_client s") (auto simp: async_inv_def async_sender_run_def split: if_splits)
qed (use assms in \<open>auto simp: async_inv_def async_sender_run_def\<close>)

lemma async_client_keeps:
  assumes "async_inv rand s" "notification_event_loop s = Some t"
  shows "async_inv rand t"
proof (cases "async_sender s")
  case (AWait n)
  show ?thesis
  proof (cases "async_client s")
    case CHandle
    with assms AWait have "take 21 (data_buffer s) = message rand n @ [0]" by (simp add: async_inv_def)
    with assms AWait CHandle message_string [OF this] show ?thesis
      by (auto simp: async_inv_def notification_event_loop_def event_handler_def)
  qed (use assms AWait in \<open>auto simp: async_inv_def notification_event_loop_def event_handler_reply_def split: if_splits\<close>)
qed (use assms in \<open>auto simp: async_inv_def notification_event_loop_def split: if_splits\<close>)

fun async_rank :: "async_sender_pc \<Rightarrow> async_client_pc \<Rightarrow> bool \<Rightarrow> nat" where
  "async_rank (AFill n i) c cn = 100 * (10 - n) - i"
| "async_rank (ATerminate n) c cn = 100 * (10 - n) - 30"
| "async_rank (ASignal n) c cn = 100 * (10 - n) - 31"
| "async_rank (AWait n) c cn =
     100 * (10 - n) - (case c of CWait \<Rightarrow> if cn then 32 else 35 | CHandle \<Rightarrow> 33 | CReply \<Rightarrow> 34)"
| "async_rank AFinished c cn = 0"

definition async_remaining :: "async_system \<Rightarrow> nat" where
  "async_remaining s = async_rank (async_sender s) (async_client s) (client_note s)"

lemma async_progress:
  assumes "async_inv rand s" "async_sender s \<noteq> AFinished"
  shows "\<exists>t. async_step rand s t \<and> async_remaining t < async_remaining s"
proof -
  have "\<exists>t. (async_sender_run rand s = Some t \<or> notification_event_loop s = Some t) \<and>
      async_remaining t < async_remaining s"
  proof (cases "async_sender s")
    case (AWait n)
    then have inv: "n < 10" "take 21 (data_buffer s) = message rand n @ [0]"
      and phase: "async_phase rand (AWait n) (async_client s) (sender_note s) (client_note s) (data_buffer s) (length (shown s))"
      using assms(1) by (simp_all add: async_inv_def)
    from AWait inv phase message_string [OF inv(2)] show ?thesis
      by (cases "async_client s")
        (auto simp: async_sender_run_def notification_event_loop_def event_handler_def event_handler_reply_def
          async_remaining_def)
  qed (use assms in \<open>auto simp: async_inv_def async_sender_run_def SEND_DATA_LENGTH_def async_remaining_def\<close>)
  then show ?thesis by (blast intro: async_step.intros)
qed

interpretation handover: finishing_protocol "async_step rand" async_start "async_inv rand"
    "\<lambda>s. buffer_owner (async_sender s) (async_client s)"
    "\<lambda>i s. i = 0 \<and> (\<exists>n k. async_sender s = AFill n k \<or> async_sender s = ATerminate n) \<or> i = 1 \<and> async_client s = CHandle"
    "\<lambda>s. async_sender s = AFinished" async_remaining for rand
proof unfold_locales
  show "async_inv rand async_start" by (simp add: async_inv_def async_start_def)
  show "async_inv rand t" if "async_inv rand s" "async_step rand s t" for s t
    using that by (auto elim!: async_step.cases intro: async_sender_keeps async_client_keeps)
  show "buffer_owner (async_sender s) (async_client s) = Some i"
    if "async_inv rand s"
      "i = 0 \<and> (\<exists>n k. async_sender s = AFill n k \<or> async_sender s = ATerminate n) \<or> i = 1 \<and> async_client s = CHandle"
    for s i
    using that by (cases "async_sender s") (auto simp: async_inv_def)
qed (use async_progress in blast)

text \<open>
  Property C23. The hand-over delivers: in every interleaving of the sender's writes and the client, the two never use the
  buffer at the same time, what the client has printed is the first of the ten random strings in
  order, each whole, and from every state the system can go on until all ten have been printed.
\<close>

theorem handover_delivers:
  assumes "(async_step rand)\<^sup>*\<^sup>* async_start s"
  shows "\<not> (async_client s = CHandle \<and> (\<exists>n i. async_sender s = AFill n i \<or> async_sender s = ATerminate n)) \<and>
    shown s = map (message rand) [0..<length (shown s)] \<and> length (shown s) \<le> 10 \<and>
    (\<exists>t. (async_step rand)\<^sup>*\<^sup>* s t \<and> async_sender t = AFinished \<and> shown t = map (message rand) [0..<10])"
proof -
  have inv: "async_inv rand s" by (rule handover.reachable_inv [OF assms])
  have "\<not> (async_client s = CHandle \<and> (\<exists>n i. async_sender s = AFill n i \<or> async_sender s = ATerminate n))"
    using handover.exclusive [OF assms, of 0 1] by auto
  moreover have "shown s = map (message rand) [0..<length (shown s)]" using inv by (simp add: async_inv_def)
  moreover have "length (shown s) \<le> 10"
    using inv by (cases "async_sender s"; cases "async_client s") (auto simp: async_inv_def)
  moreover obtain t where t: "(async_step rand)\<^sup>*\<^sup>* s t" "async_inv rand t" "async_sender t = AFinished"
    using handover.can_finish [OF assms] by blast
  then have "shown t = map (message rand) [0..<10]" by (auto simp: async_inv_def)
  ultimately show ?thesis using t(1,3) by blast
qed

theorem handover_delivers_witness:
  "\<exists>s t. async_sender_run (\<lambda>k. k) async_start = Some s \<and> (async_step (\<lambda>k. k))\<^sup>*\<^sup>* s t \<and>
     shown t = map (message (\<lambda>k. k)) [0..<10]"
proof -
  have "async_sender_run (\<lambda>k. k) async_start \<noteq> None" by (simp add: async_sender_run_def async_start_def)
  then obtain s where s: "async_sender_run (\<lambda>k. k) async_start = Some s" by blast
  then have "(async_step (\<lambda>k. k))\<^sup>*\<^sup>* async_start s" by (blast intro: async_step.intros)
  from handover_delivers [OF this] s show ?thesis by blast
qed

section \<open>A call that waits for an event\<close>

text \<open>
  \<^verbatim>\<open>binary-semaphore\<close>: the thread that serves \<open>echo\<close> stores its argument, registers a callback and waits
  on a semaphore, which is 0 at first; the callback, on another thread, writes the result and posts.
  The other component emits the event again and again.
\<close>

datatype echo_pc = EchoCall | EchoRegister | EchoWait | EchoDone u32

datatype callback_pc = CallbackIdle | CallbackWrite | CallbackPost

record binsem_server =
  global_arg :: u32
  echo_ret :: u32
  callback_registered :: bool
  binsem :: bool
  ready_pending :: bool
  echo_thread :: echo_pc
  callback_thread :: callback_pc

definition echo_echo :: "u32 \<Rightarrow> binsem_server \<Rightarrow> binsem_server option" where
  "echo_echo i s =
     (case echo_thread s of
        EchoCall \<Rightarrow> Some (s\<lparr>global_arg := i, echo_thread := EchoRegister\<rparr>)
      | EchoRegister \<Rightarrow> Some (s\<lparr>callback_registered := True, echo_thread := EchoWait\<rparr>)
      | EchoWait \<Rightarrow> if binsem s then Some (s\<lparr>binsem := False, echo_thread := EchoDone (echo_ret s)\<rparr>) else None
      | EchoDone r \<Rightarrow> None)"

definition binsem_callback :: "binsem_server \<Rightarrow> binsem_server option" where
  "binsem_callback s =
     (case callback_thread s of
        CallbackIdle \<Rightarrow>
          if ready_pending s \<and> callback_registered s
          then Some (s\<lparr>ready_pending := False, callback_registered := False, callback_thread := CallbackWrite\<rparr>)
          else None
      | CallbackWrite \<Rightarrow> Some (s\<lparr>echo_ret := global_arg s, callback_thread := CallbackPost\<rparr>)
      | CallbackPost \<Rightarrow> Some (s\<lparr>binsem := True, callback_thread := CallbackIdle\<rparr>))"

definition ready_emit :: "binsem_server \<Rightarrow> binsem_server" where
  "ready_emit s = s\<lparr>ready_pending := True\<rparr>"

inductive binsem_step :: "u32 \<Rightarrow> binsem_server \<Rightarrow> binsem_server \<Rightarrow> bool" for i where
  "echo_echo i s = Some t \<Longrightarrow> binsem_step i s t"
| "binsem_callback s = Some t \<Longrightarrow> binsem_step i s t"
| "binsem_step i s (ready_emit s)"

definition binsem_start :: "u32 \<Rightarrow> u32 \<Rightarrow> binsem_server" where
  "binsem_start g r =
     \<lparr>global_arg = g, echo_ret = r, callback_registered = False, binsem = False, ready_pending = False,
      echo_thread = EchoCall, callback_thread = CallbackIdle\<rparr>"

definition binsem_inv :: "u32 \<Rightarrow> binsem_server \<Rightarrow> bool" where
  "binsem_inv i s \<longleftrightarrow>
     (case echo_thread s of
        EchoCall \<Rightarrow> callback_thread s = CallbackIdle \<and> \<not> callback_registered s \<and> \<not> binsem s
      | EchoRegister \<Rightarrow> global_arg s = i \<and> callback_thread s = CallbackIdle \<and> \<not> callback_registered s \<and> \<not> binsem s
      | EchoWait \<Rightarrow> global_arg s = i \<and>
          (case callback_thread s of
             CallbackIdle \<Rightarrow> callback_registered s \<and> \<not> binsem s \<or> \<not> callback_registered s \<and> binsem s \<and> echo_ret s = i
           | CallbackWrite \<Rightarrow> \<not> callback_registered s \<and> \<not> binsem s
           | CallbackPost \<Rightarrow> \<not> callback_registered s \<and> \<not> binsem s \<and> echo_ret s = i)
      | EchoDone r \<Rightarrow> r = i \<and> callback_thread s = CallbackIdle \<and> \<not> callback_registered s \<and> \<not> binsem s)"

definition binsem_remaining :: "binsem_server \<Rightarrow> nat" where
  "binsem_remaining s =
     (case echo_thread s of EchoCall \<Rightarrow> 20 | EchoRegister \<Rightarrow> 10 | EchoWait \<Rightarrow> 8 | EchoDone r \<Rightarrow> 0) -
     (if echo_thread s \<noteq> EchoWait then 0
      else case callback_thread s of
        CallbackIdle \<Rightarrow> if binsem s then 4 else if ready_pending s then 1 else 0
      | CallbackWrite \<Rightarrow> 2 | CallbackPost \<Rightarrow> 3)"

lemma binsem_inv_echo: "binsem_inv i s \<Longrightarrow> echo_echo i s = Some t \<Longrightarrow> binsem_inv i t"
  by (cases "echo_thread s"; cases "callback_thread s") (auto simp: binsem_inv_def echo_echo_def split: if_splits)

lemma binsem_inv_callback: "binsem_inv i s \<Longrightarrow> binsem_callback s = Some t \<Longrightarrow> binsem_inv i t"
  by (cases "callback_thread s"; cases "echo_thread s") (auto simp: binsem_inv_def binsem_callback_def split: if_splits)

lemma binsem_inv_emit: "binsem_inv i s \<Longrightarrow> binsem_inv i (ready_emit s)"
  by (simp add: binsem_inv_def ready_emit_def cong: echo_pc.case_cong callback_pc.case_cong)

lemma binsem_inv_step: "binsem_inv i s \<Longrightarrow> binsem_step i s t \<Longrightarrow> binsem_inv i t"
  by (auto elim!: binsem_step.cases intro: binsem_inv_echo binsem_inv_callback binsem_inv_emit)

lemma binsem_progress:
  assumes "binsem_inv i s" "\<nexists>r. echo_thread s = EchoDone r"
  shows "\<exists>t. binsem_step i s t \<and> binsem_remaining t < binsem_remaining s"
proof -
  consider "echo_thread s \<noteq> EchoWait \<or> binsem s"
    | "echo_thread s = EchoWait" "\<not> binsem s" "callback_thread s = CallbackIdle" "\<not> ready_pending s"
    | "echo_thread s = EchoWait" "\<not> binsem s" "callback_thread s \<noteq> CallbackIdle \<or> ready_pending s"
    by blast
  then show ?thesis
  proof cases
    case 1
    with assms have "\<exists>t. echo_echo i s = Some t \<and> binsem_remaining t < binsem_remaining s"
      by (cases "echo_thread s"; cases "callback_thread s")
        (simp_all add: binsem_inv_def echo_echo_def binsem_remaining_def)
    then show ?thesis by (blast intro: binsem_step.intros)
  next
    case 2
    then have "binsem_remaining (ready_emit s) < binsem_remaining s"
      by (simp add: ready_emit_def binsem_remaining_def)
    then show ?thesis by (blast intro: binsem_step.intros)
  next
    case 3
    with assms have "\<exists>t. binsem_callback s = Some t \<and> binsem_remaining t < binsem_remaining s"
      by (cases "callback_thread s") (auto simp: binsem_inv_def binsem_callback_def binsem_remaining_def)
    then show ?thesis by (blast intro: binsem_step.intros)
  qed
qed

interpretation echo_call: finishing_protocol "binsem_step i" "binsem_start g r" "binsem_inv i"
    "\<lambda>s. if callback_thread s = CallbackWrite then Some 1 else if echo_thread s = EchoCall then Some 0 else None"
    "\<lambda>k s. k = 0 \<and> echo_thread s = EchoCall \<or> k = 1 \<and> callback_thread s = CallbackWrite"
    "\<lambda>s. \<exists>v. echo_thread s = EchoDone v" binsem_remaining for i g r
proof unfold_locales
  show "binsem_inv i (binsem_start g r)" by (simp add: binsem_inv_def binsem_start_def)
qed (use binsem_inv_step binsem_progress in \<open>auto simp: binsem_inv_def\<close>)

lemma echo_returns:
  assumes "(binsem_step i)\<^sup>*\<^sup>* (binsem_start g r) s"
  shows "(\<forall>v. echo_thread s = EchoDone v \<longrightarrow> v = i) \<and> (\<exists>t. (binsem_step i)\<^sup>*\<^sup>* s t \<and> echo_thread t = EchoDone i)"
proof -
  have "binsem_inv i s" by (rule echo_call.reachable_inv [OF assms])
  moreover obtain t v where "(binsem_step i)\<^sup>*\<^sup>* s t" "binsem_inv i t" "echo_thread t = EchoDone v"
    using echo_call.can_finish [OF assms] by blast
  ultimately show ?thesis by (auto simp: binsem_inv_def)
qed

section \<open>A callback that counts\<close>

text \<open>\<open>event-driven\<close>: an event that finds no callback registered stays unhandled.\<close>

definition MAX_COUNT :: int where "MAX_COUNT = 100"

record collector =
  event_count :: int
  event_registered :: bool
  got_printed :: "int list"

definition collector_callback :: "collector \<Rightarrow> collector" where
  "collector_callback s =
     (let s = s\<lparr>event_count := event_count s + 1\<rparr> in
      if event_count s = MAX_COUNT then s\<lparr>got_printed := got_printed s @ [event_count s]\<rparr>
      else s\<lparr>event_registered := True\<rparr>)"

definition collector_run :: collector where
  "collector_run = \<lparr>event_count = 0, event_registered = True, got_printed = []\<rparr>"

definition collector_event :: "collector \<Rightarrow> collector" where
  "collector_event s = (if event_registered s then collector_callback (s\<lparr>event_registered := False\<rparr>) else s)"

lemma collector_counts:
  "(collector_event ^^ n) collector_run =
     \<lparr>event_count = int (min n 100), event_registered = (n < 100), got_printed = (if n < 100 then [] else [100])\<rparr>"
proof (induction n)
  case (Suc n)
  then show ?case
    by (cases "n < 99") (auto simp: collector_event_def collector_callback_def MAX_COUNT_def Let_def min_def)
qed (simp add: collector_run_def)

section \<open>Polling\<close>

text \<open>
  \<open>testsel4notification\<close>: the connector may count pending events or keep only one; the run, with its
  assertions, holds for both. The events pending are the state.
\<close>

definition n_notify_me :: "bool \<Rightarrow> nat \<Rightarrow> nat" where
  "n_notify_me counting e = (if counting then e + 1 else 1)"

definition e_poll :: "nat \<Rightarrow> nat \<times> nat" where
  "e_poll e = (if 0 < e then (1, e - 1) else (0, 0))"

definition assert_poll :: "nat \<Rightarrow> nat \<Rightarrow> nat result" where
  "assert_poll expected e =
     (let (result, e) = e_poll e in rbind (c_assert (result = expected)) (\<lambda>_. Inr e))"

function drain :: "nat \<Rightarrow> nat" where
  "drain e = (if fst (e_poll e) \<noteq> 0 then drain (snd (e_poll e)) else snd (e_poll e))"
  by pat_completeness auto

termination by (relation "measure id") (auto simp: e_poll_def split: if_splits)

declare drain.simps [simp del]

text \<open>Waiting takes one event; with none it would not return.\<close>

definition e_wait :: "nat \<Rightarrow> nat option" where
  "e_wait e = (if 0 < e then Some (e - 1) else None)"

definition notification_run :: "bool \<Rightarrow> nat option result" where
  "notification_run counting =
     rbind (assert_poll 0 0) (\<lambda>e.
     rbind (rfold (\<lambda>_. assert_poll 0) (replicate 10 ()) e) (\<lambda>e.
     rbind (assert_poll 1 (n_notify_me counting e)) (\<lambda>e.
     rbind (assert_poll 0 e) (\<lambda>e.
     rbind (assert_poll 1 (n_notify_me counting (n_notify_me counting e))) (\<lambda>e.
     case e_wait (n_notify_me counting (drain e)) of
       None \<Rightarrow> Inr None
     | Some e \<Rightarrow> rbind (assert_poll 0 e) (\<lambda>e. Inr (Some e)))))))"

lemma drain_zero: "drain e = 0"
  by (induction e rule: drain.induct) (subst drain.simps, simp add: e_poll_def)

lemma notification_run_ok: "notification_run counting = Inr (Some 0)"
proof -
  have "rfold (\<lambda>_. assert_poll 0) (replicate n ()) 0 = Inr 0" for n
    by (induction n) (simp_all add: assert_poll_def e_poll_def)
  then show ?thesis
    by (simp add: notification_run_def drain_zero)
      (simp add: assert_poll_def e_poll_def n_notify_me_def e_wait_def)
qed

end
