(* ===== verification/Rpc_Services.thy ===== *)
theory Rpc_Services
  imports Camkes_Prelude
begin

text \<open>
  Services called by RPC and their clients: the adders of \<^verbatim>\<open>apps/adder\<close>, over pointers into a data
  port, and of \<^verbatim>\<open>apps/RPCOverMultiSharedData\<close>, the multiplier of \<^verbatim>\<open>apps/multiplier\<close>, and the small services of
  \<^verbatim>\<open>apps/rotate\<close>, \<^verbatim>\<open>apps/swapcounter\<close>, \<^verbatim>\<open>apps/testrefin\<close>, \<^verbatim>\<open>apps/testgrouping\<close>,
  \<^verbatim>\<open>apps/testdataportptrwrap\<close>, \<^verbatim>\<open>apps/testdataportbifurcate\<close> and \<^verbatim>\<open>apps/multiclient\<close>. The stubs are
  generated: a call passes its values and returns the results. An \<open>int\<close> is a word of 32 bits that
  wraps around. A data port is its 32-bit cells and a pointer into it is an index; wrapping a
  pointer and unwrapping it in another component, by the data port library, gives the same place.
\<close>

section \<open>The adder\<close>

text \<open>
  \<open>struct payload\<close> at a place of the data port: the size, 100 operands and the result.
\<close>

definition PAYLOAD_OPERANDS :: nat where "PAYLOAD_OPERANDS = 100"

definition read_sz :: "u32 list \<Rightarrow> nat \<Rightarrow> u32 result" where
  "read_sz d p = array_read d p"

definition read_operand :: "u32 list \<Rightarrow> nat \<Rightarrow> nat \<Rightarrow> u32 result" where
  "read_operand d p i = (if i < PAYLOAD_OPERANDS then array_read d (p + 1 + i) else Inl IndexError)"

definition write_operand :: "nat \<Rightarrow> nat \<Rightarrow> u32 \<Rightarrow> u32 list \<Rightarrow> u32 list result" where
  "write_operand p i x d = (if i < PAYLOAD_OPERANDS then array_write d (p + 1 + i) x else Inl IndexError)"

definition read_result :: "u32 list \<Rightarrow> nat \<Rightarrow> u32 result" where
  "read_result d p = array_read d (p + 101)"

definition write_result :: "nat \<Rightarrow> u32 \<Rightarrow> u32 list \<Rightarrow> u32 list result" where
  "write_result p x d = array_write d (p + 101) x"

text \<open>The size is read again in each round; the call under \<open>rbind\<close> is made when it succeeds.\<close>

lemma rbind_cong [fundef_cong]:
  "r = r' \<Longrightarrow> (\<And>x. r' = Inr x \<Longrightarrow> f x = g x) \<Longrightarrow> rbind r f = rbind r' g"
  by (cases r') auto

function add_loop :: "nat \<Rightarrow> nat \<Rightarrow> nat \<Rightarrow> u32 list \<Rightarrow> u32 list result" where
  "add_loop p1 p2 i d =
     rbind (read_sz d p1) (\<lambda>sz.
     if int i < sint sz
     then rbind (read_operand d p1 i) (\<lambda>x.
          rbind (read_result d p2) (\<lambda>r.
          rbind (write_result p2 (r + x) d) (\<lambda>d'. add_loop p1 p2 (Suc i) d')))
     else Inr d)"
  by pat_completeness auto

termination
proof (relation "measure (\<lambda>(p1, p2, i, d). nat (2 ^ 31 - int i))", simp)
  fix p1 p2 i :: nat and d d' :: "u32 list" and sz x r :: u32
  assume "int i < sint sz"
  then show "((p1, p2, Suc i, d'), p1, p2, i, d) \<in> measure (\<lambda>(p1, p2, i, d). nat (2 ^ 31 - int i))"
    using sint_u32_less [of sz] by simp
qed

declare add_loop.simps [simp del]

definition adder_calculate :: "nat \<Rightarrow> u32 list \<Rightarrow> (nat \<times> u32 list) result" where
  "adder_calculate ptr d =
     rbind (write_result 512 0 d) (\<lambda>d.
     rbind (add_loop ptr 512 0 d) (\<lambda>d. Inr (512, d)))"

definition adder_operands :: "u32 list" where "adder_operands = [342, 74, 283, 37, 534]"

fun put_operands :: "nat \<Rightarrow> nat \<Rightarrow> u32 list \<Rightarrow> u32 list \<Rightarrow> u32 list result" where
  "put_operands p i [] d = Inr d"
| "put_operands p i (x # xs) d = rbind (write_operand p i x d) (put_operands p (Suc i) xs)"

definition adder_client :: "u32 list \<Rightarrow> (u32 \<times> u32 list) result" where
  "adder_client d =
     rbind (array_write d 256 (of_nat (length adder_operands))) (\<lambda>d.
     rbind (put_operands 256 0 adder_operands d) (\<lambda>d.
     rbind (adder_calculate 256 d) (\<lambda>(p, d).
     rbind (read_result d p) (\<lambda>r. Inr (r, d)))))"

text \<open>
  A payload of \<open>n\<close> operands before the result of the adder: the operands are added up in
  the result, and nothing else in the data port changes.
\<close>

lemma add_loop_sum:
  assumes "length d = 1024" "p + 101 \<le> 613" "d ! p = of_nat n" "n \<le> 100" "i \<le> n"
  shows "add_loop p 512 i d = Inr (d[613 := d ! 613 + sum_list (map (\<lambda>k. d ! (p + 1 + k)) [i..<n])])"
  using assms
proof (induction "n - i" arbitrary: i d)
  case 0
  then show ?case by (simp add: add_loop.simps read_sz_def sint_small)
next
  case (Suc m)
  let ?d = "d[613 := d ! 613 + d ! (p + 1 + i)]"
  have sz: "int i < sint (of_nat n :: u32)" using Suc.prems Suc.hyps(2) by (simp add: sint_small)
  have "i < 100" using Suc.prems Suc.hyps(2) by linarith
  then have "add_loop p 512 i d = add_loop p 512 (Suc i) ?d"
    using Suc.prems sz
    by (subst add_loop.simps)
      (simp add: read_sz_def read_operand_def read_result_def write_result_def PAYLOAD_OPERANDS_def)
  also have "\<dots> = Inr (?d[613 := ?d ! 613 + sum_list (map (\<lambda>k. ?d ! (p + 1 + k)) [Suc i..<n])])"
    by (rule Suc.hyps(1)) (use Suc.prems Suc.hyps(2) in auto)
  also have "map (\<lambda>k. ?d ! (p + 1 + k)) [Suc i..<n] = map (\<lambda>k. d ! (p + 1 + k)) [Suc i..<n]"
    using Suc.prems by (auto simp: nth_list_update)
  also have "?d[613 := ?d ! 613 + sum_list (map (\<lambda>k. d ! (p + 1 + k)) [Suc i..<n])] =
      d[613 := d ! 613 + sum_list (map (\<lambda>k. d ! (p + 1 + k)) [i..<n])]"
    using Suc.prems(1) Suc.hyps(2) by (simp add: upt_conv_Cons algebra_simps)
  finally show ?case .
qed

lemma adder_calculate_sum:
  assumes "length d = 1024" "p + 101 \<le> 613" "d ! p = of_nat n" "n \<le> 100"
  shows "adder_calculate p d = Inr (512, d[613 := sum_list (map (\<lambda>k. d ! (p + 1 + k)) [0..<n])])"
proof -
  let ?d = "d[613 := 0]"
  have "add_loop p 512 0 ?d = Inr (?d[613 := ?d ! 613 + sum_list (map (\<lambda>k. ?d ! (p + 1 + k)) [0..<n])])"
    by (rule add_loop_sum) (use assms in auto)
  moreover have "map (\<lambda>k. ?d ! (p + 1 + k)) [0..<n] = map (\<lambda>k. d ! (p + 1 + k)) [0..<n]"
    using assms by (auto simp: nth_list_update)
  ultimately show ?thesis using assms(1) by (simp add: adder_calculate_def write_result_def del: map_eq_conv)
qed

lemma put_operands_ok:
  assumes "length d = 1024" "i + length xs \<le> 100" "p + 101 \<le> 1024"
  shows "put_operands p i xs d = Inr (take (p + 1 + i) d @ xs @ drop (p + 1 + i + length xs) d)"
  using assms
proof (induction xs arbitrary: i d)
  case (Cons x xs)
  have "put_operands p (Suc i) xs (d[p + 1 + i := x]) =
      Inr (take (p + 1 + Suc i) (d[p + 1 + i := x]) @ xs @ drop (p + 1 + Suc i + length xs) (d[p + 1 + i := x]))"
    by (rule Cons.IH) (use Cons.prems in auto)
  moreover have "take (p + 1 + Suc i) (d[p + 1 + i := x]) = take (p + 1 + i) d @ [x]"
    using Cons.prems take_Suc_update [of "p + 1 + i" d x] by simp
  ultimately show ?case
    using Cons.prems by (simp add: write_operand_def PAYLOAD_OPERANDS_def)
qed simp

text \<open>The client's question: 342 + 74 + 283 + 37 + 534.\<close>

lemma adder_client_answer:
  assumes "length d = 1024"
  shows "\<exists>d'. adder_client d = Inr (1270, d')"
proof -
  let ?d0 = "d[256 := 5]"
  let ?d1 = "take 257 ?d0 @ adder_operands @ drop 262 ?d0"
  have ops: "length adder_operands = 5" by (simp add: adder_operands_def)
  have put: "put_operands 256 0 adder_operands ?d0 = Inr ?d1"
    using put_operands_ok [of ?d0 0 adder_operands 256] assms ops by simp
  have d1: "length ?d1 = 1024" "?d1 ! 256 = of_nat 5"
    using assms ops by (simp_all add: nth_append)
  have "map (\<lambda>k. ?d1 ! (256 + 1 + k)) [0..<5] = adder_operands"
    using assms ops by (intro nth_equalityI) (auto simp: nth_append)
  then have "adder_calculate 256 ?d1 = Inr (512, ?d1[613 := sum_list adder_operands])"
    using adder_calculate_sum [OF d1(1) _ d1(2)] by simp
  then show ?thesis
    using put d1(1) assms ops
    by (simp add: adder_client_def read_result_def) (simp add: adder_operands_def)
qed

section \<open>The adder over shared data\<close>

text \<open>The payload is passed by reference: the service adds its operands up in its own result.\<close>

record payload =
  pl_sz :: u32
  pl_operands :: "u32 list"
  pl_result :: u32

definition shared_operands :: nat where "shared_operands = 1000"

fun shared_add_loop :: "nat \<Rightarrow> nat \<Rightarrow> payload \<Rightarrow> payload result" where
  "shared_add_loop 0 i data = Inr data"
| "shared_add_loop (Suc n) i data =
     rbind (array_read (pl_operands data) i) (\<lambda>x.
     shared_add_loop n (Suc i) (data\<lparr>pl_result := pl_result data + x\<rparr>))"

definition shared_calculate :: "payload \<Rightarrow> payload result" where
  "shared_calculate data = shared_add_loop (nat (sint (pl_sz data))) 0 (data\<lparr>pl_result := 0\<rparr>)"

definition shared_client :: "u32 result" where
  "shared_client =
     rbind (shared_calculate \<lparr>pl_sz = 5, pl_operands = overwrite (replicate shared_operands 0) adder_operands,
                             pl_result = 0\<rparr>) (\<lambda>p.
     Inr (pl_result p))"

lemma shared_add_loop_sum:
  "i + n \<le> length (pl_operands data) \<Longrightarrow>
   shared_add_loop n i data =
     Inr (data\<lparr>pl_result := pl_result data + sum_list (take n (drop i (pl_operands data)))\<rparr>)"
proof (induction n arbitrary: i data)
  case (Suc n)
  then have "drop i (pl_operands data) = pl_operands data ! i # drop (Suc i) (pl_operands data)"
    by (simp add: Cons_nth_drop_Suc)
  with Suc show ?case by (simp add: add.assoc)
qed simp

lemma shared_client_answer: "shared_client = Inr 1270"
  using shared_add_loop_sum [of 0 5 "\<lparr>pl_sz = 5, pl_operands = overwrite (replicate shared_operands 0) adder_operands,
    pl_result = 0\<rparr>"]
  by (simp add: shared_client_def shared_calculate_def overwrite_def shared_operands_def adder_operands_def)

section \<open>The multiplier\<close>

text \<open>
  The product of the operands, a copy of the second array, and that array with the product of
  its elements in its first place and its length set to one. \<open>malloc_ok\<close>: the allocation of the copy
  succeeds.
\<close>

definition multiply_inplace :: "u32 list \<Rightarrow> u32 list result" where
  "multiply_inplace inplace =
     rfold (\<lambda>i xs.
       rbind (array_read xs 0) (\<lambda>x.
       rbind (array_read xs i) (\<lambda>y. array_write xs 0 (x * y)))) [1..<length inplace] inplace"

definition multiplier_calculate ::
  "bool \<Rightarrow> u32 list \<Rightarrow> u32 list \<Rightarrow> (u32 \<times> u32 list \<times> u32 list \<times> nat) result" where
  "multiplier_calculate malloc_ok operands inplace =
     (let total = foldl (*) 1 operands in
      rbind (c_assert malloc_ok) (\<lambda>_.
      rbind (multiply_inplace inplace) (\<lambda>xs. Inr (total, inplace, xs, 1))))"

definition multiplier_client :: "bool \<Rightarrow> (u32 \<times> u32 \<times> u32 list) result" where
  "multiplier_client malloc_ok =
     rbind (multiplier_calculate malloc_ok [342, 74, 283] [7, 8]) (\<lambda>(answer, other, inplace, inplace_sz).
     rbind (array_read inplace 0) (\<lambda>x. Inr (answer, x, other)))"

lemma multiply_inplace_prod:
  assumes "xs \<noteq> []"
  shows "multiply_inplace xs = Inr (prod_list xs # tl xs)"
proof -
  have "rfold (\<lambda>i xs. rbind (array_read xs 0) (\<lambda>x. rbind (array_read xs i) (\<lambda>y. array_write xs 0 (x * y))))
      [1..<n] xs = Inr (prod_list (take n xs) # tl xs)" if "0 < n" "n \<le> length xs" for n
    using that
  proof (induction n)
    case (Suc n)
    show ?case
    proof (cases "n = 0")
      case True
      with assms show ?thesis by (cases xs) simp_all
    next
      case False
      let ?ys = "prod_list (take n xs) # tl xs"
      have "?ys ! n = xs ! n" using False by (cases xs; cases n) (use assms in auto)
      with False Suc show ?thesis by (simp add: rfold_append take_Suc_conv_app_nth)
    qed
  qed simp
  from this [of "length xs"] assms show ?thesis by (simp add: multiply_inplace_def)
qed

lemma foldl_times: "foldl (*) (a :: u32) xs = a * prod_list xs"
  by (induction xs arbitrary: a) (simp_all add: mult.assoc)

lemma multiplier_products:
  "inplace \<noteq> [] \<Longrightarrow>
   multiplier_calculate True operands inplace =
     Inr (prod_list operands, inplace, prod_list inplace # tl inplace, 1)"
  by (simp add: multiplier_calculate_def multiply_inplace_prod foldl_times)

lemma multiplier_client_answer: "multiplier_client True = Inr (7162164, 56, [7, 8])"
  by (simp add: multiplier_client_def multiplier_products)

section \<open>Small services\<close>

text \<open>\<open>MyType_t\<close> is its one field.\<close>

definition s_rotate :: "u32 \<Rightarrow> u32 \<Rightarrow> u32 \<Rightarrow> u32 \<times> u32 \<times> u32" where
  "s_rotate a b c = (a, c, a)"

definition rotate_client :: "u32 \<times> u32 \<times> u32 \<times> u32" where
  "rotate_client = (let b = 2; (a, c, d) = s_rotate b 3 4 in (a, b, c, d))"

lemma rotate_client_values: "rotate_client = (2, 2, 4, 2)"
  by (simp add: rotate_client_def s_rotate_def)

text \<open>The two places may be the same one; the counter wraps around.\<close>

definition ss_swap :: "nat \<Rightarrow> nat \<Rightarrow> (nat \<Rightarrow> u32) \<Rightarrow> u32 \<Rightarrow> u32 \<times> (nat \<Rightarrow> u32) \<times> u32" where
  "ss_swap a b mem counter =
     (let temp = mem a; mem = mem(a := mem b); mem = mem(b := temp); counter = counter + 1
      in (counter, mem, counter))"

lemma swap_swaps: "ss_swap a b mem c = (c', mem', k) \<Longrightarrow> mem' a = mem b \<and> mem' b = mem a \<and> k = c + 1 \<and> c' = k"
  by (auto simp: ss_swap_def Let_def)

definition swap_client :: "u32 \<Rightarrow> u32 \<times> (nat \<Rightarrow> u32) \<times> u32" where
  "swap_client counter = ss_swap 0 1 ((\<lambda>_. 0)(0 := 3, 1 := 5)) counter"

text \<open>Parameters passed by reference: \<open>None\<close> is a null pointer. The struct is its 100 integers.\<close>

definition refin_p_echo :: "u32 option \<Rightarrow> u32 result" where
  "refin_p_echo x = (case x of None \<Rightarrow> Inl AssertionFailed | Some v \<Rightarrow> Inr v)"

definition refin_c_echo :: "u32 list option \<Rightarrow> u32 list option \<Rightarrow> u32 list result" where
  "refin_c_echo x y =
     (case x of None \<Rightarrow> Inl AssertionFailed
      | Some xs \<Rightarrow> (case y of None \<Rightarrow> Inl AssertionFailed | Some ys \<Rightarrow> c_memcpy ys xs))"

definition refin_client :: "unit result" where
  "refin_client =
     (let a = map of_nat [0..<100] in
      rbind (refin_p_echo (Some 42)) (\<lambda>r.
      rbind (c_assert (r = 42)) (\<lambda>_.
      rbind (refin_c_echo (Some a) (Some (replicate 100 0))) (\<lambda>b.
      rbind (rmap (\<lambda>i. rbind (array_read a i) (\<lambda>x. rbind (array_read b i) (\<lambda>y. c_assert (x = y)))) [0..<100]) (\<lambda>_.
      Inr ())))))"

lemma refin_client_ok: "refin_client = Inr ()"
proof -
  let ?a = "map of_nat [0..<100] :: u32 list"
  have "refin_c_echo (Some ?a) (Some (replicate 100 0)) = Inr ?a"
    by (simp add: refin_c_echo_def overwrite_def del: upt_rec_numeral)
  moreover have "rmap (\<lambda>i. rbind (array_read ?a i) (\<lambda>x. rbind (array_read ?a i) (\<lambda>y. c_assert (x = y)))) [0..<100] =
      Inr (map (\<lambda>_. ()) [0..<100])"
    by (rule rmap_total) (simp del: upt_rec_numeral)
  ultimately show ?thesis by (simp add: refin_client_def refin_p_echo_def Let_def del: upt_rec_numeral)
qed

text \<open>The chain of the assembly: seven components B between A and C.\<close>

definition group_p_increment :: "u32 \<Rightarrow> u32" where
  "group_p_increment x = x + 1"

definition group_p1_increment :: "(u32 \<Rightarrow> u32) \<Rightarrow> u32 \<Rightarrow> u32" where
  "group_p1_increment p2_increment x = (let y = p2_increment x in y + 1)"

definition group_run :: "(u32 \<Rightarrow> u32) \<Rightarrow> unit result" where
  "group_run p_increment = (let y = p_increment 0 in c_assert (y = 8))"

lemma group_chain: "(group_p1_increment ^^ n) group_p_increment x = x + 1 + of_nat n"
  by (induction n) (simp_all add: group_p1_increment_def group_p_increment_def Let_def algebra_simps)

lemma group_ok: "group_run ((group_p1_increment ^^ 7) group_p_increment) = Inr ()"
  by (simp add: group_run_def group_chain Let_def)

section \<open>Pointers handed on\<close>

text \<open>
  \<open>testdataportptrwrap\<close>: wrapping and unwrapping belong to the data port library and are
  parameters; an identifier of -1 is a failure. All components see one data port.
\<close>

definition ptr_server_post :: "(int \<Rightarrow> nat option) \<Rightarrow> int \<Rightarrow> u32 list \<Rightarrow> u32 list result" where
  "ptr_server_post unwrap ptr d =
     rbind (c_assert (ptr \<noteq> -1)) (\<lambda>_.
     case unwrap ptr of
       None \<Rightarrow> Inl AssertionFailed
     | Some x \<Rightarrow> rbind (array_read d x) (\<lambda>v. rbind (c_assert (v = 42)) (\<lambda>_. Inr d)))"

definition ptr_intermediary_post ::
  "(nat \<Rightarrow> int) \<Rightarrow> (int \<Rightarrow> nat option) \<Rightarrow> (int \<Rightarrow> u32 list \<Rightarrow> u32 list result) \<Rightarrow> int \<Rightarrow> u32 list \<Rightarrow> u32 list result" where
  "ptr_intermediary_post wrap unwrap p2_post ptr d =
     rbind (c_assert (ptr \<noteq> -1)) (\<lambda>_.
     case unwrap ptr of
       None \<Rightarrow> Inl AssertionFailed
     | Some x \<Rightarrow>
         rbind (array_read d x) (\<lambda>v.
         rbind (c_assert (v = 42)) (\<lambda>_.
         rbind (array_write d 8 v) (\<lambda>d'.
         rbind (c_assert (wrap 8 \<noteq> -1)) (\<lambda>_. p2_post (wrap 8) d')))))"

definition ptr_client :: "(nat \<Rightarrow> int) \<Rightarrow> (int \<Rightarrow> u32 list \<Rightarrow> u32 list result) \<Rightarrow> u32 list \<Rightarrow> u32 list result" where
  "ptr_client wrap p_post d =
     rbind (array_write d 4 42) (\<lambda>d.
     rbind (c_assert (wrap 4 \<noteq> -1)) (\<lambda>_. p_post (wrap 4) d))"

definition ptr_chain :: "(nat \<Rightarrow> int) \<Rightarrow> (int \<Rightarrow> nat option) \<Rightarrow> nat \<Rightarrow> int \<Rightarrow> u32 list \<Rightarrow> u32 list result" where
  "ptr_chain wrap unwrap n = (ptr_intermediary_post wrap unwrap ^^ n) (ptr_server_post unwrap)"

lemma ptr_chain_ok:
  assumes "\<And>i. wrap i \<noteq> -1" "\<And>i. unwrap (wrap i) = Some i" "8 < length d" "i < length d" "d ! i = 42"
  shows "\<exists>d'. ptr_chain wrap unwrap n (wrap i) d = Inr d'"
  using assms(3-)
proof (induction n arbitrary: i d)
  case 0
  then show ?case by (simp add: ptr_chain_def ptr_server_post_def assms(1,2))
next
  case (Suc n)
  have "\<exists>d'. ptr_chain wrap unwrap n (wrap 8) (d[8 := 42]) = Inr d'"
    by (rule Suc.IH) (use Suc.prems in auto)
  with Suc.prems show ?case by (simp add: ptr_chain_def ptr_intermediary_post_def assms(1,2))
qed

text \<open>With the two intermediaries of the assembly, in a data port of a page.\<close>

lemma ptr_client_ok:
  assumes "\<And>i. wrap i \<noteq> -1" "\<And>i. unwrap (wrap i) = Some i" "length d = 1024"
  shows "\<exists>d'. ptr_client wrap (ptr_chain wrap unwrap 2) d = Inr d'"
  using ptr_chain_ok [of wrap unwrap "d[4 := 42]" 4 2] assms by (simp add: ptr_client_def)

text \<open>
  \<open>testdataportbifurcate\<close>: four data ports of one component, each backed by a memory;
  the connection gives all of them the same.
\<close>

definition bifurcate_run :: "(nat \<Rightarrow> nat) \<Rightarrow> (nat \<Rightarrow> u32) \<Rightarrow> unit result" where
  "bifurcate_run backing mem =
     (let mem = mem(backing 1 := 42) in
      rbind (c_assert (mem (backing 2) = 42)) (\<lambda>_.
      let mem = mem(backing 2 := 43) in
      rbind (c_assert (mem (backing 3) = 43)) (\<lambda>_.
      let mem = mem(backing 3 := 44) in
      rbind (c_assert (mem (backing 4) = 44)) (\<lambda>_.
      let mem = mem(backing 4 := 45) in c_assert (mem (backing 1) = 45)))))"

lemma bifurcate_shared: "bifurcate_run (\<lambda>_. b) mem = Inr ()"
  by (simp add: bifurcate_run_def Let_def)

lemma bifurcate_detects: "inj backing \<Longrightarrow> mem (backing 2) \<noteq> 42 \<Longrightarrow> bifurcate_run backing mem = Inl AssertionFailed"
  by (simp add: bifurcate_run_def Let_def inj_eq)

text \<open>
  \<open>multiclient\<close>: the echo service numbers its calls, and puts its string into the data port of all clients
  before it emits its event.
\<close>

record echo_service =
  echo_count :: u32
  echo_port :: string
  echo_emits :: nat

definition s_echo_int :: "echo_service \<Rightarrow> u32 \<times> echo_service" where
  "s_echo_int s =
     (echo_count s, s\<lparr>echo_port := ''This string is in the dataport.'', echo_emits := echo_emits s + 1,
                      echo_count := echo_count s + 1\<rparr>)"

fun echo_calls :: "nat \<Rightarrow> echo_service \<Rightarrow> u32 list \<times> echo_service" where
  "echo_calls 0 s = ([], s)"
| "echo_calls (Suc n) s = (let (j, s1) = s_echo_int s; (js, s2) = echo_calls n s1 in (j # js, s2))"

lemma echo_calls_numbered:
  "echo_calls n s = (js, t) \<Longrightarrow>
   js = map (\<lambda>k. echo_count s + of_nat k) [0..<n] \<and> echo_emits t = echo_emits s + n"
proof (induction n arbitrary: s js)
  case (Suc n)
  let ?s = "snd (s_echo_int s)"
  obtain ks where ks: "echo_calls n ?s = (ks, t)" "js = echo_count s # ks"
    using Suc.prems by (auto simp: s_echo_int_def Let_def split: prod.splits)
  from Suc.IH [OF ks(1)] ks(2) show ?case
    by (simp add: upt_conv_Cons map_Suc_upt [symmetric] s_echo_int_def comp_def del: upt_Suc)
qed simp

section \<open>Both adders compute the same sum\<close>



end
