(* ===== verification/Mcs_Task.thy ===== *)
theory Mcs_Task
  imports Camkes_Prelude "HOL-Library.Sublist"
begin

text \<open>
  \<^verbatim>\<open>apps/mcs-scheduling/components/Task/src/task.c\<close>: a task that measures its share of the processor
  from the cycle counter. A gap of \<open>MAGIC_CYCLES\<close> or more between two readings is a
  preemption. The readings are the argument, in order; \<open>Inr None\<close> is a run that is still going on
  when they end. What the two arrays hold before they are written is an argument too.
\<close>

section \<open>The task\<close>

definition TEST_SIZE :: nat where "TEST_SIZE = 30"

definition MAGIC_CYCLES :: u64 where "MAGIC_CYCLES = 500"

record task =
  prev :: u64
  ccount :: u64
  pcount :: nat
  ccounts :: "u64 list"
  tss :: "u64 list"

definition task_round :: "u64 \<Rightarrow> task \<Rightarrow> task result" where
  "task_round ts s =
     rbind (c_assert (ts > prev s)) (\<lambda>_.
     let diff = ts - prev s in
     if diff < MAGIC_CYCLES then Inr (s\<lparr>ccount := ccount s + diff, prev := ts\<rparr>)
     else rbind (array_write (ccounts s) (pcount s) (ccount s)) (\<lambda>cs.
          let n = pcount s + 1 in
          rbind (if n < TEST_SIZE then array_write (tss s) n ts else Inr (tss s)) (\<lambda>starts.
          Inr (s\<lparr>ccounts := cs, pcount := n, tss := starts, ccount := 0, prev := ts\<rparr>))))"

fun task_loop :: "u64 list \<Rightarrow> task \<Rightarrow> (task \<times> u64 list) option result" where
  "task_loop [] s = Inr (if pcount s < TEST_SIZE then None else Some (s, []))"
| "task_loop (ts # rest) s =
     (if pcount s < TEST_SIZE then rbind (task_round ts s) (task_loop rest) else Inr (Some (s, ts # rest)))"

text \<open>What is printed: the starts, the cycles consumed, and the percentage. A division by zero is \<open>Aborted\<close>.\<close>

record task_report =
  starts :: "u64 list"
  consumed :: "u64 list"
  utilization :: u64

definition task_report :: "u64 \<Rightarrow> task \<Rightarrow> task_report result" where
  "task_report ts s =
     rbind (array_read (tss s) 0) (\<lambda>t0.
     let util = sum_list (ccounts s) in
     if ts - t0 = 0 then Inl Aborted
     else Inr \<lparr>starts = tss s, consumed = ccounts s, utilization = (util * 100) div (ts - t0)\<rparr>)"

definition task_run :: "u64 list \<Rightarrow> u64 list \<Rightarrow> u64 list \<Rightarrow> task_report option result" where
  "task_run readings ccounts0 tss0 =
     (case readings of
        [] \<Rightarrow> Inr None
      | p # rest \<Rightarrow>
          rbind (array_write tss0 0 p) (\<lambda>tss1.
          rbind (task_loop rest \<lparr>prev = p, ccount = 0, pcount = 0, ccounts = ccounts0, tss = tss1\<rparr>) (\<lambda>r.
          case r of
            None \<Rightarrow> Inr None
          | Some (s, []) \<Rightarrow> Inr None
          | Some (s, ts # _) \<Rightarrow> rbind (task_report ts s) (\<lambda>rep. Inr (Some rep)))))"

section \<open>The share is a percentage\<close>

lemma unat_sum_list: "sum_list (map unat xs) < 2 ^ 64 \<Longrightarrow> unat (sum_list (xs :: u64 list)) = sum_list (map unat xs)"
proof (induction xs)
  case (Cons x xs)
  then have "unat x + unat (sum_list xs) < 2 ^ 64" by simp
  with Cons show ?case by (simp add: unat_word_ariths)
qed simp

lemma unat_minus: "a \<le> b \<Longrightarrow> unat (b - a :: u64) = unat b - unat a"
  by (simp add: unat_sub)

text \<open>What has been counted lies between the first reading and the last.\<close>

definition task_inv :: "u64 \<Rightarrow> task \<Rightarrow> bool" where
  "task_inv p s \<longleftrightarrow>
     length (ccounts s) = 30 \<and> length (tss s) = 30 \<and> tss s ! 0 = p \<and> pcount s \<le> 30 \<and>
     unat p + sum_list (map unat (take (pcount s) (ccounts s))) + unat (ccount s) \<le> unat (prev s)"

lemma task_round_inv:
  assumes "task_inv p s" "pcount s < 30" "prev s < ts"
  shows "\<exists>t. task_round ts s = Inr t \<and> task_inv p t \<and> prev t = ts"
proof -
  have d: "unat (ts - prev s) = unat ts - unat (prev s)" "unat (prev s) < unat ts"
    using assms(3) unat_minus [of "prev s" ts] by (simp_all add: word_less_nat_alt less_imp_le)
  have bound: "unat p + sum_list (map unat (take (pcount s) (ccounts s))) + unat (ccount s) \<le> unat (prev s)"
    using assms(1) by (simp add: task_inv_def)
  have ts64: "unat ts < 2 ^ 64" using unsigned_less [of ts] by simp
  show ?thesis
  proof (cases "ts - prev s < MAGIC_CYCLES")
    case True
    have "unat (ccount s) + unat (ts - prev s) < 2 ^ 64" using d bound ts64 by linarith
    then have "unat (ccount s + (ts - prev s)) = unat (ccount s) + unat (ts - prev s)"
      by (simp add: unat_word_ariths)
    with True assms d bound show ?thesis by (simp add: task_round_def task_inv_def)
  next
    case False
    have "take (Suc (pcount s)) ((ccounts s)[pcount s := ccount s]) = take (pcount s) (ccounts s) @ [ccount s]"
      using assms by (simp add: take_Suc_update task_inv_def)
    with False assms d bound show ?thesis
      by (simp add: task_round_def task_inv_def TEST_SIZE_def)
  qed
qed

lemma task_loop_inv:
  assumes "task_loop readings s = Inr (Some (t, rest))" "task_inv p s" "sorted_wrt (<) (prev s # readings)"
  shows "task_inv p t \<and> pcount t = 30 \<and> sorted_wrt (<) (prev t # rest) \<and> suffix rest readings"
  using assms
proof (induction readings arbitrary: s)
  case Nil
  then show ?case by (auto simp: task_inv_def TEST_SIZE_def split: if_splits)
next
  case (Cons r readings)
  show ?case
  proof (cases "pcount s < 30")
    case True
    obtain u where u: "task_round r s = Inr u" "task_inv p u" "prev u = r"
      using task_round_inv [OF Cons.prems(2) True, of r] Cons.prems(3) by auto
    have "task_loop readings u = Inr (Some (t, rest))" using Cons.prems(1) True u(1) by (simp add: TEST_SIZE_def)
    from Cons.IH [OF this u(2)] u(3) Cons.prems(3) show ?thesis by (auto simp: suffix_def)
  next
    case False
    with Cons.prems show ?thesis by (auto simp: task_inv_def TEST_SIZE_def)
  qed
qed

lemma task_loop_total:
  "task_inv p s \<Longrightarrow> sorted_wrt (<) (prev s # readings) \<Longrightarrow> \<exists>r. task_loop readings s = Inr r"
proof (induction readings arbitrary: s)
  case (Cons r readings)
  show ?case
  proof (cases "pcount s < 30")
    case True
    obtain u where "task_round r s = Inr u" "task_inv p u" "prev u = r"
      using task_round_inv [OF Cons.prems(1) True, of r] Cons.prems(2) by auto
    with True Cons.IH [of u] Cons.prems(2) show ?thesis by (auto simp: TEST_SIZE_def)
  qed (simp add: TEST_SIZE_def)
qed simp

lemma percentage_bound: "s \<le> (n :: nat) \<Longrightarrow> s * 100 div n \<le> 100"
  by (cases "n = 0") (simp_all add: div_le_mono2 less_mult_imp_div_less flip: less_Suc_eq_le)

lemma task_report_share:
  assumes "task_inv p t" "pcount t = 30" "prev t < ts" "(unat ts - unat p) * 100 < 2 ^ 64"
  shows "\<exists>rep. task_report ts t = Inr rep \<and> starts rep = tss t \<and> consumed rep = ccounts t \<and> utilization rep \<le> 100"
proof -
  let ?s = "sum_list (map unat (ccounts t))"
  have inv: "tss t ! 0 = p" "length (tss t) = 30" "unat p + ?s \<le> unat (prev t)"
    using assms(1,2) by (simp_all add: task_inv_def split: if_splits) (use assms(1) in \<open>simp add: task_inv_def\<close>)
  have less: "unat (prev t) < unat ts" using assms(3) by (simp add: word_less_nat_alt)
  have span: "unat (ts - p) = unat ts - unat p"
    using less inv(3) unat_minus [of p ts] by (simp add: word_le_nat_alt)
  have "?s \<le> unat ts - unat p" using inv(3) less by linarith
  then have s: "?s * 100 < 2 ^ 64" "?s \<le> unat (ts - p)" using assms(4) span by linarith+
  then have "unat (sum_list (ccounts t)) = ?s" by (intro unat_sum_list) linarith
  then have "unat (sum_list (ccounts t) * 100) = ?s * 100" using s(1) by (simp add: unat_word_ariths)
  then have "unat (sum_list (ccounts t) * 100 div (ts - p)) \<le> 100"
    using percentage_bound [OF s(2)] by (simp add: unat_div_distrib)
  then have "sum_list (ccounts t) * 100 div (ts - p) \<le> 100" by (simp add: word_le_nat_alt)
  moreover have "ts - p \<noteq> 0"
  proof
    assume "ts - p = 0"
    then have "unat (ts - p) = 0" by simp
    with span inv(3) less show False by linarith
  qed
  ultimately show ?thesis using inv(1,2) by (simp add: task_report_def Let_def)
qed

text \<open>The gaps that count as preemptions. The task ends with the first reading after thirty of them.\<close>

fun preemptions :: "u64 \<Rightarrow> u64 list \<Rightarrow> nat" where
  "preemptions p [] = 0"
| "preemptions p (t # ts) = (if MAGIC_CYCLES \<le> t - p then 1 else 0) + preemptions t ts"

lemma task_round_pcount:
  "task_round ts s = Inr u \<Longrightarrow> pcount u = pcount s + (if MAGIC_CYCLES \<le> ts - prev s then 1 else 0)"
  by (auto simp: task_round_def succeeds Let_def c_assert_def not_less split: if_splits)

lemma task_loop_ends:
  assumes "task_inv p s" "sorted_wrt (<) (prev s # readings)" "task_loop readings s = Inr r"
  shows "(\<exists>t ts rest. r = Some (t, ts # rest)) \<longleftrightarrow>
    readings \<noteq> [] \<and> 30 \<le> pcount s + preemptions (prev s) (butlast readings)"
  using assms
proof (induction readings arbitrary: s)
  case Nil
  then show ?case by (auto split: if_splits)
next
  case (Cons x readings)
  show ?case
  proof (cases "pcount s < 30")
    case True
    obtain u where u: "task_round x s = Inr u" "task_inv p u" "prev u = x"
      using task_round_inv [OF Cons.prems(1) True, of x] Cons.prems(2) by auto
    have "task_loop readings u = Inr r" using Cons.prems(3) True u(1) by (simp add: TEST_SIZE_def)
    from Cons.IH [OF u(2) _ this] Cons.prems(2) u(3) task_round_pcount [OF u(1)] True
    show ?thesis by (cases "readings = []") auto
  next
    case False
    with Cons.prems show ?thesis by (simp add: TEST_SIZE_def) blast
  qed
qed

text \<open>
  Property C35. The task measures a share: when the readings increase and a hundred times their distance from the first
  fits in 64 bits, a run reads and writes its arrays only within their bounds and divides by no zero. It ends
  exactly when there have been thirty preemptions and one more reading, and then it has thirty
  starts, the first of them the first reading, and prints a percentage of at most a hundred.
\<close>

theorem utilization_is_a_share:
  assumes "sorted_wrt (<) (p # readings)" "length ccounts0 = 30" "length tss0 = 30"
    and "list_all (\<lambda>t. (unat t - unat p) * 100 < 2 ^ 64) readings"
  shows "if 30 \<le> preemptions p (butlast readings)
    then \<exists>rep. task_run (p # readings) ccounts0 tss0 = Inr (Some rep) \<and> length (starts rep) = 30 \<and>
      starts rep ! 0 = p \<and> length (consumed rep) = 30 \<and> utilization rep \<le> 100
    else task_run (p # readings) ccounts0 tss0 = Inr None"
proof -
  let ?s = "\<lparr>prev = p, ccount = 0, pcount = 0, ccounts = ccounts0, tss = tss0[0 := p]\<rparr>"
  have start: "task_inv p ?s" using assms(2,3) by (simp add: task_inv_def)
  have sorted: "sorted_wrt (<) (prev ?s # readings)" using assms(1) by simp
  obtain r where r: "task_loop readings ?s = Inr r" using task_loop_total [OF start sorted] by blast
  have ends: "(\<exists>t ts rest. r = Some (t, ts # rest)) \<longleftrightarrow> 30 \<le> preemptions p (butlast readings)"
    using task_loop_ends [OF start sorted r] by (cases "readings = []") auto
  show ?thesis
  proof (cases "\<exists>t ts rest. r = Some (t, ts # rest)")
    case True
    then obtain t ts rest where t: "r = Some (t, ts # rest)" by blast
    from task_loop_inv [OF r [unfolded t] start sorted] have inv: "task_inv p t" "pcount t = 30" "prev t < ts"
      and "ts \<in> set readings" by (auto simp: suffix_def)
    then have "(unat ts - unat p) * 100 < 2 ^ 64" using assms(4) by (simp add: list_all_iff)
    from task_report_share [OF inv this] show ?thesis
      using True ends r t inv(1) assms(3) by (auto simp: task_run_def task_inv_def)
  next
    case False
    then show ?thesis
      using ends r assms(3) by (auto simp: task_run_def split: option.splits prod.splits list.splits)
  qed
qed

text \<open>A preempted task: thirty gaps of a thousand cycles and one more reading.\<close>

theorem utilization_is_a_share_witness:
  "\<exists>rep. task_run (0 # [1000, 2000, 3000, 4000, 5000, 6000, 7000, 8000, 9000, 10000, 11000, 12000, 13000,
      14000, 15000, 16000, 17000, 18000, 19000, 20000, 21000, 22000, 23000, 24000, 25000, 26000, 27000,
      28000, 29000, 30000, 30100]) (replicate 30 0) (replicate 30 0) = Inr (Some rep) \<and> utilization rep \<le> 100"
proof -
  let ?rs = "[1000, 2000, 3000, 4000, 5000, 6000, 7000, 8000, 9000, 10000, 11000, 12000, 13000,
      14000, 15000, 16000, 17000, 18000, 19000, 20000, 21000, 22000, 23000, 24000, 25000, 26000, 27000,
      28000, 29000, 30000, 30100] :: u64 list"
  have sorted: "sorted_wrt (<) (0 # ?rs)" by simp
  have "preemptions 0 (butlast ?rs) = 30" by (simp add: MAGIC_CYCLES_def)
  then have many: "30 \<le> preemptions 0 (butlast ?rs)" by simp
  have "list_all (\<lambda>t. (unat t - unat (0 :: u64)) * 100 < 2 ^ 64) ?rs" by simp
  from utilization_is_a_share [OF sorted length_replicate length_replicate this] show ?thesis
    unfolding if_P [OF many] by blast
qed

end
