(* ===== verification/Component_Heap.thy ===== *)
theory Component_Heap
  imports Camkes_Prelude
begin

text \<open>
  The memory of a component as the C library manages it: blocks of characters and of pointers, the
  allocation functions, and the check of \<^verbatim>\<open>apps/teststringarrays/heap_check.h\<close> that a
  pointer lies in the heap. Address 0 is the null pointer. The heap lies between
  \<open>morecore_area\<close> and \<open>morecore_area + morecore_size\<close>; allocated addresses only grow, so a block that has been
  freed never comes back under its old address and each later use of the pointer is
  a fault. Literals and arrays on the stack are blocks outside of the heap. What is printed is
  kept with the instance that prints it.
\<close>

section \<open>Blocks\<close>

datatype block = Chars bytes | Ptrs "nat list"

record memory =
  morecore_area :: nat
  morecore_size :: nat
  brk :: nat
  static_top :: nat
  live :: "nat \<Rightarrow> block option"
  shown :: "(string \<times> bytes) list"

fun block_bytes :: "block \<Rightarrow> nat" where
  "block_bytes (Chars cs) = length cs"
| "block_bytes (Ptrs ps) = 8 * length ps"

definition is_heap_pointer :: "memory \<Rightarrow> nat \<Rightarrow> bool" where
  "is_heap_pointer m p \<longleftrightarrow> morecore_area m \<le> p \<and> morecore_area m + morecore_size m > p"

text \<open>Allocation takes at least one byte; there is no block and the pointer is null when the heap is full.\<close>

definition heap_alloc :: "block \<Rightarrow> memory \<Rightarrow> nat \<times> memory" where
  "heap_alloc b m =
     (let n = max 1 (block_bytes b) in
      if brk m + n \<le> morecore_area m + morecore_size m
      then (brk m, m\<lparr>brk := brk m + n, live := (live m)(brk m \<mapsto> b)\<rparr>)
      else (0, m))"

definition calloc_ptrs :: "nat \<Rightarrow> memory \<Rightarrow> nat \<times> memory" where
  "calloc_ptrs n = heap_alloc (Ptrs (replicate n 0))"

text \<open>\<open>malloc\<close> leaves in the block what the memory held.\<close>

definition malloc_ptrs :: "nat list \<Rightarrow> memory \<Rightarrow> nat \<times> memory" where
  "malloc_ptrs junk = heap_alloc (Ptrs junk)"

definition c_strdup :: "bytes \<Rightarrow> memory \<Rightarrow> nat \<times> memory" where
  "c_strdup s = heap_alloc (Chars (s @ [0]))"

definition c_free :: "nat \<Rightarrow> memory \<Rightarrow> memory result" where
  "c_free p m =
     (if p = 0 then Inr m
      else if is_heap_pointer m p \<and> live m p \<noteq> None then Inr (m\<lparr>live := (live m)(p := None)\<rparr>)
      else Inl BadPointer)"

definition safe_free :: "nat \<Rightarrow> memory \<Rightarrow> memory result" where
  "safe_free p m = rbind (c_assert (is_heap_pointer m p)) (\<lambda>_. c_free p m)"

section \<open>Access\<close>

definition read_ptr :: "memory \<Rightarrow> nat \<Rightarrow> nat \<Rightarrow> nat result" where
  "read_ptr m x i =
     (if x = 0 then Inl NullDereference
      else case live m x of Some (Ptrs ps) \<Rightarrow> array_read ps i | _ \<Rightarrow> Inl BadPointer)"

definition write_ptr :: "nat \<Rightarrow> nat \<Rightarrow> nat \<Rightarrow> memory \<Rightarrow> memory result" where
  "write_ptr x i p m =
     (if x = 0 then Inl NullDereference
      else case live m x of
             Some (Ptrs ps) \<Rightarrow> rbind (array_write ps i p) (\<lambda>qs. Inr (m\<lparr>live := (live m)(x \<mapsto> Ptrs qs)\<rparr>))
           | _ \<Rightarrow> Inl BadPointer)"

text \<open>The string at a pointer, up to its terminator.\<close>

definition read_string :: "memory \<Rightarrow> nat \<Rightarrow> bytes result" where
  "read_string m p =
     (if p = 0 then Inl NullDereference
      else case live m p of
             Some (Chars cs) \<Rightarrow> if 0 \<in> set cs then Inr (takeWhile (\<lambda>c. c \<noteq> 0) cs) else Inl IndexError
           | _ \<Rightarrow> Inl BadPointer)"

definition print_string :: "string \<Rightarrow> nat \<Rightarrow> memory \<Rightarrow> memory result" where
  "print_string name p m = rbind (read_string m p) (\<lambda>s. Inr (m\<lparr>shown := shown m @ [(name, s)]\<rparr>))"

section \<open>Well-formed memory\<close>

definition mem_ok :: "memory \<Rightarrow> bool" where
  "mem_ok m \<longleftrightarrow>
     0 < morecore_area m \<and> morecore_area m \<le> brk m \<and> brk m \<le> morecore_area m + morecore_size m \<and>
     morecore_area m + morecore_size m \<le> static_top m \<and>
     (\<forall>p \<in> dom (live m). 0 < p \<and> p < static_top m \<and> (is_heap_pointer m p \<longrightarrow> p < brk m))"

text \<open>There are \<open>n\<close> bytes left in the heap.\<close>

definition room :: "nat \<Rightarrow> memory \<Rightarrow> bool" where
  "room n m \<longleftrightarrow> brk m + n \<le> morecore_area m + morecore_size m"

lemma heap_alloc_ok:
  assumes "mem_ok m" "room (max 1 (block_bytes b)) m"
  shows "heap_alloc b m = (brk m, m\<lparr>brk := brk m + max 1 (block_bytes b), live := (live m)(brk m \<mapsto> b)\<rparr>)"
    "mem_ok (m\<lparr>brk := brk m + max 1 (block_bytes b), live := (live m)(brk m \<mapsto> b)\<rparr>)"
    "live m (brk m) = None" "is_heap_pointer m (brk m)" "0 < brk m"
proof -
  show "heap_alloc b m = (brk m, m\<lparr>brk := brk m + max 1 (block_bytes b), live := (live m)(brk m \<mapsto> b)\<rparr>)"
    using assms(2) by (simp add: heap_alloc_def room_def)
  show heap: "is_heap_pointer m (brk m)"
    using assms by (auto simp: is_heap_pointer_def mem_ok_def room_def)
  show "live m (brk m) = None"
  proof (rule ccontr)
    assume "live m (brk m) \<noteq> None"
    then have "brk m \<in> dom (live m)" by auto
    with assms(1) heap show False by (fastforce simp: mem_ok_def)
  qed
  show "0 < brk m" using assms(1) by (simp add: mem_ok_def)
  then show "mem_ok (m\<lparr>brk := brk m + max 1 (block_bytes b), live := (live m)(brk m \<mapsto> b)\<rparr>)"
    using assms by (fastforce simp: mem_ok_def room_def is_heap_pointer_def)
qed

lemma heap_alloc_full: "\<not> room (max 1 (block_bytes b)) m \<Longrightarrow> heap_alloc b m = (0, m)"
  by (simp add: heap_alloc_def room_def)

lemma live_nonzero: "mem_ok m \<Longrightarrow> live m p = Some b \<Longrightarrow> 0 < p"
  by (auto simp: mem_ok_def)

lemma is_heap_pointer_cong:
  "morecore_area m' = morecore_area m \<Longrightarrow> morecore_size m' = morecore_size m \<Longrightarrow>
   is_heap_pointer m' = is_heap_pointer m"
  by (simp add: is_heap_pointer_def fun_eq_iff)

lemma is_heap_pointer_update [simp]:
  "is_heap_pointer (m\<lparr>live := l\<rparr>) = is_heap_pointer m" "is_heap_pointer (m\<lparr>shown := o'\<rparr>) = is_heap_pointer m"
  "is_heap_pointer (m\<lparr>brk := b\<rparr>) = is_heap_pointer m" "is_heap_pointer (m\<lparr>static_top := t\<rparr>) = is_heap_pointer m"
  by (simp_all add: is_heap_pointer_def fun_eq_iff)

lemma mem_ok_shown [simp]:
  "mem_ok (m\<lparr>shown := o'\<rparr>) \<longleftrightarrow> mem_ok m"
  "mem_ok (m\<lparr>shown := o', live := l\<rparr>) \<longleftrightarrow> mem_ok (m\<lparr>live := l\<rparr>)"
  by (simp_all add: mem_ok_def is_heap_pointer_def)

lemma room_update [simp]:
  "room n (m\<lparr>live := l\<rparr>) = room n m" "room n (m\<lparr>shown := o'\<rparr>) = room n m"
  by (simp_all add: room_def)

lemma mem_ok_restrict: "mem_ok m \<Longrightarrow> dom l \<subseteq> dom (live m) \<Longrightarrow> mem_ok (m\<lparr>live := l\<rparr>)"
  by (fastforce simp: mem_ok_def)

lemma read_string_ok [simp]:
  "live m p = Some (Chars (s @ [0])) \<Longrightarrow> p \<noteq> 0 \<Longrightarrow> 0 \<notin> set s \<Longrightarrow> read_string m p = Inr s"
  by (auto simp: read_string_def takeWhile_append)

text \<open>A freed pointer cannot be freed or used again.\<close>

lemma freed_pointer:
  assumes "c_free p m = Inr m'" "p \<noteq> 0"
  shows "c_free p m' = Inl BadPointer" "read_string m' p = Inl BadPointer" "read_ptr m' p i = Inl BadPointer"
  using assms by (auto simp: c_free_def read_string_def read_ptr_def split: if_splits)

text \<open>The blocks of the heap, and a literal, which is a block outside of it.\<close>

definition heap_blocks :: "memory \<Rightarrow> nat set" where
  "heap_blocks m = {p \<in> dom (live m). is_heap_pointer m p}"

definition literal :: "bytes \<Rightarrow> memory \<Rightarrow> nat \<times> memory" where
  "literal s m =
     (static_top m, m\<lparr>static_top := static_top m + 1, live := (live m)(static_top m \<mapsto> Chars (s @ [0]))\<rparr>)"

text \<open>New blocks outside of the heap, at the addresses that follow those in use.\<close>

lemma static_blocks_ok:
  assumes "mem_ok m" "\<And>p. p \<in> dom l \<Longrightarrow> static_top m \<le> p \<and> p < t" "static_top m \<le> t"
  shows "mem_ok (m\<lparr>static_top := t, live := live m ++ l\<rparr>)"
    and "\<And>p. p \<in> dom l \<Longrightarrow> \<not> is_heap_pointer m p" "dom l \<inter> dom (live m) = {}"
proof -
  have top: "morecore_area m + morecore_size m \<le> static_top m" "0 < static_top m"
    using assms(1) by (auto simp: mem_ok_def)
  have below: "0 < p \<and> p < static_top m \<and> (is_heap_pointer m p \<longrightarrow> p < brk m)" if "p \<in> dom (live m)" for p
    using assms(1) that unfolding mem_ok_def by blast
  show out: "\<not> is_heap_pointer m p" if "p \<in> dom l" for p
    using assms(2) [OF that] top(1) by (simp add: is_heap_pointer_def)
  have "0 < p \<and> p < t \<and> (is_heap_pointer m p \<longrightarrow> p < brk m)" if "p \<in> dom (live m ++ l)" for p
  proof (cases "p \<in> dom l")
    case True
    then show ?thesis using assms(2) [of p] out [of p] top(2) by auto
  next
    case False
    then show ?thesis using that below [of p] assms(3) by auto
  qed
  then show "mem_ok (m\<lparr>static_top := t, live := live m ++ l\<rparr>)"
    using assms(1,3) top(1) unfolding mem_ok_def is_heap_pointer_update by (auto simp: is_heap_pointer_def)
  show "dom l \<inter> dom (live m) = {}" using assms(2) below by (meson disjoint_iff leD)
qed

lemma literal_ok:
  assumes "mem_ok m"
  shows "literal s m = (static_top m, m\<lparr>static_top := static_top m + 1, live := (live m)(static_top m \<mapsto> Chars (s @ [0]))\<rparr>)"
    and "mem_ok (m\<lparr>static_top := static_top m + 1, live := (live m)(static_top m \<mapsto> Chars (s @ [0]))\<rparr>)"
    and "live m (static_top m) = None" "\<not> is_heap_pointer m (static_top m)" "static_top m \<noteq> 0"
proof -
  let ?l = "[static_top m \<mapsto> Chars (s @ [0])]"
  have "\<And>p. p \<in> dom ?l \<Longrightarrow> static_top m \<le> p \<and> p < static_top m + 1" by (simp split: if_splits)
  note new = static_blocks_ok [where l = ?l, OF assms this le_add1]
  from new(1) show "mem_ok (m\<lparr>static_top := static_top m + 1, live := (live m)(static_top m \<mapsto> Chars (s @ [0]))\<rparr>)"
    by simp
  show "literal s m = (static_top m, m\<lparr>static_top := static_top m + 1, live := (live m)(static_top m \<mapsto> Chars (s @ [0]))\<rparr>)"
    by (simp add: literal_def)
  show "\<not> is_heap_pointer m (static_top m)" using new(2) by simp
  show "live m (static_top m) = None" using new(3) by (auto simp: dom_def)
  show "static_top m \<noteq> 0" using assms by (auto simp: mem_ok_def)
qed

text \<open>C string literals as bytes.\<close>

definition lit :: "string \<Rightarrow> bytes" where
  "lit s = map of_char s"

lemma length_lit [simp]: "length (lit s) = length s"
  by (simp add: lit_def)

end
