(* ===== verification/String_Arrays.thy ===== *)
theory String_Arrays
  imports Component_Heap
begin

text \<open>
  \<^verbatim>\<open>apps/teststringarrays\<close>: arrays of strings passed between components in each direction an interface
  can declare. \<^verbatim>\<open>C.c\<close> provides the procedures, \<^verbatim>\<open>B.c\<close> forwards them and \<^verbatim>\<open>A.c\<close>
  calls them through three instances of B. An array has an owner, who frees it: the locale
  \<open>string_service\<close> says for each direction who that is, the procedures of C satisfy it, those of B satisfy it
  over any procedures that do, and A relies on it.
  A pointer to a variable is an option, \<open>None\<close> being the null pointer.
\<close>

section \<open>Arrays of strings\<close>

text \<open>The loops over an array that print its strings, and that print and free them.\<close>

definition print_array :: "string \<Rightarrow> nat \<Rightarrow> nat \<Rightarrow> memory \<Rightarrow> memory result" where
  "print_array name sz x m =
     rfold (\<lambda>i m. rbind (read_ptr m x i) (\<lambda>p. print_string name p m)) [0..<sz] m"

definition print_free_array :: "string \<Rightarrow> nat \<Rightarrow> nat \<Rightarrow> memory \<Rightarrow> memory result" where
  "print_free_array name sz x m =
     rfold (\<lambda>i m. rbind (read_ptr m x i) (\<lambda>p. rbind (print_string name p m) (safe_free p))) [0..<sz] m"

text \<open>\<open>x[i] = strdup(s); assert(x[i] != NULL)\<close>.\<close>

definition store_dup :: "nat \<Rightarrow> nat \<Rightarrow> bytes \<Rightarrow> memory \<Rightarrow> memory result" where
  "store_dup x i s m =
     (let (p, m1) = c_strdup s m in
      rbind (write_ptr x i p m1) (\<lambda>m2.
      rbind (read_ptr m2 x i) (\<lambda>q.
      rbind (c_assert (q \<noteq> 0)) (\<lambda>_. Inr m2))))"

text \<open>An array of \<open>n\<close> pointers with a copy of \<open>s\<close> and one of \<open>t\<close> at its start.\<close>

definition new_pair :: "nat \<Rightarrow> bool \<Rightarrow> bytes \<Rightarrow> bytes \<Rightarrow> memory \<Rightarrow> (nat \<times> memory) result" where
  "new_pair n checked s t m =
     (let (x, m1) = calloc_ptrs n m in
      rbind (c_assert (checked \<longrightarrow> x \<noteq> 0)) (\<lambda>_.
      rbind (store_dup x 0 s m1) (\<lambda>m2.
      rbind (store_dup x 1 t m2) (\<lambda>m3. Inr (x, m3)))))"

text \<open>The strings as blocks, the array with its strings, and an array that lies in a memory.\<close>

definition string_blocks :: "nat list \<Rightarrow> bytes list \<Rightarrow> nat \<Rightarrow> block option" where
  "string_blocks ps ss = map_of (zip ps (map (\<lambda>s. Chars (s @ [0])) ss))"

definition array_blocks :: "nat \<Rightarrow> nat list \<Rightarrow> nat list \<Rightarrow> bytes list \<Rightarrow> nat \<Rightarrow> block option" where
  "array_blocks x ps zs ss = (string_blocks ps ss)(x \<mapsto> Ptrs (ps @ zs))"

definition array_at :: "(nat \<Rightarrow> block option) \<Rightarrow> nat \<Rightarrow> bytes list \<Rightarrow> bool" where
  "array_at l x ss \<longleftrightarrow>
     (\<exists>cells. l x = Some (Ptrs cells) \<and> length ss \<le> length cells \<and>
        (\<forall>i < length ss. l (cells ! i) = Some (Chars (ss ! i @ [0])) \<and> 0 \<notin> set (ss ! i)))"

text \<open>The array and its strings are blocks of their own in the heap beside \<open>L\<close>.\<close>

definition array_sep :: "memory \<Rightarrow> nat \<Rightarrow> nat list \<Rightarrow> bytes list \<Rightarrow> (nat \<Rightarrow> block option) \<Rightarrow> bool" where
  "array_sep m x ps ss L \<longleftrightarrow>
     distinct (x # ps) \<and> length ps = length ss \<and> list_all (\<lambda>s. 0 \<notin> set s) ss \<and>
     (\<forall>p \<in> set (x # ps). is_heap_pointer m p \<and> p \<notin> dom L)"

definition owned ::
  "memory \<Rightarrow> nat \<Rightarrow> nat list \<Rightarrow> nat list \<Rightarrow> bytes list \<Rightarrow> (nat \<Rightarrow> block option) \<Rightarrow> bool" where
  "owned m x ps zs ss L \<longleftrightarrow> live m = L ++ array_blocks x ps zs ss \<and> array_sep m x ps ss L"

lemma string_blocks_simps [simp]:
  "string_blocks [] ss = Map.empty" "string_blocks ps [] = Map.empty"
  "string_blocks (p # ps) (s # ss) = (string_blocks ps ss)(p \<mapsto> Chars (s @ [0]))"
  by (simp_all add: string_blocks_def)

lemma string_blocks_notin: "p \<notin> set ps \<Longrightarrow> string_blocks ps ss p = None"
  by (auto simp: string_blocks_def map_of_eq_None_iff dest: set_zip_leftD)

lemma string_blocks_dom: "dom (string_blocks ps ss) \<subseteq> set ps"
proof
  fix p assume "p \<in> dom (string_blocks ps ss)"
  then show "p \<in> set ps" using string_blocks_notin [of p ps ss] by (cases "p \<in> set ps") auto
qed

lemma string_blocks_nth:
  "length ps = length ss \<Longrightarrow> distinct ps \<Longrightarrow> i < length ss \<Longrightarrow>
   string_blocks ps ss (ps ! i) = Some (Chars (ss ! i @ [0]))"
  unfolding string_blocks_def by (subst map_of_zip_nth) simp_all

lemma array_blocks_at:
  assumes "array_sep m x ps ss L"
  shows "array_at (L ++ array_blocks x ps zs ss) x ss"
proof -
  have "(L ++ array_blocks x ps zs ss) (ps ! i) = Some (Chars (ss ! i @ [0]))" if "i < length ss" for i
    using assms that nth_mem [of i ps] string_blocks_nth [of ps ss i]
    by (auto simp: array_sep_def array_blocks_def map_add_Some_iff)
  moreover have "0 \<notin> set (ss ! i)" if "i < length ss" for i
    using assms that by (simp add: array_sep_def list_all_length)
  moreover have "(L ++ array_blocks x ps zs ss) x = Some (Ptrs (ps @ zs))" "length ps = length ss"
    using assms by (simp_all add: array_blocks_def array_sep_def)
  ultimately show ?thesis
    unfolding array_at_def by (intro exI [of _ "ps @ zs"]) (simp add: nth_append)
qed

lemma print_array_prefix:
  assumes "array_at (live m) x ss" "mem_ok m" "k \<le> length ss"
  shows "print_array name k x m = Inr (m\<lparr>shown := shown m @ map (Pair name) (take k ss)\<rparr>)"
  using assms(3)
proof (induction k)
  case 0
  then show ?case by (simp add: print_array_def)
next
  case (Suc k)
  obtain cells where cells: "live m x = Some (Ptrs cells)" "length ss \<le> length cells"
      "\<And>i. i < length ss \<Longrightarrow> live m (cells ! i) = Some (Chars (ss ! i @ [0])) \<and> 0 \<notin> set (ss ! i)"
    using assms(1) by (auto simp: array_at_def)
  have "0 < x" "0 < cells ! k" using live_nonzero [OF assms(2)] cells Suc.prems by auto
  with Suc cells show ?case
    by (simp add: print_array_def rfold_append read_ptr_def print_string_def take_Suc_conv_app_nth)
qed

lemma print_array_ok:
  "array_at (live m) x ss \<Longrightarrow> mem_ok m \<Longrightarrow>
   print_array name (length ss) x m = Inr (m\<lparr>shown := shown m @ map (Pair name) ss\<rparr>)"
  using print_array_prefix [of m x ss "length ss"] by simp

text \<open>Printing and freeing takes the strings away, and \<open>safe_free\<close> then the array.\<close>

lemma print_free_suffix:
  assumes "mem_ok m" "live m = (L ++ string_blocks ps ss)(x \<mapsto> Ptrs (qs @ ps @ zs))"
    and "array_sep m x ps ss L"
  shows "\<exists>m'. rfold (\<lambda>i m. rbind (read_ptr m x i) (\<lambda>p. rbind (print_string name p m) (safe_free p)))
       [length qs..<length qs + length ps] m = Inr m' \<and>
     m' = m\<lparr>live := L(x \<mapsto> Ptrs (qs @ ps @ zs)), shown := shown m @ map (Pair name) ss\<rparr>"
  using assms
proof (induction ps arbitrary: m qs ss)
  case Nil
  then show ?case by (cases ss) (auto simp: array_sep_def)
next
  case (Cons p ps)
  then obtain s ss' where ss: "ss = s # ss'" by (cases ss) (auto simp: array_sep_def)
  have sep: "p \<noteq> x" "p \<notin> set ps" "p \<notin> dom L" "is_heap_pointer m p" "0 \<notin> set s"
    using Cons.prems(3) by (auto simp: array_sep_def ss)
  have at: "live m p = Some (Chars (s @ [0]))" "live m x = Some (Ptrs (qs @ p # ps @ zs))"
    using sep by (simp_all add: Cons.prems(2) ss)
  have nz: "p \<noteq> 0" "x \<noteq> 0" using live_nonzero [OF Cons.prems(1)] at by auto
  let ?l = "(L ++ string_blocks ps ss')(x \<mapsto> Ptrs (qs @ p # ps @ zs))"
  let ?m = "m\<lparr>live := ?l, shown := shown m @ [(name, s)]\<rparr>"
  have l: "(live m)(p := None) = ?l"
    using sep(1) domIff [of p L] sep(3) string_blocks_notin [OF sep(2)]
    by (simp add: Cons.prems(2) ss fun_eq_iff map_add_def)
  with l have step: "rbind (read_ptr m x (length qs)) (\<lambda>p. rbind (print_string name p m) (safe_free p)) = Inr ?m"
    using at nz sep by (simp add: read_ptr_def print_string_def safe_free_def c_free_def)
  have "dom ?l \<subseteq> dom (live m)" unfolding l [symmetric] by auto
  then have ok: "mem_ok ?m" using mem_ok_restrict [OF Cons.prems(1)] by simp
  have "array_sep ?m x ps ss' L" using Cons.prems(3) by (simp add: array_sep_def ss)
  from Cons.IH [of ?m ss' "qs @ [p]", OF ok _ this] show ?case
    by (simp add: ss step upt_conv_Cons del: upt_Suc)
qed

lemma print_free_array_ok:
  assumes "mem_ok m" "owned m x ps zs ss L"
  shows "print_free_array name (length ss) x m =
      Inr (m\<lparr>live := L(x \<mapsto> Ptrs (ps @ zs)), shown := shown m @ map (Pair name) ss\<rparr>)"
    and "mem_ok (m\<lparr>live := L(x \<mapsto> Ptrs (ps @ zs)), shown := shown m @ map (Pair name) ss\<rparr>)"
proof -
  have eq: "length ps = length ss" using assms(2) by (simp add: owned_def array_sep_def)
  have l: "live m = (L ++ string_blocks ps ss)(x \<mapsto> Ptrs (ps @ zs))"
    using assms(2) by (simp add: owned_def array_blocks_def)
  with print_free_suffix [of m L ps ss x "[]" zs name] assms eq
  show "print_free_array name (length ss) x m =
      Inr (m\<lparr>live := L(x \<mapsto> Ptrs (ps @ zs)), shown := shown m @ map (Pair name) ss\<rparr>)"
    by (simp add: print_free_array_def owned_def)
  show "mem_ok (m\<lparr>live := L(x \<mapsto> Ptrs (ps @ zs)), shown := shown m @ map (Pair name) ss\<rparr>)"
  proof -
    have "dom (L(x \<mapsto> Ptrs (ps @ zs))) \<subseteq> dom (live m)" by (auto simp: l)
    then show ?thesis using mem_ok_restrict [OF assms(1)] by simp
  qed
qed

lemma safe_free_array:
  assumes "mem_ok m" "live m = L(x \<mapsto> b)" "is_heap_pointer m x" "x \<notin> dom L"
  shows "safe_free x m = Inr (m\<lparr>live := L\<rparr>)" "mem_ok (m\<lparr>live := L\<rparr>)"
proof -
  have "x \<noteq> 0" using live_nonzero [OF assms(1), of x] assms(2) by auto
  moreover have "(live m)(x := None) = L" using assms(2,4) by (auto simp: fun_eq_iff dom_def)
  ultimately show "safe_free x m = Inr (m\<lparr>live := L\<rparr>)"
    using assms(2,3) by (simp add: safe_free_def c_free_def)
  show "mem_ok (m\<lparr>live := L\<rparr>)" 
  proof -
    have "dom L \<subseteq> dom (live m)" by (auto simp: assms(2))
    then show ?thesis by (rule mem_ok_restrict [OF assms(1)])
  qed
qed

text \<open>
  What a call may do to the memory of its caller besides the blocks it hands over: take at most \<open>k\<close> bytes of the heap
  and print under one of the given names.
\<close>

definition frame :: "string set \<Rightarrow> nat \<Rightarrow> memory \<Rightarrow> memory \<Rightarrow> bool" where
  "frame names k m m' \<longleftrightarrow>
     mem_ok m' \<and> morecore_area m' = morecore_area m \<and> morecore_size m' = morecore_size m \<and>
     static_top m' = static_top m \<and> brk m' \<le> brk m + k \<and>
     (\<exists>out. shown m' = shown m @ out \<and> (\<forall>e \<in> set out. fst e \<in> names))"

lemma frame_refl: "mem_ok m \<Longrightarrow> frame names k m m"
  by (simp add: frame_def)

lemma frame_trans: "frame names j m m1 \<Longrightarrow> frame names k m1 m2 \<Longrightarrow> frame names (j + k) m m2"
  by (auto simp: frame_def)

lemma frame_mono: "frame ns j m m' \<Longrightarrow> ns \<subseteq> names \<Longrightarrow> j \<le> k \<Longrightarrow> frame names k m m'"
  by (fastforce simp: frame_def)

lemma frame_shown: "frame names k m m' \<Longrightarrow> name \<in> names \<Longrightarrow> frame names k m (m'\<lparr>shown := shown m' @ map (Pair name) ss\<rparr>)"
  by (auto simp: frame_def)

lemma frame_heap_pointer: "frame names k m m' \<Longrightarrow> is_heap_pointer m' = is_heap_pointer m"
  by (rule is_heap_pointer_cong) (simp_all add: frame_def)

lemma frame_room: "frame names j m m' \<Longrightarrow> room (j + k) m \<Longrightarrow> room k m'"
  by (auto simp: frame_def room_def)

lemma frame_ok: "frame names k m m' \<Longrightarrow> mem_ok m'"
  by (simp add: frame_def)

lemma strdup_ok:
  assumes "mem_ok m" "room (length s + 1) m"
  shows "c_strdup s m = (brk m, m\<lparr>brk := brk m + (length s + 1), live := (live m)(brk m \<mapsto> Chars (s @ [0]))\<rparr>)"
    and "frame {} (length s + 1) m (m\<lparr>brk := brk m + (length s + 1), live := (live m)(brk m \<mapsto> Chars (s @ [0]))\<rparr>)"
    and "live m (brk m) = None" "is_heap_pointer m (brk m)" "brk m \<noteq> 0"
  using heap_alloc_ok [OF assms(1), of "Chars (s @ [0])"] assms(2) by (simp_all add: c_strdup_def frame_def)

lemma store_dup_ok:
  assumes "mem_ok m" "room (length s + 1) m" "live m x = Some (Ptrs ps)" "i < length ps"
  shows "\<exists>m'. store_dup x i s m = Inr m' \<and> frame {} (length s + 1) m m' \<and>
     live m' = (live m)(brk m \<mapsto> Chars (s @ [0]), x \<mapsto> Ptrs (ps[i := brk m])) \<and>
     live m (brk m) = None \<and> is_heap_pointer m (brk m)"
proof -
  let ?m1 = "m\<lparr>brk := brk m + (length s + 1), live := (live m)(brk m \<mapsto> Chars (s @ [0]))\<rparr>"
  let ?m2 = "?m1\<lparr>live := (live ?m1)(x \<mapsto> Ptrs (ps[i := brk m]))\<rparr>"
  note dup = strdup_ok [OF assms(1,2)]
  have x: "x \<noteq> 0" "x \<noteq> brk m" using live_nonzero [OF assms(1,3)] assms(3) dup(3) by auto
  then have "store_dup x i s m = Inr ?m2"
    using dup(1,5) assms(3,4) by (simp add: store_dup_def write_ptr_def read_ptr_def)
  moreover have "mem_ok ?m2"
    using mem_ok_restrict [OF frame_ok [OF dup(2)], of "live ?m2"] x assms(3) by auto
  then have "frame {} (length s + 1) m ?m2" by (simp add: frame_def)
  ultimately show ?thesis using dup(3,4) by auto
qed

lemma new_pair_ok:
  assumes "mem_ok m" "2 \<le> n" "room (8 * n + length s + length t + 2) m" "0 \<notin> set s" "0 \<notin> set t"
  shows "\<exists>x m' ps zs. new_pair n checked s t m = Inr (x, m') \<and> owned m' x ps zs [s, t] (live m) \<and>
     frame {} (8 * n + length s + length t + 2) m m'"
proof -
  let ?x = "brk m"
  have max: "max (Suc 0) (8 * n) = 8 * n" using assms(2) by simp
  define m1 where "m1 = m\<lparr>brk := ?x + 8 * n, live := (live m)(?x \<mapsto> Ptrs (replicate n 0))\<rparr>"
  have alloc: "calloc_ptrs n m = (?x, m1)" "mem_ok m1" "live m ?x = None" "is_heap_pointer m ?x" "0 < ?x"
    using heap_alloc_ok [OF assms(1), of "Ptrs (replicate n 0)"] assms(3)
    by (simp_all add: calloc_ptrs_def m1_def room_def max)
  then have f1: "frame {} (8 * n) m m1" by (simp add: frame_def m1_def)
  have lm: "live m1 = (live m)(?x \<mapsto> Ptrs (replicate n 0))" by (simp add: m1_def)
  then have l1: "live m1 ?x = Some (Ptrs (replicate n 0))" by simp
  have r1: "room (length s + 1 + (length t + 1)) m1" using frame_room [OF f1] assms(3) by (simp add: algebra_simps)
  then have "room (length s + 1) m1" by (simp add: room_def)
  from store_dup_ok [OF alloc(2) this l1, of 0] assms(2) obtain m2 where
    m2: "store_dup ?x 0 s m1 = Inr m2" "frame {} (length s + 1) m1 m2"
      "live m2 = (live m1)(brk m1 \<mapsto> Chars (s @ [0]), ?x \<mapsto> Ptrs ((replicate n 0)[0 := brk m1]))"
      "live m1 (brk m1) = None" "is_heap_pointer m1 (brk m1)" by auto
  have "live m2 ?x = Some (Ptrs ((replicate n 0)[0 := brk m1]))" by (simp add: m2(3))
  from store_dup_ok [OF frame_ok [OF m2(2)] frame_room [OF m2(2) r1] this, of 1] assms(2) obtain m3 where
    m3: "store_dup ?x 1 t m2 = Inr m3" "frame {} (length t + 1) m2 m3"
      "live m3 = (live m2)(brk m2 \<mapsto> Chars (t @ [0]), ?x \<mapsto> Ptrs ((replicate n 0)[0 := brk m1, 1 := brk m2]))"
      "live m2 (brk m2) = None" "is_heap_pointer m2 (brk m2)" by auto
  have cells: "(replicate n 0)[0 := brk m1, 1 := brk m2] = [brk m1, brk m2] @ replicate (n - 2) 0"
    using assms(2) by (intro nth_equalityI) (auto simp: nth_list_update nth_append nth_Cons split: nat.split)
  have ne: "brk m1 \<noteq> ?x" "brk m2 \<noteq> ?x" "brk m2 \<noteq> brk m1" "live m (brk m1) = None" "live m (brk m2) = None"
    using m2(3,4) m3(4) by (auto simp: m1_def split: if_splits)
  have live: "live m3 = live m ++ array_blocks ?x [brk m1, brk m2] (replicate (n - 2) 0) [s, t]"
    using ne by (auto simp: m3(3) m2(3) lm array_blocks_def cells [unfolded One_nat_def] fun_eq_iff map_add_def)
  have "array_sep m3 ?x [brk m1, brk m2] [s, t] (live m)"
    using ne alloc(3,4) m2(5) m3(5) assms(4,5)
      frame_heap_pointer [OF f1] frame_heap_pointer [OF m2(2)] frame_heap_pointer [OF m3(2)]
    by (auto simp: array_sep_def)
  with live have "owned m3 ?x [brk m1, brk m2] (replicate (n - 2) 0) [s, t] (live m)" by (simp add: owned_def)
  moreover have "frame {} (8 * n + (length s + 1) + (length t + 1)) m m3"
    using frame_trans [OF frame_trans [OF f1 m2(2)] m3(2)] by (simp add: algebra_simps)
  then have "frame {} (8 * n + length s + length t + 2) m m3" by (simp add: algebra_simps)
  moreover have "new_pair n checked s t m = Inr (?x, m3)"
    using alloc(1,5) m2(1) m3(1) by (simp add: new_pair_def)
  ultimately show ?thesis by blast
qed

text \<open>With room for one pointer only, the second string is stored past the end of the array.\<close>

lemma new_pair_overflow:
  assumes "mem_ok m" "room (9 + length s + 1 + length t + 1) m" "n < 2"
  shows "new_pair n checked s t m = Inl IndexError"
proof -
  have max: "max (Suc 0) (8 * n) \<le> 8" using assms(3) by simp
  define k where "k = max (Suc 0) (8 * n)"
  define m1 where "m1 = m\<lparr>brk := brk m + k, live := (live m)(brk m \<mapsto> Ptrs (replicate n 0))\<rparr>"
  have alloc: "calloc_ptrs n m = (brk m, m1)" "mem_ok m1" "0 < brk m"
    using heap_alloc_ok [OF assms(1), of "Ptrs (replicate n 0)"] assms(2) max
    by (simp_all add: calloc_ptrs_def m1_def room_def k_def)
  have l1: "live m1 (brk m) = Some (Ptrs (replicate n 0))" by (simp add: m1_def)
  have r1: "room (length s + 1 + (length t + 1)) m1" using assms(2) max by (simp add: room_def m1_def k_def)
  show ?thesis
  proof (cases "n = 0")
    case True
    have "c_strdup s m1 = (brk m1, m1\<lparr>brk := brk m1 + (length s + 1), live := (live m1)(brk m1 \<mapsto> Chars (s @ [0]))\<rparr>)"
      using strdup_ok(1) [OF alloc(2), of s] r1 by (simp add: room_def)
    with alloc True l1 show ?thesis
      by (simp add: new_pair_def store_dup_def write_ptr_def array_write_def m1_def k_def)
  next
    case False
    with assms(3) have n: "n = 1" by simp
    have "room (length s + 1) m1" using r1 by (simp add: room_def)
    from store_dup_ok [OF alloc(2) this l1, of 0] n obtain m2 where
      m2: "store_dup (brk m) 0 s m1 = Inr m2" "frame {} (length s + 1) m1 m2"
        "live m2 = (live m1)(brk m1 \<mapsto> Chars (s @ [0]), brk m \<mapsto> Ptrs [brk m1])" by auto
    have "live m2 (brk m) = Some (Ptrs [brk m1])" by (simp add: m2(3))
    moreover note dup = strdup_ok [OF frame_ok [OF m2(2)] frame_room [OF m2(2) r1]]
    ultimately have "brk m2 \<noteq> brk m" by auto
    then have "store_dup (brk m) 1 t m2 = Inl IndexError"
      using dup(1) alloc(3) \<open>live m2 (brk m) = Some (Ptrs [brk m1])\<close>
      by (simp add: store_dup_def write_ptr_def array_write_def)
    with alloc m2(1) show ?thesis by (simp add: new_pair_def)
  qed
qed

section \<open>The procedures\<close>

record string_procs =
  foo :: "memory \<Rightarrow> (nat \<times> memory) result"
  bar :: "nat \<Rightarrow> nat \<Rightarrow> memory \<Rightarrow> memory result"
  baz :: "nat option \<Rightarrow> nat option \<Rightarrow> memory \<Rightarrow> (nat \<times> nat \<times> memory) result"
  qux :: "nat option \<Rightarrow> nat option \<Rightarrow> memory \<Rightarrow> (nat \<times> nat \<times> memory) result"
  quux :: "nat \<Rightarrow> nat \<Rightarrow> nat option \<Rightarrow> nat option \<Rightarrow> nat option \<Rightarrow> nat option \<Rightarrow> memory \<Rightarrow>
    (nat \<times> nat \<times> nat \<times> nat \<times> memory) result"
  corge :: "nat option \<Rightarrow> nat \<Rightarrow> memory \<Rightarrow> memory result"

text \<open>\<open>assert(x != NULL)\<close> and the value of the variable.\<close>

fun nonnull :: "nat option \<Rightarrow> nat result" where
  "nonnull None = Inl AssertionFailed"
| "nonnull (Some n) = Inr n"

text \<open>\<^verbatim>\<open>C.c\<close>.\<close>

definition c_foo :: "string \<Rightarrow> memory \<Rightarrow> (nat \<times> memory) result" where
  "c_foo name m =
     (let (s, m1) = c_strdup (lit ''witaj'') m in
      rbind (c_assert (s \<noteq> 0)) (\<lambda>_. rbind (print_string name s m1) (\<lambda>m2. Inr (s, m2))))"

definition c_bar :: "string \<Rightarrow> nat \<Rightarrow> nat \<Rightarrow> memory \<Rightarrow> memory result" where
  "c_bar name x_sz x m = rbind (c_assert (x \<noteq> 0)) (\<lambda>_. print_array name x_sz x m)"

definition c_baz :: "string \<Rightarrow> nat option \<Rightarrow> nat option \<Rightarrow> memory \<Rightarrow> (nat \<times> nat \<times> memory) result" where
  "c_baz name x_sz x m =
     rbind (nonnull x_sz) (\<lambda>_. rbind (nonnull x) (\<lambda>_.
     rbind (new_pair 2 True (lit ''alo'') (lit ''mond'') m) (\<lambda>(a, m1).
     rbind (print_array name 2 a m1) (\<lambda>m2. Inr (2, a, m2)))))"

definition c_qux :: "string \<Rightarrow> nat option \<Rightarrow> nat option \<Rightarrow> memory \<Rightarrow> (nat \<times> nat \<times> memory) result" where
  "c_qux name x_sz x m =
     rbind (nonnull x_sz) (\<lambda>n. rbind (nonnull x) (\<lambda>a.
     rbind (print_free_array name n a m) (\<lambda>m1.
     rbind (safe_free a m1) (\<lambda>m2.
     rbind (new_pair 2 True (lit ''hola'') (lit ''mundo'') m2) (\<lambda>(b, m3).
     rbind (print_array name 2 b m3) (\<lambda>m4. Inr (2, b, m4)))))))"

text \<open>The array for \<open>z\<close> is the one allocation that is not checked.\<close>

definition c_quux ::
  "string \<Rightarrow> nat \<Rightarrow> nat \<Rightarrow> nat option \<Rightarrow> nat option \<Rightarrow> nat option \<Rightarrow> nat option \<Rightarrow> memory \<Rightarrow>
   (nat \<times> nat \<times> nat \<times> nat \<times> memory) result" where
  "c_quux name x_sz x y_sz y z_sz z m =
     rbind (c_assert (x \<noteq> 0)) (\<lambda>_. rbind (nonnull y_sz) (\<lambda>_. rbind (nonnull y) (\<lambda>_.
     rbind (nonnull z_sz) (\<lambda>n. rbind (nonnull z) (\<lambda>a.
     rbind (print_array name x_sz x m) (\<lambda>m1.
     rbind (print_free_array name n a m1) (\<lambda>m2.
     rbind (safe_free a m2) (\<lambda>m3.
     rbind (new_pair 2 True (lit ''ola'') (lit ''mundo'') m3) (\<lambda>(b, m4).
     rbind (new_pair 2 False (lit ''hallo'') (lit ''welt'') m4) (\<lambda>(c, m5).
     rbind (print_array name 2 b m5) (\<lambda>m6.
     rbind (print_array name 2 c m6) (\<lambda>m7. Inr (2, b, 2, c, m7)))))))))))))"

definition c_corge :: "string \<Rightarrow> nat option \<Rightarrow> nat \<Rightarrow> memory \<Rightarrow> memory result" where
  "c_corge name x_sz x m =
     rbind (nonnull x_sz) (\<lambda>n. rbind (c_assert (x \<noteq> 0)) (\<lambda>_.
     rbind (read_ptr m x 0) (\<lambda>a. print_array name n a m)))"

definition c_procs :: "string \<Rightarrow> string_procs" where
  "c_procs name = \<lparr>foo = c_foo name, bar = c_bar name, baz = c_baz name, qux = c_qux name,
     quux = c_quux name, corge = c_corge name\<rparr>"

text \<open>\<^verbatim>\<open>B.c\<close>: each procedure prints what it is given and passes it on.\<close>

definition q_foo :: "string \<Rightarrow> string_procs \<Rightarrow> memory \<Rightarrow> (nat \<times> memory) result" where
  "q_foo name p m =
     rbind (foo p m) (\<lambda>(s, m1). rbind (print_string name s m1) (\<lambda>m2. Inr (s, m2)))"

definition q_bar :: "string \<Rightarrow> string_procs \<Rightarrow> nat \<Rightarrow> nat \<Rightarrow> memory \<Rightarrow> memory result" where
  "q_bar name p x_sz x m = rbind (print_array name x_sz x m) (bar p x_sz x)"

definition q_baz ::
  "string \<Rightarrow> string_procs \<Rightarrow> nat option \<Rightarrow> nat option \<Rightarrow> memory \<Rightarrow> (nat \<times> nat \<times> memory) result" where
  "q_baz name p x_sz x m =
     rbind (nonnull x_sz) (\<lambda>_. rbind (nonnull x) (\<lambda>_.
     rbind (baz p x_sz x m) (\<lambda>(n, a, m1).
     rbind (print_array name n a m1) (\<lambda>m2. Inr (n, a, m2)))))"

definition q_qux ::
  "string \<Rightarrow> string_procs \<Rightarrow> nat option \<Rightarrow> nat option \<Rightarrow> memory \<Rightarrow> (nat \<times> nat \<times> memory) result" where
  "q_qux name p x_sz x m =
     rbind (nonnull x_sz) (\<lambda>n. rbind (nonnull x) (\<lambda>a.
     rbind (print_array name n a m) (\<lambda>m1.
     rbind (qux p x_sz x m1) (\<lambda>(k, b, m2).
     rbind (print_array name k b m2) (\<lambda>m3. Inr (k, b, m3))))))"

definition q_quux ::
  "string \<Rightarrow> string_procs \<Rightarrow> nat \<Rightarrow> nat \<Rightarrow> nat option \<Rightarrow> nat option \<Rightarrow> nat option \<Rightarrow> nat option \<Rightarrow> memory \<Rightarrow>
   (nat \<times> nat \<times> nat \<times> nat \<times> memory) result" where
  "q_quux name p x_sz x y_sz y z_sz z m =
     rbind (c_assert (x \<noteq> 0)) (\<lambda>_. rbind (nonnull y_sz) (\<lambda>_. rbind (nonnull y) (\<lambda>_.
     rbind (nonnull z_sz) (\<lambda>n. rbind (nonnull z) (\<lambda>a.
     rbind (print_array name x_sz x m) (\<lambda>m1.
     rbind (print_array name n a m1) (\<lambda>m2.
     rbind (quux p x_sz x y_sz y z_sz z m2) (\<lambda>(j, b, k, c, m3).
     rbind (print_array name j b m3) (\<lambda>m4.
     rbind (print_array name k c m4) (\<lambda>m5. Inr (j, b, k, c, m5)))))))))))"

definition q_corge :: "string \<Rightarrow> string_procs \<Rightarrow> nat option \<Rightarrow> nat \<Rightarrow> memory \<Rightarrow> memory result" where
  "q_corge name p x_sz x m =
     rbind (nonnull x_sz) (\<lambda>n. rbind (c_assert (x \<noteq> 0)) (\<lambda>_.
     rbind (read_ptr m x 0) (\<lambda>a. rbind (print_array name n a m) (corge p x_sz x))))"

definition q_procs :: "string \<Rightarrow> string_procs \<Rightarrow> string_procs" where
  "q_procs name p = \<lparr>foo = q_foo name p, bar = q_bar name p, baz = q_baz name p, qux = q_qux name p,
     quux = q_quux name p, corge = q_corge name p\<rparr>"

section \<open>Who owns an array\<close>

lemma owned_shown [simp]: "owned (m\<lparr>shown := o'\<rparr>) x ps zs ss L = owned m x ps zs ss L"
  by (simp add: owned_def array_sep_def)

lemma array_sep_frame: "frame names k m m' \<Longrightarrow> array_sep m' x ps ss L = array_sep m x ps ss L"
  by (simp add: array_sep_def frame_heap_pointer)

lemma owned_at: "owned m x ps zs ss L \<Longrightarrow> array_at (live m) x ss"
  by (auto simp: owned_def intro: array_blocks_at)

lemma array_blocks_dom: "array_sep m x ps ss L \<Longrightarrow> dom (array_blocks x ps zs ss) \<subseteq> set (x # ps)"
  using string_blocks_notin by (fastforce simp: array_blocks_def dom_def split: if_splits)

lemma array_at_rest:
  assumes "array_sep m z ps ss L" "array_at L x xs"
  shows "array_at (L ++ array_blocks z ps zs ss) x xs"
proof -
  have "(L ++ array_blocks z ps zs ss) p = L p" if "p \<in> dom L" for p
    using that array_blocks_dom [OF assms(1), of zs] assms(1)
    by (intro map_add_dom_app_simps(3)) (auto simp: array_sep_def)
  then show ?thesis using assms(2) unfolding array_at_def by (metis domI)
qed

lemma owned_rest: "owned m z ps zs ss L \<Longrightarrow> array_at L x xs \<Longrightarrow> array_at (live m) x xs"
  by (auto simp: owned_def intro: array_at_rest)

text \<open>Printing all strings of an array one owns and freeing everything.\<close>

lemma release_ok:
  assumes "mem_ok m" "owned m x ps zs ss L" "name \<in> names"
  shows "\<exists>m1 m2. print_free_array name (length ss) x m = Inr m1 \<and> safe_free x m1 = Inr m2 \<and>
    live m2 = L \<and> shown m2 = shown m @ map (Pair name) ss \<and> frame names 0 m m2"
proof -
  note free = print_free_array_ok [OF assms(1,2), of name]
  have x: "is_heap_pointer m x" "x \<notin> dom L" using assms(2) by (auto simp: owned_def array_sep_def)
  have "safe_free x (m\<lparr>live := L(x \<mapsto> Ptrs (ps @ zs)), shown := shown m @ map (Pair name) ss\<rparr>) =
      Inr (m\<lparr>live := L, shown := shown m @ map (Pair name) ss\<rparr>)"
    and "mem_ok (m\<lparr>live := L, shown := shown m @ map (Pair name) ss\<rparr>)"
    using safe_free_array [OF free(2), of L x "Ptrs (ps @ zs)"] x by simp_all
  with free(1) assms(3) show ?thesis by (auto simp: frame_def)
qed

text \<open>
  The contract of a string service, in the memory of its caller. A call needs 100 bytes of the heap and prints under the
  names of the service. The string of \<open>foo\<close> and the array of \<open>baz\<close> become the caller's. An array
  passed in is only read; one passed in and out is freed and replaced by one of the service's.
\<close>

locale string_service =
  fixes procs :: string_procs
    and names :: "string set"
    and foo_s :: bytes
    and baz_ss qux_ss ys zs' :: "bytes list"
  assumes foo_law: "mem_ok m \<Longrightarrow> room 100 m \<Longrightarrow>
      \<exists>p m'. foo procs m = Inr (p, m') \<and> live m' = (live m)(p \<mapsto> Chars (foo_s @ [0])) \<and>
        live m p = None \<and> is_heap_pointer m p \<and> 0 \<notin> set foo_s \<and> frame names 100 m m'"
    and bar_law: "mem_ok m \<Longrightarrow> array_at (live m) x ss \<Longrightarrow>
      \<exists>m'. bar procs (length ss) x m = Inr m' \<and> live m' = live m \<and> frame names 0 m m'"
    and baz_law: "mem_ok m \<Longrightarrow> room 100 m \<Longrightarrow>
      \<exists>x ps zs m'. baz procs (Some j) (Some k) m = Inr (length baz_ss, x, m') \<and>
        owned m' x ps zs baz_ss (live m) \<and> frame names 100 m m'"
    and qux_law: "mem_ok m \<Longrightarrow> room 100 m \<Longrightarrow> owned m x ps zs ss L \<Longrightarrow>
      \<exists>y qs rs m'. qux procs (Some (length ss)) (Some x) m = Inr (length qux_ss, y, m') \<and>
        owned m' y qs rs qux_ss L \<and> frame names 100 m m'"
    and quux_law: "mem_ok m \<Longrightarrow> room 100 m \<Longrightarrow> owned m z ps zs ss L \<Longrightarrow> array_at L x xs \<Longrightarrow>
      \<exists>y qs rs z2 us vs m'.
        quux procs (length xs) x (Some j) (Some k) (Some (length ss)) (Some z) m = Inr (length ys, y, length zs', z2, m') \<and>
        owned m' z2 us vs zs' (L ++ array_blocks y qs rs ys) \<and> array_sep m' y qs ys L \<and> frame names 100 m m'"
    and corge_law: "mem_ok m \<Longrightarrow> live m x = Some (Ptrs (a # rest)) \<Longrightarrow> array_at (live m) a ss \<Longrightarrow>
      \<exists>m'. corge procs (Some (length ss)) x m = Inr m' \<and> live m' = live m \<and> frame names 0 m m'"

text \<open>The procedures of C satisfy it.\<close>

lemma lit_nonzero [simp]:
  "0 \<notin> set (lit ''witaj'')" "0 \<notin> set (lit ''alo'')" "0 \<notin> set (lit ''mond'')" "0 \<notin> set (lit ''hola'')"
  "0 \<notin> set (lit ''mundo'')" "0 \<notin> set (lit ''ola'')" "0 \<notin> set (lit ''hallo'')" "0 \<notin> set (lit ''welt'')"
  "0 \<notin> set (lit ''ciao'')" "0 \<notin> set (lit ''ahoj'')" "0 \<notin> set (lit ''svete'')" "0 \<notin> set (lit ''konnichiwa'')"
  "0 \<notin> set (lit ''sekai'')" "0 \<notin> set (lit ''hello'')" "0 \<notin> set (lit ''world'')" "0 \<notin> set (lit ''bonjour'')"
  "0 \<notin> set (lit ''le'')" "0 \<notin> set (lit ''monde'')"
  "0 \<notin> set (lit ''mondo'')"
  by (simp_all add: lit_def)

lemma new_pair_100:
  assumes "mem_ok m" "room k m" "40 \<le> k" "length s + length t \<le> 20" "0 \<notin> set s" "0 \<notin> set t"
  shows "\<exists>x m' ps zs. new_pair 2 checked s t m = Inr (x, m') \<and> owned m' x ps zs [s, t] (live m) \<and> frame names 40 m m'"
proof -
  have "room (8 * 2 + length s + length t + 2) m" using assms(2-4) by (simp add: room_def)
  from new_pair_ok [OF assms(1) order_refl this assms(5,6), of checked] obtain x m' ps zs where
    "new_pair 2 checked s t m = Inr (x, m')" "owned m' x ps zs [s, t] (live m)"
    "frame {} (8 * 2 + length s + length t + 2) m m'" by blast
  then show ?thesis using frame_mono [of "{}" _ m m' names 40] assms(4) by fastforce
qed

lemma print_frame:
  assumes "mem_ok m" "array_at (live m) x ss" "name \<in> names"
  shows "\<exists>m'. print_array name (length ss) x m = Inr m' \<and> live m' = live m \<and> frame names 0 m m' \<and>
    shown m' = shown m @ map (Pair name) ss"
  using print_array_ok [OF assms(2,1), of name] assms(1,3) by (auto simp: frame_def)

lemmas print_pair = print_frame [where ss = "[s, t]" for s t, simplified length_Cons list.size numeral_2_eq_2 [symmetric]]

lemma c_foo_law:
  assumes "mem_ok m" "room 100 m"
  shows "\<exists>p m'. c_foo name m = Inr (p, m') \<and> live m' = (live m)(p \<mapsto> Chars (lit ''witaj'' @ [0])) \<and>
    live m p = None \<and> is_heap_pointer m p \<and> frame {name} 100 m m'"
proof -
  have "room (length (lit ''witaj'') + 1) m" using assms(2) by (simp add: room_def)
  note dup = strdup_ok [OF assms(1) this]
  then show ?thesis
    by (auto simp: c_foo_def Let_def print_string_def frame_def)
qed

lemma c_baz_law:
  assumes "mem_ok m" "room 100 m"
  shows "\<exists>x ps zs m'. c_baz name (Some j) (Some k) m = Inr (2, x, m') \<and>
    owned m' x ps zs [lit ''alo'', lit ''mond''] (live m) \<and> frame {name} 100 m m'"
proof -
  from new_pair_100 [OF assms, of "lit ''alo''" "lit ''mond''" True "{name}"] obtain x ps zs m1 where
    m1: "new_pair 2 True (lit ''alo'') (lit ''mond'') m = Inr (x, m1)"
      "owned m1 x ps zs [lit ''alo'', lit ''mond''] (live m)" "frame {name} 40 m m1" by auto
  from print_pair [OF frame_ok [OF m1(3)] owned_at [OF m1(2)], of name "{name}"] obtain m2 where
    m2: "print_array name 2 x m1 = Inr m2" "live m2 = live m1" "frame {name} 0 m1 m2" by auto
  have "frame {name} 100 m m2" using frame_trans [OF m1(3) m2(3)] by (rule frame_mono) auto
  moreover have "owned m2 x ps zs [lit ''alo'', lit ''mond''] (live m)"
    using m1(2) m2(2) array_sep_frame [OF m2(3)] by (simp add: owned_def)
  ultimately show ?thesis using m1(1) m2(1) by (auto simp: c_baz_def)
qed

lemma c_qux_law:
  assumes "mem_ok m" "room 100 m" "owned m x ps zs ss L"
  shows "\<exists>y qs rs m'. c_qux name (Some (length ss)) (Some x) m = Inr (2, y, m') \<and>
    owned m' y qs rs [lit ''hola'', lit ''mundo''] L \<and> frame {name} 100 m m'"
proof -
  from release_ok [OF assms(1,3), of name "{name}"] obtain m1 m2 where
    m2: "print_free_array name (length ss) x m = Inr m1" "safe_free x m1 = Inr m2" "live m2 = L" "frame {name} 0 m m2"
    by auto
  have "room 100 m2" using frame_room [OF m2(4)] assms(2) by simp
  from new_pair_100 [OF frame_ok [OF m2(4)] this, of "lit ''hola''" "lit ''mundo''" True "{name}"]
  obtain y qs rs m3 where m3: "new_pair 2 True (lit ''hola'') (lit ''mundo'') m2 = Inr (y, m3)"
      "owned m3 y qs rs [lit ''hola'', lit ''mundo''] L" "frame {name} 40 m2 m3" by (auto simp: m2(3))
  from print_pair [OF frame_ok [OF m3(3)] owned_at [OF m3(2)], of name "{name}"] obtain m4 where
    m4: "print_array name 2 y m3 = Inr m4" "live m4 = live m3" "frame {name} 0 m3 m4" by auto
  have "frame {name} 100 m m4"
    using frame_trans [OF m2(4) frame_trans [OF m3(3) m4(3)]] by (rule frame_mono) auto
  moreover have "owned m4 y qs rs [lit ''hola'', lit ''mundo''] L"
    using m3(2) m4(2) array_sep_frame [OF m4(3)] by (simp add: owned_def)
  ultimately show ?thesis using m2(1,2) m3(1) m4(1) by (auto simp: c_qux_def)
qed

lemma c_quux_law:
  assumes "mem_ok m" "room 100 m" "owned m z ps zs ss L" "array_at L x xs"
  shows "\<exists>y qs rs z2 us vs m'.
    c_quux name (length xs) x (Some j) (Some k) (Some (length ss)) (Some z) m = Inr (2, y, 2, z2, m') \<and>
    owned m' z2 us vs [lit ''hallo'', lit ''welt''] (L ++ array_blocks y qs rs [lit ''ola'', lit ''mundo'']) \<and>
    array_sep m' y qs [lit ''ola'', lit ''mundo''] L \<and> frame {name} 100 m m'"
proof -
  let ?Y = "\<lambda>y qs rs. array_blocks y qs rs [lit ''ola'', lit ''mundo'']"
  have x: "x \<noteq> 0" using live_nonzero [OF assms(1)] owned_rest [OF assms(3,4)] by (fastforce simp: array_at_def)
  from print_frame [OF assms(1) owned_rest [OF assms(3,4)], of name "{name}"] obtain m1 where
    m1: "print_array name (length xs) x m = Inr m1" "live m1 = live m" "frame {name} 0 m m1" by auto
  have "owned m1 z ps zs ss L" using assms(3) m1(2) array_sep_frame [OF m1(3)] by (simp add: owned_def)
  from release_ok [OF frame_ok [OF m1(3)] this, of name "{name}"] obtain m2 m3 where
    m3: "print_free_array name (length ss) z m1 = Inr m2" "safe_free z m2 = Inr m3" "live m3 = L" "frame {name} 0 m1 m3"
    by auto
  have r3: "room (40 + 60) m3" using frame_room [OF m3(4)] frame_room [OF m1(3)] assms(2) by simp
  from new_pair_100 [OF frame_ok [OF m3(4)] r3, of "lit ''ola''" "lit ''mundo''" True "{name}"]
  obtain y qs rs m4 where m4: "new_pair 2 True (lit ''ola'') (lit ''mundo'') m3 = Inr (y, m4)"
      "owned m4 y qs rs [lit ''ola'', lit ''mundo''] L" "frame {name} 40 m3 m4" by (auto simp: m3(3))
  from new_pair_100 [OF frame_ok [OF m4(3)] frame_room [OF m4(3) r3], of "lit ''hallo''" "lit ''welt''" False "{name}"]
  obtain z2 us vs m5 where m5: "new_pair 2 False (lit ''hallo'') (lit ''welt'') m4 = Inr (z2, m5)"
      "owned m5 z2 us vs [lit ''hallo'', lit ''welt''] (live m4)" "frame {name} 40 m4 m5" by auto
  have l4: "live m4 = L ++ ?Y y qs rs" and sep: "array_sep m4 y qs [lit ''ola'', lit ''mundo''] L"
    using m4(2) by (simp_all add: owned_def)
  have "array_at (live m5) y [lit ''ola'', lit ''mundo'']" by (rule owned_rest [OF m5(2) owned_at [OF m4(2)]])
  from print_pair [OF frame_ok [OF m5(3)] this, of name "{name}"] obtain m6 where
    m6: "print_array name 2 y m5 = Inr m6" "live m6 = live m5" "frame {name} 0 m5 m6" by auto
  have "owned m6 z2 us vs [lit ''hallo'', lit ''welt''] (live m4)"
    using m5(2) m6(2) array_sep_frame [OF m6(3)] by (simp add: owned_def)
  note o6 = this
  from print_pair [OF frame_ok [OF m6(3)] owned_at [OF o6], of name "{name}"] obtain m7 where
    m7: "print_array name 2 z2 m6 = Inr m7" "live m7 = live m6" "frame {name} 0 m6 m7" by auto
  have "owned m7 z2 us vs [lit ''hallo'', lit ''welt''] (L ++ ?Y y qs rs)"
    using o6 m7(2) array_sep_frame [OF m7(3)] by (simp add: owned_def l4)
  moreover have "array_sep m7 y qs [lit ''ola'', lit ''mundo''] L"
    using sep array_sep_frame [OF m5(3)] array_sep_frame [OF m6(3)] array_sep_frame [OF m7(3)] by simp
  moreover have "frame {name} (0 + 0 + 40 + 40 + 0 + 0) m m7"
    by (intro frame_trans [OF _ m7(3)] frame_trans [OF _ m6(3)] frame_trans [OF _ m5(3)] frame_trans [OF _ m4(3)]
        frame_trans [OF m1(3) m3(4)])
  then have "frame {name} 100 m m7" by (rule frame_mono) auto
  moreover have "c_quux name (length xs) x (Some j) (Some k) (Some (length ss)) (Some z) m = Inr (2, y, 2, z2, m7)"
    using x m1(1) m3(1,2) m4(1) m5(1) m6(1) m7(1) by (simp add: c_quux_def)
  ultimately show ?thesis by blast
qed

lemma c_bar_law:
  assumes "mem_ok m" "array_at (live m) x ss"
  shows "\<exists>m'. c_bar name (length ss) x m = Inr m' \<and> live m' = live m \<and> frame {name} 0 m m'"
proof -
  have "x \<noteq> 0" using live_nonzero [OF assms(1)] assms(2) by (fastforce simp: array_at_def)
  with print_frame [OF assms, of name "{name}"] show ?thesis by (auto simp: c_bar_def)
qed

lemma c_corge_law:
  assumes "mem_ok m" "live m x = Some (Ptrs (a # rest))" "array_at (live m) a ss"
  shows "\<exists>m'. c_corge name (Some (length ss)) x m = Inr m' \<and> live m' = live m \<and> frame {name} 0 m m'"
  using print_frame [OF assms(1,3), of name "{name}"] live_nonzero [OF assms(1,2)] assms(2)
  by (auto simp: c_corge_def read_ptr_def)

interpretation c_service: string_service "c_procs c" "{c}" "lit ''witaj''" "[lit ''alo'', lit ''mond'']"
  "[lit ''hola'', lit ''mundo'']" "[lit ''ola'', lit ''mundo'']" "[lit ''hallo'', lit ''welt'']"
proof unfold_locales
qed (use c_foo_law c_bar_law c_baz_law c_qux_law c_quux_law c_corge_law in \<open>simp_all add: c_procs_def numeral_2_eq_2\<close>)

text \<open>So do those of B over any service that does.\<close>

locale string_forwarder = string_service +
  fixes b :: string
begin

lemma widen: "frame names k m m' \<Longrightarrow> frame (insert b names) k m m'"
  by (rule frame_mono) auto

lemma print_here:
  assumes "mem_ok m" "array_at (live m) x ss"
  shows "\<exists>m'. print_array b (length ss) x m = Inr m' \<and> live m' = live m \<and> frame (insert b names) 0 m m'"
  using print_frame [OF assms, of b "insert b names"] by auto

lemma forward_foo:
  assumes "mem_ok m" "room 100 m"
  shows "\<exists>p m'. q_foo b procs m = Inr (p, m') \<and> live m' = (live m)(p \<mapsto> Chars (foo_s @ [0])) \<and>
    live m p = None \<and> is_heap_pointer m p \<and> 0 \<notin> set foo_s \<and> frame (insert b names) 100 m m'"
proof -
  from foo_law [OF assms] obtain p m1 where m1: "foo procs m = Inr (p, m1)" "live m1 = (live m)(p \<mapsto> Chars (foo_s @ [0]))"
      "live m p = None" "is_heap_pointer m p" "0 \<notin> set foo_s" "frame names 100 m m1" by blast
  have "p \<noteq> 0" using live_nonzero [OF frame_ok [OF m1(6)], of p] m1(2) by simp
  with m1(2,5) have "print_string b p m1 = Inr (m1\<lparr>shown := shown m1 @ [(b, foo_s)]\<rparr>)" by (simp add: print_string_def)
  moreover have "frame (insert b names) 100 m (m1\<lparr>shown := shown m1 @ [(b, foo_s)]\<rparr>)"
    using frame_shown [OF widen [OF m1(6)], of b "[foo_s]"] by simp
  ultimately show ?thesis using m1 by (auto simp: q_foo_def)
qed

lemma forward_bar:
  assumes "mem_ok m" "array_at (live m) x ss"
  shows "\<exists>m'. q_bar b procs (length ss) x m = Inr m' \<and> live m' = live m \<and> frame (insert b names) 0 m m'"
proof -
  from print_here [OF assms] obtain m1 where
    m1: "print_array b (length ss) x m = Inr m1" "live m1 = live m" "frame (insert b names) 0 m m1" by blast
  have "array_at (live m1) x ss" using assms(2) m1(2) by simp
  from bar_law [OF frame_ok [OF m1(3)] this] obtain m2 where
    "bar procs (length ss) x m1 = Inr m2" "live m2 = live m1" "frame names 0 m1 m2" by blast
  with m1 frame_trans [OF m1(3) widen] show ?thesis by (auto simp: q_bar_def)
qed

lemma forward_baz:
  assumes "mem_ok m" "room 100 m"
  shows "\<exists>x ps zs m'. q_baz b procs (Some j) (Some k) m = Inr (length baz_ss, x, m') \<and>
    owned m' x ps zs baz_ss (live m) \<and> frame (insert b names) 100 m m'"
proof -
  from baz_law [OF assms] obtain x ps zs m1 where m1: "baz procs (Some j) (Some k) m = Inr (length baz_ss, x, m1)"
      "owned m1 x ps zs baz_ss (live m)" "frame names 100 m m1" by blast
  from print_here [OF frame_ok [OF m1(3)] owned_at [OF m1(2)]] obtain m2 where
    m2: "print_array b (length baz_ss) x m1 = Inr m2" "live m2 = live m1" "frame (insert b names) 0 m1 m2" by blast
  have "owned m2 x ps zs baz_ss (live m)" using m1(2) m2(2) array_sep_frame [OF m2(3)] by (simp add: owned_def)
  with m1(1) m2(1) frame_trans [OF widen [OF m1(3)] m2(3)] show ?thesis by (auto simp: q_baz_def)
qed

lemma forward_qux:
  assumes "mem_ok m" "room 100 m" "owned m x ps zs ss L"
  shows "\<exists>y qs rs m'. q_qux b procs (Some (length ss)) (Some x) m = Inr (length qux_ss, y, m') \<and>
    owned m' y qs rs qux_ss L \<and> frame (insert b names) 100 m m'"
proof -
  from print_here [OF assms(1) owned_at [OF assms(3)]] obtain m1 where
    m1: "print_array b (length ss) x m = Inr m1" "live m1 = live m" "frame (insert b names) 0 m m1" by blast
  have "owned m1 x ps zs ss L" using assms(3) m1(2) array_sep_frame [OF m1(3)] by (simp add: owned_def)
  from qux_law [OF frame_ok [OF m1(3)] frame_room [OF m1(3)] this] assms(2) obtain y qs rs m2 where
    m2: "qux procs (Some (length ss)) (Some x) m1 = Inr (length qux_ss, y, m2)" "owned m2 y qs rs qux_ss L"
      "frame names 100 m1 m2" by auto
  from print_here [OF frame_ok [OF m2(3)] owned_at [OF m2(2)]] obtain m3 where
    m3: "print_array b (length qux_ss) y m2 = Inr m3" "live m3 = live m2" "frame (insert b names) 0 m2 m3" by blast
  have "owned m3 y qs rs qux_ss L" using m2(2) m3(2) array_sep_frame [OF m3(3)] by (simp add: owned_def)
  with m1(1) m2(1) m3(1) frame_trans [OF m1(3) frame_trans [OF widen [OF m2(3)] m3(3)]]
  show ?thesis by (auto simp: q_qux_def)
qed

lemma forward_quux:
  assumes "mem_ok m" "room 100 m" "owned m z ps zs ss L" "array_at L x xs"
  shows "\<exists>y qs rs z2 us vs m'.
    q_quux b procs (length xs) x (Some j) (Some k) (Some (length ss)) (Some z) m =
      Inr (length ys, y, length zs', z2, m') \<and>
    owned m' z2 us vs zs' (L ++ array_blocks y qs rs ys) \<and> array_sep m' y qs ys L \<and> frame (insert b names) 100 m m'"
proof -
  have x: "x \<noteq> 0" using live_nonzero [OF assms(1)] owned_rest [OF assms(3,4)] by (fastforce simp: array_at_def)
  from print_here [OF assms(1) owned_rest [OF assms(3,4)]] obtain m1 where
    m1: "print_array b (length xs) x m = Inr m1" "live m1 = live m" "frame (insert b names) 0 m m1" by blast
  have o1: "owned m1 z ps zs ss L" using assms(3) m1(2) array_sep_frame [OF m1(3)] by (simp add: owned_def)
  from print_here [OF frame_ok [OF m1(3)] owned_at [OF o1]] obtain m2 where
    m2: "print_array b (length ss) z m1 = Inr m2" "live m2 = live m1" "frame (insert b names) 0 m1 m2" by blast
  have "owned m2 z ps zs ss L" using o1 m2(2) array_sep_frame [OF m2(3)] by (simp add: owned_def)
  from quux_law [OF frame_ok [OF m2(3)] frame_room [OF frame_trans [OF m1(3) m2(3)]] this assms(4), of j k] assms(2)
  obtain y qs rs z2 us vs m3 where
    m3: "quux procs (length xs) x (Some j) (Some k) (Some (length ss)) (Some z) m2 = Inr (length ys, y, length zs', z2, m3)"
      "owned m3 z2 us vs zs' (L ++ array_blocks y qs rs ys)" "array_sep m3 y qs ys L" "frame names 100 m2 m3" by auto
  from print_here [OF frame_ok [OF m3(4)] owned_rest [OF m3(2) array_blocks_at [OF m3(3)]]] obtain m4 where
    m4: "print_array b (length ys) y m3 = Inr m4" "live m4 = live m3" "frame (insert b names) 0 m3 m4" by blast
  have o4: "owned m4 z2 us vs zs' (L ++ array_blocks y qs rs ys)"
    using m3(2) m4(2) array_sep_frame [OF m4(3)] by (simp add: owned_def)
  from print_here [OF frame_ok [OF m4(3)] owned_at [OF o4]] obtain m5 where
    m5: "print_array b (length zs') z2 m4 = Inr m5" "live m5 = live m4" "frame (insert b names) 0 m4 m5" by blast
  have "owned m5 z2 us vs zs' (L ++ array_blocks y qs rs ys)"
    using o4 m5(2) array_sep_frame [OF m5(3)] by (simp add: owned_def)
  moreover have "array_sep m5 y qs ys L"
    using m3(3) array_sep_frame [OF m4(3)] array_sep_frame [OF m5(3)] by simp
  moreover have "frame (insert b names) (0 + 0 + 100 + 0 + 0) m m5"
    by (intro frame_trans [OF _ m5(3)] frame_trans [OF _ m4(3)] frame_trans [OF _ widen [OF m3(4)]]
        frame_trans [OF m1(3) m2(3)])
  moreover have "q_quux b procs (length xs) x (Some j) (Some k) (Some (length ss)) (Some z) m =
      Inr (length ys, y, length zs', z2, m5)"
    using x m1(1) m2(1) m3(1) m4(1) m5(1) by (simp add: q_quux_def)
  ultimately show ?thesis by auto
qed

lemma forward_corge:
  assumes "mem_ok m" "live m x = Some (Ptrs (a # rest))" "array_at (live m) a ss"
  shows "\<exists>m'. q_corge b procs (Some (length ss)) x m = Inr m' \<and> live m' = live m \<and> frame (insert b names) 0 m m'"
proof -
  have x: "x \<noteq> 0" using live_nonzero [OF assms(1,2)] by simp
  from print_here [OF assms(1,3)] obtain m1 where
    m1: "print_array b (length ss) a m = Inr m1" "live m1 = live m" "frame (insert b names) 0 m m1" by blast
  from corge_law [OF frame_ok [OF m1(3)], of x a rest ss] assms(2,3) m1(2) obtain m2 where
    "corge procs (Some (length ss)) x m1 = Inr m2" "live m2 = live m1" "frame names 0 m1 m2" by auto
  with x m1 assms(2) frame_trans [OF m1(3) widen] show ?thesis by (auto simp: q_corge_def read_ptr_def)
qed

end

sublocale string_forwarder \<subseteq> forwarded: string_service "q_procs b procs" "insert b names" foo_s baz_ss qux_ss ys zs'
  by unfold_locales
    (simp_all only: q_procs_def string_procs.simps forward_foo forward_bar forward_baz forward_qux forward_quux forward_corge)

section \<open>The client\<close>

text \<open>\<^verbatim>\<open>A.c\<close>, one definition per call. An array of literals on the stack lies outside of the heap.\<close>

definition stack_array :: "bytes list \<Rightarrow> memory \<Rightarrow> nat \<times> memory" where
  "stack_array ss m =
     (let x = static_top m; ps = [x + 1..<x + 1 + length ss] in
      (x, m\<lparr>static_top := x + 1 + length ss, live := live m ++ array_blocks x ps [] ss\<rparr>))"

definition a_foo :: "string \<Rightarrow> string_procs \<Rightarrow> memory \<Rightarrow> memory result" where
  "a_foo name p m = rbind (foo p m) (\<lambda>(s, m1). print_string name s m1)"

definition a_bar :: "string \<Rightarrow> string_procs \<Rightarrow> memory \<Rightarrow> memory result" where
  "a_bar name p m =
     (let (s1, m1) = stack_array [lit ''hello'', lit ''world''] m in
      rbind (print_array name 2 s1 m1) (bar p 2 s1))"

definition a_baz :: "string \<Rightarrow> string_procs \<Rightarrow> nat \<Rightarrow> memory \<Rightarrow> (nat \<times> memory) result" where
  "a_baz name p s2_sz m =
     rbind (baz p (Some s2_sz) (Some 0) m) (\<lambda>(s2_sz, s2, m1).
     rbind (c_assert (s2 \<noteq> 0)) (\<lambda>_.
     rbind (print_free_array name s2_sz s2 m1) (\<lambda>m2.
     rbind (safe_free s2 m2) (\<lambda>m3. Inr (s2_sz, m3)))))"

definition a_qux :: "string \<Rightarrow> string_procs \<Rightarrow> nat \<Rightarrow> memory \<Rightarrow> memory result" where
  "a_qux name p s2_sz m =
     rbind (new_pair s2_sz True (lit ''ciao'') (lit ''mondo'') m) (\<lambda>(s3, m1).
     rbind (print_array name 2 s3 m1) (\<lambda>m2.
     rbind (qux p (Some 2) (Some s3) m2) (\<lambda>(s3_sz, s3, m3).
     rbind (c_assert (s3 \<noteq> 0)) (\<lambda>_.
     rbind (print_free_array name s3_sz s3 m3) (safe_free s3)))))"

definition a_quux :: "string \<Rightarrow> string_procs \<Rightarrow> nat \<Rightarrow> memory \<Rightarrow> memory result" where
  "a_quux name p s5_sz m0 =
     (let (s4, m) = stack_array [lit ''bonjour'', lit ''le'', lit ''monde''] m0 in
      rbind (new_pair 2 True (lit ''ahoj'') (lit ''svete'') m) (\<lambda>(s6, m1).
      rbind (print_array name 2 s6 m1) (\<lambda>m2.
      rbind (print_array name 3 s4 m2) (\<lambda>m3.
      rbind (quux p 3 s4 (Some s5_sz) (Some 0) (Some 2) (Some s6) m3) (\<lambda>(s5_sz, s5, s6_sz, s6, m4).
      rbind (c_assert (s5 \<noteq> 0)) (\<lambda>_.
      rbind (print_free_array name s5_sz s5 m4) (print_free_array name s6_sz s6)))))))"

definition a_corge :: "string \<Rightarrow> string_procs \<Rightarrow> nat list \<Rightarrow> nat list \<Rightarrow> memory \<Rightarrow> memory result" where
  "a_corge name p junk1 junk2 m =
     (let (s7, m1) = malloc_ptrs junk1 m in
      rbind (c_assert (s7 \<noteq> 0)) (\<lambda>_.
      let (a, m2) = malloc_ptrs junk2 m1 in
      rbind (write_ptr s7 0 a m2) (\<lambda>m3.
      rbind (read_ptr m3 s7 0) (\<lambda>a.
      rbind (c_assert (a \<noteq> 0)) (\<lambda>_.
      rbind (store_dup a 0 (lit ''konnichiwa'') m3) (\<lambda>m4.
      rbind (store_dup a 1 (lit ''sekai'') m4) (\<lambda>m5.
      rbind (print_array name 2 a m5) (\<lambda>m6.
      rbind (corge p (Some 2) s7 m6) (\<lambda>m7.
      rbind (read_ptr m7 s7 0) (\<lambda>a.
      rbind (read_ptr m7 a 0) (\<lambda>s.
      rbind (safe_free s m7) (\<lambda>m8.
      rbind (read_ptr m8 a 1) (\<lambda>s.
      rbind (safe_free s m8) (\<lambda>m9.
      rbind (safe_free a m9) (safe_free s7)))))))))))))))"

definition a_run :: "string \<Rightarrow> string_procs \<Rightarrow> nat \<Rightarrow> nat \<Rightarrow> nat list \<Rightarrow> nat list \<Rightarrow> memory \<Rightarrow> memory result" where
  "a_run name p s2_sz s5_sz junk1 junk2 m =
     rbind (a_foo name p m) (\<lambda>m.
     rbind (a_bar name p m) (\<lambda>m.
     rbind (a_baz name p s2_sz m) (\<lambda>(s2_sz, m).
     rbind (a_qux name p s2_sz m) (\<lambda>m.
     rbind (a_quux name p s5_sz m) (a_corge name p junk1 junk2)))))"

text \<open>The assembly: A calls C through three instances of B.\<close>

definition b_chain :: "string_procs" where
  "b_chain = q_procs ''b1'' (q_procs ''b2'' (q_procs ''b3'' (c_procs ''c'')))"

text \<open>What one part of the client's run does: at most \<open>k\<close> bytes are taken, and it prints \<open>ss\<close>.\<close>

definition own :: "string \<Rightarrow> memory \<Rightarrow> bytes list" where
  "own name m = map snd (filter (\<lambda>e. fst e = name) (shown m))"

definition a_step :: "string \<Rightarrow> nat \<Rightarrow> bytes list \<Rightarrow> memory \<Rightarrow> memory \<Rightarrow> bool" where
  "a_step name k ss m m' \<longleftrightarrow>
     mem_ok m' \<and> morecore_area m' = morecore_area m \<and> morecore_size m' = morecore_size m \<and>
     brk m' \<le> brk m + k \<and> own name m' = own name m @ ss"

lemma a_step_ok: "a_step name k ss m m' \<Longrightarrow> mem_ok m'"
  by (simp add: a_step_def)

lemma a_step_trans: "a_step name j ss m m1 \<Longrightarrow> a_step name k ts m1 m2 \<Longrightarrow> a_step name (j + k) (ss @ ts) m m2"
  by (simp add: a_step_def)

lemma a_step_mono: "a_step name j ss m m' \<Longrightarrow> j \<le> k \<Longrightarrow> a_step name k ss m m'"
  by (simp add: a_step_def)

lemma a_step_room: "a_step name j ss m m' \<Longrightarrow> room (j + k) m \<Longrightarrow> room k m'"
  by (auto simp: a_step_def room_def)

lemma a_step_heap_pointer: "a_step name k ss m m' \<Longrightarrow> is_heap_pointer m' = is_heap_pointer m"
  by (rule is_heap_pointer_cong) (simp_all add: a_step_def)

lemma frame_step:
  assumes "frame names k m m'" "name \<notin> names"
  shows "a_step name k [] m m'"
proof -
  obtain out where out: "shown m' = shown m @ out" "\<forall>e \<in> set out. fst e \<in> names"
    using assms(1) by (auto simp: frame_def)
  have "filter (\<lambda>e. fst e = name) out = []" using out(2) assms(2) by (auto simp: filter_empty_conv)
  with assms(1) out(1) show ?thesis by (simp add: frame_def a_step_def own_def)
qed

lemma own_shown: "own name (m\<lparr>shown := shown m @ map (Pair name) ss\<rparr>) = own name m @ ss"
proof -
  have "filter (\<lambda>e. fst e = name) (map (Pair name) ss) = map (Pair name) ss"
    by (induction ss) auto
  then show ?thesis by (simp add: own_def o_def)
qed

lemma print_step:
  assumes "mem_ok m" "array_at (live m) x ss"
  shows "\<exists>m'. print_array name (length ss) x m = Inr m' \<and> live m' = live m \<and> a_step name 0 ss m m'"
  using print_array_ok [OF assms(2,1), of name] assms(1) by (auto simp: a_step_def own_shown)

lemma release_step:
  assumes "mem_ok m" "owned m x ps zs ss L"
  shows "\<exists>m1 m2. print_free_array name (length ss) x m = Inr m1 \<and> safe_free x m1 = Inr m2 \<and>
    live m2 = L \<and> a_step name 0 ss m m2"
proof -
  from release_ok [OF assms, of name "{name}"] obtain m1 m2 where
    m2: "print_free_array name (length ss) x m = Inr m1" "safe_free x m1 = Inr m2" "live m2 = L"
      "shown m2 = shown m @ map (Pair name) ss" "frame {name} 0 m m2" by auto
  then have "own name m2 = own name m @ ss" using own_shown [of name m ss] by (simp add: own_def)
  with m2(5) have "a_step name 0 ss m m2" by (simp add: a_step_def frame_def)
  with m2(1-3) show ?thesis by blast
qed

lemma array_sep_step: "a_step name k out m m' \<Longrightarrow> array_sep m' x ps ss L = array_sep m x ps ss L"
  by (simp add: array_sep_def a_step_heap_pointer)

lemma stack_array_ok:
  assumes "mem_ok m" "list_all (\<lambda>s. 0 \<notin> set s) ss"
  shows "\<exists>x m' l. stack_array ss m = (x, m') \<and> live m' = live m ++ l \<and> array_at (live m') x ss \<and>
    dom l \<inter> dom (live m) = {} \<and> (\<forall>p \<in> dom l. \<not> is_heap_pointer m p) \<and> a_step name 0 [] m m'"
proof -
  define x where "x = static_top m"
  define ps where "ps = [x + 1..<x + 1 + length ss]"
  define l where "l = array_blocks x ps [] ss"
  let ?m = "m\<lparr>static_top := x + 1 + length ss, live := live m ++ l\<rparr>"
  have ps: "length ps = length ss" "distinct ps" "x \<notin> set ps" "set ps \<subseteq> {x..<x + 1 + length ss}"
    by (auto simp: ps_def simp del: upt_Suc)
  have "dom l \<subseteq> insert x (set ps)" using string_blocks_dom [of ps ss] by (auto simp: l_def array_blocks_def)
  also have "\<dots> \<subseteq> {x..<x + 1 + length ss}" using ps(4) by auto
  finally have dom: "x \<le> p \<and> p < x + 1 + length ss" if "p \<in> dom l" for p
    using that by (meson atLeastLessThan_iff subsetD)
  have dom': "static_top m \<le> p \<and> p < x + 1 + length ss" if "p \<in> dom l" for p using dom [OF that] by (simp add: x_def)
  have "static_top m \<le> x + 1 + length ss" by (simp add: x_def)
  note new = static_blocks_ok [OF assms(1) dom' this]
  from new(1) have "mem_ok ?m" by simp
  then have "a_step name 0 [] m ?m" by (simp add: a_step_def own_def)
  moreover have "array_at (live ?m) x ss"
  proof -
    have "l (ps ! i) = Some (Chars (ss ! i @ [0]))" if "i < length ss" for i
      using string_blocks_nth [OF ps(1,2) that] ps(1,3) nth_mem [of i ps] that by (auto simp: l_def array_blocks_def)
    moreover have "l x = Some (Ptrs ps)" by (simp add: l_def array_blocks_def)
    ultimately show ?thesis
      using assms(2) ps(1) by (auto simp: array_at_def list_all_length intro!: exI [of _ ps] map_add_find_right)
  qed
  moreover have "stack_array ss m = (x, ?m)" by (simp add: stack_array_def Let_def x_def ps_def l_def)
  ultimately show ?thesis using new(2,3) by (intro exI [of _ x] exI [of _ ?m] exI [of _ l]) simp
qed

lemma array_blocks_cover:
  assumes "array_sep m x ps ss L"
  shows "set (x # ps) \<subseteq> dom (array_blocks x ps zs ss)"
proof
  fix p assume "p \<in> set (x # ps)"
  then consider "p = x" | i where "i < length ss" "p = ps ! i"
    using assms by (auto simp: array_sep_def in_set_conv_nth)
  then show "p \<in> dom (array_blocks x ps zs ss)"
    using assms string_blocks_nth [of ps ss] by cases (auto simp: array_blocks_def array_sep_def)
qed

lemma array_blocks_disjoint:
  assumes "array_sep m z us zs (L ++ array_blocks y qs rs ys)" "array_sep m y qs ys L"
  shows "dom (array_blocks y qs rs ys) \<inter> dom (array_blocks z us vs zs) = {}"
  using array_blocks_dom [OF assms(2), of rs] array_blocks_dom [OF assms(1), of vs] assms(1)
  by (fastforce simp: array_sep_def)

lemma owned_swap:
  assumes "owned m z us vs zs (L ++ array_blocks y qs rs ys)" "array_sep m y qs ys L"
  shows "owned m y qs rs ys (L ++ array_blocks z us vs zs)" "array_sep m z us zs L"
proof -
  have z: "array_sep m z us zs (L ++ array_blocks y qs rs ys)" using assms(1) by (simp add: owned_def)
  note disj = array_blocks_disjoint [OF z assms(2), of vs]
  have "array_blocks y qs rs ys ++ array_blocks z us vs zs = array_blocks z us vs zs ++ array_blocks y qs rs ys"
    by (rule map_add_comm [OF disj])
  then have "live m = (L ++ array_blocks z us vs zs) ++ array_blocks y qs rs ys"
    using assms(1) by (simp add: owned_def flip: map_add_assoc)
  moreover have "array_sep m y qs ys (L ++ array_blocks z us vs zs)"
  proof -
    have "p \<notin> dom (array_blocks z us vs zs)" if "p \<in> set (y # qs)" for p
      using disj array_blocks_cover [OF assms(2), of rs] that by blast
    with assms(2) show ?thesis by (auto simp: array_sep_def)
  qed
  ultimately show "owned m y qs rs ys (L ++ array_blocks z us vs zs)" by (simp add: owned_def)
  show "array_sep m z us zs L" using z by (auto simp: array_sep_def)
qed

text \<open>The client relies on one more law than the procedures declare: at least two strings come from \<open>baz\<close>.\<close>

locale string_client = string_service +
  fixes me :: string
  assumes me_new: "me \<notin> names" and baz_two: "2 \<le> length baz_ss"
begin

lemma client_foo:
  assumes "mem_ok m" "room 100 m"
  shows "\<exists>p m'. a_foo me procs m = Inr m' \<and> p \<notin> heap_blocks m \<and> heap_blocks m' = insert p (heap_blocks m) \<and>
    a_step me 100 [foo_s] m m'"
proof -
  from foo_law [OF assms] obtain p m1 where m1: "foo procs m = Inr (p, m1)"
      "live m1 = (live m)(p \<mapsto> Chars (foo_s @ [0]))" "live m p = None" "is_heap_pointer m p" "0 \<notin> set foo_s"
      "frame names 100 m m1" by blast
  have p: "p \<noteq> 0" using live_nonzero [OF frame_ok [OF m1(6)], of p] m1(2) by simp
  let ?m = "m1\<lparr>shown := shown m1 @ map (Pair me) [foo_s]\<rparr>"
  have "own me ?m = own me m1 @ [foo_s]" by (rule own_shown)
  then have "a_step me 100 [foo_s] m ?m" using frame_step [OF m1(6) me_new] by (simp add: a_step_def)
  moreover have "heap_blocks ?m = insert p (heap_blocks m)"
    using m1(2,4) frame_heap_pointer [OF m1(6)] by (auto simp: heap_blocks_def)
  moreover have "a_foo me procs m = Inr ?m" using m1 p by (simp add: a_foo_def print_string_def)
  moreover have "p \<notin> heap_blocks m" using m1(3) by (auto simp: heap_blocks_def)
  ultimately show ?thesis by blast
qed

lemma client_bar:
  assumes "mem_ok m"
  shows "\<exists>m'. a_bar me procs m = Inr m' \<and> heap_blocks m' = heap_blocks m \<and>
    a_step me 0 [lit ''hello'', lit ''world''] m m'"
proof -
  let ?ss = "[lit ''hello'', lit ''world'']"
  have "list_all (\<lambda>s. 0 \<notin> set s) ?ss" by simp
  from stack_array_ok [OF assms this, of me] obtain x m1 l where
    m1: "stack_array ?ss m = (x, m1)" "live m1 = live m ++ l" "array_at (live m1) x ?ss"
      "\<forall>p \<in> dom l. \<not> is_heap_pointer m p" "a_step me 0 [] m m1" by blast
  from print_step [OF a_step_ok [OF m1(5)] m1(3)] obtain m2 where
    m2: "print_array me (length ?ss) x m1 = Inr m2" "live m2 = live m1" "a_step me 0 ?ss m1 m2" by blast
  have "array_at (live m2) x ?ss" using m1(3) m2(2) by simp
  from bar_law [OF a_step_ok [OF m2(3)] this] obtain m3 where
    m3: "bar procs (length ?ss) x m2 = Inr m3" "live m3 = live m2" "frame names 0 m2 m3" by blast
  have step: "a_step me (0 + (0 + 0)) ([] @ (?ss @ [])) m m3"
    by (rule a_step_trans [OF m1(5) a_step_trans [OF m2(3) frame_step [OF m3(3) me_new]]])
  have "live m3 = live m ++ l" using m3(2) m2(2) m1(2) by simp
  then have "heap_blocks m3 = heap_blocks m"
    using m1(4) a_step_heap_pointer [OF step] by (auto simp: heap_blocks_def)
  moreover have "a_bar me procs m = Inr m3" using m1(1) m2(1) m3(1) by (simp add: a_bar_def numeral_2_eq_2)
  ultimately show ?thesis using step by auto
qed

lemma client_baz:
  assumes "mem_ok m" "room 100 m"
  shows "\<exists>m'. a_baz me procs k m = Inr (length baz_ss, m') \<and> live m' = live m \<and> a_step me 100 baz_ss m m'"
proof -
  from baz_law [OF assms, of k 0] obtain x ps zs m1 where
    m1: "baz procs (Some k) (Some 0) m = Inr (length baz_ss, x, m1)" "owned m1 x ps zs baz_ss (live m)"
      "frame names 100 m m1" by blast
  have x: "x \<noteq> 0"
    using live_nonzero [OF frame_ok [OF m1(3)], of x] m1(2) by (auto simp: owned_def array_blocks_def)
  from release_step [OF frame_ok [OF m1(3)] m1(2), of me] obtain m2 m3 where
    m3: "print_free_array me (length baz_ss) x m1 = Inr m2" "safe_free x m2 = Inr m3" "live m3 = live m"
      "a_step me 0 baz_ss m1 m3" by blast
  with m1(1) x a_step_trans [OF frame_step [OF m1(3) me_new] m3(4)] show ?thesis by (simp add: a_baz_def)
qed

lemma client_qux:
  assumes "mem_ok m" "2 \<le> n" "room (8 * n + 120) m"
  shows "\<exists>m'. a_qux me procs n m = Inr m' \<and> live m' = live m \<and>
    a_step me (8 * n + 120) ([lit ''ciao'', lit ''mondo''] @ qux_ss) m m'"
proof -
  let ?ss = "[lit ''ciao'', lit ''mondo'']"
  have len: "8 * n + length (lit ''ciao'') + length (lit ''mondo'') + 2 = 8 * n + 11" by simp
  have "room (8 * n + length (lit ''ciao'') + length (lit ''mondo'') + 2) m" using assms(3) by (simp add: room_def)
  from new_pair_ok [OF assms(1,2) this lit_nonzero(9), of True] obtain x m1 ps zs where
    m1: "new_pair n True (lit ''ciao'') (lit ''mondo'') m = Inr (x, m1)" "owned m1 x ps zs ?ss (live m)"
      "frame {} (8 * n + 11) m m1" unfolding len using lit_nonzero(19) by blast
  have m1': "a_step me (8 * n + 11) [] m m1" by (rule frame_step [OF m1(3)]) simp
  from print_step [OF frame_ok [OF m1(3)] owned_at [OF m1(2)]] obtain m2 where
    m2: "print_array me (length ?ss) x m1 = Inr m2" "live m2 = live m1" "a_step me 0 ?ss m1 m2" by blast
  have "owned m2 x ps zs ?ss (live m)" using m1(2) m2(2) array_sep_step [OF m2(3)] by (simp add: owned_def)
  moreover have "room 100 m2"
    using a_step_room [OF a_step_trans [OF m1' m2(3)], of 100] assms(3) by (simp add: room_def)
  ultimately obtain y qs rs m3 where
    m3: "qux procs (Some (length ?ss)) (Some x) m2 = Inr (length qux_ss, y, m3)" "owned m3 y qs rs qux_ss (live m)"
      "frame names 100 m2 m3" using qux_law [OF a_step_ok [OF m2(3)]] by blast
  have y: "y \<noteq> 0"
    using live_nonzero [OF frame_ok [OF m3(3)], of y] m3(2) by (auto simp: owned_def array_blocks_def)
  from release_step [OF frame_ok [OF m3(3)] m3(2), of me] obtain m4 m5 where
    m5: "print_free_array me (length qux_ss) y m3 = Inr m4" "safe_free y m4 = Inr m5" "live m5 = live m"
      "a_step me 0 qux_ss m3 m5" by blast
  have "a_step me (8 * n + 11 + (0 + (100 + 0))) ([] @ (?ss @ ([] @ qux_ss))) m m5"
    by (intro a_step_trans [OF m1'] a_step_trans [OF m2(3)] a_step_trans [OF frame_step [OF m3(3) me_new]] m5(4))
  then have "a_step me (8 * n + 111) (?ss @ qux_ss) m m5" by (simp add: add.commute)
  then have "a_step me (8 * n + 120) (?ss @ qux_ss) m m5" by (rule a_step_mono) simp
  moreover have two: "length ?ss = 2" by simp
  moreover have "a_qux me procs n m = Inr m5"
    using m1(1) m2(1) [unfolded two] m3(1) [unfolded two] m5(1,2) y by (simp add: a_qux_def)
  ultimately show ?thesis using m5(3) by blast
qed

lemma client_quux:
  assumes "mem_ok m" "room 200 m"
  shows "\<exists>y z m'. a_quux me procs k m = Inr m' \<and> y \<noteq> z \<and> y \<notin> heap_blocks m \<and> z \<notin> heap_blocks m \<and>
    heap_blocks m' = {y, z} \<union> heap_blocks m \<and>
    a_step me 200 ([lit ''ahoj'', lit ''svete'', lit ''bonjour'', lit ''le'', lit ''monde''] @ ys @ zs') m m'"
proof -
  let ?xs = "[lit ''bonjour'', lit ''le'', lit ''monde'']" let ?ss = "[lit ''ahoj'', lit ''svete'']"
  have len: "length ?xs = 3" "length ?ss = 2" by simp_all
  have "list_all (\<lambda>s. 0 \<notin> set s) ?xs" by simp
  from stack_array_ok [OF assms(1) this, of me] obtain x m0 l where
    m0: "stack_array ?xs m = (x, m0)" "live m0 = live m ++ l" "array_at (live m0) x ?xs"
      "\<forall>p \<in> dom l. \<not> is_heap_pointer m p" "a_step me 0 [] m m0" by blast
  have r0: "room 200 m0" using a_step_room [OF m0(5)] assms(2) by simp
  have "room 40 m0" using r0 by (simp add: room_def)
  from new_pair_100 [OF a_step_ok [OF m0(5)] this order_refl, of "lit ''ahoj''" "lit ''svete''" True names]
  obtain z m1 ps zs where m1: "new_pair 2 True (lit ''ahoj'') (lit ''svete'') m0 = Inr (z, m1)"
      "owned m1 z ps zs ?ss (live m0)" "frame names 40 m0 m1" by auto
  from print_step [OF frame_ok [OF m1(3)] owned_at [OF m1(2)]] obtain m2 where
    m2: "print_array me 2 z m1 = Inr m2" "live m2 = live m1" "a_step me 0 ?ss m1 m2" unfolding len by blast
  have o2: "owned m2 z ps zs ?ss (live m0)" using m1(2) m2(2) array_sep_step [OF m2(3)] by (simp add: owned_def)
  from print_step [OF a_step_ok [OF m2(3)] owned_rest [OF o2 m0(3)]] obtain m3 where
    m3: "print_array me 3 x m2 = Inr m3" "live m3 = live m2" "a_step me 0 ?xs m2 m3" unfolding len by blast
  have o3: "owned m3 z ps zs ?ss (live m0)" using o2 m3(2) array_sep_step [OF m3(3)] by (simp add: owned_def)
  have s3: "a_step me (0 + (40 + (0 + 0))) ([] @ ([] @ (?ss @ ?xs))) m m3"
    by (intro a_step_trans [OF m0(5)] a_step_trans [OF frame_step [OF m1(3) me_new]] a_step_trans [OF m2(3)] m3(3))
  have "room (40 + 100) m" using assms(2) by (simp add: room_def)
  then have "room 100 m3" using a_step_room [OF s3, of 100] by simp
  from quux_law [OF a_step_ok [OF m3(3)] this o3 m0(3), of k 0] obtain y qs rs z2 us vs m4 where
    m4: "quux procs 3 x (Some k) (Some 0) (Some 2) (Some z) m3 = Inr (length ys, y, length zs', z2, m4)"
      "owned m4 z2 us vs zs' (live m0 ++ array_blocks y qs rs ys)" "array_sep m4 y qs ys (live m0)"
      "frame names 100 m3 m4" unfolding len by blast
  note o4 = owned_swap [OF m4(2,3)]
  have y0: "y \<noteq> 0"
    using live_nonzero [OF frame_ok [OF m4(4)], of y] o4(1) by (auto simp: owned_def array_blocks_def)
  let ?L = "(live m0)(y \<mapsto> Ptrs (qs @ rs))"
  let ?m5 = "m4\<lparr>live := (live m0 ++ array_blocks z2 us vs zs')(y \<mapsto> Ptrs (qs @ rs)), shown := shown m4 @ map (Pair me) ys\<rparr>"
  note f5 = print_free_array_ok [OF frame_ok [OF m4(4)] o4(1), of me]
  have s5: "a_step me 0 ys m4 ?m5" using f5(2) own_shown [of me m4 ys] by (simp add: a_step_def own_def)
  have ynot: "y \<notin> dom (array_blocks z2 us vs zs')" "y \<notin> set (z2 # us)"
    using o4(1) array_blocks_cover [OF o4(2), of vs] by (auto simp: owned_def array_sep_def)
  have "live ?m5 = ?L ++ array_blocks z2 us vs zs'"
    using ynot(1) by (auto simp: fun_eq_iff map_add_def domIff split: option.split)
  moreover have "array_sep ?m5 z2 us zs' ?L" using o4(2) ynot(2) by (auto simp: array_sep_def)
  ultimately have o5: "owned ?m5 z2 us vs zs' ?L" by (simp add: owned_def)
  let ?m6 = "?m5\<lparr>live := ?L(z2 \<mapsto> Ptrs (us @ vs)), shown := shown ?m5 @ map (Pair me) zs'\<rparr>"
  note f6 = print_free_array_ok [OF f5(2) o5, of me]
  have s6: "a_step me 0 zs' ?m5 ?m6" using f6(2) own_shown [of me ?m5 zs'] by (simp add: a_step_def own_def)
  have step: "a_step me (40 + (100 + (0 + 0))) ((?ss @ ?xs) @ ([] @ (ys @ zs'))) m ?m6"
    using a_step_trans [OF s3 a_step_trans [OF frame_step [OF m4(4) me_new] a_step_trans [OF s5 s6]]] by simp
  then have "a_step me 140 ([lit ''ahoj'', lit ''svete'', lit ''bonjour'', lit ''le'', lit ''monde''] @ ys @ zs') m ?m6"
    by simp
  then have "a_step me 200 ([lit ''ahoj'', lit ''svete'', lit ''bonjour'', lit ''le'', lit ''monde''] @ ys @ zs') m ?m6"
    by (rule a_step_mono) simp
  moreover have "a_quux me procs k m = Inr ?m6"
    using m0(1) m1(1) m2(1) m3(1) m4(1) f5(1) f6(1) y0 by (simp add: a_quux_def)
  moreover have heap: "is_heap_pointer m y" "is_heap_pointer m z2" "y \<notin> dom (live m0)" "z2 \<notin> dom (live m0)"
    using m4(3) o4(2) a_step_heap_pointer [OF a_step_trans [OF s3 frame_step [OF m4(4) me_new]]]
    by (auto simp: array_sep_def)
  then have "heap_blocks ?m6 = {y, z2} \<union> heap_blocks m"
    using m0(2,4) a_step_heap_pointer [OF step] by (auto simp: heap_blocks_def)
  moreover have "y \<notin> heap_blocks m" "z2 \<notin> heap_blocks m" using heap(3,4) m0(2) by (auto simp: heap_blocks_def)
  moreover have "y \<noteq> z2" using ynot(2) by simp
  ultimately show ?thesis by blast
qed

lemma safe_free_held:
  "is_heap_pointer m p \<Longrightarrow> p \<noteq> 0 \<Longrightarrow> live m p = Some b \<Longrightarrow> safe_free p m = Inr (m\<lparr>live := (live m)(p := None)\<rparr>)"
  by (simp add: safe_free_def c_free_def)

lemma client_corge:
  assumes "mem_ok m" "room 100 m"
  shows "\<exists>m'. a_corge me procs [j] [k1, k2] m = Inr m' \<and> live m' = live m \<and>
    a_step me 100 [lit ''konnichiwa'', lit ''sekai''] m m'"
proof -
  let ?ss = "[lit ''konnichiwa'', lit ''sekai'']"
  have two: "length ?ss = 2" by simp
  define x where "x = brk m"
  define m1 where "m1 = m\<lparr>brk := x + 8, live := (live m)(x \<mapsto> Ptrs [j])\<rparr>"
  have a1: "malloc_ptrs [j] m = (x, m1)" "mem_ok m1" "live m x = None" "is_heap_pointer m x" "x \<noteq> 0"
    using heap_alloc_ok [OF assms(1), of "Ptrs [j]"] assms(2)
    by (simp_all add: malloc_ptrs_def m1_def x_def room_def)
  have r1: "room 92 m1" using assms(2) by (simp add: room_def m1_def x_def)
  define a where "a = brk m1"
  define m2 where "m2 = m1\<lparr>brk := a + 16, live := (live m1)(a \<mapsto> Ptrs [k1, k2])\<rparr>"
  have a2: "malloc_ptrs [k1, k2] m1 = (a, m2)" "mem_ok m2" "live m1 a = None" "is_heap_pointer m1 a" "a \<noteq> 0"
    using heap_alloc_ok [OF a1(2), of "Ptrs [k1, k2]"] r1
    by (simp_all add: malloc_ptrs_def m2_def a_def room_def)
  have lm1: "live m1 = (live m)(x \<mapsto> Ptrs [j])" by (simp add: m1_def)
  have lm2: "live m2 = (live m1)(a \<mapsto> Ptrs [k1, k2])" by (simp add: m2_def)
  have ax: "a \<noteq> x" using a2(3) lm1 by auto
  define m3 where "m3 = m2\<lparr>live := (live m2)(x \<mapsto> Ptrs [a])\<rparr>"
  have w: "write_ptr x 0 a m2 = Inr m3" using a1(5) ax by (simp add: write_ptr_def lm1 lm2 m3_def)
  have lm3: "live m3 = (live m)(a \<mapsto> Ptrs [k1, k2], x \<mapsto> Ptrs [a])"
    using ax by (auto simp: m3_def lm2 lm1 fun_eq_iff)
  have "mem_ok m3" using mem_ok_restrict [OF a2(2), of "live m3"] by (simp add: m3_def lm2 lm1 insert_commute)
  moreover have r3: "room (11 + 60) m3" using r1 by (simp add: room_def m3_def m2_def a_def)
  moreover have "room (length (lit ''konnichiwa'') + 1) m3" using r3 by (simp add: room_def)
  moreover have "live m3 a = Some (Ptrs [k1, k2])" using ax by (simp add: lm3)
  ultimately obtain m4 where f4: "frame {} (length (lit ''konnichiwa'') + 1) m3 m4"
      and m4': "store_dup a 0 (lit ''konnichiwa'') m3 = Inr m4" "live m4 = (live m3)(brk m3 \<mapsto> Chars (lit ''konnichiwa'' @ [0]), a \<mapsto> Ptrs [brk m3, k2])"
      "live m3 (brk m3) = None" "is_heap_pointer m3 (brk m3)"
    using store_dup_ok [of m3 "lit ''konnichiwa''" a "[k1, k2]" 0] by auto
  have "frame {} 11 m3 m4" by (rule frame_mono [OF f4]) simp_all
  note m4 = m4'(1) this m4'(2-4)
  have r4: "room 60 m4" using frame_room [OF m4(2) r3] by simp
  then have "room (length (lit ''sekai'') + 1) m4" by (simp add: room_def)
  moreover have "live m4 a = Some (Ptrs [brk m3, k2])" by (simp add: m4(3))
  ultimately obtain m5 where f5: "frame {} (length (lit ''sekai'') + 1) m4 m5"
      and m5': "store_dup a 1 (lit ''sekai'') m4 = Inr m5" "live m5 = (live m4)(brk m4 \<mapsto> Chars (lit ''sekai'' @ [0]), a \<mapsto> Ptrs [brk m3, brk m4])"
      "live m4 (brk m4) = None" "is_heap_pointer m4 (brk m4)"
    using store_dup_ok [OF frame_ok [OF m4(2)], of "lit ''sekai''" a "[brk m3, k2]" 1] by auto
  have "frame {} 6 m4 m5" by (rule frame_mono [OF f5]) simp_all
  note m5 = m5'(1) this m5'(2-4)
  define p where "p = brk m3"
  define q where "q = brk m4"
  have ne: "p \<noteq> a" "p \<noteq> x" "q \<noteq> a" "q \<noteq> x" "q \<noteq> p" "live m p = None" "live m q = None" "live m a = None"
    using m4(4) m5(4) ax a2(3) by (auto simp: m4(3) lm3 lm1 p_def q_def split: if_splits)
  have lm5: "live m5 = (live m)(x \<mapsto> Ptrs [a], p \<mapsto> Chars (lit ''konnichiwa'' @ [0]), q \<mapsto> Chars (lit ''sekai'' @ [0]),
      a \<mapsto> Ptrs [p, q])"
    using ne ax by (auto simp: m5(3) m4(3) lm3 p_def q_def fun_eq_iff)
  have at: "array_at (live m5) a ?ss"
    unfolding array_at_def lm5 using ne ax by (intro exI [of _ "[p, q]"]) (auto simp: less_Suc_eq)
  from print_step [OF frame_ok [OF m5(2)] at] obtain m6 where
    m6: "print_array me 2 a m5 = Inr m6" "live m6 = live m5" "a_step me 0 ?ss m5 m6" unfolding two by blast
  have "array_at (live m6) a ?ss" "live m6 x = Some (Ptrs [a])" using at m6(2) ne ax by (simp_all add: lm5)
  from corge_law [OF a_step_ok [OF m6(3)] this(2,1)] obtain m7 where
    m7: "corge procs (Some 2) x m6 = Inr m7" "live m7 = live m6" "frame names 0 m6 m7" unfolding two by blast
  have l7: "live m7 = live m5" by (simp add: m7(2) m6(2))
  have s1: "a_step me 24 [] m m3" using \<open>mem_ok m3\<close> by (simp add: a_step_def own_def m3_def m2_def m1_def a_def x_def)
  have s7: "a_step me (24 + (11 + (6 + (0 + 0)))) ([] @ ([] @ ([] @ (?ss @ [])))) m m7"
    by (intro a_step_trans [OF s1] a_step_trans [OF frame_step [OF m4(2)]] a_step_trans [OF frame_step [OF m5(2)]]
        a_step_trans [OF m6(3)] frame_step [OF m7(3) me_new]) simp_all
  have heap: "is_heap_pointer m7 x" "is_heap_pointer m7 a" "is_heap_pointer m7 p" "is_heap_pointer m7 q"
    using a1(4) a2(4) m4(5) m5(5) a_step_heap_pointer [OF s7] a_step_heap_pointer [OF s1] frame_heap_pointer [OF m4(2)]
    by (simp_all add: p_def q_def m1_def)
  have nz: "p \<noteq> 0" "q \<noteq> 0"
    using live_nonzero [OF a_step_ok [OF s7], of p] live_nonzero [OF a_step_ok [OF s7], of q] ne by (auto simp: l7 lm5)
  let ?m8 = "m7\<lparr>live := (live m7)(p := None)\<rparr>"
  let ?m9 = "m7\<lparr>live := (live m7)(p := None, q := None)\<rparr>"
  let ?m10 = "m7\<lparr>live := (live m7)(p := None, q := None, a := None)\<rparr>"
  let ?m11 = "m7\<lparr>live := (live m7)(p := None, q := None, a := None, x := None)\<rparr>"
  have reads: "read_ptr m3 x 0 = Inr a" "read_ptr m7 x 0 = Inr a" "read_ptr m7 a 0 = Inr p" "read_ptr ?m8 a 1 = Inr q"
    using a1(5) a2(5) ne ax by (simp_all add: read_ptr_def lm3 l7 lm5)
  have "safe_free p m7 = Inr ?m8" using nz ne heap(3) by (simp add: safe_free_held l7 lm5)
  moreover have "safe_free q ?m8 = Inr ?m9" using nz ne heap(4) by (simp add: safe_free_held l7 lm5)
  moreover have "safe_free a ?m9 = Inr ?m10" using a2(5) ne heap(2) by (simp add: safe_free_held l7 lm5)
  moreover have "safe_free x ?m10 = Inr ?m11" using a1(5) ne ax heap(1) by (simp add: safe_free_held l7 lm5)
  ultimately have "a_corge me procs [j] [k1, k2] m = Inr ?m11"
    using a1(1,5) a2(1,5) w reads m4(1) m5(1) m6(1) m7(1) by (simp add: a_corge_def)
  moreover have live: "live ?m11 = live m"
    using ne a1(3) ax by (auto simp: l7 lm5 fun_eq_iff)
  moreover have "mem_ok ?m11" by (rule mem_ok_restrict [OF a_step_ok [OF s7]]) auto
  then have "a_step me 100 ?ss m ?m11" using s7 by (simp add: a_step_def own_def)
  ultimately show ?thesis by blast
qed

lemma client_run:
  assumes "mem_ok m" "room (8 * length baz_ss + 620) m"
  shows "\<exists>s y z m'. a_run me procs i k [j] [k1, k2] m = Inr m' \<and> distinct [s, y, z] \<and>
    heap_blocks m \<inter> {s, y, z} = {} \<and> heap_blocks m' = {s, y, z} \<union> heap_blocks m \<and>
    own me m' = own me m @ [foo_s, lit ''hello'', lit ''world''] @ baz_ss @ [lit ''ciao'', lit ''mondo''] @ qux_ss @
      [lit ''ahoj'', lit ''svete'', lit ''bonjour'', lit ''le'', lit ''monde''] @ ys @ zs' @
      [lit ''konnichiwa'', lit ''sekai'']"
proof -
  let ?n = "8 * length baz_ss"
  have "room 100 m" using assms(2) by (simp add: room_def)
  from client_foo [OF assms(1) this] obtain s m1 where
    m1: "a_foo me procs m = Inr m1" "s \<notin> heap_blocks m" "heap_blocks m1 = insert s (heap_blocks m)"
      "a_step me 100 [foo_s] m m1" by blast
  have r1: "room (?n + 520) m1" using a_step_room [OF m1(4)] assms(2) by (simp add: algebra_simps)
  from client_bar [OF a_step_ok [OF m1(4)]] obtain m2 where
    m2: "a_bar me procs m1 = Inr m2" "heap_blocks m2 = heap_blocks m1" "a_step me 0 [lit ''hello'', lit ''world''] m1 m2"
    by blast
  have r2: "room (100 + (?n + 420)) m2" using a_step_room [OF m2(3), of "?n + 520"] r1 by (simp add: algebra_simps)
  have "room 100 m2" using r2 by (simp add: room_def)
  from client_baz [OF a_step_ok [OF m2(3)] this] obtain m3 where
    m3: "a_baz me procs i m2 = Inr (length baz_ss, m3)" "live m3 = live m2" "a_step me 100 baz_ss m2 m3" by blast
  have r3: "room (?n + 120 + 300) m3" using a_step_room [OF m3(3) r2] by (simp add: algebra_simps)
  have "room (?n + 120) m3" using r3 by (simp add: room_def)
  from client_qux [OF a_step_ok [OF m3(3)] baz_two this] obtain m4 where
    m4: "a_qux me procs (length baz_ss) m3 = Inr m4" "live m4 = live m3"
      "a_step me (?n + 120) ([lit ''ciao'', lit ''mondo''] @ qux_ss) m3 m4" by blast
  have r4: "room (200 + 100) m4" using a_step_room [OF m4(3) r3] by simp
  have "room 200 m4" using r4 by (simp add: room_def)
  from client_quux [OF a_step_ok [OF m4(3)] this] obtain y z m5 where
    m5: "a_quux me procs k m4 = Inr m5" "y \<noteq> z" "y \<notin> heap_blocks m4" "z \<notin> heap_blocks m4"
      "heap_blocks m5 = {y, z} \<union> heap_blocks m4"
      "a_step me 200 ([lit ''ahoj'', lit ''svete'', lit ''bonjour'', lit ''le'', lit ''monde''] @ ys @ zs') m4 m5" by blast
  from client_corge [OF a_step_ok [OF m5(6)] a_step_room [OF m5(6) r4]] obtain m6 where
    m6: "a_corge me procs [j] [k1, k2] m5 = Inr m6" "live m6 = live m5"
      "a_step me 100 [lit ''konnichiwa'', lit ''sekai''] m5 m6" by blast
  have h4: "heap_blocks m4 = insert s (heap_blocks m)"
    using m1(3) m2(2) m3(2) m4(2) a_step_heap_pointer [OF m3(3)] a_step_heap_pointer [OF m4(3)]
    by (simp add: heap_blocks_def)
  have "heap_blocks m6 = {s, y, z} \<union> heap_blocks m"
    using m5(5) h4 m6(2) a_step_heap_pointer [OF m6(3)] by (auto simp: heap_blocks_def)
  moreover have "own me m6 = own me m @ [foo_s, lit ''hello'', lit ''world''] @ baz_ss @ [lit ''ciao'', lit ''mondo''] @ qux_ss @
      [lit ''ahoj'', lit ''svete'', lit ''bonjour'', lit ''le'', lit ''monde''] @ ys @ zs' @
      [lit ''konnichiwa'', lit ''sekai'']"
    using m1(4) m2(3) m3(3) m4(3) m5(6) m6(3) by (simp add: a_step_def)
  moreover have "a_run me procs i k [j] [k1, k2] m = Inr m6"
    using m1(1) m2(1) m3(1) m4(1) m5(1) m6(1) by (simp add: a_run_def)
  moreover have "distinct [s, y, z]" "heap_blocks m \<inter> {s, y, z} = {}" using m1(2) m5(2-4) h4 by auto
  ultimately show ?thesis by blast
qed

end

text \<open>The assembly of the application.\<close>

interpretation b3: string_forwarder "c_procs ''c''" "{''c''}" "lit ''witaj''" "[lit ''alo'', lit ''mond'']"
  "[lit ''hola'', lit ''mundo'']" "[lit ''ola'', lit ''mundo'']" "[lit ''hallo'', lit ''welt'']" "''b3''"
  by unfold_locales

interpretation b2: string_forwarder "q_procs ''b3'' (c_procs ''c'')" "{''b3'', ''c''}" "lit ''witaj''"
  "[lit ''alo'', lit ''mond'']" "[lit ''hola'', lit ''mundo'']" "[lit ''ola'', lit ''mundo'']"
  "[lit ''hallo'', lit ''welt'']" "''b2''"
  by unfold_locales

interpretation b1: string_forwarder "q_procs ''b2'' (q_procs ''b3'' (c_procs ''c''))" "{''b2'', ''b3'', ''c''}"
  "lit ''witaj''" "[lit ''alo'', lit ''mond'']" "[lit ''hola'', lit ''mundo'']" "[lit ''ola'', lit ''mundo'']"
  "[lit ''hallo'', lit ''welt'']" "''b1''"
  by unfold_locales

interpretation a_client: string_client b_chain "{''b1'', ''b2'', ''b3'', ''c''}"
  "lit ''witaj''" "[lit ''alo'', lit ''mond'']" "[lit ''hola'', lit ''mundo'']" "[lit ''ola'', lit ''mundo'']"
  "[lit ''hallo'', lit ''welt'']" "''a''"
  by (intro string_client.intro b1.forwarded.string_service_axioms [folded b_chain_def] string_client_axioms.intro)
    simp_all

section \<open>Properties\<close>


definition fresh_memory :: memory where
  "fresh_memory = \<lparr>morecore_area = 4096, morecore_size = 65536, brk = 4096, static_top = 69632,
     live = Map.empty, shown = []\<rparr>"


text \<open>
  The array \<open>s3\<close> is allocated with the length of \<open>s2\<close> and filled with two strings: were \<open>baz\<close> to
  return fewer, A would write past its end. And an allocation of \<open>z\<close> that fails is used as a null pointer.
\<close>

lemma short_baz_overflows:
  "mem_ok m \<Longrightarrow> room 30 m \<Longrightarrow> n < 2 \<Longrightarrow> a_qux name p n m = Inl IndexError"
  using new_pair_overflow [of m "lit ''ciao''" "lit ''mondo''" n True] by (simp add: a_qux_def room_def)

lemma full_heap_null:
  assumes "\<not> room 16 m"
  shows "new_pair 2 True s t m = Inl AssertionFailed" "new_pair 2 False s t m = Inl NullDereference"
  using heap_alloc_full [of "Ptrs (replicate 2 0)" m] assms
  by (simp_all add: new_pair_def calloc_ptrs_def store_dup_def write_ptr_def split: prod.split)

end
