(* ===== verification/Echo_Services.thy ===== *)
theory Echo_Services
  imports Component_Heap
begin

text \<open>
  The echo interface with its servers and clients: \<^verbatim>\<open>simple\<close>, \<^verbatim>\<open>debug-simple\<close>,
  \<^verbatim>\<open>testcontrolname\<close>, \<^verbatim>\<open>testunderscorename\<close>, \<^verbatim>\<open>simplesingleaddressspace\<close>, and the
  scheduling applications \<^verbatim>\<open>cs-donate\<close>, \<^verbatim>\<open>cs-nodonate\<close>, \<^verbatim>\<open>mcs-donate\<close>,
  \<^verbatim>\<open>mcs-nodonate\<close> and \<^verbatim>\<open>cms-donate\<close>, which has a component in the middle.
  Floating point numbers are passed on and never computed with: their types are parameters, and so is the conversion of
  \<^verbatim>\<open>double\<close> to \<^verbatim>\<open>int\<close>. A string is a block of the memory of \<open>Component_Heap\<close>, the string
  that is returned belongs to the caller. Breakpoints and fixed messages are left out.
\<close>

section \<open>Interface and servers\<close>

record ('f, 'd) echo_procs =
  ep_string :: "nat \<Rightarrow> memory \<Rightarrow> (nat \<times> memory) result"
  ep_int :: "u32 \<Rightarrow> u32"
  ep_float :: "'f \<Rightarrow> 'f"
  ep_double :: "'d \<Rightarrow> 'd"
  ep_mix :: "'d \<Rightarrow> u32"
  ep_parameter :: "u32 \<Rightarrow> u32 \<times> u32"
  ep_increment :: "u32 \<Rightarrow> u32 result"

definition echo_string :: "nat \<Rightarrow> memory \<Rightarrow> (nat \<times> memory) result" where
  "echo_string s m = rbind (read_string m s) (\<lambda>str. Inr (c_strdup str m))"

definition echo_int :: "u32 \<Rightarrow> u32" where "echo_int i = i"

definition echo_float :: "'f \<Rightarrow> 'f" where "echo_float f = f"

definition echo_double :: "'d \<Rightarrow> 'd" where "echo_double d = d"

definition echo_mix :: "('d \<Rightarrow> u32) \<Rightarrow> 'd \<Rightarrow> u32" where "echo_mix to_int d = to_int d"

text \<open>The value of \<open>*pout\<close> and the value returned.\<close>

definition echo_parameter :: "u32 \<Rightarrow> u32 \<times> u32" where "echo_parameter pin = (pin, pin)"

text \<open>The sum of two \<^verbatim>\<open>int\<close>s is undefined when it does not fit.\<close>

definition increment_parameter :: "u32 \<Rightarrow> u32 result" where
  "increment_parameter x = (if sint x = 2147483647 then Inl Aborted else Inr (x + 1))"

definition simple_server :: "('d \<Rightarrow> u32) \<Rightarrow> ('f, 'd) echo_procs" where
  "simple_server to_int = \<lparr>ep_string = echo_string, ep_int = echo_int, ep_float = echo_float,
     ep_double = echo_double, ep_mix = echo_mix to_int, ep_parameter = echo_parameter,
     ep_increment = increment_parameter\<rparr>"

definition debug_server :: "('d \<Rightarrow> u32) \<Rightarrow> ('f, 'd) echo_procs" where
  "debug_server to_int = \<lparr>ep_string = echo_string, ep_int = echo_int, ep_float = echo_float,
     ep_double = echo_double, ep_mix = echo_mix to_int, ep_parameter = echo_parameter,
     ep_increment = increment_parameter\<rparr>"

definition control_server :: "('d \<Rightarrow> u32) \<Rightarrow> ('f, 'd) echo_procs" where
  "control_server to_int = \<lparr>ep_string = echo_string, ep_int = echo_int, ep_float = echo_float,
     ep_double = echo_double, ep_mix = echo_mix to_int, ep_parameter = echo_parameter,
     ep_increment = increment_parameter\<rparr>"

definition underscore_server :: "('d \<Rightarrow> u32) \<Rightarrow> ('f, 'd) echo_procs" where
  "underscore_server to_int = \<lparr>ep_string = echo_string, ep_int = echo_int, ep_float = echo_float,
     ep_double = echo_double, ep_mix = echo_mix to_int, ep_parameter = echo_parameter,
     ep_increment = increment_parameter\<rparr>"

definition single_space_server :: "('d \<Rightarrow> u32) \<Rightarrow> ('f, 'd) echo_procs" where
  "single_space_server to_int = \<lparr>ep_string = echo_string, ep_int = echo_int, ep_float = echo_float,
     ep_double = echo_double, ep_mix = echo_mix to_int, ep_parameter = echo_parameter,
     ep_increment = increment_parameter\<rparr>"

text \<open>The interface of the scheduling applications has no increment.\<close>

record ('f, 'd) sched_procs =
  sp_string :: "nat \<Rightarrow> memory \<Rightarrow> (nat \<times> memory) result"
  sp_int :: "u32 \<Rightarrow> u32"
  sp_float :: "'f \<Rightarrow> 'f"
  sp_double :: "'d \<Rightarrow> 'd"
  sp_mix :: "'d \<Rightarrow> u32"
  sp_parameter :: "u32 \<Rightarrow> u32 \<times> u32"

definition cs_server :: "('d \<Rightarrow> u32) \<Rightarrow> ('f, 'd) sched_procs" where
  "cs_server to_int = \<lparr>sp_string = echo_string, sp_int = echo_int, sp_float = echo_float,
     sp_double = echo_double, sp_mix = echo_mix to_int, sp_parameter = echo_parameter\<rparr>"

definition cs_nodonate_server :: "('d \<Rightarrow> u32) \<Rightarrow> ('f, 'd) sched_procs" where
  "cs_nodonate_server to_int = \<lparr>sp_string = echo_string, sp_int = echo_int, sp_float = echo_float,
     sp_double = echo_double, sp_mix = echo_mix to_int, sp_parameter = echo_parameter\<rparr>"

definition mcs_server :: "('d \<Rightarrow> u32) \<Rightarrow> ('f, 'd) sched_procs" where
  "mcs_server to_int = \<lparr>sp_string = echo_string, sp_int = echo_int, sp_float = echo_float,
     sp_double = echo_double, sp_mix = echo_mix to_int, sp_parameter = echo_parameter\<rparr>"

definition mcs_nodonate_server :: "('d \<Rightarrow> u32) \<Rightarrow> ('f, 'd) sched_procs" where
  "mcs_nodonate_server to_int = \<lparr>sp_string = echo_string, sp_int = echo_int, sp_float = echo_float,
     sp_double = echo_double, sp_mix = echo_mix to_int, sp_parameter = echo_parameter\<rparr>"

definition cms_server :: "('d \<Rightarrow> u32) \<Rightarrow> ('f, 'd) sched_procs" where
  "cms_server to_int = \<lparr>sp_string = echo_string, sp_int = echo_int, sp_float = echo_float,
     sp_double = echo_double, sp_mix = echo_mix to_int, sp_parameter = echo_parameter\<rparr>"

text \<open>The intermediate component of \<^verbatim>\<open>cms-donate\<close> forwards each call.\<close>

definition intermediate :: "('f, 'd) sched_procs \<Rightarrow> ('f, 'd) sched_procs" where
  "intermediate p = \<lparr>sp_string = (\<lambda>s. sp_string p s), sp_int = (\<lambda>i. sp_int p i), sp_float = (\<lambda>f. sp_float p f),
     sp_double = (\<lambda>d. sp_double p d), sp_mix = (\<lambda>d. sp_mix p d), sp_parameter = (\<lambda>pin. sp_parameter p pin)\<rparr>"

section \<open>Clients\<close>

text \<open>What a client prints of each call: the argument and the results.\<close>

datatype ('f, 'd) echo_line =
    EchoInt u32 u32
  | EchoFloat 'f 'f
  | EchoDouble 'd 'd
  | EchoMix 'd u32
  | EchoString bytes bytes
  | EchoParameter u32 u32 u32
  | Incremented u32
  | GlobalNumber u32

definition parameter_line :: "u32 \<Rightarrow> u32 \<times> u32 \<Rightarrow> ('f, 'd) echo_line" where
  "parameter_line p r = EchoParameter p (fst r) (snd r)"

text \<open>A call with a string, whose answer is freed by the caller unless it lies in another heap.\<close>

definition string_call ::
  "bool \<Rightarrow> (nat \<Rightarrow> memory \<Rightarrow> (nat \<times> memory) result) \<Rightarrow> nat \<Rightarrow> memory \<Rightarrow> (('f, 'd) echo_line \<times> memory) result" where
  "string_call frees f x m =
     rbind (f x m) (\<lambda>(s, m1).
     rbind (read_string m1 x) (\<lambda>a.
     rbind (read_string m1 s) (\<lambda>b.
     rbind (if frees then c_free s m1 else Inr m1) (\<lambda>m2. Inr (EchoString a b, m2)))))"

definition shello :: bytes where "shello = lit ''hello world''"

definition smore :: bytes where
  "smore = lit ''a longer string that will overflow the message registers on ARM''"

definition simple_client ::
  "'f \<Rightarrow> 'd \<Rightarrow> ('f, 'd) echo_procs \<Rightarrow> memory \<Rightarrow> (('f, 'd) echo_line list \<times> memory) result" where
  "simple_client f d p m =
     (let (x1, m1) = literal shello m; (x2, m2) = literal smore m1 in
      rbind (string_call True (ep_string p) x1 m2) (\<lambda>(l1, m3).
      rbind (string_call True (ep_string p) x2 m3) (\<lambda>(l2, m4).
      rbind (ep_increment p 100) (\<lambda>n.
      Inr ([EchoInt 42 (ep_int p 42), EchoFloat f (ep_float p f), EchoDouble d (ep_double p d),
            EchoMix d (ep_mix p d), l1, l2, parameter_line 123 (ep_parameter p 123), Incremented n], m4)))))"

definition control_client ::
  "'f \<Rightarrow> 'd \<Rightarrow> ('f, 'd) echo_procs \<Rightarrow> memory \<Rightarrow> (('f, 'd) echo_line list \<times> memory) result" where
  "control_client = simple_client"

definition underscore_client ::
  "'f \<Rightarrow> 'd \<Rightarrow> ('f, 'd) echo_procs \<Rightarrow> memory \<Rightarrow> (('f, 'd) echo_line list \<times> memory) result" where
  "underscore_client = simple_client"

text \<open>The debugging client sets a global number between the strings and prints it.\<close>

definition debug_client ::
  "'f \<Rightarrow> 'd \<Rightarrow> ('f, 'd) echo_procs \<Rightarrow> memory \<Rightarrow> (('f, 'd) echo_line list \<times> memory) result" where
  "debug_client f d p m =
     (let (x1, m1) = literal shello m; (x2, m2) = literal smore m1 in
      rbind (string_call True (ep_string p) x1 m2) (\<lambda>(l1, m3).
      let global_number = 50 in
      rbind (string_call True (ep_string p) x2 m3) (\<lambda>(l2, m4).
      rbind (ep_increment p 100) (\<lambda>n.
      Inr ([EchoInt 42 (ep_int p 42), EchoFloat f (ep_float p f), EchoDouble d (ep_double p d),
            EchoMix d (ep_mix p d), l1, l2, GlobalNumber global_number,
            parameter_line 123 (ep_parameter p 123), Incremented n], m4)))))"

definition single_space_client ::
  "'f \<Rightarrow> 'd \<Rightarrow> ('f, 'd) echo_procs \<Rightarrow> memory \<Rightarrow> (('f, 'd) echo_line list \<times> memory) result" where
  "single_space_client f d p m =
     (let (x1, m1) = literal shello m; (x2, m2) = literal smore m1 in
      rbind (string_call False (ep_string p) x1 m2) (\<lambda>(l1, m3).
      rbind (string_call False (ep_string p) x2 m3) (\<lambda>(l2, m4).
      rbind (ep_increment p 100) (\<lambda>n.
      Inr ([EchoInt 42 (ep_int p 42), EchoFloat f (ep_float p f), EchoDouble d (ep_double p d),
            EchoMix d (ep_mix p d), l1, l2, parameter_line 123 (ep_parameter p 123), Incremented n], m4)))))"

text \<open>In the scheduling clients \<open>p\<close> is the argument of \<open>echo_parameter\<close>.\<close>

definition sched_calls ::
  "u32 \<Rightarrow> 'f \<Rightarrow> 'd \<Rightarrow> ('f, 'd) sched_procs \<Rightarrow> memory \<Rightarrow> (('f, 'd) echo_line list \<times> memory) result" where
  "sched_calls p f d procs m =
     (let (x, m1) = literal shello m in
      rbind (string_call True (sp_string procs) x m1) (\<lambda>(l, m2).
      Inr ([EchoInt 42 (sp_int procs 42), EchoFloat f (sp_float procs f), EchoDouble d (sp_double procs d),
            EchoMix d (sp_mix procs d), l, parameter_line p (sp_parameter procs p)], m2)))"

text \<open>Only the client of \<^verbatim>\<open>cms-donate\<close> gives \<open>p\<close> a value; in the others it is what the stack held.\<close>

definition cms_client ::
  "'f \<Rightarrow> 'd \<Rightarrow> ('f, 'd) sched_procs \<Rightarrow> memory \<Rightarrow> (('f, 'd) echo_line list \<times> memory) result" where
  "cms_client = sched_calls 123"

definition cs_client ::
  "u32 \<Rightarrow> 'f \<Rightarrow> 'd \<Rightarrow> ('f, 'd) sched_procs \<Rightarrow> memory \<Rightarrow> (('f, 'd) echo_line list \<times> memory) result" where
  "cs_client = sched_calls"

definition cs_nodonate_client ::
  "u32 \<Rightarrow> 'f \<Rightarrow> 'd \<Rightarrow> ('f, 'd) sched_procs \<Rightarrow> memory \<Rightarrow> (('f, 'd) echo_line list \<times> memory) result" where
  "cs_nodonate_client = sched_calls"

definition mcs_client ::
  "u32 \<Rightarrow> 'f \<Rightarrow> 'd \<Rightarrow> ('f, 'd) sched_procs \<Rightarrow> memory \<Rightarrow> (('f, 'd) echo_line list \<times> memory) result" where
  "mcs_client = sched_calls"

definition mcs_nodonate_client ::
  "u32 \<Rightarrow> 'f \<Rightarrow> 'd \<Rightarrow> ('f, 'd) sched_procs \<Rightarrow> memory \<Rightarrow> (('f, 'd) echo_line list \<times> memory) result" where
  "mcs_nodonate_client = sched_calls"

section \<open>Heaps of one address space\<close>

text \<open>
  \<^verbatim>\<open>apps/testsingleaddressspaceheap\<close>: the server asserts that its heap and the client's do not overlap.
\<close>

definition m_morecore_range :: "u64 \<Rightarrow> u64 \<Rightarrow> u64 \<Rightarrow> u64 \<Rightarrow> unit result" where
  "m_morecore_range area sz base csize = c_assert (area + sz \<le> base \<or> base + csize \<le> area)"

definition heap_client :: "u64 \<Rightarrow> u64 \<Rightarrow> u64 \<Rightarrow> u64 \<Rightarrow> unit result" where
  "heap_client area sz my_area my_size = m_morecore_range area sz my_area my_size"

section \<open>The contract of a string answer\<close>

definition same_area :: "memory \<Rightarrow> memory \<Rightarrow> bool" where
  "same_area m m' \<longleftrightarrow> morecore_area m' = morecore_area m \<and> morecore_size m' = morecore_size m"

lemma same_area_trans: "same_area m m1 \<Longrightarrow> same_area m1 m2 \<Longrightarrow> same_area m m2"
  by (simp add: same_area_def)

lemma same_area_heap_pointer: "same_area m m' \<Longrightarrow> is_heap_pointer m' = is_heap_pointer m"
  by (rule is_heap_pointer_cong) (simp_all add: same_area_def)

text \<open>\<open>used k\<close>: at most \<open>k\<close> bytes of the heap have been taken.\<close>

definition used :: "nat \<Rightarrow> memory \<Rightarrow> memory \<Rightarrow> bool" where
  "used k m m' \<longleftrightarrow> mem_ok m' \<and> same_area m m' \<and> brk m' = brk m + k"

lemma used_trans: "used j m m1 \<Longrightarrow> used k m1 m2 \<Longrightarrow> used (j + k) m m2"
  by (auto simp: used_def intro: same_area_trans)

lemma used_room: "used j m m' \<Longrightarrow> room (j + k) m \<Longrightarrow> room k m'"
  by (simp add: used_def room_def same_area_def)

locale string_answer =
  fixes answer :: "nat \<Rightarrow> memory \<Rightarrow> (nat \<times> memory) result"
  assumes answer_law: "mem_ok m \<Longrightarrow> room (length s + 1) m \<Longrightarrow> live m x = Some (Chars (s @ [0])) \<Longrightarrow> 0 \<notin> set s \<Longrightarrow>
    \<exists>y m'. answer x m = Inr (y, m') \<and> used (length s + 1) m m' \<and> live m' = (live m)(y \<mapsto> Chars (s @ [0])) \<and>
      live m y = None \<and> is_heap_pointer m y"
begin

lemma string_call_frees:
  assumes "mem_ok m" "room (length s + 1) m" "live m x = Some (Chars (s @ [0]))" "0 \<notin> set s"
  shows "\<exists>m'. string_call True answer x m = Inr (EchoString s s, m') \<and> used (length s + 1) m m' \<and> live m' = live m"
proof -
  from answer_law [OF assms] obtain y m1 where m1: "answer x m = Inr (y, m1)" "used (length s + 1) m m1"
      "live m1 = (live m)(y \<mapsto> Chars (s @ [0]))" "live m y = None" "is_heap_pointer m y" by blast
  have nz: "y \<noteq> 0" "x \<noteq> 0" "y \<noteq> x"
    using live_nonzero [OF assms(1,3)] live_nonzero [of m1 y] m1(2-4) assms(3) by (auto simp: used_def)
  have heap: "is_heap_pointer m1 y"
    using m1(2,5) same_area_heap_pointer [of m m1] by (simp add: used_def)
  let ?m = "m1\<lparr>live := (live m1)(y := None)\<rparr>"
  have "mem_ok ?m" by (rule mem_ok_restrict) (use m1(2) in \<open>auto simp: used_def\<close>)
  then have "used (length s + 1) m ?m" using m1(2) by (simp add: used_def same_area_def)
  moreover have "live ?m = live m" using m1(3,4) by auto
  ultimately show ?thesis using m1(1,3) nz heap assms(3,4) by (simp add: string_call_def c_free_def)
qed

lemma string_call_keeps:
  assumes "mem_ok m" "room (length s + 1) m" "live m x = Some (Chars (s @ [0]))" "0 \<notin> set s"
  shows "\<exists>y m'. string_call False answer x m = Inr (EchoString s s, m') \<and> used (length s + 1) m m' \<and>
    live m' = (live m)(y \<mapsto> Chars (s @ [0])) \<and> live m y = None \<and> is_heap_pointer m y"
proof -
  from answer_law [OF assms] obtain y m1 where m1: "answer x m = Inr (y, m1)" "used (length s + 1) m m1"
      "live m1 = (live m)(y \<mapsto> Chars (s @ [0]))" "live m y = None" "is_heap_pointer m y" by blast
  have nz: "y \<noteq> 0" "x \<noteq> 0" "y \<noteq> x"
    using live_nonzero [OF assms(1,3)] live_nonzero [of m1 y] m1(2-4) assms(3) by (auto simp: used_def)
  then have "string_call False answer x m = Inr (EchoString s s, m1)"
    using m1 assms(3,4) by (simp add: string_call_def)
  with m1(2-5) show ?thesis by blast
qed

end

lemma echo_string_answer:
  assumes "mem_ok m" "room (length s + 1) m" "live m x = Some (Chars (s @ [0]))" "0 \<notin> set s"
  shows "\<exists>y m'. echo_string x m = Inr (y, m') \<and> used (length s + 1) m m' \<and> live m' = (live m)(y \<mapsto> Chars (s @ [0])) \<and>
    live m y = None \<and> is_heap_pointer m y"
proof -
  let ?m = "m\<lparr>brk := brk m + (length s + 1), live := (live m)(brk m \<mapsto> Chars (s @ [0]))\<rparr>"
  have "x \<noteq> 0" using live_nonzero [OF assms(1,3)] by simp
  moreover note new = heap_alloc_ok [OF assms(1), of "Chars (s @ [0])"]
  ultimately have "echo_string x m = Inr (brk m, ?m)" "mem_ok ?m"
    using assms by (simp_all add: echo_string_def c_strdup_def)
  with new(3,4) assms(2) show ?thesis by (auto simp: used_def same_area_def)
qed

interpretation echoed: string_answer echo_string
  by unfold_locales (use echo_string_answer in blast)

interpretation forwarded: string_answer "\<lambda>s. sp_string (cms_server to_int) s"
  by unfold_locales (use echo_string_answer in \<open>simp add: cms_server_def\<close>)

section \<open>What the clients show\<close>

lemma literal_used:
  assumes "mem_ok m" "0 \<notin> set s"
  shows "\<exists>x m'. literal s m = (x, m') \<and> used 0 m m' \<and> live m' = (live m)(x \<mapsto> Chars (s @ [0])) \<and>
    live m x = None \<and> \<not> is_heap_pointer m x"
  using literal_ok(1,2) [OF assms(1), of s] literal_ok(3,4) [OF assms(1)] by (auto simp: used_def same_area_def)

lemma sentences: "0 \<notin> set shello" "length shello = 11" "0 \<notin> set smore" "length smore = 63"
  by (simp_all add: shello_def smore_def lit_def)

definition simple_lines :: "('d \<Rightarrow> u32) \<Rightarrow> 'f \<Rightarrow> 'd \<Rightarrow> ('f, 'd) echo_line list" where
  "simple_lines to_int f d =
     [EchoInt 42 42, EchoFloat f f, EchoDouble d d, EchoMix d (to_int d), EchoString shello shello,
      EchoString smore smore, EchoParameter 123 123 123, Incremented 101]"

lemma two_literals:
  assumes "mem_ok m"
  shows "\<exists>x1 m1 x2 m2. literal shello m = (x1, m1) \<and> literal smore m1 = (x2, m2) \<and> used 0 m m2 \<and>
    live m2 x1 = Some (Chars (shello @ [0])) \<and> live m2 x2 = Some (Chars (smore @ [0])) \<and>
    heap_blocks m2 = heap_blocks m"
proof -
  from literal_used [OF assms sentences(1)] obtain x1 m1 where
    m1: "literal shello m = (x1, m1)" "used 0 m m1" "live m1 = (live m)(x1 \<mapsto> Chars (shello @ [0]))"
      "\<not> is_heap_pointer m x1" by blast
  then have "mem_ok m1" by (simp add: used_def)
  from literal_used [OF this sentences(3)] obtain x2 m2 where
    m2: "literal smore m1 = (x2, m2)" "used 0 m1 m2" "live m2 = (live m1)(x2 \<mapsto> Chars (smore @ [0]))"
      "live m1 x2 = None" "\<not> is_heap_pointer m1 x2" by blast
  have "used 0 m m2" using used_trans [OF m1(2) m2(2)] by simp
  moreover have "x1 \<noteq> x2" using m1(3) m2(4) by auto
  moreover have "is_heap_pointer m1 = is_heap_pointer m" "is_heap_pointer m2 = is_heap_pointer m"
    using m1(2) \<open>used 0 m m2\<close> by (auto simp: used_def intro: same_area_heap_pointer)
  ultimately show ?thesis using m1 m2 by (auto simp: heap_blocks_def)
qed

lemma two_string_calls:
  assumes "mem_ok m" "room 80 m"
  shows "\<exists>x1 m1 x2 m2 m3 m4. literal shello m = (x1, m1) \<and> literal smore m1 = (x2, m2) \<and>
    string_call True echo_string x1 m2 = Inr (EchoString shello shello :: ('f, 'd) echo_line, m3) \<and>
    string_call True echo_string x2 m3 = Inr (EchoString smore smore :: ('f, 'd) echo_line, m4) \<and>
    heap_blocks m4 = heap_blocks m"
proof -
  from two_literals [OF assms(1)] obtain x1 m1 x2 m2 where
    m2: "literal shello m = (x1, m1)" "literal smore m1 = (x2, m2)" "used 0 m m2"
      "live m2 x1 = Some (Chars (shello @ [0]))" "live m2 x2 = Some (Chars (smore @ [0]))"
      "heap_blocks m2 = heap_blocks m" by blast
  have r2: "mem_ok m2" "room (length shello + 1) m2" "room (12 + 64) m2"
    using m2(3) assms(2) sentences(2) by (auto simp: used_def room_def same_area_def)
  from echoed.string_call_frees [OF r2(1,2) m2(4) sentences(1)] obtain m3 where
    m3: "string_call True echo_string x1 m2 = Inr (EchoString shello shello :: ('f, 'd) echo_line, m3)"
      "used 12 m2 m3" "live m3 = live m2" by (auto simp: sentences(2))
  have r3: "mem_ok m3" "room (length smore + 1) m3"
    using m3(2) used_room [OF m3(2) r2(3)] by (simp_all add: used_def sentences(4))
  have "live m3 x2 = Some (Chars (smore @ [0]))" by (simp add: m3(3) m2(5))
  from echoed.string_call_frees [OF r3 this sentences(3)] obtain m4 where
    m4: "string_call True echo_string x2 m3 = Inr (EchoString smore smore :: ('f, 'd) echo_line, m4)"
      "used 64 m3 m4" "live m4 = live m3" by (auto simp: sentences(4))
  have "is_heap_pointer m4 = is_heap_pointer m2"
    using used_trans [OF m3(2) m4(2)] by (auto simp: used_def intro: same_area_heap_pointer)
  then have "heap_blocks m4 = heap_blocks m" using m2(6) m3(3) m4(3) by (simp add: heap_blocks_def)
  with m2(1,2) m3(1) m4(1) show ?thesis by blast
qed

lemmas echo_defs = echo_int_def echo_float_def echo_double_def echo_mix_def echo_parameter_def
  increment_parameter_def parameter_line_def

lemmas echo_servers = simple_server_def debug_server_def control_server_def underscore_server_def
  single_space_server_def cs_server_def cs_nodonate_server_def mcs_server_def mcs_nodonate_server_def cms_server_def

lemmas echo_clients = control_client_def underscore_client_def cms_client_def cs_client_def cs_nodonate_client_def
  mcs_client_def mcs_nodonate_client_def

lemma simple_client_shows:
  assumes "mem_ok m" "room 80 m"
  shows "\<exists>m'. simple_client f d (simple_server to_int) m = Inr (simple_lines to_int f d, m') \<and> heap_blocks m' = heap_blocks m"
  using two_string_calls [OF assms, where 'f = 'a and 'd = 'b]
  by (auto simp: simple_client_def echo_servers echo_defs simple_lines_def)

lemma debug_client_shows:
  assumes "mem_ok m" "room 80 m"
  shows "\<exists>m'. debug_client f d (debug_server to_int) m =
      Inr (take 6 (simple_lines to_int f d) @ GlobalNumber 50 # drop 6 (simple_lines to_int f d), m') \<and>
    heap_blocks m' = heap_blocks m"
  using two_string_calls [OF assms, where 'f = 'a and 'd = 'b]
  by (auto simp: debug_client_def echo_servers echo_defs simple_lines_def)

definition sched_lines :: "('d \<Rightarrow> u32) \<Rightarrow> u32 \<Rightarrow> 'f \<Rightarrow> 'd \<Rightarrow> ('f, 'd) echo_line list" where
  "sched_lines to_int p f d =
     [EchoInt 42 42, EchoFloat f f, EchoDouble d d, EchoMix d (to_int d), EchoString shello shello, EchoParameter p p p]"

lemma sched_calls_show:
  assumes "mem_ok m" "room 12 m"
  shows "\<exists>m'. sched_calls p f d (cs_server to_int) m = Inr (sched_lines to_int p f d, m') \<and> heap_blocks m' = heap_blocks m"
proof -
  from literal_used [OF assms(1) sentences(1)] obtain x m1 where
    m1: "literal shello m = (x, m1)" "used 0 m m1" "live m1 = (live m)(x \<mapsto> Chars (shello @ [0]))"
      "\<not> is_heap_pointer m x" by blast
  have "mem_ok m1" "room (length shello + 1) m1" "live m1 x = Some (Chars (shello @ [0]))"
    using m1(2,3) assms(2) by (simp_all add: used_def room_def same_area_def sentences(2))
  from echoed.string_call_frees [OF this sentences(1)] obtain m2 where
    m2: "string_call True echo_string x m1 = Inr (EchoString shello shello :: ('a, 'b) echo_line, m2)"
      "used 12 m1 m2" "live m2 = live m1" by (auto simp: sentences(2))
  have "is_heap_pointer m2 = is_heap_pointer m"
    using used_trans [OF m1(2) m2(2)] by (auto simp: used_def intro: same_area_heap_pointer)
  then have "heap_blocks m2 = heap_blocks m" using m1(3,4) m2(3) by (auto simp: heap_blocks_def)
  with m1(1) m2(1) show ?thesis by (simp add: sched_calls_def echo_servers echo_defs sched_lines_def)
qed

lemma intermediate_transparent: "intermediate p = p"
  by (simp add: intermediate_def)

lemma sched_servers:
  "cms_server = cs_server" "cs_nodonate_server = cs_server" "mcs_server = cs_server" "mcs_nodonate_server = cs_server"
  "control_server = simple_server" "underscore_server = simple_server"
  by (simp_all add: echo_servers fun_eq_iff)

section \<open>Properties\<close>



text \<open>
  In one address space the strings stay with the server: the client shows the same, does not free the two strings, and could
  not, for they lie in the server's heap and not in its own, the ranges being disjoint as the
  server of the heap test asserts; \<open>free\<close> would be given a pointer it does not know.
\<close>

theorem single_space_strings_stay:
  assumes "mem_ok m" "room 80 m" "morecore_area m = unat area" "morecore_size m = unat sz"
    and "heap_client area sz base csize = Inr ()" "unat area + unat sz < 2 ^ 64" "unat base + unat csize < 2 ^ 64"
  shows "\<exists>s t m'. single_space_client f d (single_space_server to_int) m = Inr (simple_lines to_int f d, m') \<and>
    s \<noteq> t \<and> heap_blocks m \<inter> {s, t} = {} \<and> heap_blocks m' = {s, t} \<union> heap_blocks m \<and>
    (let client = m'\<lparr>morecore_area := unat base, morecore_size := unat csize\<rparr> in
       c_free s client = Inl BadPointer \<and> c_free t client = Inl BadPointer)"
proof -
  from two_literals [OF assms(1)] obtain x1 m1 x2 m2 where
    m2: "literal shello m = (x1, m1)" "literal smore m1 = (x2, m2)" "used 0 m m2"
      "live m2 x1 = Some (Chars (shello @ [0]))" "live m2 x2 = Some (Chars (smore @ [0]))"
      "heap_blocks m2 = heap_blocks m" by blast
  have r2: "mem_ok m2" "room (length shello + 1) m2" "room (12 + 64) m2"
    using m2(3) assms(2) sentences(2) by (auto simp: used_def room_def same_area_def)
  from echoed.string_call_keeps [OF r2(1,2) m2(4) sentences(1)] obtain s m3 where
    m3: "string_call False echo_string x1 m2 = Inr (EchoString shello shello :: ('a, 'b) echo_line, m3)"
      "used 12 m2 m3" "live m3 = (live m2)(s \<mapsto> Chars (shello @ [0]))" "live m2 s = None" "is_heap_pointer m2 s"
    by (auto simp: sentences(2))
  have r3: "mem_ok m3" "room (length smore + 1) m3"
    using m3(2) used_room [OF m3(2) r2(3)] by (simp_all add: used_def sentences(4))
  have "live m3 x2 = Some (Chars (smore @ [0]))" using m3(3,4) m2(5) by auto
  from echoed.string_call_keeps [OF r3 this sentences(3)] obtain t m4 where
    m4: "string_call False echo_string x2 m3 = Inr (EchoString smore smore :: ('a, 'b) echo_line, m4)"
      "used 64 m3 m4" "live m4 = (live m3)(t \<mapsto> Chars (smore @ [0]))" "live m3 t = None" "is_heap_pointer m3 t"
    by (auto simp: sentences(4))
  have area: "same_area m m2" "same_area m m3" "same_area m m4"
    using m2(3) m3(2) m4(2) by (auto simp: used_def intro: same_area_trans)
  note heap = area [THEN same_area_heap_pointer]
  have st: "s \<noteq> t" using m3(3) m4(4) by auto
  have "heap_blocks m4 = {s, t} \<union> heap_blocks m"
    using m2(6) m3(3,5) m4(3,5) heap by (auto simp: heap_blocks_def)
  moreover have "heap_blocks m \<inter> {s, t} = {}"
    using m3(3,4) m4(4) unfolding m2(6) [symmetric] by (auto simp: heap_blocks_def split: if_splits)
  moreover have "c_free q (m4\<lparr>morecore_area := unat base, morecore_size := unat csize\<rparr>) = Inl BadPointer"
    if q: "q \<in> {s, t}" for q
  proof -
    have "live m4 q \<noteq> None" using q m4(3) m3(3) by auto
    then have "q \<noteq> 0" using live_nonzero [of m4 q] m4(2) by (auto simp: used_def)
    have "unat area \<le> q \<and> q < unat area + unat sz"
      using q m3(5) m4(5) assms(3,4) heap by (auto simp: is_heap_pointer_def)
    moreover have "unat area + unat sz \<le> unat base \<or> unat base + unat csize \<le> unat area"
      using assms(5-7) by (simp add: heap_client_def m_morecore_range_def word_le_nat_alt unat_word_ariths)
    ultimately show ?thesis using \<open>q \<noteq> 0\<close> by (auto simp: c_free_def is_heap_pointer_def)
  qed
  moreover have "single_space_client f d (single_space_server to_int) m = Inr (simple_lines to_int f d, m4)"
    using m2(1,2) m3(1) m4(1) by (simp add: single_space_client_def echo_servers echo_defs simple_lines_def)
  ultimately show ?thesis using st by (intro exI [of _ s] exI [of _ t] exI [of _ m4]) (simp add: Let_def)
qed

theorem single_space_strings_stay_witness:
  "\<exists>s m'. single_space_client (5 :: int) (9 :: nat) (single_space_server of_nat)
      \<lparr>morecore_area = 4096, morecore_size = 4096, brk = 4096, static_top = 65536, live = Map.empty, shown = []\<rparr> =
    Inr (simple_lines of_nat 5 9, m') \<and> s \<in> heap_blocks m' \<and>
    c_free s (m'\<lparr>morecore_area := 8192, morecore_size := 4096\<rparr>) = Inl BadPointer"
proof -
  let ?m = "\<lparr>morecore_area = 4096, morecore_size = 4096, brk = 4096, static_top = 65536, live = Map.empty, shown = []\<rparr>"
  have "mem_ok ?m" "room 80 ?m" "morecore_area ?m = unat (4096 :: u64)" "morecore_size ?m = unat (4096 :: u64)"
    "heap_client 4096 4096 8192 4096 = Inr ()" "unat (4096 :: u64) + unat (4096 :: u64) < 2 ^ 64"
    "unat (8192 :: u64) + unat (4096 :: u64) < 2 ^ 64"
    by (simp_all add: mem_ok_def room_def heap_client_def m_morecore_range_def)
  from single_space_strings_stay [OF this, of "5 :: int" "9 :: nat" of_nat] show ?thesis
    by (auto simp: Let_def)
qed

end
