(* ===== verification/Dma_Example.thy ===== *)
theory Dma_Example
  imports Camkes_Prelude
begin

text \<open>
  \<^verbatim>\<open>apps/dma-example/client.c\<close>: a client of the DMA allocator. The allocator is outside of the repository: the pointer its
  \<open>k\<close>-th allocation returns is an argument, and the run is the list of the calls made to it. \<open>holding\<close>
  checks such a list against the blocks that are held at each call.
\<close>

section \<open>The client\<close>

datatype dma_call =
    DmaAlloc nat nat nat
  | DmaPaddr nat
  | DmaFree nat nat

definition N_BUFFERS :: nat where "N_BUFFERS = 100"

text \<open>
  The loop that fills \<open>buffers\<close> from index \<open>i\<close>, with \<open>n\<close> rounds left; it ends early at a null pointer. The last result is the
  number of allocations made so far.
\<close>

fun alloc_loop ::
  "nat \<Rightarrow> (nat \<Rightarrow> nat) \<Rightarrow> nat \<Rightarrow> nat list \<Rightarrow> (nat \<times> nat list \<times> dma_call list \<times> nat) result" where
  "alloc_loop 0 answer i buffers = Inr (i, buffers, [], i)"
| "alloc_loop (Suc n) answer i buffers =
     rbind (array_write buffers i (answer i)) (\<lambda>bs.
     if answer i = 0 then Inr (i, bs, [DmaAlloc 4096 4096 0], Suc i)
     else rbind (alloc_loop n answer (Suc i) bs) (\<lambda>(i', bs', calls, k).
          Inr (i', bs', DmaAlloc 4096 4096 (answer i) # calls, k)))"

definition reverse_offsets :: "nat list \<Rightarrow> nat \<Rightarrow> dma_call list result" where
  "reverse_offsets buffers i =
     rmap (\<lambda>j. rbind (array_read buffers j) (\<lambda>b. Inr (DmaPaddr (b + j * 13)))) [0..<i]"

definition free_buffers :: "nat list \<Rightarrow> nat \<Rightarrow> dma_call list result" where
  "free_buffers buffers i =
     rmap (\<lambda>j. rbind (array_read buffers j) (\<lambda>b. Inr (DmaFree b 4096))) [0..<i]"

text \<open>One allocation that is freed again if it succeeded.\<close>

definition try_alloc :: "nat \<Rightarrow> nat \<Rightarrow> nat \<Rightarrow> dma_call list" where
  "try_alloc n align p = DmaAlloc n align p # (if p = 0 then [] else [DmaFree p n])"

definition newer_api :: "nat \<Rightarrow> dma_call list result" where
  "newer_api p =
     rbind (c_assert (p \<noteq> 0)) (\<lambda>_.
     Inr (DmaAlloc 0x2000 0 p #
       (if p = 0 then [] else map (\<lambda>j. DmaPaddr (p + j * 0x513)) [0..<7] @ [DmaFree p 0x2000])))"

definition alignments :: "nat \<Rightarrow> (nat \<Rightarrow> nat) \<Rightarrow> dma_call list" where
  "alignments k answer = concat (map (\<lambda>j. try_alloc 0x1000 (2 ^ j) (answer (k + j))) [0..<14])"

definition dma_run :: "nat list \<Rightarrow> (nat \<Rightarrow> nat) \<Rightarrow> dma_call list result" where
  "dma_run buffers0 answer =
     rbind (alloc_loop N_BUFFERS answer 0 buffers0) (\<lambda>(i, buffers, allocs, k).
     rbind (reverse_offsets buffers i) (\<lambda>paddrs.
     rbind (free_buffers buffers i) (\<lambda>frees.
     rbind (newer_api (answer k)) (\<lambda>newer.
     Inr (allocs @ paddrs @ frees @ newer @ [DmaFree 0 0x20000] @ alignments (k + 1) answer @
       try_alloc (4 * 1024 * 1024) 0 (answer (k + 15)))))))"

section \<open>Checking a list of calls\<close>

text \<open>
  The blocks held, oldest first. A physical address may be asked for inside of a block that is held, a block
  is freed with its size, and the null pointer may always be freed.
\<close>

fun holding :: "(nat \<times> nat) list \<Rightarrow> dma_call list \<Rightarrow> (nat \<times> nat) list option" where
  "holding held [] = Some held"
| "holding held (DmaAlloc n align p # calls) = holding (if p = 0 then held else held @ [(p, n)]) calls"
| "holding held (DmaPaddr q # calls) =
     (if list_ex (\<lambda>(p, n). p \<le> q \<and> q < p + n) held then holding held calls else None)"
| "holding held (DmaFree p n # calls) =
     (if p = 0 then holding held calls
      else if (p, n) \<in> set held then holding (remove1 (p, n) held) calls else None)"

lemma holding_append:
  "holding held (xs @ ys) = (case holding held xs of None \<Rightarrow> None | Some h \<Rightarrow> holding h ys)"
  by (induction held xs rule: holding.induct) auto

lemma alloc_loop_ok:
  assumes "length buffers = i + n"
  shows "\<exists>i' bs calls k. alloc_loop n answer i buffers = Inr (i', bs, calls, k) \<and> i \<le> i' \<and> i' \<le> i + n \<and>
    length bs = i + n \<and> take i bs = take i buffers \<and> (\<forall>j < i' - i. bs ! (i + j) \<noteq> 0) \<and>
    (\<forall>j. i \<le> j \<and> j < i' \<longrightarrow> answer j \<noteq> 0) \<and> (i' < i + n \<longrightarrow> answer i' = 0) \<and> k = min (i + n) (Suc i') \<and>
    holding held calls = Some (held @ map (\<lambda>j. (bs ! j, 4096)) [i..<i'])"
  using assms
proof (induction n arbitrary: i buffers held)
  case (Suc n)
  let ?bs = "buffers[i := answer i]"
  show ?case
  proof (cases "answer i = 0")
    case True
    with Suc.prems show ?thesis by simp
  next
    case False
    from Suc.prems have "length ?bs = Suc i + n" by simp
    from Suc.IH [OF this, of "held @ [(answer i, 4096)]"] obtain i' bs calls k where
      r: "alloc_loop n answer (Suc i) ?bs = Inr (i', bs, calls, k)" "Suc i \<le> i'" "i' \<le> Suc i + n"
        "length bs = Suc i + n" "take (Suc i) bs = take (Suc i) ?bs" "\<forall>j < i' - Suc i. bs ! (Suc i + j) \<noteq> 0"
        "\<forall>j. Suc i \<le> j \<and> j < i' \<longrightarrow> answer j \<noteq> 0" "i' < Suc i + n \<longrightarrow> answer i' = 0" "k = min (Suc i + n) (Suc i')"
        "holding (held @ [(answer i, 4096)]) calls =
           Some ((held @ [(answer i, 4096)]) @ map (\<lambda>j. (bs ! j, 4096)) [Suc i..<i'])" by blast
    have bi: "bs ! i = answer i"
      using arg_cong [OF r(5), of "\<lambda>xs. xs ! i"] Suc.prems r(4) by simp
    have "take i bs = take i buffers"
      using arg_cong [OF r(5), of "take i"] Suc.prems by (simp add: min_def)
    moreover have "bs ! (i + j) \<noteq> 0" if "j < i' - i" for j
      using that r(6) bi False by (cases j) auto
    moreover have "answer j \<noteq> 0" if "i \<le> j" "j < i'" for j
      using that r(7) False by (cases "j = i") auto
    moreover have "[i..<i'] = i # [Suc i..<i']" using r(2) by (simp add: upt_conv_Cons)
    then have "holding held (DmaAlloc 4096 4096 (answer i) # calls) = Some (held @ map (\<lambda>j. (bs ! j, 4096)) [i..<i'])"
      using r(10) False bi by simp
    moreover have "alloc_loop (Suc n) answer i buffers = Inr (i', bs, DmaAlloc 4096 4096 (answer i) # calls, k)"
      using r(1) Suc.prems False by simp
    moreover have "i \<le> i'" "i' \<le> i + Suc n" "length bs = i + Suc n" "i' < i + Suc n \<longrightarrow> answer i' = 0"
      "k = min (i + Suc n) (Suc i')" using r(2-4,8,9) by simp_all
    ultimately show ?thesis by blast
  qed
qed simp

lemma list_ex_nth: "j < length xs \<Longrightarrow> P (xs ! j) \<Longrightarrow> list_ex P xs"
  by (auto simp: list_ex_iff)

lemma paddrs_ok:
  assumes "list_all (\<lambda>q. list_ex (\<lambda>(p, n). p \<le> q \<and> q < p + n) held) qs"
  shows "holding held (map DmaPaddr qs) = Some held"
  using assms by (induction qs) auto

lemma frees_ok:
  assumes "list_all (\<lambda>b. b \<noteq> 0) bs"
  shows "holding (map (\<lambda>b. (b, n)) bs) (map (\<lambda>b. DmaFree b n) bs) = Some []"
  using assms by (induction bs) auto

lemma try_alloc_ok [simp]: "holding [] (try_alloc n align p) = Some []"
  by (simp add: try_alloc_def)

lemma alignments_ok: "holding [] (concat (map (\<lambda>j. try_alloc n (f j) (g j)) js)) = Some []"
  by (induction js) (simp_all add: holding_append)

lemma newer_api_ok:
  assumes "p \<noteq> 0"
  shows "\<exists>calls. newer_api p = Inr calls \<and> holding [] calls = Some []"
proof -
  have "holding [(p, 0x2000)] (map DmaPaddr (map (\<lambda>j. p + j * 0x513) [0..<7])) = Some [(p, 0x2000)]"
    by (rule paddrs_ok) (auto simp: list_all_iff)
  with assms show ?thesis by (simp add: newer_api_def holding_append comp_def)
qed

section \<open>Properties\<close>

definition first_loop :: "(nat \<Rightarrow> nat) \<Rightarrow> nat" where
  "first_loop answer = length (takeWhile (\<lambda>j. answer j \<noteq> 0) [0..<100])"

text \<open>
  The first test: the pages it holds after its allocations, the number of allocations asked for, and that
  the offsets it asks the addresses of are within these pages, all of which it frees.
\<close>

lemma page_offsets_ok:
  assumes "i \<le> 100"
  shows "holding (map (\<lambda>b. (b, 4096)) (map ((!) bs) [0..<i])) (map DmaPaddr (map (\<lambda>j. bs ! j + j * 13) [0..<i])) =
    Some (map (\<lambda>b. (b, 4096)) (map ((!) bs) [0..<i]))"
proof (rule paddrs_ok, unfold list_all_length, intro allI impI)
  fix j assume j: "j < length (map (\<lambda>j. bs ! j + j * 13) [0..<i])"
  then have "j * 13 < 4096" using assms by simp
  with j show "list_ex (\<lambda>(p, n). p \<le> map (\<lambda>j. bs ! j + j * 13) [0..<i] ! j \<and>
      map (\<lambda>j. bs ! j + j * 13) [0..<i] ! j < p + n) (map (\<lambda>b. (b, 4096)) (map ((!) bs) [0..<i]))"
    by (intro list_ex_nth [of j]) simp_all
qed

lemma first_test_ok:
  assumes "length buffers0 = 100"
  obtains i bs calls offsets frees where
    "alloc_loop 100 answer 0 buffers0 = Inr (i, bs, calls, min 100 (Suc (first_loop answer)))"
    "reverse_offsets bs i = Inr offsets" "free_buffers bs i = Inr frees"
    "holding [] (calls @ offsets @ frees) = Some []"
proof -
  from alloc_loop_ok [of buffers0 0 100 answer "[]"] assms obtain i bs calls k where
    r: "alloc_loop 100 answer 0 buffers0 = Inr (i, bs, calls, k)" "i \<le> 100" "length bs = 100"
      "\<forall>j < i. bs ! j \<noteq> 0" "\<forall>j < i. answer j \<noteq> 0" "i < 100 \<longrightarrow> answer i = 0" "k = min 100 (Suc i)"
      "holding [] calls = Some (map (\<lambda>j. (bs ! j, 4096)) [0..<i])" by auto
  have "takeWhile (\<lambda>j. answer j \<noteq> 0) [0..<100] = [0..<i]"
  proof (rule takeWhile_eq_take_P_nth [THEN trans])
    show "\<And>j. j < i \<Longrightarrow> j < length [0..<100] \<Longrightarrow> answer ([0..<100] ! j) \<noteq> 0" using r(5) by simp
    show "i < length [0..<100] \<Longrightarrow> \<not> answer ([0..<100] ! i) \<noteq> 0" using r(6) by simp
    show "take i [0..<100] = [0..<i]" using r(2) by (simp add: take_upt)
  qed
  then have k: "k = min 100 (Suc (first_loop answer))" by (simp add: first_loop_def r(7))
  have reads: "array_read bs j = Inr (bs ! j)" if "j \<in> set [0..<i]" for j
    using that r(2,3) by simp
  have paddrs: "reverse_offsets bs i = Inr (map DmaPaddr (map (\<lambda>j. bs ! j + j * 13) [0..<i]))"
    unfolding reverse_offsets_def map_map comp_def by (rule rmap_total) (simp add: reads)
  have frees: "free_buffers bs i = Inr (map (\<lambda>b. DmaFree b 4096) (map ((!) bs) [0..<i]))"
    unfolding free_buffers_def map_map comp_def by (rule rmap_total) (simp add: reads)
  have "holding (map (\<lambda>b. (b, 4096)) (map ((!) bs) [0..<i])) (map (\<lambda>b. DmaFree b 4096) (map ((!) bs) [0..<i])) = Some []"
    by (rule frees_ok) (use r(4) in \<open>simp add: list_all_iff\<close>)
  with r(1,8) k paddrs frees page_offsets_ok [OF r(2), of bs] that show thesis
    by (simp add: holding_append comp_def)
qed

text \<open>
  Property C28. The client returns all DMA memory and uses it only while it holds it: whatever pointers the allocator returns,
  wherever it runs out, the array of buffers is not overrun, every physical address is asked for inside
  of a block held then, each block is freed once with its size, and none is held at the end. The
  run fails exactly when the allocation of 0x2000 bytes does, the one after those of the first loop.
\<close>

theorem dma_blocks_returned:
  assumes "length buffers0 = 100"
  shows "if answer (min 100 (Suc (first_loop answer))) = 0 then dma_run buffers0 answer = Inl AssertionFailed
    else \<exists>calls. dma_run buffers0 answer = Inr calls \<and> holding [] calls = Some []"
proof -
  let ?k = "min 100 (Suc (first_loop answer))"
  from first_test_ok [OF assms, of answer] obtain i bs calls offsets frees where
    first: "alloc_loop 100 answer 0 buffers0 = Inr (i, bs, calls, ?k)" "reverse_offsets bs i = Inr offsets"
      "free_buffers bs i = Inr frees" "holding [] (calls @ offsets @ frees) = Some []" .
  show ?thesis
  proof (cases "answer ?k = 0")
    case True
    with first show ?thesis by (simp add: dma_run_def N_BUFFERS_def newer_api_def)
  next
    case False
    from newer_api_ok [OF this] obtain newer where newer: "newer_api (answer ?k) = Inr newer" "holding [] newer = Some []"
      by blast
    have "holding [] (alignments (?k + 1) answer) = Some []" by (simp add: alignments_def alignments_ok)
    with first newer False show ?thesis
      by (auto simp: dma_run_def N_BUFFERS_def holding_append split: option.splits)
  qed
qed

text \<open>An allocator that gives out three pages, then refuses, and then has room again.\<close>

theorem dma_blocks_returned_witness:
  "\<exists>calls. dma_run (replicate 100 0) (\<lambda>k. if k = 3 then 0 else 4096 * (k + 1)) = Inr calls \<and> holding [] calls = Some []"
proof -
  let ?a = "\<lambda>k. if k = 3 then 0 else 4096 * (k + 1)"
  have "[0..<100] = [0, 1, 2] @ 3 # [4..<100]" by (simp add: upt_rec)
  then have "first_loop ?a = 3" by (simp add: first_loop_def)
  then show ?thesis using dma_blocks_returned [of "replicate 100 0" ?a] by simp
qed

end
