(* ===== verification/Dataport_Tests.thy ===== *)
theory Dataport_Tests
  imports Component_Heap String_Services
begin

text \<open>
  Applications that probe a data port: \<^verbatim>\<open>apps/testdataportrpc\<close>, which passes strings up to the size of the port and
  one byte more; \<^verbatim>\<open>apps/dataport\<close>, where two components read what the other one is writing;
  \<^verbatim>\<open>apps/testbufvariant\<close>, which uses the end of a port of two pages; and the client of
  \<^verbatim>\<open>apps/exchangestring\<close>.
\<close>

section \<open>Strings through a data port\<close>

datatype camkes_error = CE_BUFFER_LENGTH_EXCEEDED | CE_OTHER nat

definition CStruct_size :: nat where "CStruct_size = 100"

definition CStructBig_size :: nat where "CStructBig_size = 8192"

record error_counts =
  overrun_errors :: u32
  other_errors :: u32

text \<open>The handler counts the error and has the call discarded.\<close>

definition handler :: "camkes_error \<Rightarrow> error_counts \<Rightarrow> error_counts" where
  "handler e s =
     (if e = CE_BUFFER_LENGTH_EXCEEDED then s\<lparr>overrun_errors := overrun_errors s + 1\<rparr>
      else s\<lparr>other_errors := other_errors s + 1\<rparr>)"

text \<open>The server answers a copy; \<open>dup\<close> is \<open>strdup\<close>, which may return null.\<close>

definition server_echo :: "(bytes \<Rightarrow> bytes option) \<Rightarrow> bytes \<Rightarrow> bytes result" where
  "server_echo dup s = (case dup s of None \<Rightarrow> Inl AssertionFailed | Some p \<Rightarrow> Inr p)"

text \<open>
  A call of the echo interface through a port of \<open>cap\<close> bytes. The generated stub is an argument: the error it reports, or
  none. A discarded call gives no answer, and without a handler an error stops the component.
\<close>

definition echo_call ::
  "(nat \<Rightarrow> bytes \<Rightarrow> camkes_error option) \<Rightarrow> (bytes \<Rightarrow> bytes option) \<Rightarrow> nat \<Rightarrow> bool \<Rightarrow> bytes \<Rightarrow> error_counts \<Rightarrow>
   (bytes option \<times> error_counts) result" where
  "echo_call stub dup cap registered s st =
     (case stub cap s of
        None \<Rightarrow> rbind (server_echo dup s) (\<lambda>r. Inr (Some r, st))
      | Some e \<Rightarrow> if registered then Inr (None, handler e st) else Inl Aborted)"

text \<open>The first \<open>n - 1\<close> bytes of the text in an array of \<open>n\<close>, with a terminator, and the string the array holds.\<close>

definition fill :: "bytes \<Rightarrow> nat \<Rightarrow> bytes result" where
  "fill lorem n = rbind (c_bytes lorem (n - 1)) (\<lambda>t. Inr (t @ [0]))"

definition string_of :: "bytes \<Rightarrow> bytes" where
  "string_of s = takeWhile (\<lambda>c. c \<noteq> 0) s"

definition test_fits ::
  "(nat \<Rightarrow> bytes \<Rightarrow> camkes_error option) \<Rightarrow> (bytes \<Rightarrow> bytes option) \<Rightarrow> bytes \<Rightarrow> nat \<Rightarrow> nat \<Rightarrow> error_counts \<Rightarrow> error_counts result" where
  "test_fits stub dup lorem cap n st =
     rbind (fill lorem n) (\<lambda>s.
     rbind (echo_call stub dup cap False (string_of s) st) (\<lambda>(ret, st').
     rbind (c_assert (ret = Some (string_of s))) (\<lambda>_. Inr st')))"

definition test_overrun ::
  "(nat \<Rightarrow> bytes \<Rightarrow> camkes_error option) \<Rightarrow> (bytes \<Rightarrow> bytes option) \<Rightarrow> bytes \<Rightarrow> nat \<Rightarrow> nat \<Rightarrow> error_counts \<Rightarrow> error_counts result" where
  "test_overrun stub dup lorem cap n st =
     rbind (fill lorem (n + 1)) (\<lambda>s.
     rbind (echo_call stub dup cap True (string_of s) (st\<lparr>overrun_errors := 0, other_errors := 0\<rparr>)) (\<lambda>(_, st').
     rbind (c_assert (overrun_errors st' = 1)) (\<lambda>_.
     rbind (c_assert (other_errors st' = 0)) (\<lambda>_. Inr st'))))"

text \<open>The ports with their sizes: one page, two pages and the two structures.\<close>

definition ports :: "nat list" where
  "ports = [PAGE_SIZE_4K, PAGE_SIZE_4K * 2, CStruct_size, CStructBig_size]"

definition dataportrpc_run ::
  "(nat \<Rightarrow> bytes \<Rightarrow> camkes_error option) \<Rightarrow> (bytes \<Rightarrow> bytes option) \<Rightarrow> bytes \<Rightarrow> error_counts \<Rightarrow> error_counts result" where
  "dataportrpc_run stub dup lorem st =
     rbind (c_assert (length lorem \<ge> PAGE_SIZE_4K * 2)) (\<lambda>_.
     rfold (\<lambda>n st. rbind (test_fits stub dup lorem n n st) (test_overrun stub dup lorem n n)) ports st)"

text \<open>What the stub is documented to do: a string and its terminator fit, or the handler is told that they do not.\<close>

definition stub_contract :: "(nat \<Rightarrow> bytes \<Rightarrow> camkes_error option) \<Rightarrow> bool" where
  "stub_contract stub \<longleftrightarrow>
     (\<forall>cap s. stub cap s = (if length s + 1 \<le> cap then None else Some CE_BUFFER_LENGTH_EXCEEDED))"

lemma fill_text:
  assumes "n - 1 \<le> length chars" "0 \<notin> set chars"
  shows "\<exists>s. fill (chars @ [0]) n = Inr s \<and> string_of s = take (n - 1) chars"
proof -
  have "takeWhile (\<lambda>c. c \<noteq> 0) (take (n - 1) chars @ [0]) = take (n - 1) chars"
    using assms(2) by (subst takeWhile_append2) (auto dest: in_set_takeD)
  with assms(1) show ?thesis by (simp add: fill_def string_of_def)
qed

lemma port_test_ok:
  assumes "stub_contract stub" "\<And>s. dup s = Some s" "0 < n" "n \<le> length chars" "0 \<notin> set chars"
  shows "rbind (test_fits stub dup (chars @ [0]) n n st) (test_overrun stub dup (chars @ [0]) n n) =
    Inr (st\<lparr>overrun_errors := 1, other_errors := 0\<rparr>)"
proof -
  have "n - 1 \<le> length chars" "n + 1 - 1 \<le> length chars" using assms(4) by simp_all
  then obtain s t where s: "fill (chars @ [0]) n = Inr s" "string_of s = take (n - 1) chars"
    and t: "fill (chars @ [0]) (n + 1) = Inr t" "string_of t = take n chars"
    using fill_text [OF _ assms(5), of n] fill_text [OF _ assms(5), of "n + 1"] by auto
  have "length (string_of s) + 1 \<le> n" "\<not> length (string_of t) + 1 \<le> n" using s(2) t(2) assms(3,4) by simp_all
  with assms(1,2) s(1) t(1) show ?thesis
    by (simp add: test_fits_def test_overrun_def echo_call_def server_echo_def stub_contract_def handler_def)
qed



section \<open>Reading what the other one writes\<close>

text \<open>
  \<^verbatim>\<open>apps/dataport\<close>: component \<open>i\<close> writes to port \<open>i\<close>, byte by byte in ascending order as \<open>strcpy\<close> does, waits until
  the first byte of the other port is not zero, and prints the string it finds there. Both ports are zero at the
  start and the two components run in any interleaving.
\<close>

definition ping_hello :: bytes where
  "ping_hello = [104, 101, 108, 108, 111, 32, 119, 111, 114, 108, 100]"

datatype ping_pc = CopyByte nat | Polling | Printing | Printed bytes

record ping =
  port_of :: "nat \<Rightarrow> bytes"
  ping_pcs :: "nat \<Rightarrow> ping_pc"

definition ping_run :: "nat \<Rightarrow> ping \<Rightarrow> ping option" where
  "ping_run i s =
     (case ping_pcs s i of
        CopyByte k \<Rightarrow>
          if k < length (port_of s i)
          then Some (s\<lparr>port_of := (port_of s)(i := (port_of s i)[k := (ping_hello @ [0]) ! k]),
                      ping_pcs := (ping_pcs s)(i := if k < length ping_hello then CopyByte (k + 1) else Polling)\<rparr>)
          else None
      | Polling \<Rightarrow> Some (s\<lparr>ping_pcs := (ping_pcs s)(i := if port_of s (1 - i) ! 0 = 0 then Polling else Printing)\<rparr>)
      | Printing \<Rightarrow> Some (s\<lparr>ping_pcs := (ping_pcs s)(i := Printed (string_of (port_of s (1 - i))))\<rparr>)
      | Printed b \<Rightarrow> None)"

definition ping_start :: ping where
  "ping_start = \<lparr>port_of = (\<lambda>_. replicate 4096 0), ping_pcs = (\<lambda>_. CopyByte 0)\<rparr>"

inductive ping_step :: "ping \<Rightarrow> ping \<Rightarrow> bool" where
  "i < 2 \<Longrightarrow> ping_run i s = Some t \<Longrightarrow> ping_step s t"

text \<open>How many bytes a component has written, and the port then.\<close>

fun copied :: "ping_pc \<Rightarrow> nat" where
  "copied (CopyByte k) = k"
| "copied pc = 12"

definition written :: "nat \<Rightarrow> bytes" where
  "written k = take k (ping_hello @ [0]) @ replicate (4096 - k) 0"

lemma length_hello [simp]: "length ping_hello = 11"
  by (simp add: ping_hello_def)

lemma hello_nonzero [simp]: "0 \<notin> set ping_hello"
  by (simp add: ping_hello_def)

lemma length_written [simp]: "k \<le> 12 \<Longrightarrow> length (written k) = 4096"
  by (simp add: written_def)

lemma written_Suc: "k < 12 \<Longrightarrow> (written k)[k := (ping_hello @ [0]) ! k] = written (Suc k)"
proof -
  assume k: "k < 12"
  then have "4096 - k = Suc (4096 - Suc k)" by simp
  then have zs: "replicate (4096 - k) (0 :: u8) = 0 # replicate (4096 - Suc k) 0" by (simp only: replicate_Suc)
  define m where "m = ping_hello @ [0]"
  then have "length m = 12" by simp
  with k show ?thesis
    unfolding written_def zs m_def [symmetric] by (simp add: list_update_append take_Suc_conv_app_nth)
qed

lemma string_written: "k \<le> 12 \<Longrightarrow> string_of (written k) = take (min k 11) ping_hello"
proof -
  assume "k \<le> 12"
  then have "written k = take (min k 11) ping_hello @ 0 # replicate (4095 - min k 11) 0"
    by (cases "k = 12") (simp_all add: written_def min_def replicate_Suc [symmetric] Suc_diff_le del: replicate_Suc)
  then show ?thesis unfolding string_of_def
    by (simp add: takeWhile_append) (metis hello_nonzero in_set_takeD)
qed

lemma written_first: "k \<le> 12 \<Longrightarrow> written k ! 0 = 0 \<longleftrightarrow> k = 0"
  by (cases k) (simp_all add: written_def ping_hello_def)

text \<open>One component against the other: its port, and that it goes on to print only after the other has written.\<close>

definition side :: "ping_pc \<Rightarrow> ping_pc \<Rightarrow> bytes \<Rightarrow> bool" where
  "side pc other p \<longleftrightarrow>
     copied pc \<le> 12 \<and> pc \<noteq> CopyByte 12 \<and> p = written (copied pc) \<and> (pc = Printing \<longrightarrow> 0 < copied other) \<and>
     (\<forall>b. pc = Printed b \<longrightarrow> (\<exists>k. 0 < k \<and> k \<le> 11 \<and> b = take k ping_hello))"

definition ping_inv :: "ping \<Rightarrow> bool" where
  "ping_inv s \<longleftrightarrow>
     side (ping_pcs s 0) (ping_pcs s 1) (port_of s 0) \<and> side (ping_pcs s 1) (ping_pcs s 0) (port_of s 1)"

lemma side_other: "side pc other p \<Longrightarrow> copied other \<le> copied other' \<Longrightarrow> side pc other' p"
  by (auto simp: side_def)

lemma ping_run_side:
  assumes "ping_run i s = Some t" "1 - i = j" "j \<noteq> i"
    and "side (ping_pcs s i) (ping_pcs s j) (port_of s i)" "side (ping_pcs s j) other (port_of s j)"
  shows "side (ping_pcs t i) (ping_pcs s j) (port_of t i) \<and> copied (ping_pcs s i) \<le> copied (ping_pcs t i) \<and>
    ping_pcs t j = ping_pcs s j \<and> port_of t j = port_of s j"
proof (cases "ping_pcs s i")
  case (CopyByte k)
  with assms(4) have k: "k < 12" "port_of s i = written k" by (auto simp: side_def)
  have "k = 11 \<or> k < 11" using k(1) by linarith
  then show ?thesis
    using k assms(1,3) CopyByte written_Suc [of k] by (auto simp: ping_run_def side_def)
next
  case Polling
  have "port_of s j ! 0 \<noteq> 0 \<Longrightarrow> 0 < copied (ping_pcs s j)"
    using assms(5) written_first [of "copied (ping_pcs s j)"] by (auto simp: side_def)
  with assms(1,3,4) Polling show ?thesis
    unfolding ping_run_def assms(2) by (cases "port_of s j ! 0 = 0") (auto simp: side_def)
next
  case Printing
  let ?k = "copied (ping_pcs s j)"
  have "string_of (port_of s j) = take (min ?k 11) ping_hello" "0 < min ?k 11" "min ?k 11 \<le> 11"
    using assms(4,5) string_written [of ?k] Printing by (auto simp: side_def)
  then have "\<exists>n. 0 < n \<and> n \<le> 11 \<and> string_of (port_of s j) = take n ping_hello" by blast
  with assms(1,3,4) Printing show ?thesis unfolding ping_run_def assms(2) by (auto simp: side_def)
next
  case (Printed b)
  with assms(1) show ?thesis by (simp add: ping_run_def)
qed

lemma ping_step_inv:
  assumes "ping_step s t" "ping_inv s"
  shows "ping_inv t"
  using assms(1)
proof cases
  case (1 i)
  then consider "i = 0" | "i = 1" by linarith
  then show ?thesis
  proof cases
    case 1
    with \<open>ping_run i s = Some t\<close> assms(2) ping_run_side [of 0 s t 1] show ?thesis
      by (auto simp: ping_inv_def intro: side_other)
  next
    case 2
    with \<open>ping_run i s = Some t\<close> assms(2) ping_run_side [of 1 s t 0] show ?thesis
      by (auto simp: ping_inv_def intro: side_other)
  qed
qed

lemma ping_reachable_inv: "ping_step\<^sup>*\<^sup>* ping_start s \<Longrightarrow> ping_inv s"
proof (induction rule: rtranclp_induct)
  case base
  show ?case by (simp add: ping_start_def ping_inv_def side_def written_def)
qed (rule ping_step_inv)

text \<open>A component alone writes as many bytes as one likes, and the whole string.\<close>

lemma ping_copies:
  assumes "j \<le> 11" "i < 2"
  shows "ping_step\<^sup>*\<^sup>* (s\<lparr>port_of := (port_of s)(i := written 0), ping_pcs := (ping_pcs s)(i := CopyByte 0)\<rparr>)
    (s\<lparr>port_of := (port_of s)(i := written j), ping_pcs := (ping_pcs s)(i := CopyByte j)\<rparr>)"
  using assms(1)
proof (induction j)
  case (Suc j)
  have "ping_step (s\<lparr>port_of := (port_of s)(i := written j), ping_pcs := (ping_pcs s)(i := CopyByte j)\<rparr>)
      (s\<lparr>port_of := (port_of s)(i := written (Suc j)), ping_pcs := (ping_pcs s)(i := CopyByte (Suc j))\<rparr>)"
    using Suc.prems assms(2) by (intro ping_step.intros [of i]) (simp_all add: ping_run_def written_Suc)
  with Suc.IH Suc.prems show ?case by (meson Suc_leD rtranclp.rtrancl_into_rtrancl)
qed simp

lemma ping_copies_all:
  assumes "i < 2"
  shows "ping_step\<^sup>*\<^sup>* (s\<lparr>port_of := (port_of s)(i := written 0), ping_pcs := (ping_pcs s)(i := CopyByte 0)\<rparr>)
    (s\<lparr>port_of := (port_of s)(i := written 12), ping_pcs := (ping_pcs s)(i := Polling)\<rparr>)"
proof -
  have "written 12 = (written 11)[11 := (ping_hello @ [0]) ! 11]" using written_Suc [of 11] by simp
  then have "ping_step (s\<lparr>port_of := (port_of s)(i := written 11), ping_pcs := (ping_pcs s)(i := CopyByte 11)\<rparr>)
      (s\<lparr>port_of := (port_of s)(i := written 12), ping_pcs := (ping_pcs s)(i := Polling)\<rparr>)"
    using assms by (intro ping_step.intros [of i]) (simp_all add: ping_run_def)
  with ping_copies [OF order_refl assms, of s] show ?thesis by (rule rtranclp.rtrancl_into_rtrancl)
qed

lemma torn_print_reachable:
  assumes "0 < k" "k \<le> 11"
  shows "\<exists>s. ping_step\<^sup>*\<^sup>* ping_start s \<and> ping_pcs s 0 = Printed (take k ping_hello)"
proof -
  have w0: "written 0 = replicate 4096 0" by (simp add: written_def)
  let ?s0 = "ping_start"
  let ?s1 = "?s0\<lparr>port_of := (port_of ?s0)(1 := written k), ping_pcs := (ping_pcs ?s0)(1 := CopyByte k)\<rparr>"
  let ?s2 = "?s1\<lparr>port_of := (port_of ?s1)(0 := written 12), ping_pcs := (ping_pcs ?s1)(0 := Polling)\<rparr>"
  let ?s3 = "?s2\<lparr>ping_pcs := (ping_pcs ?s2)(0 := Printing)\<rparr>"
  let ?s4 = "?s3\<lparr>ping_pcs := (ping_pcs ?s3)(0 := Printed (take k ping_hello))\<rparr>"
  have start: "?s0\<lparr>port_of := (port_of ?s0)(1 := written 0), ping_pcs := (ping_pcs ?s0)(1 := CopyByte 0)\<rparr> = ?s0"
    by (simp add: ping_start_def w0 fun_eq_iff)
  have "ping_step\<^sup>*\<^sup>* ?s0 ?s1" using ping_copies [of k 1 ?s0] assms(2) unfolding start by simp
  moreover have same: "?s1\<lparr>port_of := (port_of ?s1)(0 := written 0), ping_pcs := (ping_pcs ?s1)(0 := CopyByte 0)\<rparr> = ?s1"
    by (simp add: ping_start_def w0 fun_eq_iff)
  have "ping_step\<^sup>*\<^sup>* ?s1 ?s2" using ping_copies_all [of 0 ?s1] unfolding same by simp
  moreover have "ping_step ?s2 ?s3"
    using written_first [of k] assms by (intro ping_step.intros [of 0]) (simp_all add: ping_run_def)
  moreover have "ping_step ?s3 ?s4"
    using string_written [of k] assms by (intro ping_step.intros [of 0]) (simp_all add: ping_run_def min_def)
  ultimately have "ping_step\<^sup>*\<^sup>* ?s0 ?s4" by (meson rtranclp.rtrancl_into_rtrancl rtranclp_trans)
  then show ?thesis by (intro exI [of _ ?s4]) simp
qed

text \<open>
  Property C37. A component may print half of the other's greeting: waiting for the first byte does not wait for the rest. Whatever the
  interleaving, what a component prints is a prefix of the greeting that is not empty; and each of
  the eleven prefixes is printed in some interleaving, so the greeting may come out as its first letter.
\<close>

theorem dataport_torn_read:
  "(\<forall>s i b. ping_step\<^sup>*\<^sup>* ping_start s \<longrightarrow> i < 2 \<longrightarrow> ping_pcs s i = Printed b \<longrightarrow>
      (\<exists>k. 0 < k \<and> k \<le> 11 \<and> b = take k ping_hello)) \<and>
   (\<forall>k. 0 < k \<longrightarrow> k \<le> 11 \<longrightarrow>
      (\<exists>s. ping_step\<^sup>*\<^sup>* ping_start s \<and> ping_pcs s 0 = Printed (take k ping_hello)))"
proof (intro conjI allI impI)
  fix s i b assume "ping_step\<^sup>*\<^sup>* ping_start s" "i < (2 :: nat)" "ping_pcs s i = Printed b"
  moreover from this(1) have "ping_inv s" by (rule ping_reachable_inv)
  moreover from \<open>i < 2\<close> have "i = 0 \<or> i = 1" by linarith
  ultimately show "\<exists>k. 0 < k \<and> k \<le> 11 \<and> b = take k ping_hello" by (auto simp: ping_inv_def side_def)
qed (rule torn_print_reachable)

theorem dataport_torn_read_witness:
  "\<exists>s. ping_step\<^sup>*\<^sup>* ping_start s \<and> ping_pcs s 0 = Printed [104]"
  using dataport_torn_read [THEN conjunct2, rule_format, of 1] by (simp add: ping_hello_def)

section \<open>The end of a port\<close>

text \<open>
  \<^verbatim>\<open>apps/testbufvariant\<close>: the client writes an \<^verbatim>\<open>int\<close> 512 bytes before the end of the two pages and the server waits until
  it reads it there; \<open>None\<close> is a wait without end.
\<close>

definition int_bytes :: "u32 \<Rightarrow> bytes" where
  "int_bytes w = map (\<lambda>k. ucast (drop_bit (8 * k) w)) [0..<4]"

definition buf_offset :: nat where "buf_offset = PAGE_SIZE_4K + PAGE_SIZE_4K - 512"

definition buf_client :: "bytes \<Rightarrow> bytes result" where
  "buf_client d =
     (if buf_offset + 4 \<le> length d
      then Inr (take buf_offset d @ int_bytes 42 @ drop (buf_offset + 4) d) else Inl IndexError)"

definition buf_server :: "bytes \<Rightarrow> unit option result" where
  "buf_server d =
     (if buf_offset + 4 \<le> length d
      then Inr (if take 4 (drop buf_offset d) = int_bytes 42 then Some () else None) else Inl IndexError)"

lemma buf_number_seen:
  assumes "length d = 8192"
  shows "\<exists>d'. buf_client d = Inr d' \<and> length d' = 8192 \<and> buf_server d' = Inr (Some ())"
  using assms by (simp add: buf_client_def buf_server_def buf_offset_def PAGE_SIZE_4K_def int_bytes_def)

section \<open>The exchange\<close>

text \<open>
  \<^verbatim>\<open>apps/exchangestring\<close>: the client's string, what it passes as \<open>joint\<close>, and what it prints: the output, the joint string and
  the answer.
\<close>

definition client_string :: bytes where "client_string = lit ''This is a client string.''"

definition server_string :: bytes where "server_string = lit ''This is a string from server.''"

definition client_joint :: bytes where
  "client_joint = (strncpy_bytes 25 (client_string @ [0]))[24 := 0]"

definition exchange_client :: "(bytes \<times> bytes \<times> bytes) result" where
  "exchange_client = a_exchange server_string client_string"

lemma sentence_lengths [simp]:
  "length client_string = 24" "length server_string = 29" "0 \<notin> set client_string" "0 \<notin> set server_string"
  by (simp_all add: client_string_def server_string_def lit_def)

text \<open>The copy of its own string that the client passes is whole.\<close>

lemma client_joint_whole: "client_joint = client_string @ [0]"
  by (simp add: client_joint_def client_string_def lit_def strncpy_bytes_def Let_def)

text \<open>
  The exchange joins the strings where they fit: a client string of at most twenty characters comes back
  with the server's behind it in fifty bytes, and the answer and the output are the server's string. A longer one
  overflows the allocation, and the application's own client sends twenty-four characters.
\<close>

theorem exchange_joins:
  "(if length input \<le> 20
    then \<exists>out joint. a_exchange server_string input = Inr (server_string, out, joint) \<and> string_of out = server_string \<and>
      take (length input + 30) joint = input @ server_string @ [0]
    else a_exchange server_string input = Inl IndexError) \<and>
   exchange_client = Inl IndexError"
proof -
  have out: "(strncpy_bytes 30 (server_string @ [0]))[29 := 0] = server_string @ [0]"
    by (simp add: server_string_def lit_def strncpy_bytes_def Let_def)
  have "string_of (server_string @ [0]) = server_string"
    unfolding string_of_def by (subst takeWhile_append2) auto
  then show ?thesis
    by (auto simp: a_exchange_def exchange_client_def strcpy_at_def out Let_def)
qed

end
