(* ===== verification/Syscall_Tests.thy ===== *)
theory Syscall_Tests
  imports Camkes_Prelude
begin

text \<open>
  \<^verbatim>\<open>apps/testsyscalls\<close>: calls of the C library that the component runtime implements, each followed by an
  assertion on its result. The implementation is outside of the repository and is an argument: the result and the
  error number of each call, and what \<open>mincore\<close> writes. The calls that would set the error number
  stand behind \<open>if (0)\<close> in the code, here behind \<open>errno_works\<close>.
\<close>

section \<open>Calls\<close>

text \<open>Addresses: an offset into the page-aligned array of two pages, one before the executable; and the third argument of \<open>mincore\<close>.\<close>

datatype sys_addr = PageAt nat | BAD_ADDR

datatype vec_arg = Vec | NullVec | MaxVec

datatype advice = MADV_NORMAL | MADV_RANDOM | MADV_SEQUENTIAL | MADV_WILLNEED | MADV_DONTNEED | BAD_ADVICE

datatype mcl = MCL_CURRENT | MCL_FUTURE | MCL_BOTH | BAD_FLAGS

datatype size_arg = Bytes nat | SIZE_MAX

datatype syscall =
    Madvise sys_addr size_arg advice
  | Mincore sys_addr size_arg vec_arg
  | Mlock sys_addr size_arg
  | Munlock sys_addr size_arg
  | Mlockall mcl
  | Munlockall
  | Getpid
  | Getppid

datatype errno = EINVAL | ENOMEM | EFAULT

type_synonym system = "syscall \<Rightarrow> int \<times> errno"

definition errno_works :: bool where "errno_works = False"

text \<open>The size of the array, and the size less 42.\<close>

definition whole :: size_arg where "whole = Bytes (2 * PAGE_SIZE_4K)"

definition partial :: size_arg where "partial = Bytes (2 * PAGE_SIZE_4K - 42)"

definition returns :: "system \<Rightarrow> syscall \<Rightarrow> int \<Rightarrow> unit result" where
  "returns sys c r = c_assert (fst (sys c) = r)"

definition rejects :: "system \<Rightarrow> syscall \<Rightarrow> errno \<Rightarrow> unit result" where
  "rejects sys c e = rbind (c_assert (fst (sys c) = -1)) (\<lambda>_. c_assert (snd (sys c) = e))"

definition all_of :: "unit result list \<Rightarrow> unit result" where
  "all_of rs = foldr (\<lambda>r k. rbind r (\<lambda>_. k)) rs (Inr ())"

section \<open>Tests\<close>

definition test_madvise :: "system \<Rightarrow> unit result" where
  "test_madvise sys =
     rbind (all_of [returns sys (Madvise (PageAt 0) whole MADV_NORMAL) 0,
        returns sys (Madvise (PageAt 0) whole MADV_RANDOM) 0,
        returns sys (Madvise (PageAt 0) whole MADV_SEQUENTIAL) 0,
        returns sys (Madvise (PageAt 0) whole MADV_WILLNEED) 0,
        returns sys (Madvise (PageAt 0) whole MADV_DONTNEED) 0]) (\<lambda>_.
     if errno_works
     then all_of [rejects sys (Madvise (PageAt 0) whole BAD_ADVICE) EINVAL,
        rejects sys (Madvise (PageAt 42) (Bytes PAGE_SIZE_4K) MADV_NORMAL) EINVAL,
        rejects sys (Madvise BAD_ADDR (Bytes PAGE_SIZE_4K) MADV_NORMAL) ENOMEM]
     else Inr ())"

text \<open>What is in \<open>vec\<close> after a call; bit 0 of each byte says that the page is in memory.\<close>

definition resident :: "(syscall \<Rightarrow> bytes) \<Rightarrow> syscall \<Rightarrow> unit result" where
  "resident vec c =
     rbind (array_read (vec c) 0) (\<lambda>a. rbind (c_assert (a AND 1 \<noteq> 0)) (\<lambda>_.
     rbind (array_read (vec c) 1) (\<lambda>b. c_assert (b AND 1 \<noteq> 0))))"

definition test_mincore :: "system \<Rightarrow> (syscall \<Rightarrow> bytes) \<Rightarrow> unit result" where
  "test_mincore sys vec =
     rbind (all_of [returns sys (Mincore (PageAt 0) whole Vec) 0, resident vec (Mincore (PageAt 0) whole Vec),
        returns sys (Mincore (PageAt 0) partial Vec) 0, resident vec (Mincore (PageAt 0) partial Vec)]) (\<lambda>_.
     if errno_works
     then all_of [rejects sys (Mincore (PageAt 0) whole NullVec) EFAULT,
        rejects sys (Mincore (PageAt 0) whole MaxVec) EFAULT,
        rejects sys (Mincore (PageAt 42) partial Vec) EINVAL,
        rejects sys (Mincore (PageAt 0) SIZE_MAX Vec) ENOMEM,
        rejects sys (Mincore BAD_ADDR (Bytes PAGE_SIZE_4K) Vec) ENOMEM]
     else Inr ())"

definition test_mlock :: "system \<Rightarrow> unit result" where
  "test_mlock sys =
     rbind (all_of [returns sys (Mlock (PageAt 0) whole) 0, returns sys (Mlock (PageAt 0) partial) 0]) (\<lambda>_.
     if errno_works
     then all_of [rejects sys (Mlock (PageAt 42) partial) EINVAL, rejects sys (Mlock (PageAt 0) SIZE_MAX) ENOMEM,
        rejects sys (Mlock BAD_ADDR (Bytes PAGE_SIZE_4K)) ENOMEM]
     else Inr ())"

definition test_munlock :: "system \<Rightarrow> unit result" where
  "test_munlock sys =
     rbind (all_of [returns sys (Munlock (PageAt 0) whole) 0, returns sys (Munlock (PageAt 0) partial) 0]) (\<lambda>_.
     if errno_works
     then all_of [rejects sys (Munlock (PageAt 42) partial) EINVAL, rejects sys (Munlock (PageAt 0) SIZE_MAX) ENOMEM,
        rejects sys (Munlock BAD_ADDR (Bytes PAGE_SIZE_4K)) ENOMEM]
     else Inr ())"

definition test_mlockall :: "system \<Rightarrow> unit result" where
  "test_mlockall sys =
     rbind (all_of [returns sys (Mlockall MCL_CURRENT) 0, returns sys (Mlockall MCL_FUTURE) 0,
        returns sys (Mlockall MCL_BOTH) 0]) (\<lambda>_.
     if errno_works then rejects sys (Mlockall BAD_FLAGS) EINVAL else Inr ())"

definition test_munlockall :: "system \<Rightarrow> unit result" where
  "test_munlockall sys = returns sys Munlockall 0"

definition test_getpid :: "system \<Rightarrow> unit result" where
  "test_getpid sys = returns sys Getpid 2"

definition test_getppid :: "system \<Rightarrow> unit result" where
  "test_getppid sys = returns sys Getppid 1"

text \<open>The other component has its own process number.\<close>

definition server_test_getpid :: "system \<Rightarrow> unit result" where
  "server_test_getpid sys = returns sys Getpid 3"

definition server_test_getppid :: "system \<Rightarrow> unit result" where
  "server_test_getppid sys = returns sys Getppid 1"

definition other_call :: "system \<Rightarrow> unit result" where
  "other_call sys = all_of [server_test_getpid sys, server_test_getppid sys]"

definition syscalls_run :: "system \<Rightarrow> (syscall \<Rightarrow> bytes) \<Rightarrow> system \<Rightarrow> unit result" where
  "syscalls_run sys vec other =
     all_of [test_madvise sys, test_mincore sys vec, test_mlock sys, test_munlock sys, test_mlockall sys,
       test_munlockall sys, test_getpid sys, test_getppid sys, other_call other]"

section \<open>When the tests pass\<close>

definition wanted :: "(syscall \<times> int) list" where
  "wanted =
     map (\<lambda>a. (Madvise (PageAt 0) whole a, 0)) [MADV_NORMAL, MADV_RANDOM, MADV_SEQUENTIAL, MADV_WILLNEED, MADV_DONTNEED] @
     [(Mincore (PageAt 0) whole Vec, 0), (Mincore (PageAt 0) partial Vec, 0), (Mlock (PageAt 0) whole, 0),
      (Mlock (PageAt 0) partial, 0), (Munlock (PageAt 0) whole, 0), (Munlock (PageAt 0) partial, 0),
      (Mlockall MCL_CURRENT, 0), (Mlockall MCL_FUTURE, 0), (Mlockall MCL_BOTH, 0), (Munlockall, 0), (Getpid, 2), (Getppid, 1)]"

lemma all_of_Inr: "all_of rs = Inr () \<longleftrightarrow> list_all (\<lambda>r. r = Inr ()) rs"
proof (induction rs)
  case (Cons r rs)
  then show ?case by (cases r) (simp_all add: all_of_def)
qed (simp add: all_of_def)

text \<open>The run depends on the listed calls and on nothing else, the calls with bad arguments in particular.\<close>

lemma syscalls_run_passes:
  "syscalls_run sys vec other = Inr () \<longleftrightarrow>
     list_all (\<lambda>(c, r). fst (sys c) = r) wanted \<and>
     list_all (\<lambda>n. resident vec (Mincore (PageAt 0) n Vec) = Inr ()) [whole, partial] \<and>
     fst (other Getpid) = 3 \<and> fst (other Getppid) = 1"
  by (auto simp: syscalls_run_def all_of_Inr test_madvise_def test_mincore_def test_mlock_def test_munlock_def
      test_mlockall_def test_munlockall_def test_getpid_def test_getppid_def other_call_def server_test_getpid_def
      server_test_getppid_def returns_def wanted_def errno_works_def rbind_eq_Inr)

end
