(* ===== verification/Reply_Caps.thy ===== *)
theory Reply_Caps
  imports Lock_Protocols
begin

text \<open>
  \<^verbatim>\<open>apps/testreplycapprotection\<close>: a receiver that, before it answers its first call, locks a mutex, waits on a semaphore, wakes
  two other callers of the same endpoint and makes four calls of its own, which all take
  capability slots of its thread. The components and the threads are interleaved. The endpoint hands the receiver any one of the calls that
  wait, and its reply goes to the client whose call it took.
\<close>

section \<open>The components\<close>

datatype call_pc = AwaitPing | Calling | CallBlocked | CallReturned

datatype receiver_pc =
    Receiving | Testing | Locking | SemWaiting | Emitting1 | Emitting2 | Hop nat | Unlocking | Posting | Setting

text \<open>The places of a client in the order of its program.\<close>

definition call_rank :: "call_pc \<Rightarrow> nat" where
  "call_rank p = (case p of AwaitPing \<Rightarrow> 0 | Calling \<Rightarrow> 1 | CallBlocked \<Rightarrow> 2 | CallReturned \<Rightarrow> 3)"

instantiation call_pc :: linorder
begin

definition less_eq_call_pc :: "call_pc \<Rightarrow> call_pc \<Rightarrow> bool" where
  "p \<le> q \<longleftrightarrow> call_rank p \<le> call_rank q"

definition less_call_pc :: "call_pc \<Rightarrow> call_pc \<Rightarrow> bool" where
  "p < q \<longleftrightarrow> call_rank p < call_rank q"

instance
proof intro_classes
  show "x = y" if "x \<le> y" "y \<le> x" for x y :: call_pc
    using that by (cases x; cases y) (simp_all add: less_eq_call_pc_def call_rank_def)
qed (auto simp: less_eq_call_pc_def less_call_pc_def)

end

text \<open>
  Client 0 is the generator, clients 1 and 2 are the two callers. \<open>reply_to\<close> is the client whose call the receiver
  serves, and \<open>pinged\<close> the notifications sent to the callers.
\<close>

record reply_caps =
  call_pcs :: "nat \<Rightarrow> call_pc"
  reply_to :: "nat option"
  receiver :: receiver_pc
  not_first :: bool
  mutex_m :: bool
  sem_s :: nat
  pinged :: "nat \<Rightarrow> bool"

definition generator_run :: "reply_caps \<Rightarrow> reply_caps option" where
  "generator_run s =
     (case call_pcs s 0 of
        Calling \<Rightarrow> Some (s\<lparr>call_pcs := (call_pcs s)(0 := CallBlocked)\<rparr>)
      | _ \<Rightarrow> None)"

definition caller_run :: "nat \<Rightarrow> reply_caps \<Rightarrow> reply_caps option" where
  "caller_run i s =
     (case call_pcs s i of
        AwaitPing \<Rightarrow>
          if pinged s i
          then Some (s\<lparr>pinged := (pinged s)(i := False), call_pcs := (call_pcs s)(i := Calling)\<rparr>)
          else None
      | Calling \<Rightarrow> Some (s\<lparr>call_pcs := (call_pcs s)(i := CallBlocked)\<rparr>)
      | _ \<Rightarrow> None)"

text \<open>The procedures at the end of the hops return at once, the last of them in another component.\<close>

definition b2_switch_to :: "reply_caps \<Rightarrow> reply_caps" where "b2_switch_to s = s"

definition c2_switch_to :: "reply_caps \<Rightarrow> reply_caps" where "c2_switch_to s = s"

definition d2_switch_to :: "reply_caps \<Rightarrow> reply_caps" where "d2_switch_to s = s"

definition e_switch_to :: "reply_caps \<Rightarrow> reply_caps" where "e_switch_to s = s"

definition hop :: "nat \<Rightarrow> reply_caps \<Rightarrow> reply_caps" where
  "hop k = (if k = 0 then b2_switch_to else if k = 1 then c2_switch_to else if k = 2 then d2_switch_to else e_switch_to)"

text \<open>The receiver takes the call of client \<open>i\<close>.\<close>

definition receive_call :: "nat \<Rightarrow> reply_caps \<Rightarrow> reply_caps option" where
  "receive_call i s =
     (if receiver s = Receiving \<and> call_pcs s i = CallBlocked
      then Some (s\<lparr>receiver := Testing, reply_to := Some i\<rparr>) else None)"

text \<open>Its reply, to the client whose call it took.\<close>

definition reply_call :: "reply_caps \<Rightarrow> reply_caps" where
  "reply_call s =
     (case reply_to s of
        None \<Rightarrow> s\<lparr>receiver := Receiving\<rparr>
      | Some i \<Rightarrow> s\<lparr>receiver := Receiving, reply_to := None, call_pcs := (call_pcs s)(i := CallReturned)\<rparr>)"

text \<open>One step of the procedure; \<open>None\<close>: the step has to wait. The loop on \<open>not_first\<close> spins.\<close>

definition a_switch_to :: "reply_caps \<Rightarrow> reply_caps option" where
  "a_switch_to s =
     (case receiver s of
        Receiving \<Rightarrow> None
      | Testing \<Rightarrow> Some (if not_first s then s else s\<lparr>receiver := Locking\<rparr>)
      | Locking \<Rightarrow> if mutex_m s then None else Some (s\<lparr>mutex_m := True, receiver := SemWaiting\<rparr>)
      | SemWaiting \<Rightarrow> if sem_s s = 0 then None else Some (s\<lparr>sem_s := sem_s s - 1, receiver := Emitting1\<rparr>)
      | Emitting1 \<Rightarrow> Some (s\<lparr>pinged := (pinged s)(1 := True), receiver := Emitting2\<rparr>)
      | Emitting2 \<Rightarrow> Some (s\<lparr>pinged := (pinged s)(2 := True), receiver := Hop 0\<rparr>)
      | Hop k \<Rightarrow> Some ((hop k s)\<lparr>receiver := if k < 3 then Hop (k + 1) else Unlocking\<rparr>)
      | Unlocking \<Rightarrow> Some (s\<lparr>mutex_m := False, receiver := Posting\<rparr>)
      | Posting \<Rightarrow> Some (s\<lparr>sem_s := sem_s s + 1, receiver := Setting\<rparr>)
      | Setting \<Rightarrow> Some (reply_call (if not_first s then s else s\<lparr>not_first := True\<rparr>)))"

inductive reply_step :: "reply_caps \<Rightarrow> reply_caps \<Rightarrow> bool" where
  generator: "generator_run s = Some t \<Longrightarrow> reply_step s t"
| caller: "i \<in> {1, 2} \<Longrightarrow> caller_run i s = Some t \<Longrightarrow> reply_step s t"
| receive: "i \<le> 2 \<Longrightarrow> receive_call i s = Some t \<Longrightarrow> reply_step s t"
| serve: "a_switch_to s = Some t \<Longrightarrow> reply_step s t"

text \<open>The semaphore starts at \<open>v\<close>, which the assembly leaves at its default of 1.\<close>

definition reply_start :: "nat \<Rightarrow> reply_caps" where
  "reply_start v =
     \<lparr>call_pcs = (\<lambda>i. if i = 0 then Calling else AwaitPing), reply_to = None, receiver = Receiving, not_first = False,
      mutex_m = False, sem_s = v, pinged = (\<lambda>_. False)\<rparr>"

section \<open>The invariant\<close>

definition holds_mutex :: "receiver_pc \<Rightarrow> bool" where
  "holds_mutex r = (case r of SemWaiting \<Rightarrow> True | Emitting1 \<Rightarrow> True | Emitting2 \<Rightarrow> True | Hop _ \<Rightarrow> True | Unlocking \<Rightarrow> True | _ \<Rightarrow> False)"

definition holds_sem :: "receiver_pc \<Rightarrow> bool" where
  "holds_sem r = (case r of Emitting1 \<Rightarrow> True | Emitting2 \<Rightarrow> True | Hop _ \<Rightarrow> True | Unlocking \<Rightarrow> True | Posting \<Rightarrow> True | _ \<Rightarrow> False)"

text \<open>
  Before the first call is served the callers still wait for their event, so the first call is the generator's; after it
  the receiver answers nobody.
\<close>

definition reply_inv :: "nat \<Rightarrow> reply_caps \<Rightarrow> bool" where
  "reply_inv v s \<longleftrightarrow>
     call_pcs s 1 \<noteq> CallReturned \<and> call_pcs s 2 \<noteq> CallReturned \<and>
     mutex_m s = holds_mutex (receiver s) \<and> sem_s s = (if holds_sem (receiver s) then v else Suc v) \<and>
     (if not_first s
      then call_pcs s 0 = CallReturned \<and>
        (receiver s = Receiving \<or> receiver s = Testing \<and> (reply_to s = Some 1 \<or> reply_to s = Some 2))
      else if receiver s = Receiving
      then (call_pcs s 0 = Calling \<or> call_pcs s 0 = CallBlocked) \<and>
        call_pcs s 1 = AwaitPing \<and> call_pcs s 2 = AwaitPing \<and> \<not> pinged s 1 \<and> \<not> pinged s 2
      else call_pcs s 0 = CallBlocked \<and> reply_to s = Some 0)"

lemmas holds_defs = holds_mutex_def holds_sem_def

lemma hop_id [simp]: "hop k s = s"
  by (simp add: hop_def b2_switch_to_def c2_switch_to_def d2_switch_to_def e_switch_to_def)

lemma reply_inv_generator: "reply_inv v s \<Longrightarrow> generator_run s = Some t \<Longrightarrow> reply_inv v t"
  by (auto simp: reply_inv_def generator_run_def split: call_pc.splits if_splits)

lemma reply_inv_caller:
  assumes "reply_inv v s" "i \<in> {1, 2}" "caller_run i s = Some t"
  shows "reply_inv v t"
proof -
  have i: "i = 1 \<or> i = 2" using assms(2) by simp
  obtain c p where t: "t = s\<lparr>pinged := p, call_pcs := (call_pcs s)(i := c)\<rparr>" "c \<noteq> CallReturned"
    and moves: "call_pcs s i \<noteq> AwaitPing \<or> pinged s i"
  proof (cases "call_pcs s i")
    case AwaitPing
    with assms(3) show ?thesis
      by (intro that [of Calling "(pinged s)(i := False)"]) (simp_all add: caller_run_def split: if_splits)
  next
    case Calling
    with assms(3) show ?thesis by (intro that [of CallBlocked "pinged s"]) (simp_all add: caller_run_def)
  qed (use assms(3) in \<open>simp_all add: caller_run_def\<close>)
  show ?thesis
  proof (cases "not_first s")
    case True
    with assms(1) i t show ?thesis by (cases "i = 1") (simp_all add: reply_inv_def)
  next
    case False
    with assms(1) i moves have "receiver s \<noteq> Receiving" by (auto simp: reply_inv_def)
    with False assms(1) i t show ?thesis by (cases "i = 1") (simp_all add: reply_inv_def)
  qed
qed

lemma reply_inv_receive:
  assumes "reply_inv v s" "i \<le> 2" "receive_call i s = Some t"
  shows "reply_inv v t"
proof -
  have r: "receiver s = Receiving" "call_pcs s i = CallBlocked" "t = s\<lparr>receiver := Testing, reply_to := Some i\<rparr>"
    using assms(3) by (auto simp: receive_call_def split: if_splits)
  show ?thesis
  proof (cases "not_first s")
    case True
    with assms(1) have "call_pcs s 0 = CallReturned" by (simp add: reply_inv_def)
    with r(2) have "i \<noteq> 0" by (cases "i = 0") simp_all
    with assms(2) have "i = 1 \<or> i = 2" by linarith
    with True assms(1) r show ?thesis by (simp add: reply_inv_def holds_defs)
  next
    case False
    with assms(1) r(1) have "call_pcs s 1 = AwaitPing" "call_pcs s 2 = AwaitPing" by (simp_all add: reply_inv_def)
    with r(2) have "i \<noteq> 1" "i \<noteq> 2" by auto
    with assms(2) have "i = 0" by linarith
    with False assms(1) r show ?thesis by (simp add: reply_inv_def holds_defs)
  qed
qed

lemma reply_inv_serve:
  assumes "reply_inv v s" "a_switch_to s = Some t"
  shows "reply_inv v t"
proof (cases "not_first s")
  case True
  with assms have "t = s"
    by (cases "receiver s") (simp_all add: reply_inv_def a_switch_to_def)
  with assms(1) show ?thesis by simp
next
  case False
  have "receiver s \<noteq> Receiving" using assms(2) by (auto simp: a_switch_to_def)
  with False assms(1) have s: "call_pcs s 1 \<noteq> CallReturned" "call_pcs s 2 \<noteq> CallReturned"
      "call_pcs s 0 = CallBlocked" "reply_to s = Some 0"
      "mutex_m s = holds_mutex (receiver s)" "sem_s s = (if holds_sem (receiver s) then v else Suc v)"
    by (simp_all add: reply_inv_def)
  show ?thesis
  proof (cases "receiver s")
    case (Hop k)
    with assms(2) False s show ?thesis
      by (cases "k < 3") (auto simp: a_switch_to_def holds_defs reply_inv_def)
  next
    case Setting
    with assms(2) False s show ?thesis by (auto simp: a_switch_to_def reply_call_def holds_defs reply_inv_def)
  qed (use assms(2) False s in \<open>simp add: a_switch_to_def holds_defs\<close>,
    (hypsubst, simp add: reply_inv_def holds_defs)?)+
qed

lemma reply_inv_step: "reply_inv v s \<Longrightarrow> reply_step s t \<Longrightarrow> reply_inv v t"
  by (erule reply_step.cases)
    (blast intro: reply_inv_generator reply_inv_caller reply_inv_receive reply_inv_serve)+

text \<open>A client only moves on, so a call that has returned stays returned.\<close>

lemma call_rank_moves: "p = Calling \<Longrightarrow> p \<le> CallBlocked" "p = AwaitPing \<Longrightarrow> p \<le> Calling" "p \<le> CallReturned"
  by (cases p; simp add: less_eq_call_pc_def call_rank_def)+

lemma reply_step_advances:
  assumes "reply_step s t"
  shows "call_pcs s i \<le> call_pcs t i"
  using assms
proof cases
  case generator
  then show ?thesis by (auto simp: generator_run_def intro: call_rank_moves split: call_pc.splits)
next
  case (caller j)
  then show ?thesis by (auto simp: caller_run_def intro: call_rank_moves split: call_pc.splits if_splits)
next
  case (receive j)
  then have "call_pcs t = call_pcs s" by (auto simp: receive_call_def split: if_splits)
  then show ?thesis by simp
next
  case serve
  show ?thesis
  proof (cases "receiver s = Setting")
    case True
    with serve show ?thesis
      by (auto simp: a_switch_to_def reply_call_def intro: call_rank_moves split: option.splits if_splits)
  next
    case False
    with serve have "call_pcs t = call_pcs s"
      by (cases "receiver s") (auto simp: a_switch_to_def split: if_splits)
    then show ?thesis by simp
  qed
qed

lemma returned_stays:
  assumes "reply_step\<^sup>*\<^sup>* s t" "call_pcs s i = CallReturned"
  shows "call_pcs t i = CallReturned"
proof -
  have "call_pcs s i \<le> call_pcs t i"
    using assms(1) by (induction rule: rtranclp_induct) (auto intro: order_trans reply_step_advances)
  with assms(2) call_rank_moves(3) [of "call_pcs t i"] show ?thesis by (simp add: order_antisym)
qed

section \<open>The answer to the first call\<close>

definition receiver_rank :: "receiver_pc \<Rightarrow> nat" where
  "receiver_rank r =
     (case r of Receiving \<Rightarrow> 20 | Testing \<Rightarrow> 19 | Locking \<Rightarrow> 18 | SemWaiting \<Rightarrow> 17 | Emitting1 \<Rightarrow> 16 | Emitting2 \<Rightarrow> 15 |
        Hop k \<Rightarrow> 14 - min k 3 | Unlocking \<Rightarrow> 10 | Posting \<Rightarrow> 9 | Setting \<Rightarrow> 8)"

definition reply_remaining :: "reply_caps \<Rightarrow> nat" where
  "reply_remaining s =
     (if call_pcs s 0 = CallReturned then 0
      else receiver_rank (receiver s) + (if call_pcs s 0 = Calling then 1 else 0))"

lemma reply_progress:
  assumes "reply_inv v s" "call_pcs s 0 \<noteq> CallReturned"
  shows "\<exists>t. reply_step s t \<and> reply_remaining t < reply_remaining s"
proof (cases "receiver s = Receiving")
  case True
  show ?thesis
  proof (cases "call_pcs s 0 = Calling")
    case calling: True
    then have "\<exists>t. generator_run s = Some t \<and> reply_remaining t < reply_remaining s"
      by (simp add: generator_run_def reply_remaining_def)
    then show ?thesis by (blast intro: reply_step.generator)
  next
    case False
    with assms True have "\<exists>t. receive_call 0 s = Some t \<and> reply_remaining t < reply_remaining s"
      by (auto simp: reply_inv_def receive_call_def reply_remaining_def receiver_rank_def split: if_splits)
    then show ?thesis by (blast intro: reply_step.receive)
  qed
next
  case False
  with assms have at0: "call_pcs s 0 = CallBlocked" "reply_to s = Some 0" "\<not> not_first s"
      "mutex_m s = holds_mutex (receiver s)" "sem_s s = (if holds_sem (receiver s) then v else Suc v)"
    by (auto simp: reply_inv_def split: if_splits)
  with False have "\<exists>t. a_switch_to s = Some t \<and> reply_remaining t < reply_remaining s"
    by (cases "receiver s")
      (auto simp: a_switch_to_def reply_call_def reply_remaining_def receiver_rank_def holds_defs)
  then show ?thesis by (blast intro: reply_step.serve)
qed

lemma reply_inv_start: "reply_inv v (reply_start (Suc v))"
  by (simp add: reply_inv_def reply_start_def holds_defs)

interpretation reply_cap: finishing_protocol reply_step "reply_start (Suc v)" "reply_inv v"
    "\<lambda>s. if mutex_m s then Some 0 else None" "\<lambda>i s. i = 0 \<and> holds_mutex (receiver s)"
    "\<lambda>s. call_pcs s 0 = CallReturned" reply_remaining for v
proof unfold_locales
  show "reply_inv v (reply_start (Suc v))" by (rule reply_inv_start)
  show "reply_inv v t" if "reply_inv v s" "reply_step s t" for s t by (rule reply_inv_step [OF that])
  show "(if mutex_m s then Some 0 else None) = Some i"
    if "reply_inv v s" "i = 0 \<and> holds_mutex (receiver s)" for i s
    using that by (simp add: reply_inv_def)
  show "\<exists>t. reply_step s t \<and> reply_remaining t < reply_remaining s"
    if "reply_inv v s" "call_pcs s 0 \<noteq> CallReturned" for s by (rule reply_progress [OF that])
qed



end
