(* ===== verification/Pipelines.thy ===== *)
theory Pipelines
  imports String_Services Component_Heap
begin

text \<open>
  Components in a row: the assemblies of \<^verbatim>\<open>apps/hierarchical-components\<close> and \<^verbatim>\<open>apps/multiassembly\<close>, made of the string
  processors of \<open>String_Services\<close>, and the messages that pass the CakeML filter of \<^verbatim>\<open>apps/cakeml_regex\<close>. Each
  component gives the next one a string by a call that returns when the rest of the row has handled it, so a row
  is the composition of its components. What is printed is the result.
\<close>

section \<open>The hierarchical pipeline\<close>

definition server_process :: "bytes \<Rightarrow> bytes" where
  "server_process str = str @ [10]"

definition multi_server_process :: "bytes \<Rightarrow> bytes" where
  "multi_server_process str = str @ [10]"

definition extra_process :: "bytes \<Rightarrow> bytes" where
  "extra_process str = str @ lit ''world!'' @ [10]"

definition world :: bytes where "world = lit ''world''"

text \<open>The compound components of the assembly: \<open>SubPipeline\<close> and \<open>Pipeline\<close>.\<close>

definition sub_pipeline :: "bytes \<Rightarrow> bytes result" where
  "sub_pipeline str = reverse_process (uppercase_process str)"

definition pipeline :: "bytes \<Rightarrow> bytes result" where
  "pipeline str = sub_pipeline (append_process world str)"

text \<open>The client calls the first of two pipelines, whose result the server prints, and then the extra interface.\<close>

definition hierarchical_client :: "(bytes \<Rightarrow> bytes result) \<Rightarrow> (bytes \<Rightarrow> bytes) \<Rightarrow> bytes result" where
  "hierarchical_client o1 o2 = rbind (o1 (lit ''hello '')) (\<lambda>a. Inr (a @ o2 (lit ''hello '')))"

definition hierarchical_run :: "bytes result" where
  "hierarchical_run =
     hierarchical_client (\<lambda>str. rbind (pipeline str) (\<lambda>a. rbind (pipeline a) (\<lambda>b. Inr (server_process b)))) extra_process"

definition multi_client :: "(bytes \<Rightarrow> bytes result) \<Rightarrow> bytes result" where
  "multi_client out = out (lit ''hello '')"

definition multi_run :: "bytes result" where
  "multi_run =
     multi_client (\<lambda>str. rbind (multi_reverse_process (multi_uppercase_process (multi_append_process world str)))
       (\<lambda>a. Inr (multi_server_process a)))"

section \<open>What the pipeline makes of a string\<close>

text \<open>The two characters in the middle of a string of even length stay where they are.\<close>

definition mirrored :: "'a list \<Rightarrow> nat \<Rightarrow> 'a" where
  "mirrored t i =
     (if even (length t) \<and> (i = length t div 2 - 1 \<or> i = length t div 2) then t ! i else rev t ! i)"

lemma middle_split:
  assumes "even (length t)" "t \<noteq> []"
  shows "\<exists>u a b v. t = u @ [a, b] @ v \<and> length u = length v"
proof -
  obtain n where n: "length t = 2 * n" using assms(1) by (auto elim!: evenE)
  with assms(2) have "0 < n" by (cases n) simp_all
  note n = n this
  let ?u = "take (n - 1) t" and ?r = "drop (n - 1) t"
  have "2 \<le> length ?r" using n by simp
  then obtain a b v where r: "?r = a # b # v" by (metis Suc_le_length_iff numeral_2_eq_2)
  then have "t = ?u @ [a, b] @ v" by (metis append_Cons append_Nil append_take_drop_id)
  moreover have "length v = length t - (n - 1) - 2" using r by (metis Suc_1 diff_Suc_1 diff_diff_left length_drop list.size(4) One_nat_def add_Suc_right plus_1_eq_Suc add.right_neutral)
  ultimately show ?thesis using n by (intro exI [of _ ?u] exI [of _ a] exI [of _ b] exI [of _ v]) simp
qed

lemma reverse_process_mirrors:
  "\<exists>r. reverse_process t = Inr r \<and> multi_reverse_process t = Inr r \<and> length r = length t \<and>
     (\<forall>i < length t. r ! i = mirrored t i)"
proof (cases "even (length t) \<and> t \<noteq> []")
  case True
  then obtain u a b v where t: "t = u @ [a, b] @ v" "length u = length v" using middle_split by blast
  have half: "length t div 2 = Suc (length v)" using t by simp
  have "(rev v @ [a, b] @ rev u) ! i = mirrored t i" if "i < length t" for i
  proof -
    consider "i < length v" | "i = length v" | "i = Suc (length v)" | "Suc (length v) < i" by linarith
    then show ?thesis
      using True half that t by cases (simp_all add: mirrored_def nth_append nth_Cons' )
  qed
  with reverse_process_even [OF t(2), of a b] t show ?thesis by simp
next
  case False
  then have "reverse_process t = Inr (rev t)"
    by (cases "t = []") (simp add: reverse_process_def, simp add: reverse_process_odd)
  moreover have "multi_reverse_process t = reverse_process t"
    by (simp add: reverse_process_def multi_reverse_process_def)
  ultimately show ?thesis using False by (auto simp: mirrored_def)
qed

definition capital :: "u8 \<Rightarrow> u8" where
  "capital c = (if c \<in> {97..122} then c - 32 else c)"

lemma upper_char_capital: "upper_char = capital"
  by (rule ext) (simp add: upper_char_def capital_def TO_UPPER_DIST_def)

lemma pipeline_mirrors:
  assumes "length s \<le> 122"
  shows "\<exists>r. pipeline s = Inr r \<and> length r = length s + 5 \<and>
    (\<forall>i < length s + 5. r ! i = mirrored (map capital (s @ world)) i)"
  using reverse_process_mirrors [of "map capital (s @ world)"] assms
  by (auto simp: pipeline_def sub_pipeline_def uppercase_process_def append_process_def APPEND_BUF_SIZE_def world_def
      upper_char_capital)

lemma shown_strings:
  "pipeline (lit ''hello '') = Inr (lit ''DLROW OLLEH'')"
  "pipeline (lit ''DLROW OLLEH'') = Inr (lit ''DLROWHELLO WORLD'')"
  "multi_run = Inr (lit ''DLROW OLLEH'' @ [10])"
  by code_simp+



section \<open>Messages through a filter\<close>

text \<open>
  \<^verbatim>\<open>apps/cakeml_regex\<close>: the producer sends eight messages again and again. The filter is a CakeML program and therefore
  an argument, a function that may hand its message to \<open>ffiemit_string\<close>; the array for an answer is not used.
\<close>

definition client_transfer_string :: "bytes \<Rightarrow> bytes" where
  "client_transfer_string s = s"

definition ffiemit_string :: "bytes \<Rightarrow> bytes \<Rightarrow> bytes" where
  "ffiemit_string c a = client_transfer_string c"

definition producer_messages :: "bytes list" where
  "producer_messages = map (\<lambda>s. lit s @ [10])
     [''This will get through 1'', ''Won'' @ CHR 0x27 # ''t get through 1'', ''Won'' @ CHR 0x27 # ''t get through 2'',
      ''This will get through 2'', ''This will get through 3'', ''Also won'' @ CHR 0x27 # ''t get through'',
      ''Malformed message'', ''Yeeeha'']"

text \<open>\<open>n\<close> rounds of the endless loop: what the consumer prints.\<close>

fun producer_run :: "nat \<Rightarrow> (bytes \<Rightarrow> bytes) \<Rightarrow> bytes" where
  "producer_run 0 server_transfer = []"
| "producer_run (Suc n) server_transfer =
     concat (map server_transfer producer_messages) @ producer_run n server_transfer"

lemma filter_passes:
  "producer_run n (\<lambda>m. if accept m then ffiemit_string m a else []) =
     concat (concat (replicate n (filter accept producer_messages)))"
proof (induction n)
  case (Suc n)
  have "concat (map (\<lambda>m. if accept m then ffiemit_string m a else []) ms) = concat (filter accept ms)" for ms
    by (induction ms) (simp_all add: ffiemit_string_def client_transfer_string_def)
  with Suc show ?case by simp
qed simp

end
