(* ===== verification/Call_Tests.thy ===== *)
theory Call_Tests
  imports Rpc_Services Event_Examples Device_Drivers
begin

text \<open>
  Applications in which several components call or signal one: \<^verbatim>\<open>testnto1overload\<close>, where a server tells its callers apart,
  \<^verbatim>\<open>testgroupingcontrol\<close>, \<^verbatim>\<open>testcamkes438\<close>, \<^verbatim>\<open>global-imports\<close>, the clients of \<^verbatim>\<open>multiclient\<close>, and the emitters,
  collectors and clients of \<^verbatim>\<open>event\<close>, \<^verbatim>\<open>event-driven\<close>, \<^verbatim>\<open>binary-semaphore\<close> and \<^verbatim>\<open>keyboard\<close>. A call is atomic for the
  server, which serves one at a time.
\<close>

section \<open>Telling callers apart\<close>

text \<open>The static variables of the server's procedure; what it prints is the first result.\<close>

record overload_server =
  badge :: u64
  seen_first :: bool

definition f_foo :: "u64 \<Rightarrow> overload_server \<Rightarrow> (string list \<times> overload_server) result" where
  "f_foo sender_id s =
     (if \<not> seen_first s then Inr ([], s\<lparr>badge := sender_id, seen_first := True\<rparr>)
      else let new_badge = sender_id in
        rbind (c_assert (new_badge \<noteq> badge s)) (\<lambda>_.
        Inr (if new_badge \<noteq> badge s then [''All OK''] else [], s)))"

fun foo_calls :: "u64 list \<Rightarrow> overload_server \<Rightarrow> (string list \<times> overload_server) result" where
  "foo_calls [] s = Inr ([], s)"
| "foo_calls (i # ids) s =
     rbind (f_foo i s) (\<lambda>(out, s1). rbind (foo_calls ids s1) (\<lambda>(outs, s2). Inr (out @ outs, s2)))"

text \<open>The client calls through its two interfaces, which have an identity each.\<close>

definition overload_client :: "u64 \<Rightarrow> u64 \<Rightarrow> overload_server \<Rightarrow> (string list \<times> overload_server) result" where
  "overload_client f g = foo_calls [f, g]"

lemma foo_calls_rest:
  "seen_first s \<Longrightarrow> foo_calls ids s =
     (if badge s \<in> set ids then Inl AssertionFailed else Inr (map (\<lambda>_. ''All OK'') ids, s))"
  by (induction ids) (auto simp: f_foo_def c_assert_def)

lemma foo_calls_distinguish:
  "\<not> seen_first s \<Longrightarrow> foo_calls (i # ids) s =
     (if i \<in> set ids then Inl AssertionFailed
      else Inr (map (\<lambda>_. ''All OK'') ids, s\<lparr>badge := i, seen_first := True\<rparr>))"
  by (simp add: f_foo_def foo_calls_rest)

section \<open>Counting calls\<close>

definition p_ping :: "u32 \<Rightarrow> string list \<times> u32" where
  "p_ping ping_count =
     (let ping_count = ping_count + 1 in
      (if ping_count = 2 then [''All OK''] else if ping_count > 2 then [''FAIL''] else [], ping_count))"

text \<open>Each component of the group calls once.\<close>

definition ping_foo_run :: "u32 \<Rightarrow> string list \<times> u32" where
  "ping_foo_run ping_count = p_ping ping_count"

fun ping_group :: "nat \<Rightarrow> u32 \<Rightarrow> string list \<times> u32" where
  "ping_group 0 c = ([], c)"
| "ping_group (Suc n) c = (let (a, c1) = ping_group n c; (b, c2) = ping_foo_run c1 in (a @ b, c2))"

lemma ping_group_reports:
  "n < 2 ^ 32 \<Longrightarrow> ping_group n 0 =
     ((if n < 2 then [] else ''All OK'' # replicate (n - 2) ''FAIL''), of_nat n)"
proof (induction n)
  case (Suc n)
  define k :: u32 where "k = of_nat n + 1"
  have "unat (of_nat (Suc n) :: u32) = Suc n" using Suc.prems by (simp add: unat_of_nat del: of_nat_Suc)
  then have k: "unat k = Suc n" by (simp add: k_def add.commute)
  have cmp: "(k = 2) = (n = 1)" "(2 < k) = (1 < n)"
    using k by (auto simp: word_unat_eq_iff word_less_nat_alt)
  have "p_ping (of_nat n) = (if n = 1 then [''All OK''] else if 1 < n then [''FAIL''] else [], k)"
    unfolding p_ping_def k_def [symmetric] Let_def cmp ..
  then have "ping_group (Suc n) 0 =
      ((if n < 2 then [] else ''All OK'' # replicate (n - 2) ''FAIL'') @
       (if n = 1 then [''All OK''] else if 1 < n then [''FAIL''] else []), k)"
    using Suc by (simp add: ping_foo_run_def)
  moreover have "replicate (n - 2) ''FAIL'' @ [''FAIL''] = replicate (Suc n - 2) ''FAIL''" if "1 < n"
  proof -
    have "Suc n - 2 = Suc (n - 2)" using that by simp
    then show ?thesis by (simp only: replicate_Suc replicate_append_same)
  qed
  ultimately show ?case by (auto simp: k_def add.commute)
qed simp

text \<open>Two components: the test reports success once.\<close>

lemma ping_group_passes: "fst (ping_group 2 0) = [''All OK'']"
  by (simp add: ping_group_reports)

section \<open>A call that comes back\<close>

text \<open>
  \<^verbatim>\<open>testcamkes438\<close>: the answer passes through the component that made the call. \<open>foo_echo\<close> and \<open>bar_echo\<close> are the procedures
  \<open>incoming_echo\<close> of the two components.
\<close>

definition foo_echo :: "u32 \<Rightarrow> u32" where "foo_echo x = x"

definition bar_echo :: "(u32 \<Rightarrow> u32) \<Rightarrow> u32 \<Rightarrow> u32" where "bar_echo outgoing_echo x = outgoing_echo x"

definition foo_main :: "(u32 \<Rightarrow> u32) \<Rightarrow> unit result" where
  "foo_main outgoing_echo = (let y = outgoing_echo 42 in c_assert (y = 42))"

lemma foo_main_passes: "foo_main (bar_echo foo_echo) = Inr ()"
  by (simp add: foo_main_def bar_echo_def foo_echo_def Let_def)

section \<open>A counter shared by a server and its client\<close>

text \<open>
  \<^verbatim>\<open>global-imports\<close>: the server counts its calls in the data port. Of the vector's numbers, of type \<^verbatim>\<open>double\<close>, only their being
  passed on matters: the two constants 4.0 and 2.0 are arguments. The sum of two \<^verbatim>\<open>int\<close>s is undefined when it does not fit.
\<close>

record shared_int_t = shared_value :: u32

record 'd vec_t =
  vec_x :: 'd
  vec_y :: 'd

datatype 'd print_item = PrintString string | PrintVec 'd 'd | PrintInt u32

definition getter_init :: "shared_int_t \<Rightarrow> shared_int_t" where
  "getter_init c = c\<lparr>shared_value := 0\<rparr>"

definition counter_up :: "shared_int_t \<Rightarrow> shared_int_t result" where
  "counter_up c =
     (if sint (shared_value c) = 2147483647 then Inl Aborted
      else Inr (c\<lparr>shared_value := shared_value c + 1\<rparr>))"

definition getter_get_string :: "shared_int_t \<Rightarrow> (string \<times> shared_int_t) result" where
  "getter_get_string c = rbind (counter_up c) (\<lambda>c. Inr (''Hello, World!'' @ [CHR 0x0A], c))"

definition getter_get_vec :: "'d \<Rightarrow> 'd \<Rightarrow> shared_int_t \<Rightarrow> ('d vec_t \<times> shared_int_t) result" where
  "getter_get_vec four two c = rbind (counter_up c) (\<lambda>c. Inr (\<lparr>vec_x = four, vec_y = two\<rparr>, c))"

definition printer_print_string :: "string \<Rightarrow> 'd print_item" where
  "printer_print_string str = PrintString str"

definition printer_print_vec :: "'d vec_t \<Rightarrow> 'd print_item" where
  "printer_print_vec v = PrintVec (vec_x v) (vec_y v)"

definition globals_client :: "'d \<Rightarrow> 'd \<Rightarrow> shared_int_t \<Rightarrow> ('d print_item list \<times> shared_int_t) result" where
  "globals_client four two c =
     rbind (getter_get_string c) (\<lambda>(str, c1).
     rbind (getter_get_vec four two c1) (\<lambda>(v, c2).
     Inr ([printer_print_string str, printer_print_vec v, PrintInt (shared_value c2)], c2)))"

lemma globals_client_counts:
  "globals_client four two (getter_init c) =
     Inr ([PrintString (''Hello, World!'' @ [CHR 0x0A]), PrintVec four two, PrintInt 2], c\<lparr>shared_value := 2\<rparr>)"
  by (simp add: globals_client_def getter_get_string_def getter_get_vec_def counter_up_def getter_init_def
      printer_print_string_def printer_print_vec_def)

section \<open>Clients of one echo server\<close>

text \<open>
  \<^verbatim>\<open>multiclient\<close>: \<open>n\<close> components register a callback, ask the server for its number, and print the number and the string in the
  data port. A call of the server is one step. Its event reaches every component, and the callback registers itself again.
\<close>

datatype multi_pc = MultiStart | MultiCall | MultiGot u32 | MultiPort u32 | MultiDone u32 string

record multi_system =
  mc_echo :: echo_service
  mc_pcs :: "nat \<Rightarrow> multi_pc"
  mc_registered :: "nat \<Rightarrow> bool"
  mc_pending :: "nat \<Rightarrow> bool"
  mc_events :: "nat \<Rightarrow> nat"

definition multi_client_run :: "nat \<Rightarrow> multi_system \<Rightarrow> multi_system option" where
  "multi_client_run i s =
     (case mc_pcs s i of
        MultiStart \<Rightarrow>
          Some (s\<lparr>mc_registered := (mc_registered s)(i := True), mc_pcs := (mc_pcs s)(i := MultiCall)\<rparr>)
      | MultiCall \<Rightarrow>
          (case s_echo_int (mc_echo s) of (j, e) \<Rightarrow>
             Some (s\<lparr>mc_echo := e, mc_pending := (\<lambda>_. True), mc_pcs := (mc_pcs s)(i := MultiGot j)\<rparr>))
      | MultiGot j \<Rightarrow> Some (s\<lparr>mc_pcs := (mc_pcs s)(i := MultiPort j)\<rparr>)
      | MultiPort j \<Rightarrow> Some (s\<lparr>mc_pcs := (mc_pcs s)(i := MultiDone j (echo_port (mc_echo s)))\<rparr>)
      | MultiDone j str \<Rightarrow> None)"

text \<open>The component \<^verbatim>\<open>Sender\<close> has the code of a client.\<close>

definition multi_sender_run :: "nat \<Rightarrow> multi_system \<Rightarrow> multi_system option" where
  "multi_sender_run = multi_client_run"

definition event_reg_callback :: "nat \<Rightarrow> multi_system \<Rightarrow> multi_system option" where
  "event_reg_callback i s =
     (if mc_registered s i \<and> mc_pending s i
      then Some (s\<lparr>mc_registered := (mc_registered s)(i := True), mc_pending := (mc_pending s)(i := False),
                   mc_events := (mc_events s)(i := mc_events s i + 1)\<rparr>)
      else None)"

text \<open>Component 0 is the sender.\<close>

inductive multi_step :: "nat \<Rightarrow> multi_system \<Rightarrow> multi_system \<Rightarrow> bool" for n where
  Sender: "multi_sender_run 0 s = Some t \<Longrightarrow> 0 < n \<Longrightarrow> multi_step n s t"
| Client: "0 < i \<Longrightarrow> i < n \<Longrightarrow> multi_client_run i s = Some t \<Longrightarrow> multi_step n s t"
| Event: "i < n \<Longrightarrow> event_reg_callback i s = Some t \<Longrightarrow> multi_step n s t"

definition multi_start :: "string \<Rightarrow> multi_system" where
  "multi_start port =
     \<lparr>mc_echo = \<lparr>echo_count = 0, echo_port = port, echo_emits = 0\<rparr>, mc_pcs = (\<lambda>_. MultiStart),
      mc_registered = (\<lambda>_. False), mc_pending = (\<lambda>_. False), mc_events = (\<lambda>_. 0)\<rparr>"

fun number_of :: "multi_pc \<Rightarrow> u32 option" where
  "number_of MultiStart = None"
| "number_of MultiCall = None"
| "number_of (MultiGot j) = Some j"
| "number_of (MultiPort j) = Some j"
| "number_of (MultiDone j str) = Some j"

definition numbered :: "nat \<Rightarrow> multi_system \<Rightarrow> nat set" where
  "numbered n s = {i. i < n \<and> number_of (mc_pcs s i) \<noteq> None}"

definition port_text :: string where "port_text = ''This string is in the dataport.''"

definition own_numbers :: "nat \<Rightarrow> multi_system \<Rightarrow> bool" where
  "own_numbers n s \<longleftrightarrow>
     (\<forall>i < n. \<forall>k < n. \<forall>j. number_of (mc_pcs s i) = Some j \<longrightarrow> number_of (mc_pcs s k) = Some j \<longrightarrow> i = k)"

text \<open>The numbers given out are those below the count, one for each component that has called.\<close>

definition multi_inv :: "nat \<Rightarrow> multi_system \<Rightarrow> bool" where
  "multi_inv n s \<longleftrightarrow>
     echo_count (mc_echo s) = of_nat (card (numbered n s)) \<and>
     (\<forall>i < n. \<forall>j. number_of (mc_pcs s i) = Some j \<longrightarrow> unat j < card (numbered n s)) \<and>
     own_numbers n s \<and>
     (numbered n s \<noteq> {} \<longrightarrow> echo_port (mc_echo s) = port_text) \<and>
     (\<forall>i < n. \<forall>j str. mc_pcs s i = MultiDone j str \<longrightarrow> str = port_text)"

lemma multi_inv_same:
  assumes "multi_inv n s" "\<And>k. number_of (mc_pcs t k) = number_of (mc_pcs s k)" "mc_echo t = mc_echo s"
    and "\<And>k j str. k < n \<Longrightarrow> mc_pcs t k = MultiDone j str \<Longrightarrow> str = port_text"
  shows "multi_inv n t"
proof -
  have "numbered n t = numbered n s" "own_numbers n t = own_numbers n s"
    by (simp_all add: numbered_def own_numbers_def assms(2))
  with assms show ?thesis by (simp add: multi_inv_def)
qed

lemma numbered_card: "card (numbered n s) \<le> n"
  using card_mono [of "{..<n}" "numbered n s"] by (auto simp: numbered_def)

lemma multi_inv_call:
  assumes "multi_inv n s" "i < n" "mc_pcs s i = MultiCall" "n < 2 ^ 32" "multi_client_run i s = Some t"
  shows "multi_inv n t"
proof -
  let ?c = "card (numbered n s)"
  let ?j = "echo_count (mc_echo s)"
  have "i \<notin> numbered n s" using assms(3) by (simp add: numbered_def)
  moreover have fin: "finite (numbered n s)" by (simp add: numbered_def)
  ultimately have "card (insert i (numbered n s)) = Suc ?c" by simp
  moreover have t: "t = s\<lparr>mc_echo := snd (s_echo_int (mc_echo s)), mc_pending := (\<lambda>_. True),
      mc_pcs := (mc_pcs s)(i := MultiGot ?j)\<rparr>"
    using assms(3,5) by (simp add: multi_client_run_def s_echo_int_def)
  moreover have "numbered n t = insert i (numbered n s)"
    using assms(2) by (auto simp: t numbered_def)
  ultimately have card: "card (numbered n t) = Suc ?c" by simp
  have "?j = of_nat ?c" using assms(1) by (simp add: multi_inv_def)
  moreover have "?c < 2 ^ 32" using numbered_card [of n s] assms(4) by simp
  ultimately have j: "unat ?j = ?c" by (simp add: unat_of_nat)
  have others: "number_of (mc_pcs s k) \<noteq> Some ?j" if "k < n" for k
    using assms(1) that j by (auto simp: multi_inv_def)
  show ?thesis
    unfolding multi_inv_def card
  proof (intro conjI allI impI)
    show "echo_count (mc_echo t) = of_nat (Suc ?c)"
      using assms(1) by (simp add: t s_echo_int_def multi_inv_def add.commute)
    show "unat j < Suc ?c" if "k < n" "number_of (mc_pcs t k) = Some j" for k j
      using that assms(1) j by (auto simp: t multi_inv_def less_Suc_eq split: if_splits)
    have own: "own_numbers n s" using assms(1) by (simp add: multi_inv_def)
    show "own_numbers n t"
      unfolding own_numbers_def
    proof (intro allI impI)
      fix k l x
      assume "k < n" "l < n" "number_of (mc_pcs t k) = Some x" "number_of (mc_pcs t l) = Some x"
      with own others show "k = l"
        by (cases "k = i"; cases "l = i") (force simp: t, force simp: t, force simp: t, simp add: t own_numbers_def)
    qed
    show "echo_port (mc_echo t) = port_text" by (simp add: t s_echo_int_def port_text_def)
    show "str = port_text" if "k < n" "mc_pcs t k = MultiDone j str" for k j str
      using that assms(1) by (auto simp: t multi_inv_def split: if_splits)
  qed
qed

lemma multi_inv_client:
  assumes "multi_inv n s" "i < n" "n < 2 ^ 32" "multi_client_run i s = Some t"
  shows "multi_inv n t"
proof (cases "mc_pcs s i = MultiCall")
  case True
  with assms show ?thesis by (blast intro: multi_inv_call)
next
  case False
  have "number_of (mc_pcs s i) \<noteq> None \<Longrightarrow> echo_port (mc_echo s) = port_text"
    using assms(1,2) by (auto simp: multi_inv_def numbered_def)
  moreover have "\<And>k j str. k < n \<Longrightarrow> mc_pcs s k = MultiDone j str \<Longrightarrow> str = port_text"
    using assms(1) by (simp add: multi_inv_def)
  ultimately show ?thesis
    using False assms(4) by (intro multi_inv_same [OF assms(1)])
      (cases "mc_pcs s i"; auto simp: multi_client_run_def split: if_splits)+
qed

lemma multi_inv_event:
  assumes "multi_inv n s" "event_reg_callback i s = Some t"
  shows "multi_inv n t"
proof -
  have "mc_pcs t = mc_pcs s" "mc_echo t = mc_echo s"
    using assms(2) by (auto simp: event_reg_callback_def split: if_splits)
  moreover have "\<And>k j str. k < n \<Longrightarrow> mc_pcs s k = MultiDone j str \<Longrightarrow> str = port_text"
    using assms(1) by (simp add: multi_inv_def)
  ultimately show ?thesis by (intro multi_inv_same [OF assms(1)]) simp_all
qed

lemma multi_inv_step:
  assumes "multi_inv n s" "multi_step n s t" "n < 2 ^ 32"
  shows "multi_inv n t"
  using assms(2)
proof cases
  case Sender
  show ?thesis by (rule multi_inv_client [OF assms(1) Sender(2) assms(3) Sender(1) [unfolded multi_sender_run_def]])
next
  case (Client i)
  show ?thesis by (rule multi_inv_client [OF assms(1) Client(2) assms(3) Client(3)])
next
  case (Event i)
  show ?thesis by (rule multi_inv_event [OF assms(1) Event(2)])
qed

lemma multi_inv_start: "multi_inv n (multi_start port)"
  by (simp add: multi_inv_def multi_start_def numbered_def own_numbers_def)



section \<open>Emitters, collectors and clients\<close>

text \<open>
  \<^verbatim>\<open>event\<close>: the emitter gives way 25 times, emits once, and then emits without end, with a message every 10000 rounds; \<open>n\<close> is the number of
  rounds looked at. Its counter is an \<^verbatim>\<open>unsigned long\<close>.
\<close>

datatype emitter_action = Yield | EvEmit | PrintStill

fun emit_rounds :: "nat \<Rightarrow> u64 \<Rightarrow> emitter_action list" where
  "emit_rounds 0 ii = []"
| "emit_rounds (Suc n) ii =
     (let ii = ii + 1 in EvEmit # (if ii mod 10000 = 0 then [PrintStill] else []) @ emit_rounds n ii)"

definition emitter_run :: "nat \<Rightarrow> emitter_action list" where
  "emitter_run n = replicate 25 Yield @ [EvEmit] @ emit_rounds n 0"

definition driven_emitter_run :: "nat \<Rightarrow> emitter_action list" where
  "driven_emitter_run n = replicate n EvEmit"

lemma emit_rounds_messages:
  "m + n < 2 ^ 64 \<Longrightarrow> count_list (emit_rounds n (of_nat m)) PrintStill = (m + n) div 10000 - m div 10000"
proof (induction n arbitrary: m)
  case (Suc n)
  have "unat (of_nat (Suc m) :: u64) = Suc m" using Suc.prems by (simp add: unat_of_nat del: of_nat_Suc)
  then have "((of_nat (Suc m) :: u64) mod 10000 = 0) = (Suc m mod 10000 = 0)"
    by (simp add: word_unat_eq_iff unat_mod del: of_nat_Suc)
  then have "((of_nat m + 1 :: u64) mod 10000 = 0) = (Suc m mod 10000 = 0)" by (simp add: add.commute)
  moreover have "count_list (emit_rounds n (of_nat m + 1)) PrintStill = (Suc m + n) div 10000 - Suc m div 10000"
    using Suc.IH [of "Suc m"] Suc.prems by (simp add: add.commute)
  moreover have "Suc m div 10000 \<le> (Suc m + n) div 10000" by (rule div_le_mono) simp
  ultimately show ?case by (simp add: Let_def div_Suc)
qed simp

lemma emitter_messages:
  "n < 2 ^ 64 \<Longrightarrow> count_list (emitter_run n) PrintStill = n div 10000 \<and> count_list (emitter_run n) Yield = 25"
proof (intro conjI)
  assume "n < 2 ^ 64"
  then show "count_list (emitter_run n) PrintStill = n div 10000"
    using emit_rounds_messages [of 0 n] by (simp add: emitter_run_def)
  have "count_list (emit_rounds n ii) Yield = 0" for ii by (induction n arbitrary: ii) (simp_all add: Let_def)
  moreover have "count_list (replicate k Yield) Yield = k" for k by (induction k) simp_all
  ultimately show "count_list (emitter_run n) Yield = 25" by (simp add: emitter_run_def)
qed

text \<open>
  The collector of \<^verbatim>\<open>event\<close> counts nothing. A notification is one bit, so events that find it set are lost. In the run below the
  emitter emits at a \<open>True\<close>, and at a \<open>False\<close> the collector handles an event if one is pending.
\<close>

record plain_collector =
  ev_registered :: bool
  ev_pending :: bool
  ev_got :: nat

definition plain_callback :: "plain_collector \<Rightarrow> plain_collector" where
  "plain_callback s = s\<lparr>ev_got := ev_got s + 1, ev_registered := True\<rparr>"

definition plain_collector_run :: "plain_collector \<Rightarrow> plain_collector" where
  "plain_collector_run s = s\<lparr>ev_registered := True\<rparr>"

fun collector_trace :: "bool list \<Rightarrow> plain_collector \<Rightarrow> plain_collector" where
  "collector_trace [] s = s"
| "collector_trace (b # bs) s =
     collector_trace bs
       (if b then s\<lparr>ev_pending := True\<rparr>
        else if ev_registered s \<and> ev_pending s
        then plain_callback (s\<lparr>ev_registered := False, ev_pending := False\<rparr>) else s)"

lemma collector_trace_bound:
  "ev_got (collector_trace bs s) + of_bool (ev_pending (collector_trace bs s)) \<le>
   ev_got s + of_bool (ev_pending s) + count_list bs True"
  by (induction bs s rule: collector_trace.induct) (fastforce simp: plain_callback_def)+

lemma collector_trace_alternating:
  "ev_got (collector_trace (concat (replicate n [True, False])) (plain_collector_run s)) = ev_got s + n"
proof -
  have "ev_registered s \<Longrightarrow> ev_got (collector_trace (concat (replicate n [True, False])) s) = ev_got s + n" for s
    by (induction n arbitrary: s) (simp_all add: plain_callback_def)
  from this [of "plain_collector_run s"] show ?thesis by (simp add: plain_collector_run_def)
qed

text \<open>The callback of the keyboard client: the code it prints, and that it is registered again.\<close>

definition keyboard_event_callback :: "(u16 \<Rightarrow> int \<times> u32) \<Rightarrow> int list \<times> bool" where
  "keyboard_event_callback ps_io_port_in = ([kbd_get_scancode ps_io_port_in], True)"

lemma keyboard_event_shows:
  assumes "r KEYBOARD_DATA_PORT = (0, ucast (c :: u8))"
  shows "keyboard_event_callback r = ([int (unat c)], True)"
  using key_event_codes [of r c r c] assms by (simp add: keyboard_event_callback_def key_event_def)

text \<open>What the client of \<^verbatim>\<open>binary-semaphore\<close> prints when its call returns.\<close>

definition TO_ECHO :: u32 where "TO_ECHO = 42"

definition binsem_client_run :: "binsem_server \<Rightarrow> (u32 \<times> u32) option" where
  "binsem_client_run s = (case echo_thread s of EchoDone r \<Rightarrow> Some (TO_ECHO, r) | _ \<Rightarrow> None)"

lemma binsem_client_prints:
  assumes "(binsem_step TO_ECHO)\<^sup>*\<^sup>* (binsem_start g r) s"
  shows "binsem_client_run s = None \<or> binsem_client_run s = Some (42, 42)"
  using echo_returns [OF assms] by (auto simp: binsem_client_run_def TO_ECHO_def split: echo_pc.splits)

end
