(* ===== verification/Device_Clients.thy ===== *)
theory Device_Clients
  imports Device_Drivers Fdt_Dump Component_Heap
begin

text \<open>
  Programs that talk to a device, to a library or to a component in another language: the client of
  \<^verbatim>\<open>apps/timeserver\<close>, the two components that share the UART in \<^verbatim>\<open>apps/testnto1mmio\<close>, the main function of \<^verbatim>\<open>apps/fdtgen\<close>, the
  set-up of the Ethernet card (\<^verbatim>\<open>x86_64_eth_init.c\<close> of the two TCP applications), the function that the filter of
  \<^verbatim>\<open>apps/cakeml_tipc\<close> calls from CakeML, and \<^verbatim>\<open>apps/cakeml_hello\<close>, whose server is the CakeML program
  \<^verbatim>\<open>componentScript.sml\<close>.
\<close>

section \<open>The time server's client\<close>

text \<open>
  The readings of the clock are an argument: the value of the \<open>k\<close>-th call of \<open>timeout_time\<close>. The run is the list of the other
  calls.
\<close>

definition NS_IN_MS :: u64 where "NS_IN_MS = 1000000"

definition TICKS :: nat where "TICKS = 3"

definition WAIT :: u64 where "WAIT = 10 * NS_IN_MS"

datatype timer_call =
    TimeoutPeriodic u64 | TimeoutRelative u64 | TimeoutAbsolute u64 | TimeoutStop | WaitNotification | PrintLine string

definition wait_tick :: "timer_call list" where
  "wait_tick = [WaitNotification, PrintLine ''Tick'']"

definition timeserver_client :: "(nat \<Rightarrow> u64) \<Rightarrow> timer_call list result" where
  "timeserver_client time =
     (let t1 = time 0; t2 = time 1 in
      rbind (c_assert (t2 - t1 \<ge> of_nat TICKS * WAIT)) (\<lambda>_.
      let t3 = time 2; t4 = time 3 in
      rbind (c_assert (t4 - t3 \<ge> WAIT)) (\<lambda>_.
      Inr ([TimeoutPeriodic WAIT] @ concat (replicate TICKS wait_tick) @ [TimeoutRelative WAIT] @ wait_tick @
        [TimeoutAbsolute (t3 + WAIT)] @ wait_tick @ [TimeoutStop, PrintLine ''BOOM!'']))))"

lemma of_nat_diff_u64:
  assumes "m \<le> n" "n < 2 ^ 64"
  shows "unat (of_nat n - of_nat m :: u64) = n - m"
proof -
  have "of_nat n - of_nat m = (of_nat (n - m) :: u64)" using assms(1) by (rule of_nat_diff [symmetric])
  moreover have "n - m < 2 ^ 64" using assms(2) by (rule le_less_trans [OF diff_le_self])
  ultimately show ?thesis by (simp only: unat_of_nat) simp
qed

text \<open>
  What a timer is documented to do: the third tick of the period does not come before thirty milliseconds after the timer was
  started, which was after the first reading, and the absolute timeout not before its time. The clock does not go back.
\<close>

lemma timeserver_client_passes:
  assumes "time 0 = of_nat r1" "time 1 = of_nat r2" "time 2 = of_nat r3" "time 3 = of_nat r4"
    and "r1 \<le> started" "started + 30000000 \<le> r2" "r3 + 10000000 \<le> r4" "r2 < 2 ^ 64" "r4 < 2 ^ 64"
  shows "\<exists>calls. timeserver_client time = Inr calls \<and> count_list calls WaitNotification = 5"
proof -
  have "unat (of_nat r2 - of_nat r1 :: u64) = r2 - r1" "unat (of_nat r4 - of_nat r3 :: u64) = r4 - r3"
    using assms(5-9) by (simp_all add: of_nat_diff_u64)
  then have "(of_nat r2 - of_nat r1 :: u64) \<ge> 30000000" "(of_nat r4 - of_nat r3 :: u64) \<ge> 10000000"
    using assms(5-7) by (simp_all add: word_le_nat_alt)
  then have "of_nat TICKS * WAIT \<le> time 1 - time 0" "WAIT \<le> time 3 - time 2"
    unfolding assms(1-4) by (simp_all add: TICKS_def WAIT_def NS_IN_MS_def)
  moreover have "count_list (concat (replicate TICKS wait_tick)) WaitNotification = 3"
    by (simp add: TICKS_def wait_tick_def numeral_3_eq_3)
  ultimately show ?thesis by (simp add: timeserver_client_def Let_def wait_tick_def)
qed

section \<open>Two drivers of one UART\<close>

text \<open>Component 1 writes its line and then calls component 2, which writes its own.\<close>

definition hello_from :: bytes where "hello_from = lit ''hello from ''"

definition put_hello :: "bool \<Rightarrow> bytes \<Rightarrow> u32 list \<Rightarrow> (u32 list \<times> uart_access list) option" where
  "put_hello char_signed name stats =
     (case uart_put char_signed (hello_from @ [0]) stats of
        None \<Rightarrow> None
      | Some (r1, o1) \<Rightarrow>
          (case uart_put char_signed (name @ [0]) r1 of
             None \<Rightarrow> None
           | Some (r2, o2) \<Rightarrow> map_option (\<lambda>(r3, o3). (r3, o1 @ o2 @ o3)) (uart_put_char char_signed 10 r2)))"

definition h_handoff :: "bool \<Rightarrow> bytes \<Rightarrow> u32 list \<Rightarrow> (u32 list \<times> uart_access list) option" where
  "h_handoff char_signed name stats = put_hello char_signed name stats"

definition driver1_run :: "bool \<Rightarrow> bytes \<Rightarrow> bytes \<Rightarrow> u32 list \<Rightarrow> (u32 list \<times> uart_access list) option" where
  "driver1_run char_signed name1 name2 stats =
     (case put_hello char_signed name1 stats of
        None \<Rightarrow> None
      | Some (r1, o1) \<Rightarrow> map_option (\<lambda>(r2, o2). (r2, o1 @ o2)) (h_handoff char_signed name2 r1))"

lemma uart_put_sends:
  assumes "0 \<notin> set str" "length str \<le> ready_count stats"
  shows "\<exists>rest out. uart_put cs (str @ [0]) stats = Some (rest, out) \<and> transmitted out = map (char_to_u32 cs) str \<and>
    ready_count rest = ready_count stats - length str"
  using uart_write_sends [OF assms(2), of cs] uart_put_write [OF assms(1), of cs "[]" stats] by auto

lemma put_hello_sends:
  assumes "0 \<notin> set name" "length name + 12 \<le> ready_count stats"
  shows "\<exists>rest out. put_hello cs name stats = Some (rest, out) \<and>
    transmitted out = map (char_to_u32 cs) (hello_from @ name @ [10]) \<and>
    ready_count rest = ready_count stats - (length name + 12)"
proof -
  have h: "0 \<notin> set hello_from" "length hello_from = 11" by (simp_all add: hello_from_def lit_def)
  from uart_put_sends [OF h(1), of stats cs] assms(2) h(2) obtain r1 o1 where
    1: "uart_put cs (hello_from @ [0]) stats = Some (r1, o1)" "transmitted o1 = map (char_to_u32 cs) hello_from"
      "ready_count r1 = ready_count stats - 11" by auto
  have "length name \<le> ready_count r1" using assms(2) 1(3) by simp
  from uart_put_sends [OF assms(1) this, of cs] 1(3) obtain r2 o2 where
    2: "uart_put cs (name @ [0]) r1 = Some (r2, o2)" "transmitted o2 = map (char_to_u32 cs) name"
      "ready_count r2 = ready_count stats - 11 - length name" by auto
  with assms(2) have "0 < ready_count r2" by simp
  from uart_put_char_paced [OF this, of cs 10] obtain r3 o3 where
    3: "uart_put_char cs 10 r2 = Some (r3, o3)" "transmitted o3 = [char_to_u32 cs 10]" "ready_count r3 = ready_count r2 - 1"
    by blast
  from 1 2 3 show ?thesis by (simp add: put_hello_def transmitted_append)
qed

lemma drivers_take_turns:
  assumes "0 \<notin> set name1" "0 \<notin> set name2" "length name1 + length name2 + 24 \<le> ready_count stats"
  shows "\<exists>rest out. driver1_run cs name1 name2 stats = Some (rest, out) \<and>
    transmitted out = map (char_to_u32 cs) (hello_from @ name1 @ [10] @ hello_from @ name2 @ [10])"
proof -
  from put_hello_sends [OF assms(1), of stats cs] assms(3) obtain r1 o1 where
    1: "put_hello cs name1 stats = Some (r1, o1)" "transmitted o1 = map (char_to_u32 cs) (hello_from @ name1 @ [10])"
      "ready_count r1 = ready_count stats - (length name1 + 12)" by auto
  have "length name2 + 12 \<le> ready_count r1" using assms(3) 1(3) by simp
  from put_hello_sends [OF assms(2) this, of cs] obtain r2 o2 where
    "put_hello cs name2 r1 = Some (r2, o2)" "transmitted o2 = map (char_to_u32 cs) (hello_from @ name2 @ [10])" by auto
  with 1 show ?thesis by (simp add: driver1_run_def h_handoff_def transmitted_append)
qed

section \<open>The device tree generator\<close>

text \<open>
  The generator library builds a tree of the nodes to keep from the tree of the platform, in memory of the size of that one, and
  \<open>pack\<close> takes the free space out of it. Both and the decoding of a header are external and arguments; the
  result is what the printer of \<open>Fdt_Dump\<close> prints of it.
\<close>

definition nodes_to_keep :: "string list" where
  "nodes_to_keep = [''/soc/aips-bus@2100000/ethernet@2188000'', ''/cpus'', ''/soc/aips-bus@2100000/usdhc@2190000'']"

definition num_nodes_to_keep :: nat where "num_nodes_to_keep = length nodes_to_keep"

definition fdtgen_run ::
  "fdt_consts \<Rightarrow> bool \<Rightarrow> (bytes \<Rightarrow> fdt_header) \<Rightarrow> (string list \<Rightarrow> nat \<Rightarrow> bytes \<Rightarrow> bytes) \<Rightarrow> (bytes \<Rightarrow> bytes) \<Rightarrow> u64 \<Rightarrow> bytes \<Rightarrow>
   string result option" where
  "fdtgen_run K char_signed header generate pack base fdt =
     (let total_size = unat (totalsize (header fdt));
          new = pack (generate (take num_nodes_to_keep nodes_to_keep) total_size fdt)
      in dump_blob K char_signed (header new) base new)"

section \<open>The set-up of the Ethernet card\<close>

record ioapic_irq =
  ioapic :: nat
  ioapic_pin :: nat
  ioapic_level :: nat
  ioapic_polarity :: nat
  ioapic_vector :: nat

record intel_config =
  bar0 :: u64
  prom_mode :: u8
  num_irqs :: nat
  irq_info :: ioapic_irq

text \<open>
  The driver's initialisation is external: the error it returns is a function of the configuration. The allocation of the
  configuration is not checked, so with no memory the null pointer is written through.
\<close>

definition ethif_init :: "bool \<Rightarrow> u64 \<Rightarrow> u32 \<Rightarrow> (intel_config \<Rightarrow> int) \<Rightarrow> int result" where
  "ethif_init calloc_ok EthDriver promiscuous_mode ethif_e82574_init =
     (if \<not> calloc_ok then Inl BadPointer
      else let error = ethif_e82574_init
          \<lparr>bar0 = EthDriver, prom_mode = ucast promiscuous_mode, num_irqs = 1,
           irq_info = \<lparr>ioapic = 0, ioapic_pin = 20, ioapic_level = 1, ioapic_polarity = 1, ioapic_vector = 20\<rparr>\<rparr>
        in if error \<noteq> 0 then Inr error else Inr 0)"

definition init_device :: "int \<Rightarrow> bool \<Rightarrow> u64 \<Rightarrow> u32 \<Rightarrow> (intel_config \<Rightarrow> int) \<Rightarrow> int result" where
  "init_device ps_calloc calloc_ok EthDriver promiscuous_mode ethif_e82574_init =
     (if ps_calloc \<noteq> 0 then Inr ps_calloc
      else rbind (ethif_init calloc_ok EthDriver promiscuous_mode ethif_e82574_init) (\<lambda>error.
        if error \<noteq> 0 then Inr error else Inr 0))"

text \<open>The file of \<^verbatim>\<open>picotcp_tcp_echo\<close> has the same two functions.\<close>

definition echo_ethif_init :: "bool \<Rightarrow> u64 \<Rightarrow> u32 \<Rightarrow> (intel_config \<Rightarrow> int) \<Rightarrow> int result" where
  "echo_ethif_init = ethif_init"

definition echo_init_device :: "int \<Rightarrow> bool \<Rightarrow> u64 \<Rightarrow> u32 \<Rightarrow> (intel_config \<Rightarrow> int) \<Rightarrow> int result" where
  "echo_init_device = init_device"

lemma init_device_errors:
  "init_device p c d m f = Inr 0 \<longleftrightarrow> p = 0 \<and> ethif_init c d m f = Inr 0"
  "init_device p c d m f = Inl e \<longleftrightarrow> p = 0 \<and> \<not> c \<and> e = BadPointer"
  by (auto simp: init_device_def ethif_init_def Let_def)

section \<open>The notification handed to CakeML\<close>

text \<open>
  The array has a byte for success, then the bytes of the notification's capability pointer, the lowest first.
\<close>

definition FFI_SUCCESS :: u8 where "FFI_SUCCESS = 0"

definition cptr_bytes :: "u64 \<Rightarrow> bytes" where
  "cptr_bytes src = map (\<lambda>k. ucast (drop_bit (8 * k) src)) [0..<8]"

definition ffiget_global_endpoint :: "u64 \<Rightarrow> bytes \<Rightarrow> bytes result" where
  "ffiget_global_endpoint src a =
     rbind (c_assert (length a \<ge> 1 + 8)) (\<lambda>_.
     rbind (c_memcpy (drop 1 a) (cptr_bytes src)) (\<lambda>rest.
     array_write (take 1 a @ rest) 0 FFI_SUCCESS))"

fun cptr_value :: "bytes \<Rightarrow> u64" where
  "cptr_value [] = 0"
| "cptr_value (b # bs) = ucast b OR push_bit 8 (cptr_value bs)"

lemma cptr_round_trip: "cptr_value (cptr_bytes src) = src"
proof (rule bit_word_eqI)
  fix n
  assume "n < LENGTH(64)"
  then have "n < 8 \<or> 8 \<le> n \<and> n < 16 \<or> 16 \<le> n \<and> n < 24 \<or> 24 \<le> n \<and> n < 32 \<or> 32 \<le> n \<and> n < 40 \<or>
      40 \<le> n \<and> n < 48 \<or> 48 \<le> n \<and> n < 56 \<or> 56 \<le> n \<and> n < 64" by simp linarith
  then show "bit (cptr_value (cptr_bytes src)) n = bit src n"
    by (elim disjE; cases "bit src n") (simp_all add: cptr_bytes_def upt_rec bit_simps, presburger+)
qed

lemma ffiget_global_endpoint_result:
  "ffiget_global_endpoint src a =
     (if 9 \<le> length a then Inr (0 # cptr_bytes src @ drop 9 a) else Inl AssertionFailed)"
proof (cases a)
  case (Cons x xs)
  then show ?thesis
    by (auto simp: ffiget_global_endpoint_def c_assert_def cptr_bytes_def overwrite_def array_write_def FFI_SUCCESS_def)
qed (simp add: ffiget_global_endpoint_def c_assert_def)

section \<open>A server written in CakeML\<close>

text \<open>
  The functions of the server, on the integers and strings of CakeML; a function that prints is what it prints, line by line.
\<close>

definition cml_toString :: "int \<Rightarrow> string" where
  "cml_toString i = (if i < 0 then CHR ''~'' # show_nat (nat (- i)) else show_nat (nat i))"

definition s_hello :: "string list" where "s_hello = [''Hello: hello'']"

definition s_input :: "int \<Rightarrow> string list" where "s_input i = [''Hello: input '' @ cml_toString i]"

definition s_multi_input :: "int \<Rightarrow> int \<Rightarrow> string list" where
  "s_multi_input i j = [''Hello: multi input '' @ cml_toString i @ '' '' @ cml_toString j]"

definition s_ret :: int where "s_ret = 42"

definition s_output :: int where "s_output = 60"

definition s_in_out :: "int \<Rightarrow> int" where "s_in_out i = i + 1"

definition s_rainbow :: "int \<Rightarrow> int \<Rightarrow> int \<times> int \<times> int" where "s_rainbow i j = (42, i + 1, j + 1)"

definition s_bye :: "string list" where "s_bye = [''Goodbye: bye'']"

definition s_input_string :: "string \<Rightarrow> string list" where
  "s_input_string s = [''Received this string from C: '' @ s]"

definition s_input_strings :: "string \<Rightarrow> string \<Rightarrow> string list" where
  "s_input_strings s1 s2 = [''Received these strings from C:'', s1, s2]"

definition s_reverse_string :: "string \<Rightarrow> string" where "s_reverse_string s = rev s"

text \<open>
  The client in C. The stubs are generated: a word becomes the integer it stands for, and \<open>to32\<close> and \<open>to8\<close> turn the integers
  of an answer into words. The lines that both components print are in the order of the calls; the two messages at the start are
  left out.
\<close>

definition printf_d :: "u32 \<Rightarrow> string" where "printf_d w = show_int (sint w)"

definition cakeml_client :: "(int \<Rightarrow> u32) \<Rightarrow> (int \<Rightarrow> u8) \<Rightarrow> string list" where
  "cakeml_client to32 to8 =
     s_hello @ s_input (uint (100 :: u32)) @ s_multi_input (uint (100 :: u32)) (uint (200 :: u32)) @
     (let i = to32 s_ret in [''Hello_ret: '' @ printf_d i]) @
     (let i = to32 s_output in [''Hello_output: '' @ printf_d i]) @
     (let i = (100 :: u32); i' = to32 (s_in_out (uint i)) in
        [''Hello_in_out: '' @ printf_d i @ ''-> '' @ printf_d i']) @
     (case s_rainbow (uint (100 :: u32)) (uint (200 :: u8)) of (r, a, b) \<Rightarrow>
        let i = to32 r; j = to32 a; k = to8 b in
        [''Hello_rainbow: ('' @ show_int 100 @ '', '' @ show_int 200 @ '') -> '' @ printf_d i @ '' ('' @ printf_d j @ '', '' @
           show_int (uint k) @ '')'']) @
     s_input_string ''Hello CakeML!'' @ s_input_strings ''Foo!'' ''Bar!'' @
     (let input_str = ''Hello world''; reversed = s_reverse_string input_str in
        [''Hello_reverse_string: '' @ CHR 0x22 # input_str @ CHR 0x22 # '' -> '' @ CHR 0x22 # reversed @ [CHR 0x22]]) @
     s_bye"

lemmas cakeml_server_defs = s_hello_def s_input_def s_multi_input_def s_ret_def s_output_def s_in_out_def s_rainbow_def
  s_bye_def s_input_string_def s_input_strings_def s_reverse_string_def

lemma decimals:
  "show_nat 100 = ''100''" "show_nat 200 = ''200''" "show_nat 42 = ''42''" "show_nat 60 = ''60''"
  "show_nat 101 = ''101''" "show_nat 201 = ''201''"
  by code_simp+

lemma cakeml_client_lines:
  assumes "\<And>w. to32 (uint w) = w" "\<And>w. to8 (uint w) = w"
  shows "cakeml_client to32 to8 =
    [''Hello: hello'', ''Hello: input 100'', ''Hello: multi input 100 200'', ''Hello_ret: 42'', ''Hello_output: 60'',
     ''Hello_in_out: 100-> 101'', ''Hello_rainbow: (100, 200) -> 42 (101, 201)'',
     ''Received this string from C: Hello CakeML!'', ''Received these strings from C:'', ''Foo!'', ''Bar!'',
     ''Hello_reverse_string: '' @ CHR 0x22 # ''Hello world'' @ CHR 0x22 # '' -> '' @ CHR 0x22 # ''dlrow olleH'' @ [CHR 0x22],
     ''Goodbye: bye'']"
proof -
  have "to32 42 = 42" "to32 60 = 60" "to32 101 = 101" "to8 201 = 201"
    using assms(1) [of 42] assms(1) [of 60] assms(1) [of 101] assms(2) [of 201] by simp_all
  then show ?thesis
    by (simp add: cakeml_client_def cakeml_server_defs cml_toString_def printf_d_def show_int_def decimals Let_def)
qed

end
