(* ===== verification/Reverse_Steps.thy ===== *)
theory Reverse_Steps
  imports String_Services
begin

text \<open>
  The reversal in a shared buffer, byte access by byte access. The loop is that of both servers
  (\<^verbatim>\<open>apps/reversestring/src/server.c\<close>, \<^verbatim>\<open>apps/rumprun_ethernet/components/reverse_string/server.c\<close>); what it has left
  to do is a suffix of the call in \<open>String_Services\<close>. Then client and server of \<^verbatim>\<open>reversestring\<close> as two processes that pass the
  buffer to each other through its last byte.
\<close>

section \<open>The loop\<close>

text \<open>
  Before \<open>strnlen\<close>, at the head of the loop with an index and the length of the string, after the first and after the
  second of the three assignments with the byte in \<open>tmp\<close>, after the loop, or stopped by a fault.
\<close>

datatype reverse_pc =
    RMeasuring
  | RSwapping nat nat
  | RLoaded nat nat u8
  | RCopied nat nat u8
  | RFinished
  | RStopped fault

fun reverse_step :: "reverse_pc \<Rightarrow> bytes \<Rightarrow> reverse_pc \<times> bytes" where
  "reverse_step RMeasuring b = (RSwapping 0 (c_strnlen REVERSE_STRING_MAX_LEN b), b)"
| "reverse_step (RSwapping i len) b =
     (if i < len div 2
      then (case array_read b i of Inl e \<Rightarrow> (RStopped e, b) | Inr tmp \<Rightarrow> (RLoaded i len tmp, b))
      else (RFinished, b))"
| "reverse_step (RLoaded i len tmp) b =
     (case rbind (array_read b (len - i - 1)) (array_write b i) of
        Inl e \<Rightarrow> (RStopped e, b) | Inr b' \<Rightarrow> (RCopied i len tmp, b'))"
| "reverse_step (RCopied i len tmp) b =
     (case array_write b (len - i - 1) tmp of
        Inl e \<Rightarrow> (RStopped e, b) | Inr b' \<Rightarrow> (RSwapping (i + 1) len, b'))"
| "reverse_step RFinished b = (RFinished, b)"
| "reverse_step (RStopped e) b = (RStopped e, b)"

fun reverse_rest :: "reverse_pc \<Rightarrow> bytes \<Rightarrow> bytes result" where
  "reverse_rest RMeasuring b = rump_reverse_buffer b"
| "reverse_rest (RSwapping i len) b = swap_loop (len div 2 - i) i (len - 1) b"
| "reverse_rest (RLoaded i len tmp) b =
     rbind (array_read b (len - i - 1)) (\<lambda>x.
     rbind (array_write b i x) (\<lambda>b1.
     rbind (array_write b1 (len - i - 1) tmp) (swap_loop (len div 2 - (i + 1)) (i + 1) (len - 1))))"
| "reverse_rest (RCopied i len tmp) b =
     rbind (array_write b (len - i - 1) tmp) (swap_loop (len div 2 - (i + 1)) (i + 1) (len - 1))"
| "reverse_rest RFinished b = Inr b"
| "reverse_rest (RStopped e) b = Inl e"

lemma reverse_step_rest:
  assumes "reverse_step pc b = (pc', b')"
  shows "reverse_rest pc' b' = reverse_rest pc b"
proof (cases pc)
  case RMeasuring
  with assms show ?thesis by (auto simp: rump_reverse_buffer_def Let_def)
next
  case (RSwapping i len)
  show ?thesis
  proof (cases "i < len div 2")
    case True
    then have "len div 2 - i = Suc (len div 2 - (i + 1))" "len - 1 - i = len - i - 1" by simp_all
    with True RSwapping assms show ?thesis by (cases "array_read b i") auto
  next
    case False
    with RSwapping assms show ?thesis by auto
  qed
next
  case (RLoaded i len tmp)
  with assms show ?thesis
    by (cases "rbind (array_read b (len - i - 1)) (array_write b i)"; cases "array_read b (len - i - 1)") auto
next
  case (RCopied i len tmp)
  with assms show ?thesis by (cases "array_write b (len - i - 1) tmp") auto
qed (use assms in auto)

text \<open>The loop stays within half the string, and so within the string; what is behind it is not touched.\<close>

fun loop_ok :: "reverse_pc \<Rightarrow> bool" where
  "loop_ok (RSwapping i len) = (i \<le> len div 2 \<and> len \<le> 4094)"
| "loop_ok (RLoaded i len tmp) = (i < len div 2 \<and> len \<le> 4094)"
| "loop_ok (RCopied i len tmp) = (i < len div 2 \<and> len \<le> 4094)"
| "loop_ok pc = True"

lemma strnlen_le: "c_strnlen n b \<le> n"
  unfolding c_strnlen_def by (rule le_trans [OF length_takeWhile_le]) simp

lemma reverse_step_ok:
  assumes "reverse_step pc b = (pc', b')" "loop_ok pc"
  shows "loop_ok pc' \<and> length b' = length b \<and> b' ! 4095 = b ! 4095"
proof (cases pc)
  case RMeasuring
  with assms strnlen_le [of REVERSE_STRING_MAX_LEN b] show ?thesis by (auto simp: rev_consts)
next
  case (RSwapping i len)
  with assms show ?thesis by (cases "array_read b i") (auto split: if_splits)
next
  case (RLoaded i len tmp)
  with assms show ?thesis
    by (cases "rbind (array_read b (len - i - 1)) (array_write b i)") (auto simp: succeeds)
next
  case (RCopied i len tmp)
  with assms show ?thesis by (cases "array_write b (len - i - 1) tmp") (auto simp: succeeds)
qed (use assms in auto)

text \<open>The steps that are left.\<close>

fun reverse_rank :: "reverse_pc \<Rightarrow> nat" where
  "reverse_rank RMeasuring = 6200"
| "reverse_rank (RSwapping i len) = 3 + 3 * (2047 - i)"
| "reverse_rank (RLoaded i len x) = 2 + 3 * (2047 - i)"
| "reverse_rank (RCopied i len x) = 1 + 3 * (2047 - i)"
| "reverse_rank RFinished = 0"
| "reverse_rank (RStopped e) = 0"

definition reverse_ended :: "reverse_pc \<Rightarrow> bool" where
  "reverse_ended pc \<longleftrightarrow> (case pc of RFinished \<Rightarrow> True | RStopped e \<Rightarrow> True | _ \<Rightarrow> False)"

lemma reverse_step_rank:
  assumes "reverse_step pc b = (pc', b')" "loop_ok pc" "\<not> reverse_ended pc"
  shows "reverse_rank pc' < reverse_rank pc"
proof (cases pc)
  case RMeasuring
  with assms show ?thesis by auto
next
  case (RSwapping i len)
  with assms show ?thesis by (cases "array_read b i") (auto split: if_splits)
next
  case (RLoaded i len tmp)
  with assms show ?thesis by (cases "rbind (array_read b (len - i - 1)) (array_write b i)") auto
next
  case (RCopied i len tmp)
  with assms show ?thesis by (cases "array_write b (len - i - 1) tmp") auto
qed (use assms in \<open>auto simp: reverse_ended_def\<close>)

section \<open>Client and server of \<^verbatim>\<open>reversestring\<close>\<close>

text \<open>
  The client: writing its text from an index on, printing it, before it raises the flag in the last byte, polling the flag,
  printing the answer, done. The server: polling, printing what it got, in the loop, before it lowers the flag, done.
  A poll that finds the flag as it was is no step. \<open>rev_shown\<close> is what the server has printed; a string that is printed or
  measured is read in one step.
\<close>

datatype rev_client = CWriting nat | CSending | CRaising | CPolling | CReceiving | CDone bytes | CStopped fault

datatype rev_server = SPolling | SShowing | SReversing reverse_pc | SLowering | SDone

record rev_system =
  rev_buf :: bytes
  rev_cpc :: rev_client
  rev_spc :: rev_server
  rev_shown :: "bytes list"

definition client_text :: "bytes \<Rightarrow> bytes" where
  "client_text msg = take (REVERSE_STRING_MAX_LEN - 1) msg @ [0]"

definition rev_client_run :: "bytes \<Rightarrow> rev_system \<Rightarrow> rev_system option" where
  "rev_client_run msg s =
     (case rev_cpc s of
        CWriting j \<Rightarrow>
          Some (if j < length (client_text msg)
                then (case array_write (rev_buf s) j (client_text msg ! j) of
                        Inl e \<Rightarrow> s\<lparr>rev_cpc := CStopped e\<rparr>
                      | Inr b \<Rightarrow> s\<lparr>rev_buf := b, rev_cpc := CWriting (j + 1)\<rparr>)
                else s\<lparr>rev_cpc := CSending\<rparr>)
      | CSending \<Rightarrow> Some (s\<lparr>rev_cpc := if 0 \<in> set (rev_buf s) then CRaising else CStopped IndexError\<rparr>)
      | CRaising \<Rightarrow>
          Some (case array_write (rev_buf s) REVERSE_STRING_END_IDX 1 of
                  Inl e \<Rightarrow> s\<lparr>rev_cpc := CStopped e\<rparr>
                | Inr b \<Rightarrow> s\<lparr>rev_buf := b, rev_cpc := CPolling\<rparr>)
      | CPolling \<Rightarrow>
          (case array_read (rev_buf s) REVERSE_STRING_END_IDX of
             Inl e \<Rightarrow> Some (s\<lparr>rev_cpc := CStopped e\<rparr>)
           | Inr flag \<Rightarrow> if flag \<noteq> 0 then None else Some (s\<lparr>rev_cpc := CReceiving\<rparr>))
      | CReceiving \<Rightarrow>
          Some (s\<lparr>rev_cpc := if 0 \<in> set (rev_buf s) then CDone (takeWhile (\<lambda>c. c \<noteq> 0) (rev_buf s))
                             else CStopped IndexError\<rparr>)
      | CDone t \<Rightarrow> None
      | CStopped e \<Rightarrow> None)"

definition rev_server_run :: "rev_system \<Rightarrow> rev_system option" where
  "rev_server_run s =
     (case rev_spc s of
        SPolling \<Rightarrow>
          (case array_read (rev_buf s) REVERSE_STRING_END_IDX of
             Inl e \<Rightarrow> Some (s\<lparr>rev_spc := SReversing (RStopped e)\<rparr>)
           | Inr flag \<Rightarrow> if flag = 0 then None else Some (s\<lparr>rev_spc := SShowing\<rparr>))
      | SShowing \<Rightarrow>
          Some (if 0 \<in> set (rev_buf s)
                then s\<lparr>rev_spc := SReversing RMeasuring, rev_shown := rev_shown s @ [takeWhile (\<lambda>c. c \<noteq> 0) (rev_buf s)]\<rparr>
                else s\<lparr>rev_spc := SReversing (RStopped IndexError)\<rparr>)
      | SReversing RFinished \<Rightarrow> Some (s\<lparr>rev_spc := SLowering\<rparr>)
      | SReversing (RStopped e) \<Rightarrow> None
      | SReversing pc \<Rightarrow>
          (case reverse_step pc (rev_buf s) of (pc', b) \<Rightarrow> Some (s\<lparr>rev_buf := b, rev_spc := SReversing pc'\<rparr>))
      | SLowering \<Rightarrow>
          Some (case array_write (rev_buf s) REVERSE_STRING_END_IDX 0 of
                  Inl e \<Rightarrow> s\<lparr>rev_spc := SReversing (RStopped e)\<rparr>
                | Inr b \<Rightarrow> s\<lparr>rev_buf := b, rev_spc := SDone\<rparr>)
      | SDone \<Rightarrow> None)"

inductive rev_step :: "bytes \<Rightarrow> rev_system \<Rightarrow> rev_system \<Rightarrow> bool" for msg where
  client_moves: "rev_client_run msg s = Some t \<Longrightarrow> rev_step msg s t"
| server_moves: "rev_server_run s = Some t \<Longrightarrow> rev_step msg s t"

text \<open>The data port at the start: any bytes with the flag down.\<close>

definition rev_start :: "bytes \<Rightarrow> rev_system" where
  "rev_start b = \<lparr>rev_buf = b, rev_cpc = CWriting 0, rev_spc = SPolling, rev_shown = []\<rparr>"

section \<open>What the buffer holds\<close>

definition holds :: "bytes \<Rightarrow> bytes \<Rightarrow> bool" where
  "holds t b \<longleftrightarrow> length b = 4096 \<and> take (length t + 1) b = t @ [0]"

lemma holds_split: "holds t b \<Longrightarrow> b = t @ 0 # drop (length t + 1) b"
  using append_take_drop_id [of "length t + 1" b] by (simp add: holds_def)

lemma holds_string:
  assumes "holds t b" "0 \<notin> set t"
  shows "takeWhile (\<lambda>c. c \<noteq> 0) b = t" "0 \<in> set b"
  using takeWhile_string [OF assms(2)] holds_split [OF assms(1)] by (metis, metis in_set_conv_decomp)

lemma holds_flag: "holds t b \<Longrightarrow> length t \<le> 4094 \<Longrightarrow> holds t (b[4095 := x])"
  by (simp add: holds_def take_update_cancel)

lemma holds_reverse:
  assumes "holds t b" "0 \<notin> set t" "length t \<le> 4094"
  shows "\<exists>b'. rump_reverse_buffer b = Inr b' \<and> holds (rev t) b'"
proof -
  have "length (rev t @ 0 # drop (length t + 1) b) = 4096"
    using holds_split [OF assms(1)] assms(1) by (metis holds_def length_append length_rev length_Cons)
  then show ?thesis
    using reverse_buffer_string [OF assms(2,3), of "drop (length t + 1) b"] holds_split [OF assms(1)]
    by (auto simp: holds_def)
qed

text \<open>The invariant, by the client's place. \<open>msg\<close> fits and has no null byte.\<close>

definition rev_inv :: "bytes \<Rightarrow> rev_system \<Rightarrow> bool" where
  "rev_inv msg s \<longleftrightarrow> length (rev_buf s) = 4096 \<and>
     (case rev_cpc s of
        CWriting j \<Rightarrow>
          rev_spc s = SPolling \<and> rev_buf s ! 4095 = 0 \<and> rev_shown s = [] \<and> j \<le> length msg + 1 \<and>
          take j (rev_buf s) = take j (msg @ [0])
      | CSending \<Rightarrow> rev_spc s = SPolling \<and> rev_buf s ! 4095 = 0 \<and> rev_shown s = [] \<and> holds msg (rev_buf s)
      | CRaising \<Rightarrow> rev_spc s = SPolling \<and> rev_buf s ! 4095 = 0 \<and> rev_shown s = [] \<and> holds msg (rev_buf s)
      | CPolling \<Rightarrow>
          (case rev_spc s of
             SPolling \<Rightarrow> rev_buf s ! 4095 = 1 \<and> rev_shown s = [] \<and> holds msg (rev_buf s)
           | SShowing \<Rightarrow> rev_buf s ! 4095 = 1 \<and> rev_shown s = [] \<and> holds msg (rev_buf s)
           | SReversing pc \<Rightarrow>
               rev_buf s ! 4095 = 1 \<and> rev_shown s = [msg] \<and> loop_ok pc \<and>
               (\<exists>b. reverse_rest pc (rev_buf s) = Inr b \<and> holds (rev msg) b)
           | SLowering \<Rightarrow> rev_buf s ! 4095 = 1 \<and> rev_shown s = [msg] \<and> holds (rev msg) (rev_buf s)
           | SDone \<Rightarrow> rev_shown s = [msg] \<and> rev_buf s ! 4095 = 0 \<and> holds (rev msg) (rev_buf s))
      | CReceiving \<Rightarrow> rev_spc s = SDone \<and> rev_shown s = [msg] \<and> holds (rev msg) (rev_buf s)
      | CDone t \<Rightarrow> rev_spc s = SDone \<and> rev_shown s = [msg] \<and> t = rev msg
      | CStopped e \<Rightarrow> False)"

definition message_ok :: "bytes \<Rightarrow> bool" where
  "message_ok msg \<longleftrightarrow> 0 \<notin> set msg \<and> length msg \<le> 4093"

lemma client_text_whole: "message_ok msg \<Longrightarrow> client_text msg = msg @ [0]"
  by (simp add: client_text_def message_ok_def rev_consts)

lemma rev_client_inv:
  assumes "rev_client_run msg s = Some t" "rev_inv msg s" "message_ok msg"
  shows "rev_inv msg t"
proof (cases "rev_cpc s")
  case (CWriting j)
  show ?thesis
  proof (cases "j < length msg + 1")
    case True
    let ?b = "(rev_buf s)[j := (msg @ [0]) ! j]"
    from True CWriting assms have t: "t = s\<lparr>rev_buf := ?b, rev_cpc := CWriting (j + 1)\<rparr>"
      by (auto simp: rev_client_run_def client_text_whole rev_inv_def message_ok_def)
    have "take (j + 1) ?b = take (j + 1) (msg @ [0])"
      using True CWriting assms(2,3)
      by (simp add: rev_inv_def message_ok_def take_Suc_conv_app_nth del: take_append)
    with True CWriting assms(2,3) show ?thesis by (simp add: t rev_inv_def message_ok_def)
  next
    case False
    with CWriting assms show ?thesis
      by (auto simp: rev_client_run_def client_text_whole rev_inv_def holds_def)
  qed
next
  case CSending
  with assms holds_string [of msg "rev_buf s"] show ?thesis
    by (auto simp: rev_client_run_def rev_inv_def message_ok_def)
next
  case CRaising
  with assms show ?thesis by (auto simp: rev_client_run_def rev_inv_def message_ok_def rev_consts holds_flag)
next
  case CPolling
  with assms show ?thesis
    by (cases "rev_spc s") (auto simp: rev_client_run_def rev_inv_def rev_consts)
next
  case CReceiving
  with assms holds_string [of "rev msg" "rev_buf s"] show ?thesis
    by (auto simp: rev_client_run_def rev_inv_def message_ok_def)
qed (use assms in \<open>auto simp: rev_client_run_def\<close>)

lemma server_turn:
  assumes "rev_server_run s = Some t" "rev_inv msg s"
  shows "rev_cpc s = CPolling"
  using assms by (cases "rev_cpc s") (auto simp: rev_server_run_def rev_inv_def rev_consts split: if_splits)

lemma rev_server_inv:
  assumes "rev_server_run s = Some t" "rev_inv msg s" "message_ok msg"
  shows "rev_inv msg t"
proof (cases "rev_spc s")
  case SPolling
  with assms server_turn [OF assms(1,2)] show ?thesis
    by (auto simp: rev_server_run_def rev_inv_def rev_consts)
next
  case SShowing
  with assms server_turn [OF assms(1,2)] holds_string [of msg "rev_buf s"] holds_reverse [of msg "rev_buf s"]
  show ?thesis by (auto simp: rev_server_run_def rev_inv_def message_ok_def)
next
  case (SReversing pc)
  show ?thesis
  proof (cases "reverse_ended pc")
    case True
    with SReversing assms server_turn [OF assms(1,2)] show ?thesis
      by (cases pc) (auto simp: rev_server_run_def rev_inv_def reverse_ended_def)
  next
    case False
    obtain pc' b where step: "reverse_step pc (rev_buf s) = (pc', b)" by force
    with False SReversing assms(1) have t: "t = s\<lparr>rev_buf := b, rev_spc := SReversing pc'\<rparr>"
      by (cases pc) (auto simp: rev_server_run_def reverse_ended_def)
    from SReversing assms(2) server_turn [OF assms(1,2)] have "loop_ok pc" by (simp add: rev_inv_def)
    from reverse_step_ok [OF step this] reverse_step_rest [OF step] SReversing assms(2) server_turn [OF assms(1,2)]
    show ?thesis by (simp add: t rev_inv_def)
  qed
next
  case SLowering
  with assms server_turn [OF assms(1,2)] show ?thesis
    by (auto simp: rev_server_run_def rev_inv_def message_ok_def rev_consts holds_flag)
next
  case SDone
  with assms show ?thesis by (simp add: rev_server_run_def)
qed

section \<open>Every run ends\<close>

fun rev_client_rank :: "bytes \<Rightarrow> rev_client \<Rightarrow> nat" where
  "rev_client_rank msg (CWriting j) = 5 + (length (client_text msg) - j)"
| "rev_client_rank msg CSending = 4"
| "rev_client_rank msg CRaising = 3"
| "rev_client_rank msg CPolling = 2"
| "rev_client_rank msg CReceiving = 1"
| "rev_client_rank msg pc = 0"

fun rev_server_rank :: "rev_server \<Rightarrow> nat" where
  "rev_server_rank SPolling = 6205"
| "rev_server_rank SShowing = 6204"
| "rev_server_rank (SReversing pc) = 2 + reverse_rank pc"
| "rev_server_rank SLowering = 1"
| "rev_server_rank SDone = 0"

definition rev_rank :: "bytes \<Rightarrow> rev_system \<Rightarrow> nat" where
  "rev_rank msg s = rev_client_rank msg (rev_cpc s) + rev_server_rank (rev_spc s)"

lemma rev_client_rank_less:
  assumes "rev_client_run msg s = Some t"
  shows "rev_rank msg t < rev_rank msg s"
proof (cases "rev_cpc s")
  case (CWriting j)
  with assms show ?thesis by (auto simp: rev_client_run_def rev_rank_def split: if_splits sum.splits)
next
  case CPolling
  with assms show ?thesis by (auto simp: rev_client_run_def rev_rank_def split: if_splits sum.splits)
qed (use assms in \<open>auto simp: rev_client_run_def rev_rank_def split: sum.splits\<close>)

lemma rev_server_rank_less:
  assumes "rev_server_run s = Some t" "rev_inv msg s"
  shows "rev_rank msg t < rev_rank msg s"
proof (cases "rev_spc s")
  case (SReversing pc)
  show ?thesis
  proof (cases "reverse_ended pc")
    case True
    with SReversing assms show ?thesis
      by (cases pc) (auto simp: rev_server_run_def rev_rank_def reverse_ended_def)
  next
    case False
    obtain pc' b where step: "reverse_step pc (rev_buf s) = (pc', b)" by force
    with False SReversing assms(1) have t: "t = s\<lparr>rev_buf := b, rev_spc := SReversing pc'\<rparr>"
      by (cases pc) (auto simp: rev_server_run_def reverse_ended_def)
    from SReversing assms(2) server_turn [OF assms] have "loop_ok pc" by (simp add: rev_inv_def)
    from reverse_step_rank [OF step this False] SReversing show ?thesis by (simp add: t rev_rank_def)
  qed
next
  case SLowering
  with assms show ?thesis by (auto simp: rev_server_run_def rev_rank_def rev_inv_def rev_consts)
qed (use assms in \<open>auto simp: rev_server_run_def rev_rank_def split: if_splits sum.splits\<close>)

interpretation rev: ending_runs "rev_step msg" "\<lambda>s. rev_inv msg s \<and> message_ok msg" "rev_rank msg" "\<lambda>_. rev msg" for msg
  by unfold_locales
    (auto elim!: rev_step.cases dest: rev_client_inv rev_server_inv rev_client_rank_less rev_server_rank_less)

lemma rev_start_inv: "length b = 4096 \<Longrightarrow> b ! 4095 = 0 \<Longrightarrow> rev_inv msg (rev_start b)"
  by (simp add: rev_inv_def rev_start_def)

lemma rev_stuck:
  assumes "rev_inv msg s" "message_ok msg" "\<nexists>t. rev_step msg s t"
  shows "rev_cpc s = CDone (rev msg)"
proof -
  have none: "rev_client_run msg s = None" "rev_server_run s = None"
    using assms(3) by (meson not_Some_eq rev_step.intros)+
  show ?thesis
  proof (cases "rev_cpc s")
    case CPolling
    with none(1) assms(1) have flag: "rev_buf s ! 4095 \<noteq> 0"
      by (auto simp: rev_client_run_def rev_inv_def rev_consts split: if_splits)
    show ?thesis
    proof (cases "rev_spc s")
      case SPolling
      with none(2) flag assms(1) show ?thesis by (simp add: rev_server_run_def rev_inv_def rev_consts split: if_splits)
    next
      case (SReversing pc)
      with CPolling none(2) assms(1) show ?thesis
        by (cases pc) (auto simp: rev_server_run_def rev_inv_def split: prod.splits)
    next
      case SDone
      with CPolling flag assms(1) show ?thesis by (simp add: rev_inv_def)
    qed (use none(2) in \<open>simp_all add: rev_server_run_def\<close>)
  next
    case (CDone t)
    with assms(1) show ?thesis by (simp add: rev_inv_def)
  qed (use none(1) assms(1) in \<open>simp_all add: rev_client_run_def rev_inv_def\<close>)
qed

section \<open>The property\<close>

definition client_in_buffer :: "rev_client \<Rightarrow> bool" where
  "client_in_buffer pc \<longleftrightarrow> (case pc of CWriting j \<Rightarrow> True | CSending \<Rightarrow> True | CReceiving \<Rightarrow> True | _ \<Rightarrow> False)"

definition server_in_buffer :: "rev_server \<Rightarrow> bool" where
  "server_in_buffer pc \<longleftrightarrow> (case pc of SShowing \<Rightarrow> True | SReversing r \<Rightarrow> True | _ \<Rightarrow> False)"

text \<open>
  Property C18. The reversal over the shared buffer, for any message of the client that fits and any interleaving of the byte
  accesses of client and server: the two are never in the string at the same time, the server prints nothing but the whole
  message, every run ends, and where it ends the client has printed the message reversed.
\<close>

theorem reversestring_protocol:
  assumes "(rev_step msg)\<^sup>*\<^sup>* (rev_start b) s" "0 \<notin> set msg" "length msg \<le> 4093" "length b = 4096" "b ! 4095 = 0"
  shows "\<not> (client_in_buffer (rev_cpc s) \<and> server_in_buffer (rev_spc s)) \<and>
    (rev_shown s = [] \<or> rev_shown s = [msg]) \<and>
    (\<nexists>f. f 0 = s \<and> (\<forall>n. rev_step msg (f n) (f (Suc n)))) \<and>
    ((\<nexists>t. rev_step msg s t) \<longrightarrow> rev_cpc s = CDone (rev msg))"
proof -
  have ok: "message_ok msg" using assms(2,3) by (simp add: message_ok_def)
  have inv: "rev_inv msg s" using rev.reachable [OF assms(1)] rev_start_inv [OF assms(4,5)] ok by blast
  have excl: "\<not> (client_in_buffer (rev_cpc s) \<and> server_in_buffer (rev_spc s))"
    using inv by (cases "rev_cpc s") (auto simp: rev_inv_def client_in_buffer_def server_in_buffer_def)
  have shown: "rev_shown s = [] \<or> rev_shown s = [msg]"
    using inv by (cases "rev_cpc s"; cases "rev_spc s") (auto simp: rev_inv_def)
  show ?thesis using excl shown rev.no_infinite_run [of msg s] rev_stuck [OF inv ok] inv ok by blast
qed

theorem reversestring_protocol_witness:
  "\<exists>s. (rev_step [72, 105])\<^sup>*\<^sup>* (rev_start (replicate 4096 0)) s \<and> rev_buf s ! 0 = 72 \<and>
     \<not> server_in_buffer (rev_spc s) \<and> (\<exists>t. rev_step [72, 105] s t)"
proof -
  let ?b = "replicate 4096 (0::u8)"
  let ?s = "(rev_start ?b)\<lparr>rev_buf := ?b[0 := 72], rev_cpc := CWriting 1\<rparr>"
  have flag: "?b ! 4095 = 0" by (subst nth_replicate) simp_all
  have "rev_client_run [72, 105] (rev_start ?b) = Some ?s"
    by (simp add: rev_client_run_def rev_start_def client_text_def rev_consts del: replicate.simps)
  then have run: "(rev_step [72, 105])\<^sup>*\<^sup>* (rev_start ?b) ?s" by (auto intro: rev_step.client_moves)
  have "client_in_buffer (rev_cpc ?s)" "rev_cpc ?s \<noteq> CDone (rev [72, 105])" by (simp_all add: client_in_buffer_def)
  with reversestring_protocol [OF run] flag run show ?thesis
    by (intro exI [of _ ?s]) (auto simp del: replicate.simps)
qed

end
