(* ===== verification/Rump_Assembly.thy ===== *)
theory Rump_Assembly
  imports Tcp_Server Reverse_Steps
begin

text \<open>
  The assembly of \<^verbatim>\<open>apps/rumprun_ethernet\<close>: the TCP server (\<^verbatim>\<open>tcp_server.c\<close>) and the reverse server
  (\<^verbatim>\<open>reverse_string/server.c\<close>) as two processes that share a data port and two notifications, each byte
  they read or write in the port being a step. \<open>Tcp_Server\<close> runs the reverse server as a call; here it
  is shown that every interleaving does the same.
\<close>

section \<open>The two processes\<close>

text \<open>
  Where the TCP server is: writing a text with its terminator into the port from an index on, before
  its event, waiting for the other's, after it, before \<open>accept\<close>, before \<open>recv\<close>, or stopped.
\<close>

datatype tcp_pc =
    TCopying bytes nat
  | TEmitting
  | TWaiting
  | TAnswering
  | TAccepting
  | TReceiving
  | TStopped fault

text \<open>Where the reverse server is: waiting, printing what it got, in its loop, before its event.\<close>

datatype partner_pc = PWaiting | PPrinting | PReversing reverse_pc | PEmitting

text \<open>
  \<open>pending\<close> is the length of the message being answered with what \<open>send\<close> will return, and \<open>None\<close> for
  the greeting. \<open>answered\<close> is what the open connection has been sent, \<open>finished\<close> what the
  closed ones have. \<open>got\<close> is what the reverse server has printed.
\<close>

record rump_system =
  tcp :: tcp_pc
  pending :: "(nat \<times> int) option"
  recvs :: "recv_result list"
  conns :: "recv_result list option list"
  answered :: "bytes list"
  finished :: "bytes list list"
  camkes_ev :: bool
  camkes_ev1 :: bool
  port :: bytes
  reverser :: partner_pc
  got :: "bytes list"

definition tcp_step :: "int \<Rightarrow> int \<Rightarrow> int \<Rightarrow> rump_system \<Rightarrow> rump_system option" where
  "tcp_step server_fd bind_err listen_err s =
     (case tcp s of
        TCopying w j \<Rightarrow>
          Some (if j < length w
                then (case array_write (port s) j (w ! j) of
                        Inl e \<Rightarrow> s\<lparr>tcp := TStopped e\<rparr>
                      | Inr b \<Rightarrow> s\<lparr>tcp := TCopying w (j + 1), port := b\<rparr>)
                else s\<lparr>tcp := TEmitting\<rparr>)
      | TEmitting \<Rightarrow> Some (s\<lparr>tcp := TWaiting, camkes_ev := True\<rparr>)
      | TWaiting \<Rightarrow> if camkes_ev1 s then Some (s\<lparr>tcp := TAnswering, camkes_ev1 := False\<rparr>) else None
      | TAnswering \<Rightarrow>
          Some (case pending s of
                  None \<Rightarrow>
                    if server_fd < 0 then s\<lparr>tcp := TStopped Aborted\<rparr>
                    else if bind_err < 0 then s\<lparr>tcp := TStopped Aborted\<rparr>
                    else if listen_err < 0 then s\<lparr>tcp := TStopped Aborted\<rparr>
                    else s\<lparr>tcp := TAccepting\<rparr>
                | Some (read, err) \<Rightarrow>
                    (case c_bytes (port s) read of
                       Inl e \<Rightarrow> s\<lparr>tcp := TStopped e\<rparr>
                     | Inr out \<Rightarrow>
                         if err < 0 then s\<lparr>tcp := TStopped Aborted\<rparr>
                         else s\<lparr>tcp := TReceiving, answered := answered s @ [out]\<rparr>))
      | TAccepting \<Rightarrow>
          (case conns s of
             [] \<Rightarrow> None
           | None # cs \<Rightarrow> Some (s\<lparr>tcp := TStopped Aborted\<rparr>)
           | Some rs # cs \<Rightarrow> Some (s\<lparr>tcp := TReceiving, recvs := rs, conns := cs, answered := []\<rparr>))
      | TReceiving \<Rightarrow>
          Some (case recvs s of
                  RecvFailed # rs \<Rightarrow> s\<lparr>tcp := TStopped Aborted\<rparr>
                | Message msg err # rs \<Rightarrow>
                    if msg = [] then s\<lparr>tcp := TAccepting, finished := finished s @ [answered s]\<rparr>
                    else if length msg \<ge> REVERSE_STRING_BUFSIZE then s\<lparr>tcp := TStopped IndexError\<rparr>
                    else (case format_text msg of
                            Inl e \<Rightarrow> s\<lparr>tcp := TStopped e\<rparr>
                          | Inr text \<Rightarrow>
                              s\<lparr>tcp := TCopying (take (length msg) text @ [0]) 0,
                                pending := Some (length msg, err), recvs := rs\<rparr>)
                | _ \<Rightarrow> s\<lparr>tcp := TAccepting, finished := finished s @ [answered s]\<rparr>)
      | TStopped e \<Rightarrow> None)"

definition reverser_step :: "rump_system \<Rightarrow> rump_system option" where
  "reverser_step s =
     (case reverser s of
        PWaiting \<Rightarrow> if camkes_ev s then Some (s\<lparr>camkes_ev := False, reverser := PPrinting\<rparr>) else None
      | PPrinting \<Rightarrow>
          Some (if 0 \<in> set (port s)
                then s\<lparr>reverser := PReversing RMeasuring, got := got s @ [takeWhile (\<lambda>c. c \<noteq> 0) (port s)]\<rparr>
                else s\<lparr>reverser := PReversing (RStopped IndexError)\<rparr>)
      | PReversing RFinished \<Rightarrow> Some (s\<lparr>reverser := PEmitting\<rparr>)
      | PReversing (RStopped e) \<Rightarrow> None
      | PReversing pc \<Rightarrow>
          (case reverse_step pc (port s) of (pc', b) \<Rightarrow> Some (s\<lparr>port := b, reverser := PReversing pc'\<rparr>))
      | PEmitting \<Rightarrow> Some (s\<lparr>camkes_ev1 := True, reverser := PWaiting\<rparr>))"

inductive rump_step :: "int \<Rightarrow> int \<Rightarrow> int \<Rightarrow> rump_system \<Rightarrow> rump_system \<Rightarrow> bool"
  for server_fd bind_err listen_err where
  tcp_moves: "tcp_step server_fd bind_err listen_err s = Some t \<Longrightarrow> rump_step server_fd bind_err listen_err s t"
| reverser_moves: "reverser_step s = Some t \<Longrightarrow> rump_step server_fd bind_err listen_err s t"

definition rump_start :: "nat \<Rightarrow> recv_result list option list \<Rightarrow> bytes \<Rightarrow> rump_system" where
  "rump_start argc cs camkes_buffer =
     \<lparr>tcp = (if argc < 2 then TStopped Aborted
             else TCopying (take (REVERSE_STRING_MAX_LEN - 1) hello_text @ [0]) 0),
      pending = None, recvs = [], conns = cs, answered = [], finished = [], camkes_ev = False, camkes_ev1 = False,
      port = camkes_buffer, reverser = PWaiting, got = []\<rparr>"

text \<open>What a run has come to when it can go no further: the server waits for a connection or one of the two has stopped.\<close>

definition outcome :: "rump_system \<Rightarrow> (bytes \<times> bytes list list) result option" where
  "outcome s =
     (case tcp s of
        TStopped e \<Rightarrow> Some (Inl e)
      | TAccepting \<Rightarrow> if conns s = [] then Some (Inr (port s, finished s)) else None
      | _ \<Rightarrow> (case reverser s of PReversing (RStopped e) \<Rightarrow> Some (Inl e) | _ \<Rightarrow> None))"

section \<open>What is left to do, as the sequential model does it\<close>

definition rest_accept ::
  "recv_result list option list \<Rightarrow> bytes list list \<Rightarrow> bytes \<Rightarrow> (bytes \<times> bytes list list) result" where
  "rest_accept cs done_before b = rbind (accept_loop cs b) (\<lambda>(b', rest). Inr (b', done_before @ rest))"

definition rest_receive :: "rump_system \<Rightarrow> bytes list \<Rightarrow> bytes \<Rightarrow> (bytes \<times> bytes list list) result" where
  "rest_receive s outs b =
     rbind (serve_client (recvs s) b) (\<lambda>(b', more). rest_accept (conns s) (finished s @ [outs @ more]) b')"

definition rest_answer ::
  "int \<Rightarrow> int \<Rightarrow> int \<Rightarrow> rump_system \<Rightarrow> bytes \<Rightarrow> (bytes \<times> bytes list list) result" where
  "rest_answer server_fd bind_err listen_err s b =
     (case pending s of
        None \<Rightarrow>
          if server_fd < 0 \<or> bind_err < 0 \<or> listen_err < 0 then Inl Aborted
          else rest_accept (conns s) (finished s) b
      | Some (read, err) \<Rightarrow>
          rbind (c_bytes b read) (\<lambda>out.
          if err < 0 then Inl Aborted else rest_receive s (answered s @ [out]) b))"

fun rest_reverse :: "partner_pc \<Rightarrow> bytes \<Rightarrow> bytes result" where
  "rest_reverse (PReversing pc) b = reverse_rest pc b"
| "rest_reverse PEmitting b = Inr b"
| "rest_reverse pc b = rump_reverse_buffer b"

definition residual :: "int \<Rightarrow> int \<Rightarrow> int \<Rightarrow> rump_system \<Rightarrow> (bytes \<times> bytes list list) result" where
  "residual server_fd bind_err listen_err s =
     (let rest = rest_answer server_fd bind_err listen_err s in
      case tcp s of
        TCopying w j \<Rightarrow>
          if length w \<le> length (port s)
          then rbind (rump_reverse_buffer (take j (port s) @ drop j w @ drop (length w) (port s))) rest
          else Inl IndexError
      | TEmitting \<Rightarrow> rbind (rump_reverse_buffer (port s)) rest
      | TWaiting \<Rightarrow> if camkes_ev1 s then rest (port s) else rbind (rest_reverse (reverser s) (port s)) rest
      | TAnswering \<Rightarrow> rest (port s)
      | TAccepting \<Rightarrow> rest_accept (conns s) (finished s) (port s)
      | TReceiving \<Rightarrow> rest_receive s (answered s) (port s)
      | TStopped e \<Rightarrow> Inl e)"

section \<open>The hand-over\<close>

definition working :: "partner_pc \<Rightarrow> bool" where
  "working pc \<longleftrightarrow> pc \<noteq> PWaiting"

text \<open>
  The flags and the reverse server say whose turn it is; a text that is written ends with a
  null byte, so that the reverse server finds an end when it prints; the loop stays within half the string.
\<close>

definition turn_ok :: "rump_system \<Rightarrow> bool" where
  "turn_ok s \<longleftrightarrow>
     (if tcp s = TWaiting
      then (if working (reverser s) then \<not> camkes_ev s \<and> \<not> camkes_ev1 s else camkes_ev s \<noteq> camkes_ev1 s)
      else \<not> working (reverser s) \<and> \<not> camkes_ev s \<and> \<not> camkes_ev1 s)"

definition text_ok :: "rump_system \<Rightarrow> bool" where
  "text_ok s \<longleftrightarrow>
     (case tcp s of
        TCopying w j \<Rightarrow> j \<le> length w \<and> j \<le> length (port s) \<and> length w \<le> 4096 \<and> (\<exists>v. w = v @ [0]) \<and>
          (j = length w \<longrightarrow> 0 \<in> set (port s))
      | TEmitting \<Rightarrow> 0 \<in> set (port s)
      | TWaiting \<Rightarrow> (camkes_ev s \<or> reverser s = PPrinting \<longrightarrow> 0 \<in> set (port s))
      | _ \<Rightarrow> True)"

definition partner_ok :: "partner_pc \<Rightarrow> bool" where
  "partner_ok pc \<longleftrightarrow> (case pc of PReversing r \<Rightarrow> loop_ok r | _ \<Rightarrow> True)"

definition rump_inv :: "rump_system \<Rightarrow> bool" where
  "rump_inv s \<longleftrightarrow> turn_ok s \<and> text_ok s \<and> partner_ok (reverser s)"

lemma tcp_step_inv:
  assumes "tcp_step server_fd bind_err listen_err s = Some t" "rump_inv s"
  shows "rump_inv t"
proof (cases "tcp s")
  case (TCopying w j)
  show ?thesis
  proof (cases "j < length w")
    case True
    show ?thesis
    proof (cases "array_write (port s) j (w ! j)")
      case (Inl e)
      with assms TCopying True show ?thesis
        by (auto simp: tcp_step_def rump_inv_def turn_ok_def text_ok_def)
    next
      case (Inr b)
      have "0 \<in> set b" if "Suc j = length w"
        using Inr assms(2) TCopying that
        by (auto simp: array_write_eq_Inr rump_inv_def text_ok_def intro: set_update_memI)
      moreover have "Suc j \<le> length b" using Inr by (simp add: array_write_eq_Inr)
      ultimately show ?thesis using Inr assms TCopying True
        by (auto simp: tcp_step_def rump_inv_def turn_ok_def text_ok_def)
    qed
  next
    case False
    with assms TCopying show ?thesis by (auto simp: tcp_step_def rump_inv_def turn_ok_def text_ok_def)
  qed
next
  case TEmitting
  with assms show ?thesis by (auto simp: tcp_step_def rump_inv_def turn_ok_def text_ok_def working_def)
next
  case TWaiting
  with assms show ?thesis
    by (auto simp: tcp_step_def rump_inv_def turn_ok_def text_ok_def split: if_splits)
next
  case TAnswering
  with assms show ?thesis
    by (auto simp: tcp_step_def rump_inv_def turn_ok_def text_ok_def split: option.splits sum.splits if_splits)
next
  case TAccepting
  with assms show ?thesis
    by (auto simp: tcp_step_def rump_inv_def turn_ok_def text_ok_def split: option.splits list.splits)
next
  case TReceiving
  with assms show ?thesis
    by (auto simp: tcp_step_def rump_inv_def turn_ok_def text_ok_def REVERSE_STRING_BUFSIZE_def Let_def
        split: list.splits recv_result.splits sum.splits if_splits)
next
  case (TStopped e)
  with assms show ?thesis by (simp add: tcp_step_def)
qed

lemma waiting_inv:
  assumes "tcp s = TWaiting" "working (reverser s)"
  shows "rump_inv s \<longleftrightarrow> \<not> camkes_ev s \<and> \<not> camkes_ev1 s \<and> (reverser s = PPrinting \<longrightarrow> 0 \<in> set (port s)) \<and>
    partner_ok (reverser s)"
  using assms by (auto simp: rump_inv_def turn_ok_def text_ok_def)

lemma working_simps [simp]: "\<not> working PWaiting" "working PPrinting" "working (PReversing pc)" "working PEmitting"
  by (simp_all add: working_def)

lemma reverser_turn: "rump_inv s \<Longrightarrow> working (reverser s) \<or> camkes_ev s \<Longrightarrow> tcp s = TWaiting"
  by (auto simp: rump_inv_def turn_ok_def split: if_splits)

lemma reverser_enabled:
  assumes "reverser_step s = Some t" "rump_inv s"
  shows "tcp s = TWaiting" "\<not> camkes_ev1 s"
proof -
  have run: "working (reverser s) \<or> camkes_ev s"
    using assms(1) by (cases "reverser s") (simp_all add: reverser_step_def split: if_splits)
  then show tcp: "tcp s = TWaiting" using reverser_turn [OF assms(2)] by blast
  show "\<not> camkes_ev1 s"
    using run assms(2) tcp by (cases "working (reverser s)") (simp_all add: rump_inv_def turn_ok_def)
qed

text \<open>The reverse server's steps: to its printing, into the loop, one of the loop, out of it, and its event.\<close>

lemma reverser_step_cases:
  assumes "reverser_step s = Some t" "rump_inv s"
  obtains (take_turn) "reverser s = PWaiting" "camkes_ev s" "t = s\<lparr>camkes_ev := False, reverser := PPrinting\<rparr>"
    | (show_text) "reverser s = PPrinting" "0 \<in> set (port s)"
        "t = s\<lparr>reverser := PReversing RMeasuring, got := got s @ [takeWhile (\<lambda>c. c \<noteq> 0) (port s)]\<rparr>"
    | (loop_step) pc pc' b where "reverser s = PReversing pc" "loop_ok pc" "\<not> reverse_ended pc"
        "reverse_step pc (port s) = (pc', b)" "t = s\<lparr>port := b, reverser := PReversing pc'\<rparr>"
    | (loop_end) "reverser s = PReversing RFinished" "t = s\<lparr>reverser := PEmitting\<rparr>"
    | (give_turn) "reverser s = PEmitting" "t = s\<lparr>camkes_ev1 := True, reverser := PWaiting\<rparr>"
proof (cases "reverser s")
  case PWaiting
  with assms(1) show ?thesis by (intro take_turn) (auto simp: reverser_step_def split: if_splits)
next
  case PPrinting
  then have "0 \<in> set (port s)" using assms(2) reverser_enabled [OF assms] by (simp add: waiting_inv)
  with PPrinting assms(1) show ?thesis by (intro show_text) (simp_all add: reverser_step_def)
next
  case (PReversing pc)
  then have ok: "loop_ok pc" using assms(2) reverser_enabled [OF assms] by (simp add: waiting_inv partner_ok_def)
  obtain pc' b where step: "reverse_step pc (port s) = (pc', b)" by force
  show ?thesis
  proof (cases "reverse_ended pc")
    case True
    with PReversing assms(1) show ?thesis
      by (cases pc) (auto intro: loop_end simp: reverser_step_def reverse_ended_def)
  next
    case False
    with PReversing assms(1) step have "t = s\<lparr>port := b, reverser := PReversing pc'\<rparr>"
      by (cases pc) (auto simp: reverser_step_def reverse_ended_def)
    with loop_step PReversing ok False step show ?thesis by blast
  qed
next
  case PEmitting
  with assms(1) show ?thesis by (intro give_turn) (simp_all add: reverser_step_def)
qed

lemma reverser_step_inv:
  assumes "reverser_step s = Some t" "rump_inv s"
  shows "rump_inv t"
  using assms
proof (cases rule: reverser_step_cases)
  case take_turn
  with reverser_enabled [OF assms] assms(2) show ?thesis
    by (simp add: waiting_inv partner_ok_def) (simp add: rump_inv_def turn_ok_def text_ok_def)
next
  case show_text
  with reverser_enabled [OF assms] assms(2) show ?thesis by (simp add: waiting_inv partner_ok_def)
next
  case (loop_step pc pc' b)
  with reverser_enabled [OF assms] assms(2) reverse_step_ok [of pc "port s" pc' b] show ?thesis
    by (simp add: waiting_inv partner_ok_def)
next
  case loop_end
  with reverser_enabled [OF assms] assms(2) show ?thesis by (simp add: waiting_inv partner_ok_def)
next
  case give_turn
  with reverser_enabled [OF assms] assms(2) show ?thesis
    by (simp add: waiting_inv) (simp add: rump_inv_def turn_ok_def text_ok_def partner_ok_def)
qed

lemma rump_start_inv: "rump_inv (rump_start argc cs b)"
  by (simp add: rump_inv_def rump_start_def turn_ok_def text_ok_def partner_ok_def hello_text_def rev_consts)

lemma rump_step_inv: "rump_step server_fd bind_err listen_err s t \<Longrightarrow> rump_inv s \<Longrightarrow> rump_inv t"
  by (auto elim!: rump_step.cases intro: tcp_step_inv reverser_step_inv)

section \<open>Every step keeps what is left\<close>

lemma residual_waiting:
  "tcp s = TWaiting \<Longrightarrow> residual server_fd bind_err listen_err s =
     rbind (if camkes_ev1 s then Inr (port s) else rest_reverse (reverser s) (port s))
       (rest_answer server_fd bind_err listen_err s)"
  by (simp add: residual_def)

lemma rest_answer_update:
  "rest_answer server_fd bind_err listen_err (s\<lparr>camkes_ev := x\<rparr>) = rest_answer server_fd bind_err listen_err s"
  "rest_answer server_fd bind_err listen_err (s\<lparr>camkes_ev1 := x\<rparr>) = rest_answer server_fd bind_err listen_err s"
  "rest_answer server_fd bind_err listen_err (s\<lparr>tcp := pc\<rparr>) = rest_answer server_fd bind_err listen_err s"
  "rest_answer server_fd bind_err listen_err (s\<lparr>port := b\<rparr>) = rest_answer server_fd bind_err listen_err s"
  "rest_answer server_fd bind_err listen_err (s\<lparr>reverser := sv\<rparr>) = rest_answer server_fd bind_err listen_err s"
  "rest_answer server_fd bind_err listen_err (s\<lparr>got := g\<rparr>) = rest_answer server_fd bind_err listen_err s"
  by (simp_all add: fun_eq_iff rest_answer_def rest_receive_def c_bytes_def split: option.split)

lemma reverser_step_residual:
  assumes "reverser_step s = Some t" "rump_inv s"
  shows "residual server_fd bind_err listen_err t = residual server_fd bind_err listen_err s"
  using assms
proof (cases rule: reverser_step_cases)
  case (loop_step pc pc' b)
  with reverser_enabled [OF assms] reverse_step_rest [of pc "port s" pc' b] show ?thesis
    by (simp add: residual_waiting rest_answer_update)
qed (use reverser_enabled [OF assms] in \<open>simp_all add: residual_waiting rest_answer_update\<close>)

lemma copied_byte:
  "j < length w \<Longrightarrow> length w \<le> length b \<Longrightarrow>
   take (Suc j) (b[j := w ! j]) @ drop (Suc j) w @ zs = take j b @ drop j w @ zs"
  using Cons_nth_drop_Suc [of j w, symmetric] by (simp add: take_Suc_conv_app_nth)

lemma received_residual:
  assumes "recvs s = Message msg err # rs"
  shows "residual server_fd bind_err listen_err
     (if msg = [] then s\<lparr>tcp := TAccepting, finished := finished s @ [answered s]\<rparr>
      else if length msg \<ge> REVERSE_STRING_BUFSIZE then s\<lparr>tcp := TStopped IndexError\<rparr>
      else (case format_text msg of
              Inl e \<Rightarrow> s\<lparr>tcp := TStopped e\<rparr>
            | Inr text \<Rightarrow>
                s\<lparr>tcp := TCopying (take (length msg) text @ [0]) 0, pending := Some (length msg, err), recvs := rs\<rparr>)) =
   rest_receive s (answered s) (port s)"
proof -
  consider "msg = []" | "msg \<noteq> []" "length msg \<ge> REVERSE_STRING_BUFSIZE"
    | e where "msg \<noteq> []" "length msg < REVERSE_STRING_BUFSIZE" "format_text msg = Inl e"
    | tx where "msg \<noteq> []" "length msg < REVERSE_STRING_BUFSIZE" "format_text msg = Inr tx"
    by (cases "format_text msg") (auto simp: not_le [symmetric])
  then show ?thesis
  proof cases
    case 1
    with assms show ?thesis by (simp add: residual_def rest_receive_def)
  next
    case 2
    with assms show ?thesis by (simp add: residual_def rest_receive_def answer_message_def)
  next
    case 3
    with assms show ?thesis by (simp add: residual_def rest_receive_def answer_message_def c_snprintf_def)
  next
    case 4
    let ?w = "take (length msg) tx @ [0]"
    have "answer_message msg (port s) =
        rbind (if length ?w \<le> length (port s) then rump_reverse_buffer (?w @ drop (length ?w) (port s)) else Inl IndexError)
          (\<lambda>b. rbind (c_bytes b (length msg)) (\<lambda>out. Inr (b, out)))"
      using 4 by (simp add: answer_message_def c_snprintf_def c_memcpy_def overwrite_def)
    with 4 assms show ?thesis
      by (auto simp: residual_def rest_receive_def rest_answer_def rbind_def rest_accept_def fun_eq_iff
          split: sum.split prod.split)
  qed
qed

lemma tcp_step_residual:
  assumes "tcp_step server_fd bind_err listen_err s = Some t" "rump_inv s"
  shows "residual server_fd bind_err listen_err t = residual server_fd bind_err listen_err s"
proof (cases "tcp s")
  case (TCopying w j)
  show ?thesis
  proof (cases "j < length w")
    case True
    show ?thesis
    proof (cases "j < length (port s)")
      case fits: True
      with True TCopying assms(1) show ?thesis
        by (auto simp: tcp_step_def residual_def rest_answer_update copied_byte [OF True])
    next
      case False
      with True TCopying assms(1) show ?thesis
        by (auto simp: tcp_step_def residual_def array_write_def)
    qed
  next
    case False
    with TCopying assms show ?thesis
      by (auto simp: tcp_step_def residual_def rest_answer_update rump_inv_def text_ok_def)
  qed
next
  case TEmitting
  with assms have "reverser s = PWaiting" "\<not> camkes_ev1 s"
    by (simp_all add: rump_inv_def turn_ok_def working_def)
  with TEmitting assms(1) show ?thesis by (auto simp: tcp_step_def residual_def rest_answer_update)
next
  case TWaiting
  with assms(1) show ?thesis by (auto simp: tcp_step_def residual_def rest_answer_update split: if_splits)
next
  case TAnswering
  show ?thesis
  proof (cases "pending s")
    case None
    with TAnswering assms(1) show ?thesis by (auto simp: tcp_step_def residual_def rest_answer_def)
  next
    case (Some p)
    obtain read err where p: "p = (read, err)" by force
    with TAnswering Some assms(1) show ?thesis
      by (cases "c_bytes (port s) read")
        (auto simp: tcp_step_def residual_def rest_answer_def rest_receive_def)
  qed
next
  case TAccepting
  show ?thesis
  proof (cases "conns s")
    case Nil
    with TAccepting assms(1) show ?thesis by (simp add: tcp_step_def)
  next
    case (Cons c cs)
    with TAccepting assms(1) show ?thesis
      by (cases c)
        (auto simp: tcp_step_def residual_def rest_accept_def rest_receive_def rbind_def split: sum.split)
  qed
next
  case TReceiving
  then have t: "t = (case recvs s of
      RecvFailed # rs \<Rightarrow> s\<lparr>tcp := TStopped Aborted\<rparr>
    | Message msg err # rs \<Rightarrow>
        if msg = [] then s\<lparr>tcp := TAccepting, finished := finished s @ [answered s]\<rparr>
        else if length msg \<ge> REVERSE_STRING_BUFSIZE then s\<lparr>tcp := TStopped IndexError\<rparr>
        else (case format_text msg of
                Inl e \<Rightarrow> s\<lparr>tcp := TStopped e\<rparr>
              | Inr text \<Rightarrow>
                  s\<lparr>tcp := TCopying (take (length msg) text @ [0]) 0, pending := Some (length msg, err), recvs := rs\<rparr>)
    | _ \<Rightarrow> s\<lparr>tcp := TAccepting, finished := finished s @ [answered s]\<rparr>)"
    using assms(1) by (simp add: tcp_step_def)
  have before: "residual server_fd bind_err listen_err s = rest_receive s (answered s) (port s)"
    using TReceiving by (simp add: residual_def)
  show ?thesis
  proof (cases "recvs s")
    case Nil
    then show ?thesis by (simp add: t before) (simp add: residual_def rest_receive_def)
  next
    case (Cons r rs)
    show ?thesis
    proof (cases r)
      case Closed
      with Cons show ?thesis by (simp add: t before) (simp add: residual_def rest_receive_def)
    next
      case RecvFailed
      with Cons show ?thesis by (simp add: t before) (simp add: residual_def rest_receive_def)
    next
      case (Message msg err)
      with Cons show ?thesis using received_residual [of s msg err rs]
        by (simp add: t before)
    qed
  qed
next
  case (TStopped e)
  with assms show ?thesis by (simp add: tcp_step_def)
qed

lemma rump_step_residual:
  "rump_step server_fd bind_err listen_err s t \<Longrightarrow> rump_inv s \<Longrightarrow>
   residual server_fd bind_err listen_err t = residual server_fd bind_err listen_err s"
  by (auto elim!: rump_step.cases simp: tcp_step_residual reverser_step_residual)

lemma rump_start_residual:
  "residual server_fd bind_err listen_err (rump_start argc cs b) = tcp_main argc server_fd bind_err listen_err cs b"
proof -
  have hello: "format_text hello_text = Inr hello_text" by (simp add: hello_text_def)
  have len: "length hello_text = 13" by (simp add: hello_text_def)
  have "c_snprintf b REVERSE_STRING_MAX_LEN hello_text =
      (if 14 \<le> length b then Inr (hello_text @ [0] @ drop 14 b) else Inl IndexError)"
    by (simp add: c_snprintf_def hello rev_consts len c_memcpy_def overwrite_def)
  moreover note len
  moreover have "rest_answer server_fd bind_err listen_err (rump_start argc cs b) =
      (\<lambda>b'. if server_fd < 0 then Inl Aborted else if bind_err < 0 then Inl Aborted
       else if listen_err < 0 then Inl Aborted else accept_loop cs b')"
  proof
    fix b'
    show "rest_answer server_fd bind_err listen_err (rump_start argc cs b) b' =
      (if server_fd < 0 then Inl Aborted else if bind_err < 0 then Inl Aborted
       else if listen_err < 0 then Inl Aborted else accept_loop cs b')"
      by (cases "accept_loop cs b'") (auto simp: rest_answer_def rump_start_def rest_accept_def)
  qed
  moreover have "residual server_fd bind_err listen_err (rump_start argc cs b) =
      (if argc < 2 then Inl Aborted
       else if 14 \<le> length b
       then rbind (rump_reverse_buffer (hello_text @ [0] @ drop 14 b))
         (rest_answer server_fd bind_err listen_err (rump_start argc cs b))
       else Inl IndexError)"
    using len by (simp add: residual_def rump_start_def rev_consts)
  ultimately show ?thesis by (simp add: tcp_main_def)
qed

section \<open>Every run ends\<close>

text \<open>
  The steps that are left, at most: twenty thousand for a message, which has at most 4095 bytes to write and 2047
  pairs to swap.
\<close>

definition conn_work :: "recv_result list option \<Rightarrow> nat" where
  "conn_work c = (case c of None \<Rightarrow> 1 | Some rs \<Rightarrow> 20000 * length rs + 2)"

fun partner_rank :: "partner_pc \<Rightarrow> nat" where
  "partner_rank PPrinting = 9000"
| "partner_rank (PReversing pc) = 6 + reverse_rank pc"
| "partner_rank PEmitting = 5"
| "partner_rank PWaiting = 0"

definition tcp_rank :: "rump_system \<Rightarrow> nat" where
  "tcp_rank s =
     (case tcp s of
        TCopying w j \<Rightarrow> 10002 + (length w - j)
      | TEmitting \<Rightarrow> 9999
      | TWaiting \<Rightarrow> if camkes_ev1 s then 4 else if camkes_ev s then 9998 else partner_rank (reverser s)
      | TAnswering \<Rightarrow> 3
      | _ \<Rightarrow> 1)"

definition rank :: "rump_system \<Rightarrow> nat" where
  "rank s =
     (case tcp s of
        TStopped e \<Rightarrow> 0
      | TAccepting \<Rightarrow> Suc (sum_list (map conn_work (conns s)))
      | _ \<Rightarrow> Suc (sum_list (map conn_work (conns s)) + 20000 * length (recvs s) + tcp_rank s))"

lemma tcp_step_rank:
  assumes "tcp_step server_fd bind_err listen_err s = Some t" "rump_inv s"
  shows "rank t < rank s"
proof (cases "tcp s")
  case (TCopying w j)
  with assms(1) show ?thesis
    by (auto simp: tcp_step_def rank_def tcp_rank_def array_write_def split: if_splits)
next
  case TEmitting
  with assms have "\<not> camkes_ev1 s" by (simp add: rump_inv_def turn_ok_def)
  with TEmitting assms(1) show ?thesis by (auto simp: tcp_step_def rank_def tcp_rank_def)
next
  case TWaiting
  with assms(1) show ?thesis by (auto simp: tcp_step_def rank_def tcp_rank_def split: if_splits)
next
  case TAnswering
  with assms(1) show ?thesis
    by (auto simp: tcp_step_def rank_def tcp_rank_def split: option.splits sum.splits if_splits)
next
  case TAccepting
  with assms(1) show ?thesis
    by (auto simp: tcp_step_def rank_def tcp_rank_def conn_work_def split: option.splits list.splits)
next
  case TReceiving
  then have before: "rank s = sum_list (map conn_work (conns s)) + 20000 * length (recvs s) + 2"
    by (simp add: rank_def tcp_rank_def)
  show ?thesis
  proof (cases "\<exists>msg err rs. recvs s = Message msg err # rs")
    case False
    with TReceiving assms(1) show ?thesis unfolding before
      by (cases "recvs s" rule: list.exhaust [of _ _, OF _ recv_result.exhaust])
        (auto simp: tcp_step_def rank_def split: recv_result.splits list.splits)
  next
    case True
    then obtain msg err rs where r: "recvs s = Message msg err # rs" by blast
    show ?thesis
      using TReceiving assms(1) r before
      by (cases "format_text msg")
        (auto simp: tcp_step_def rank_def tcp_rank_def REVERSE_STRING_BUFSIZE_def split: if_splits)
  qed
next
  case (TStopped e)
  with assms show ?thesis by (simp add: tcp_step_def)
qed

lemma rank_waiting: "tcp s = TWaiting \<Longrightarrow> rank s = Suc (sum_list (map conn_work (conns s)) + 20000 * length (recvs s) +
    (if camkes_ev1 s then 4 else if camkes_ev s then 9998 else partner_rank (reverser s)))"
  by (simp add: rank_def tcp_rank_def)

lemma reverser_step_rank:
  assumes "reverser_step s = Some t" "rump_inv s"
  shows "rank t < rank s"
  using assms
proof (cases rule: reverser_step_cases)
  case (loop_step pc pc' b)
  with reverser_enabled [OF assms] assms(2) reverse_step_rank [of pc "port s" pc' b] show ?thesis
    by (simp add: rank_waiting waiting_inv)
qed (use reverser_enabled [OF assms] assms(2) in \<open>simp_all add: rank_waiting waiting_inv\<close>)

lemma rump_step_rank: "rump_step server_fd bind_err listen_err s t \<Longrightarrow> rump_inv s \<Longrightarrow> rank t < rank s"
  by (auto elim!: rump_step.cases intro: tcp_step_rank reverser_step_rank)

section \<open>The property\<close>

definition tcp_uses_port :: "rump_system \<Rightarrow> bool" where
  "tcp_uses_port s \<longleftrightarrow> (case tcp s of TCopying w j \<Rightarrow> True | TAnswering \<Rightarrow> True | _ \<Rightarrow> False)"

definition reverser_uses_port :: "rump_system \<Rightarrow> bool" where
  "reverser_uses_port s \<longleftrightarrow> (case reverser s of PPrinting \<Rightarrow> True | PReversing pc \<Rightarrow> True | _ \<Rightarrow> False)"

lemma stuck_outcome:
  assumes "rump_inv s" "\<nexists>t. rump_step server_fd bind_err listen_err s t"
  shows "outcome s = Some (residual server_fd bind_err listen_err s)"
proof -
  have none: "tcp_step server_fd bind_err listen_err s = None" "reverser_step s = None"
    using assms(2) by (meson not_Some_eq rump_step.intros)+
  show ?thesis
  proof (cases "tcp s")
    case TWaiting
    with none(1) have ev1: "\<not> camkes_ev1 s" by (auto simp: tcp_step_def split: if_splits)
    show ?thesis
    proof (cases "reverser s")
      case PWaiting
      with none(2) have "\<not> camkes_ev s" by (auto simp: reverser_step_def split: if_splits)
      with PWaiting TWaiting ev1 assms(1) show ?thesis by (simp add: rump_inv_def turn_ok_def)
    next
      case (PReversing pc)
      with TWaiting ev1 none(2) show ?thesis
        by (cases pc) (auto simp: outcome_def residual_def reverser_step_def split: prod.splits)
    qed (use none(2) in \<open>simp_all add: reverser_step_def\<close>)
  next
    case TAccepting
    with none(1) have "conns s = []" by (auto simp: tcp_step_def split: list.splits option.splits)
    with TAccepting show ?thesis by (simp add: outcome_def residual_def rest_accept_def)
  next
    case (TStopped e)
    then show ?thesis by (simp add: outcome_def residual_def)
  qed (use none(1) in \<open>simp_all add: tcp_step_def split: if_splits\<close>)
qed

interpretation rump: ending_runs "rump_step server_fd bind_err listen_err" rump_inv rank "residual server_fd bind_err listen_err"
  for server_fd bind_err listen_err
  by unfold_locales (auto intro: rump_step_inv rump_step_rank rump_step_residual)

text \<open>
  Property C21. The assembly computes what the server does when the reversal is a call: whatever the
  connections and messages, the state of the port and the interleaving of the two components, byte access by byte
  access, they are never both in the port; every run ends; and where it ends, waiting for a connection or at a
  fault of one of the two, the answers sent, the port or the fault are those of the sequential server.
\<close>

theorem rump_interleaving:
  assumes "(rump_step server_fd bind_err listen_err)\<^sup>*\<^sup>* (rump_start argc cs camkes_buffer) s"
  shows "\<not> (tcp_uses_port s \<and> reverser_uses_port s) \<and>
    (\<nexists>f. f 0 = s \<and> (\<forall>n. rump_step server_fd bind_err listen_err (f n) (f (Suc n)))) \<and>
    ((\<nexists>t. rump_step server_fd bind_err listen_err s t) \<longrightarrow>
       outcome s = Some (tcp_main argc server_fd bind_err listen_err cs camkes_buffer))"
proof (intro conjI impI)
  have reach: "rump_inv s"
      "residual server_fd bind_err listen_err s = tcp_main argc server_fd bind_err listen_err cs camkes_buffer"
    using rump.reachable [OF assms rump_start_inv] by (simp_all add: rump_start_residual)
  show "\<not> (tcp_uses_port s \<and> reverser_uses_port s)"
    using reach(1)
    by (cases "tcp s"; cases "reverser s")
      (simp_all add: tcp_uses_port_def reverser_uses_port_def rump_inv_def turn_ok_def)
  show "\<nexists>f. f 0 = s \<and> (\<forall>n. rump_step server_fd bind_err listen_err (f n) (f (Suc n)))"
    by (rule rump.no_infinite_run [OF reach(1)])
  assume "\<nexists>t. rump_step server_fd bind_err listen_err s t"
  from stuck_outcome [OF reach(1) this] reach(2)
  show "outcome s = Some (tcp_main argc server_fd bind_err listen_err cs camkes_buffer)" by simp
qed

theorem rump_interleaving_witness:
  "\<exists>s. (rump_step 3 0 0)\<^sup>*\<^sup>* (rump_start 2 [Some [Message [97, 98] 2, Closed]] (replicate 4096 0)) s \<and>
     port s ! 0 = 72 \<and> \<not> reverser_uses_port s \<and> (\<exists>t. rump_step 3 0 0 s t)"
proof -
  let ?c = "[Some [Message [97, 98] 2, Closed]]" and ?b = "replicate 4096 (0::u8)"
  let ?w = "take (REVERSE_STRING_MAX_LEN - 1) hello_text @ [0]"
  let ?s = "(rump_start 2 ?c ?b)\<lparr>tcp := TCopying ?w 1, port := ?b[0 := 72]\<rparr>"
  have "tcp_step 3 0 0 (rump_start 2 ?c ?b) = Some ?s"
    by (simp add: tcp_step_def rump_start_def hello_text_def rev_consts del: replicate.simps)
  then have run: "(rump_step 3 0 0)\<^sup>*\<^sup>* (rump_start 2 ?c ?b) ?s" by (auto intro: rump_step.tcp_moves)
  have "tcp_uses_port ?s" "outcome ?s = None"
    by (simp_all add: tcp_uses_port_def outcome_def rump_start_def)
  with rump_interleaving [OF run] run show ?thesis by (intro exI [of _ ?s]) (auto simp del: replicate.simps)
qed

end
