(* ===== verification/Small_Programs.thy ===== *)
theory Small_Programs
  imports Device_Clients Call_Tests Rpc_Services Event_Examples Shared_Counters Dma_Example
begin

text \<open>
  The programs that only print or only call one thing, each whole: the attributes of the assembly in
  \<^verbatim>\<open>apps/structs\<close>, \<^verbatim>\<open>apps/attributes\<close> and \<^verbatim>\<open>apps/hierarchical-attributes\<close>, the tests of \<^verbatim>\<open>apps/alignment\<close>,
  \<^verbatim>\<open>apps/testfaulthandlers\<close> and \<^verbatim>\<open>apps/testhardwareinterrupt\<close>, the programs for the rump kernel, the tool that
  writes the terminal's size (\<^verbatim>\<open>apps/terminal/tools/termsize.c\<close>), and the \<open>run\<close> functions of clients whose services
  other theories model, with what they print around the calls. The values the assembly gives to the attributes
  are arguments. A printed line is a string without its line end.
\<close>

section \<open>Structured attributes\<close>

record client_config =
  cfg_name :: string
  cfg_age :: u32
  cfg_height :: u32

record inline_config =
  inl_age :: u32
  inl_height :: u32

record foo_struct =
  foo_a :: u32

record bah_struct =
  bah_b :: u32
  bah_c :: foo_struct

record cat_struct =
  cat_b :: "u32 list"
  cat_c :: u32

definition quoted :: "string \<Rightarrow> string" where
  "quoted s = CHR 0x22 # s @ [CHR 0x22]"

text \<open>\<open>sizeof\<close> an array over \<open>sizeof\<close> its first element is the number of elements, known to the compiler.\<close>

definition structs_run ::
  "client_config \<Rightarrow> inline_config \<Rightarrow> bah_struct \<Rightarrow> foo_struct list \<Rightarrow> u32 list \<Rightarrow> string list \<Rightarrow> cat_struct \<Rightarrow>
   string list result" where
  "structs_run config inline_struct nested_struct array_struct numbers strings array_in_struct =
     rbind (array_read array_struct 0) (\<lambda>s0.
     rbind (array_read numbers 0) (\<lambda>n0.
     rbind (array_read strings 0) (\<lambda>t0.
     rbind (array_read (cat_b array_in_struct) 0) (\<lambda>b0.
     Inr [''struct: '' @ cfg_name config @ '': height plus age is '' @ printf_d (cfg_age config + cfg_height config),
          ''inline_struct: '' @ printf_d (inl_age inline_struct) @ '': height plus age is '' @
            printf_d (inl_height inline_struct),
          ''nested_struct: '' @ printf_d (foo_a (bah_c nested_struct)) @ '': height '',
          ''array_struct: contains '' @ show_nat (length array_struct) @ '' items, first one is '' @ printf_d (foo_a s0),
          ''numbers: contains '' @ show_nat (length numbers) @ '' items, first one is '' @ printf_d n0,
          ''strings: contains '' @ show_nat (length strings) @ '' items, first one is '' @ quoted t0,
          ''array_in_struct: array length: '' @ show_nat (length (cat_b array_in_struct)) @ '', first element '' @
            printf_d b0]))))"

text \<open>\<^verbatim>\<open>foo.c\<close> and \<^verbatim>\<open>bar.c\<close> of \<^verbatim>\<open>attributes\<close>.\<close>

definition attr_foo_run :: "u32 \<Rightarrow> u32 \<Rightarrow> string" where
  "attr_foo_run a b = ''a = '' @ printf_d a @ '', b = '' @ printf_d b"

definition attr_bar_run :: "u32 \<Rightarrow> u32 \<Rightarrow> string" where
  "attr_bar_run c d = ''c = '' @ printf_d c @ '', d = '' @ printf_d d"

section \<open>Attributes of nested components\<close>

definition foo_self_pa :: "string \<Rightarrow> string \<Rightarrow> string list" where
  "foo_self_pa str0 str1 = [''str0: '' @ str0, ''str1: '' @ str1]"

definition bar_self_pa :: "string \<Rightarrow> string list" where
  "bar_self_pa str = [''str: '' @ str]"

definition baz_pa :: "string \<Rightarrow> string list" where
  "baz_pa str = [''str: '' @ str]"

definition controller_run :: "string list \<Rightarrow> string list \<Rightarrow> string list \<Rightarrow> string list \<Rightarrow> string list" where
  "controller_run foo_pa foo_nested_pa0 foo_nested_pa1 foo_nested_pa2 =
     [''Foo''] @ foo_pa @ [''Foo Bar''] @ foo_nested_pa0 @ [''Foo Bar Baz''] @ foo_nested_pa1 @
     [''Foo Baz''] @ foo_nested_pa2"

text \<open>
  The assembly: \<open>Foo\<close> exports the interfaces of a \<open>Bar\<close>, which has a \<open>Baz\<close> of its own, and of a \<open>Baz\<close>. The first
  string is passed down through \<open>Bar\<close>, the second to the other \<open>Baz\<close>.
\<close>

definition hierarchy :: "string \<Rightarrow> string \<Rightarrow> string list" where
  "hierarchy str0 str1 =
     (let bar_str = str0; bar_baz_str = bar_str; foo_baz_str = str1
      in controller_run (foo_self_pa str0 str1) (bar_self_pa bar_str) (baz_pa bar_baz_str) (baz_pa foo_baz_str))"

section \<open>Alignment\<close>

text \<open>
  Floating point is not modelled: a number of the array is of any type, \<open>add_half\<close> is the sum with 0.5 in double
  precision, rounded, \<open>show_f\<close> the format \<open>%f\<close>, and \<open>movaps_test\<close>, in assembler, may fault.
\<close>

definition memcpy_test :: "('f \<Rightarrow> 'f) \<Rightarrow> 'f list \<Rightarrow> 'f list \<Rightarrow> 'f list result" where
  "memcpy_test add_half a b =
     (let intermediate = a in
      rbind (array_read intermediate 1) (\<lambda>x.
      rbind (array_write intermediate 1 (add_half x)) (\<lambda>intermediate.
      c_memcpy b intermediate)))"

text \<open>\<open>lits\<close> are the four literals; \<open>b\<close> is not initialised.\<close>

definition test_alignment ::
  "('f \<Rightarrow> 'f) \<Rightarrow> ('f \<Rightarrow> string) \<Rightarrow> unit result \<Rightarrow> 'f \<times> 'f \<times> 'f \<times> 'f \<Rightarrow> 'f list \<Rightarrow> string result" where
  "test_alignment add_half show_f movaps_test lits b =
     (case lits of (f1, f2, f3, f4) \<Rightarrow>
        rbind (memcpy_test add_half [f1, f2, f3, f4] b) (\<lambda>b.
        rbind movaps_test (\<lambda>_.
        rbind (array_read b 1) (\<lambda>x. Inr (''Done testing alignment: '' @ show_f x)))))"

definition alignment_b_f :: "string result \<Rightarrow> string list result" where
  "alignment_b_f test = rbind test (\<lambda>l. Inr [''Server is testing alignment...'', l])"

definition alignment_client :: "string list result \<Rightarrow> string result \<Rightarrow> string list result" where
  "alignment_client a_f test =
     rbind a_f (\<lambda>served.
     rbind test (\<lambda>l.
     Inr ([''Calling server...''] @ served @
       [''Back from server!'', ''Client is testing alignment...'', l, ''All is well in the universe!''])))"

section \<open>Faults and interrupts\<close>

text \<open>
  The recursion of \<^verbatim>\<open>testfaulthandlers\<close> on a stack of \<open>left\<close> bytes: a call takes the 1024 bytes of its array and
  \<open>extra\<close> for the rest of its frame. The compiler cannot turn the call into a jump because of the \<open>asm\<close> after it.
\<close>

function stack_overflow :: "nat \<Rightarrow> nat \<Rightarrow> unit result" where
  "stack_overflow extra left =
     (if left < 1024 + extra then Inl BadPointer else stack_overflow extra (left - (1024 + extra)))"
  by pat_completeness auto
termination by (relation "measure snd") auto

definition fault_client :: "string \<Rightarrow> nat \<Rightarrow> nat \<Rightarrow> string list \<times> unit result" where
  "fault_client name extra left =
     ([name @ '': Attempting to cause a stack overflow...''], stack_overflow extra left)"

text \<open>\<^verbatim>\<open>testhardwareinterrupt\<close>: the handler, and the loop of \<open>run\<close>, which never returns.\<close>

datatype irq_action = EAcknowledge

definition e_handle :: "irq_action list" where
  "e_handle = [EAcknowledge]"

partial_function (option) spin :: "unit \<Rightarrow> int option" where
  "spin u = spin u"

text \<open>The call of the DMA server that is never made, and the component that starts the cycle counter.\<close>

definition dummy_dummy :: "unit result" where
  "dummy_dummy = c_assert False"

datatype bench_call = Sel4benchInit

definition bench_pre_init :: "bench_call list" where
  "bench_pre_init = [Sel4benchInit]"

definition large_pages_run :: "string list" where
  "large_pages_run = [''Hello, World!'']"

section \<open>Programs for the rump kernel\<close>

text \<open>The arguments end with a null pointer, so there is one more than \<open>argc\<close>; it must not be printed.\<close>

datatype hello_action = HelloPrint string | HelloSleep nat

definition rump_hello :: "string list \<Rightarrow> hello_action list result" where
  "rump_hello argv =
     (if length argv = 0 then Inl IndexError
      else if length argv = 1 then Inl NullDereference
      else Inr [HelloPrint (''Hello '' @ argv ! 1), HelloPrint ''sleep 1 sec'', HelloSleep 1,
                HelloPrint ''sleep 10 sec'', HelloSleep 10, HelloPrint ''finished sleep''])"

definition rump_rust_hello :: "string list \<Rightarrow> hello_action list result" where
  "rump_rust_hello = rump_hello"

section \<open>The size of the terminal\<close>

text \<open>
  What \<open>ioctl\<close> leaves in the structure is an argument, columns and rows; zeros when it fails. The file is its lines. \<open>fopen\<close> is
  not checked.
\<close>

definition termsize_file :: "u16 \<Rightarrow> u16 \<Rightarrow> string list" where
  "termsize_file ws_col ws_row =
     [''#ifndef _TERMINAL_TERMINAL_H_'', ''#define _TERMINAL_TERMINAL_H_'', '''',
      ''/* THIS FILE IS AUTOGENERATED. DO NOT EDIT. */'', '''',
      ''#define TERMINAL_WIDTH '' @ show_int (uint ws_col), ''#define TERMINAL_HEIGHT '' @ show_int (uint ws_row), '''',
      ''#endif /* !_TERMINAL_TERMINAL_H_ */'']"

definition termsize_main :: "bool \<Rightarrow> (u16 \<times> u16) option \<Rightarrow> string list result" where
  "termsize_main fopen_ok ioctl =
     (case (case ioctl of None \<Rightarrow> (0, 0) | Some x \<Rightarrow> x) of (ws_col, ws_row) \<Rightarrow>
        if fopen_ok then Inr (termsize_file ws_col ws_row) else Inl NullDereference)"

section \<open>Clients, whole\<close>

text \<open>The question the clients of the adders print, and their \<open>run\<close> around the calls that \<open>Rpc_Services\<close> has.\<close>

fun question_terms :: "u32 list \<Rightarrow> string" where
  "question_terms [] = ''''"
| "question_terms (x # xs) = printf_d x @ '' '' @ (if xs \<noteq> [] then ''+ '' else '''') @ question_terms xs"

definition question :: "string \<Rightarrow> u32 list \<Rightarrow> string" where
  "question name operands =
     name @ '': what'' @ [CHR 0x27] @ ''s the answer to '' @ question_terms operands @ ''?''"

definition result_line :: "string \<Rightarrow> u32 \<Rightarrow> string" where
  "result_line name r = name @ '': result was '' @ printf_d r"

definition adder_run :: "string \<Rightarrow> u32 list \<Rightarrow> (string list \<times> u32 list) result" where
  "adder_run name d =
     rbind (adder_client d) (\<lambda>(r, d). Inr ([question name adder_operands, result_line name r], d))"

definition shared_run :: "string \<Rightarrow> string list result" where
  "shared_run name = rbind shared_client (\<lambda>r. Inr [question name adder_operands, result_line name r])"

text \<open>The clients of the UART: the characters they hand to the driver, then what they print of those it returns.\<close>

datatype uart_client_action = UartPut u8 | UartShown u8 | UartExit

definition uart_message :: bytes where
  "uart_message = lit ''This message is sent via UART.'' @ [10]"

definition uart_run :: "bytes \<Rightarrow> uart_client_action list" where
  "uart_run gets =
     (case uart_client gets of (out, left_loop) \<Rightarrow>
        map UartPut uart_message @ map UartShown out @ (if left_loop then [UartExit] else []))"

definition uart_cogent_run :: "bytes \<Rightarrow> uart_client_action list" where
  "uart_cogent_run gets =
     (case uart_cogent_client gets of (out, left_loop) \<Rightarrow>
        map UartPut uart_message @ map UartShown out @ (if left_loop then [UartExit] else []))"

text \<open>\<^verbatim>\<open>periodic\<close>: it yields after each report.\<close>

datatype periodic_action = PeriodicLine string | PeriodicYield

definition iprint :: "string \<Rightarrow> string \<Rightarrow> periodic_action" where
  "iprint name s = PeriodicLine (name @ '': '' @ s)"

definition periodic_run :: "string \<Rightarrow> periodic_action list option" where
  "periodic_run name =
     map_option (\<lambda>(acc, out).
         [iprint name ''--- Starting ---''] @
         concat (map (\<lambda>v. [iprint name (''acc = '' @ show_nat (unat v)), PeriodicYield]) out) @
         [iprint name (''*** DONE '' @ show_nat (unat acc) @ '' ***'')])
       (periodic_loop 0 [])"

text \<open>What a component of \<^verbatim>\<open>testdataportmux\<close> prints when it leaves its loop.\<close>

definition mux_done :: "nat \<Rightarrow> string list" where
  "mux_done ID = (if ID = 4 then [show_nat ID @ '': We'' @ [CHR 0x27] @ ''re done, people''] else [])"

text \<open>The client of the keyboard: the start, and the callbacks that follow, each registering itself again.\<close>

datatype keyboard_action = KeyboardLine string | RegisterCallback

definition keyboard_run :: "keyboard_action list" where
  "keyboard_run = [KeyboardLine ''Register keyboard driver event.'', RegisterCallback]"

definition keyboard_callbacks :: "(u16 \<Rightarrow> int \<times> u32) list \<Rightarrow> keyboard_action list" where
  "keyboard_callbacks reads =
     concat (map (\<lambda>r. case keyboard_event_callback r of (keys, again) \<Rightarrow>
       map (\<lambda>key. KeyboardLine (''Key Pressed: '' @ show_int key)) keys @ (if again then [RegisterCallback] else [])) reads)"

definition swap_run :: "u32 \<Rightarrow> string list" where
  "swap_run counter = (let (i, mem, counter) = swap_client counter in [''done''])"

definition ptr_client_run ::
  "(nat \<Rightarrow> int) \<Rightarrow> (int \<Rightarrow> u32 list \<Rightarrow> u32 list result) \<Rightarrow> u32 list \<Rightarrow> (string list \<times> u32 list) result" where
  "ptr_client_run wrap p_post d = rbind (ptr_client wrap p_post d) (\<lambda>d. Inr ([''All OK''], d))"

text \<open>The random numbers of \<^verbatim>\<open>global_async\<close> are those of the seed 100; \<open>rand\<close> is the library's sequence for a seed.\<close>

definition async_sender_main :: "(nat \<Rightarrow> nat \<Rightarrow> nat) \<Rightarrow> async_system \<Rightarrow> async_system option" where
  "async_sender_main rand = async_sender_run (rand 100)"

section \<open>What they print\<close>

lemma structs_assembly:
  "structs_run \<lparr>cfg_name = ''Zed'', cfg_age = 39, cfg_height = 34 + 4\<rparr> \<lparr>inl_age = 24, inl_height = 23\<rparr>
     \<lparr>bah_b = 12, bah_c = \<lparr>foo_a = 4\<rparr>\<rparr> [\<lparr>foo_a = 4\<rparr>, \<lparr>foo_a = 4\<rparr>, \<lparr>foo_a = 4\<rparr>] [4, 5, 6, 7, 8, 7]
     [''will'', ''this'', ''work?''] \<lparr>cat_b = [3, 4, 5, 6], cat_c = 4\<rparr> =
   Inr [''struct: Zed: height plus age is 77'', ''inline_struct: 24: height plus age is 23'', ''nested_struct: 4: height '',
     ''array_struct: contains 3 items, first one is 4'', ''numbers: contains 6 items, first one is 4'',
     ''strings: contains 3 items, first one is '' @ quoted ''will'', ''array_in_struct: array length: 4, first element 3'']"
  by (simp add: structs_run_def printf_d_def show_int_def show_nat.simps char_of_def bit_0)

text \<open>Each array has to have an element, or its first one is read outside of it.\<close>

lemma structs_empty: "structs_run c i n [] ns ss a = Inl IndexError"
  by (simp add: structs_run_def array_read_def)

text \<open>The first string reaches three places, the second two, at every depth the one of its own branch.\<close>

lemma hierarchy_lines:
  "hierarchy s0 s1 =
     [''Foo'', ''str0: '' @ s0, ''str1: '' @ s1, ''Foo Bar'', ''str: '' @ s0, ''Foo Bar Baz'', ''str: '' @ s0,
      ''Foo Baz'', ''str: '' @ s1]"
  by (simp add: hierarchy_def controller_run_def foo_self_pa_def bar_self_pa_def baz_pa_def)

text \<open>The copy has one element changed, and the test can only stop in the assembler.\<close>

lemma memcpy_test_copies:
  "length a = 4 \<Longrightarrow> length b = 4 \<Longrightarrow> memcpy_test add_half a b = Inr (a[1 := add_half (a ! 1)])"
  by (simp add: memcpy_test_def overwrite_def)

lemma alignment_lines:
  assumes "length b = 4" "length b' = 4"
  shows "(let t = test_alignment add_half show_f (Inr ()) (f1, f2, f3, f4)
          in alignment_client (alignment_b_f (t b)) (t b')) =
    Inr [''Calling server...'', ''Server is testing alignment...'', ''Done testing alignment: '' @ show_f (add_half f2),
      ''Back from server!'', ''Client is testing alignment...'', ''Done testing alignment: '' @ show_f (add_half f2),
      ''All is well in the universe!'']"
  using assms
  by (simp add: test_alignment_def memcpy_test_copies alignment_b_f_def alignment_client_def)

text \<open>The stack is always used up, and the handler that acknowledges is all that \<open>testhardwareinterrupt\<close> does.\<close>

lemma stack_overflows: "stack_overflow extra left = Inl BadPointer"
  by (induction extra left rule: stack_overflow.induct) (subst stack_overflow.simps, simp)

declare stack_overflow.simps [simp del]

lemma spin_never_returns: "spin u = None"
proof -
  have False if "spin u = Some r" for r
    using spin.raw_induct [of "\<lambda>_ _. False" u r] that by blast
  then show ?thesis by (cases "spin u") auto
qed

text \<open>A board without the argument: the null pointer at the end of the arguments is printed.\<close>

lemma rump_hello_argument: "rump_hello argv = Inl f \<longleftrightarrow> length argv < 2 \<and>
    f = (if argv = [] then IndexError else NullDereference)"
  by (cases argv; cases "tl argv") (auto simp: rump_hello_def)

text \<open>The answers: 342 + 74 + 283 + 37 + 534 is 1270.\<close>

lemma shared_run_lines:
  "shared_run name =
     Inr [question name adder_operands, name @ '': result was 1270'']"
  by (simp add: shared_run_def shared_client_answer result_line_def printf_d_def show_int_def show_nat.simps char_of_def bit_0)

lemma question_adder:
  "question ''client'' adder_operands = ''client: what'' @ [CHR 0x27] @ ''s the answer to 342 + 74 + 283 + 37 + 534 ?''"
  by (simp add: question_def adder_operands_def printf_d_def show_int_def show_nat.simps char_of_def bit_0)

lemma adder_run_lines:
  assumes "length d = 1024"
  shows "\<exists>d'. adder_run name d = Inr ([question name adder_operands, name @ '': result was 1270''], d')"
proof -
  obtain d' where "adder_client d = Inr (1270, d')" using adder_client_answer [OF assms] by blast
  then show ?thesis
    by (simp add: adder_run_def result_line_def printf_d_def show_int_def show_nat.simps char_of_def bit_0)
qed

text \<open>The counting loop reports ten times, yielding after each, and says that it is done.\<close>

lemma periodic_run_shape:
  "\<exists>out. periodic_run name = Some ([iprint name ''--- Starting ---''] @ out @ [iprint name ''*** DONE 100000 ***'']) \<and>
     length (filter (\<lambda>a. a = PeriodicYield) out) = 10"
proof -
  have done_line: "show_nat 100000 = ''100000''"
    by (simp add: show_nat.simps char_of_def bit_0)
  have yields: "length (filter (\<lambda>a. a = PeriodicYield)
      (concat (map (\<lambda>v. [iprint name (''acc = '' @ show_nat (unat v)), PeriodicYield]) vs))) = length vs" for vs :: "u64 list"
    by (induction vs) (simp_all add: iprint_def)
  obtain vs where vs: "periodic_loop 0 [] = Some (100000, vs)" "length vs = 10"
    using periodic_terminates by simp
  show ?thesis
    by (intro exI [of _ "concat (map (\<lambda>v. [iprint name (''acc = '' @ show_nat (unat v)), PeriodicYield]) vs)"])
      (simp only: periodic_run_def vs yields, simp add: done_line)
qed

text \<open>The client of the UART ends at the first \<open>q\<close>, having sent its message before it read anything.\<close>

lemma uart_run_until_q:
  assumes "113 \<notin> set cs"
  shows "uart_run (cs @ 113 # ds) = map UartPut uart_message @ map UartShown (cs @ [113]) @ [UartExit]"
proof -
  have "uart_client (cs @ 113 # ds) = (cs @ [113], True)"
    using assms by (induction cs) auto
  then show ?thesis by (simp add: uart_run_def)
qed

lemma uart_cogent_run_until_q:
  assumes "113 \<notin> set cs"
  shows "uart_cogent_run (cs @ 113 # ds) =
    map UartPut uart_message @ map UartShown (filter (\<lambda>c. c \<noteq> 0xff) cs @ [113]) @ [UartExit]"
proof -
  have "uart_cogent_client (cs @ 113 # ds) = (filter (\<lambda>c. c \<noteq> 0xff) cs @ [113], True)"
    using assms by (induction cs) (auto simp: Let_def)
  then show ?thesis by (simp add: uart_cogent_run_def)
qed

lemma keyboard_callbacks_show:
  assumes "list_all2 (\<lambda>r c. r KEYBOARD_DATA_PORT = (0, ucast (c :: u8))) reads cs"
  shows "keyboard_callbacks reads =
    concat (map (\<lambda>c. [KeyboardLine (''Key Pressed: '' @ show_int (int (unat c))), RegisterCallback]) cs)"
  using assms
  by (induction rule: list_all2_induct) (simp_all add: keyboard_callbacks_def keyboard_event_shows)

section \<open>The terminal's size read back\<close>

text \<open>The value of a macro in a file of lines, as the preprocessor finds it.\<close>

definition digits_value :: "string \<Rightarrow> nat" where
  "digits_value ds = foldl (\<lambda>n c. 10 * n + (of_char c - 48)) 0 ds"

fun macro_value :: "string \<Rightarrow> string list \<Rightarrow> nat option" where
  "macro_value name [] = None"
| "macro_value name (l # ls) =
     (let p = ''#define '' @ name @ '' '' in
      if take (length p) l = p then Some (digits_value (drop (length p) l)) else macro_value name ls)"

lemma digits_value_show_nat: "digits_value (show_nat n) = n"
proof (induction n rule: show_nat.induct)
  case (1 n)
  show ?case
  proof (cases "n < 10")
    case True
    then show ?thesis by (simp add: show_nat_small digits_value_def)
  next
    case False
    with 1 have "digits_value (show_nat (n div 10)) = n div 10" by simp
    with False show ?thesis by (subst show_nat.simps) (simp add: digits_value_def)
  qed
qed

lemma termsize_read_back:
  "macro_value ''TERMINAL_WIDTH'' (termsize_file w h) = Some (unat w) \<and>
   macro_value ''TERMINAL_HEIGHT'' (termsize_file w h) = Some (unat h)"
  by (simp add: termsize_file_def show_int_def digits_value_show_nat)

end
