(* ===== verification/Spec2Isabelle.thy ===== *)
theory Spec2Isabelle
  imports Camkes_Prelude Ring_Buffer Aeroplage_Font Aeroplage_Vesa Aeroplage_Input Dhcp_Util Dhcp_Server
    Picoserver_Events Secdemo_Crypto Secdemo_Transmitter Uboot_Ethdriver Pico_Ethdriver Pico_Tcp_Echo
    Pico_Udp_Echo Utilization Echo_Async Picoserver_Echo Terminal Serial_Clients String_Services
    Fdt_Dump Cakeml_Tipc Shared_Counters Vga_Terminal Device_Drivers Platform_Devices Uboot_Example
    Picoserver_Ethdriver Tcp_Server Lock_Protocols Socket_Pipeline Event_Examples Rpc_Services Mcs_Task
    String_Arrays Echo_Services Dma_Example Dataport_Tests Syscall_Tests
    Reply_Caps Pipelines Call_Tests Device_Clients Reverse_Steps Rump_Assembly Small_Programs
begin

text \<open>
  A model of the applications of the CAmkES example repository. A CAmkES application is a set of components
  that are compiled apart, each with its own address space, and connected by an assembly through
  three kinds of interface: procedures (RPC), events, and data ports (shared memory). The generated stubs, the kernel, the
  C library and the driver and network libraries are not part of the repository. What is in it, under \<^verbatim>\<open>src/apps\<close>, is the
  code of the components, and every theory models one component, one application or one group of applications of the same shape.

  \<^bold>\<open>How the code is modelled.\<close> A C function is a HOL function from the static variables it reads to those it
  writes, with what it does to the outside as a list: the characters printed, the registers accessed, the
  calls of a driver, the events emitted. A fault (an index out of range, a failed assertion, a call of \<open>abort\<close>, a bad
  pointer, undefined arithmetic) is the left side of \<open>result\<close>, in \<open>Camkes_Prelude\<close>, with \<open>rbind\<close> for
  sequencing and \<open>rfold\<close> and \<open>rmap\<close> for loops over a list. Integers that may wrap are words
  (\<open>u8\<close>, \<open>u16\<close>, \<open>u32\<close>, \<open>u64\<close>), read by \<open>sint\<close> where the C type is signed; counters that are bounded by an array are
  \<open>nat\<close>. Calls of code outside of the repository are arguments: a function of the call, or the list of the
  results the calls give, and the assumptions of a theorem say what is documented of them. Components that run
  at the same time are program counters in one state, with one \<open>run\<close> function per component and an \<open>inductive\<close>
  step relation that lets any of them move; each access to shared memory or to a lock is a step of its own, but for a string that
  is printed, which is read in one step.

  \<^bold>\<open>The theories.\<close>

  \<^item> \<open>Camkes_Prelude\<close>: results, checked arrays, string formats, copies. \<open>Ring_Buffer\<close>: the contract of the
    bounded queues, as the locales \<open>drop_fifo\<close> and \<open>drain_fifo\<close>, and the cyclic buffer that several components have. It is
    interpreted on the queue of a client of the Ethernet server (\<open>Uboot_Ethdriver\<close>), on the buffer between
    the cipher and the transmitter (\<open>Secdemo_Crypto\<close>) and on the transmitter's pending data (\<open>Secdemo_Transmitter\<close>).

  \<^item> \<open>Aeroplage_Font\<close>, \<open>Aeroplage_Vesa\<close>, \<open>Aeroplage_Input\<close>: \<^verbatim>\<open>aeroplage\<close>, a keyboard switched between two domains and a
    screen with a window for each (\<^verbatim>\<open>driver.c\<close>, \<^verbatim>\<open>switch.c\<close>, \<^verbatim>\<open>mocklinux.c\<close>, \<^verbatim>\<open>vesadriver.c\<close>, \<^verbatim>\<open>chars.c\<close>). The components are
    composed below, in \<open>aeroplage_pipeline\<close>.

  \<^item> \<open>Dhcp_Util\<close>, \<open>Dhcp_Server\<close>: \<^verbatim>\<open>dhcp\<close>. The server's tables are lists indexed by client, \<open>discover\<close> and
    \<open>request\<close> are its two operations, and \<open>dhcp_step\<close> is the system with four clients. The search for a free
    address, \<open>discover_loop\<close>, is a partial function, and that it ends is a theorem.

  \<^item> \<open>Secdemo_Crypto\<close>, \<open>Secdemo_Transmitter\<close>, \<open>Uboot_Ethdriver\<close>, \<open>Platform_Devices\<close>: \<^verbatim>\<open>security_demo\<close>, and with
    \<open>Picoserver_Ethdriver\<close> and \<open>Uboot_Example\<close> the other two applications over the U-Boot driver library,
    \<^verbatim>\<open>picoserver_uboot\<close> and \<^verbatim>\<open>uboot-driver-example\<close>.

  \<^item> \<open>Pico_Ethdriver\<close>, \<open>Pico_Tcp_Echo\<close>, \<open>Pico_Udp_Echo\<close>, \<open>Utilization\<close>: \<^verbatim>\<open>picotcp_single_component\<close>, a network
    stack with its driver and three servers in one component. \<open>Echo_Async\<close>: \<^verbatim>\<open>picotcp_tcp_echo\<close>, the servers over an
    asynchronous socket interface. \<open>Picoserver_Events\<close>, \<open>Picoserver_Echo\<close>: \<^verbatim>\<open>picoserver\<close> and the echo
    component of \<^verbatim>\<open>picoserver_uboot\<close>. \<open>Tcp_Server\<close>, \<open>Rump_Assembly\<close>: \<^verbatim>\<open>rumprun_ethernet\<close>, the server with the reversal as a
    call, and its interleaving with the component that reverses, which is shown to compute the same.

  \<^item> \<open>Terminal\<close>, \<open>Serial_Clients\<close>, \<open>Vga_Terminal\<close>, \<open>Device_Drivers\<close>, \<open>Dma_Example\<close>: \<^verbatim>\<open>terminal\<close>, the three \<^verbatim>\<open>serialserver\<close>
    applications, \<^verbatim>\<open>vgatest\<close>, \<^verbatim>\<open>uart\<close>, \<^verbatim>\<open>keyboard\<close>, \<^verbatim>\<open>pit\<close>, \<^verbatim>\<open>epit\<close>, \<^verbatim>\<open>periodic\<close>, \<^verbatim>\<open>testnto1mmio\<close>, \<^verbatim>\<open>dma-example\<close>.

  \<^item> \<open>Fdt_Dump\<close>: the printer of device trees of \<^verbatim>\<open>fdtgen\<close>. \<open>Mcs_Task\<close>: the task of \<^verbatim>\<open>mcs-scheduling\<close>.

  \<^item> \<open>Cakeml_Tipc\<close>, \<open>Shared_Counters\<close>, \<open>Lock_Protocols\<close>, \<open>Socket_Pipeline\<close>, \<open>Event_Examples\<close>: applications whose
    point is the interleaving: \<^verbatim>\<open>cakeml_tipc\<close>, \<^verbatim>\<open>testdataportmux\<close> and \<^verbatim>\<open>rumprun_pthreads\<close>, \<^verbatim>\<open>lockserver\<close> and
    \<^verbatim>\<open>mutex\<close>, \<^verbatim>\<open>socket\<close>, \<^verbatim>\<open>global_async\<close>, \<^verbatim>\<open>binary-semaphore\<close>, \<^verbatim>\<open>event-driven\<close> and \<^verbatim>\<open>testsel4notification\<close>. The locales \<open>lock_protocol\<close>
    (an invariant and mutual exclusion) and \<open>finishing_protocol\<close> (with a measure, so that no reachable state is
    without a way to the end) state what these protocols share; they are interpreted on the lock server, on the mutex
    connector, on the two locks of the socket pipeline and on both hand-overs of \<open>Event_Examples\<close>.

  \<^item> \<open>String_Services\<close>, \<open>Rpc_Services\<close>: the string processors, the exchange and the reversal in a data port; the
    adders, the rotation and the other procedure calls with state or arithmetic. \<open>Reverse_Steps\<close>: the loop of the reversal as
    single accesses, and \<^verbatim>\<open>reversestring\<close> as an interleaving of them. The locale \<open>ending_runs\<close> of the prelude, steps that keep an
    invariant and what is still to come and make a number smaller, is interpreted on it and on \<open>Rump_Assembly\<close>.

  \<^item> \<open>Component_Heap\<close>: blocks of characters and of pointers, allocation from an arena of bounded size, release, and the test
    of \<^verbatim>\<open>heap_check.h\<close>. \<open>String_Arrays\<close>: \<^verbatim>\<open>teststringarrays\<close> over it. The interface of the service is the
    locale \<open>string_service\<close>; \<open>string_forwarder\<close> shows that component B in front of a service is a service (a
    \<open>sublocale\<close>), and \<open>string_client\<close> holds the run of A. They are interpreted on C, on the three B and on the chain of the
    assembly. \<open>Echo_Services\<close>: the echo interface of ten applications, with the locale \<open>string_answer\<close> for
    the call that returns a string.

  \<^item> \<open>Dataport_Tests\<close>, \<open>Syscall_Tests\<close>: \<^verbatim>\<open>testdataportrpc\<close>, \<^verbatim>\<open>dataport\<close>, \<^verbatim>\<open>testbufvariant\<close>, \<^verbatim>\<open>exchangestring\<close>; \<^verbatim>\<open>testsyscalls\<close>.

  \<^item> \<open>Pipelines\<close>: the assemblies of string processors, \<^verbatim>\<open>hierarchical-components\<close> and \<^verbatim>\<open>multiassembly\<close>, and \<^verbatim>\<open>cakeml_regex\<close>.
    \<open>Reply_Caps\<close>: \<^verbatim>\<open>testreplycapprotection\<close>, a further interpretation of \<open>finishing_protocol\<close>. \<open>Call_Tests\<close>: components that
    call or signal one server (\<^verbatim>\<open>testnto1overload\<close>, \<^verbatim>\<open>testgroupingcontrol\<close>, \<^verbatim>\<open>testcamkes438\<close>, \<^verbatim>\<open>global-imports\<close>,
    \<^verbatim>\<open>multiclient\<close>, the clients of \<^verbatim>\<open>event\<close>, \<^verbatim>\<open>event-driven\<close>, \<^verbatim>\<open>binary-semaphore\<close> and \<^verbatim>\<open>keyboard\<close>).
    \<open>Device_Clients\<close>: \<^verbatim>\<open>timeserver\<close>, the components of \<^verbatim>\<open>testnto1mmio\<close>, the run of \<^verbatim>\<open>fdtgen\<close>, the set-up of the Ethernet
    card, and the C side of the CakeML applications; of \<^verbatim>\<open>cakeml_hello\<close> the CakeML side too. \<open>Small_Programs\<close>: the
    programs that print their attributes or only call one thing (\<^verbatim>\<open>structs\<close>, \<^verbatim>\<open>attributes\<close>, \<^verbatim>\<open>hierarchical-attributes\<close>, \<^verbatim>\<open>alignment\<close>,
    \<^verbatim>\<open>testfaulthandlers\<close>, \<^verbatim>\<open>testhardwareinterrupt\<close>, \<^verbatim>\<open>rumprun_hello\<close>, \<^verbatim>\<open>rumprun_rust\<close>), the tool of \<^verbatim>\<open>terminal\<close>, and the \<open>run\<close>
    functions of clients whose services are in other theories, with what they print.

  \<^bold>\<open>What is shown.\<close> For the servers: the invariant of their state, that no operation faults on any sequence of calls or
  events, and that what goes in comes out whole and in order (queues, echoes, windows, cipher). For the
  protocols: mutual exclusion, the value at the end, and that the end can be reached from every reachable state. For the drivers and
  services: what is computed, on every branch. A theorem of the kind error describes a fault in the code by
  an input on which it shows.

  \<^bold>\<open>Loops.\<close> A loop over an array or a list is structural recursion. Loops that need not end are partial
  functions with \<open>None\<close> for not ending: \<open>discover_loop\<close> (shown to end), \<open>dump_struct\<close> (shown to end on the encoding of a
  tree and not to end on a negative length) and \<open>periodic_loop\<close> (shown to end after 100000
  rounds). Endless main loops are functions of the list of what they receive, so a theorem about all lists
  covers every finite part of a run. No fuel is used.

  \<^bold>\<open>Not modelled.\<close> The assembly descriptions (the values they give are arguments, the connections between components
  are taken from them), templates other than the mutex connector, build files and assembler. Of the C code: fixed messages that only
  mark progress, in some of the larger programs; the arithmetic of floating point (\<^verbatim>\<open>alignment\<close> is modelled over numbers of any type); the
  text of eight thousand characters in \<^verbatim>\<open>testdataportrpc\<close>, which is an argument; code that is compiled out.
\<close>

lemma grid_text_nonzero: "grid_text left n (filter (\<lambda>c. c \<noteq> 0) cs) = grid_text left n cs"
  by (induction cs arbitrary: n) (auto simp: printable_def)

text \<open>
  Property C1. From keyboard to screen: whatever keys are typed, the bytes that pass the keyboard driver,
  the switch and the guests, taken from the two rings of the graphics driver in any alternation
  of bytes and empty polls, appear as the grid text of the low window and that of the
  high window. Each window shows exactly the characters typed while its domain was selected, so
  it tells nothing about what is typed for the other one.
\<close>

theorem aeroplage_pipeline:
  assumes "list_all plain_event es" "key_chars f es = typed"
    and "filter (\<lambda>c. c \<noteq> 0) (map fst polls) = routed LOW LOW typed"
    and "filter (\<lambda>c. c \<noteq> 0) (map snd polls) = routed HIGH LOW typed"
  shows "\<exists>t sel out s frame pixels.
     kbd_run 0 True f (concat (map key_codes es)) = Inr (t, typed) \<and>
     switch_run True True True typed = Inr (sel, out) \<and>
     mocklinux_run True True (low_output out) = Inr (filter (\<lambda>c. c \<noteq> 0) (map fst polls)) \<and>
     mocklinux_run True True (high_output out) = Inr (filter (\<lambda>c. c \<noteq> 0) (map snd polls)) \<and>
     borders = Inr frame \<and> vesa_run 0 True True polls = Inr (s, frame @ pixels) \<and>
     filter (in_window 102) pixels = grid_text 102 0 (routed LOW LOW typed) \<and>
     filter (in_window 514) pixels = grid_text 514 0 (routed HIGH LOW typed)"
proof -
  obtain t where t: "kbd_run 0 True f (concat (map key_codes es)) = Inr (t, typed)"
    using kbd_events [OF assms(1), of kbd_start f] assms(2) by (auto simp: kbd_run_def kbd_idle_def kbd_start_def)
  obtain sel out where s: "fold switch_byte typed switch_start = (sel, out)"
    by (cases "fold switch_byte typed switch_start")
  from s switch_fold [of typed LOW "\<lparr>low_output = [], high_output = []\<rparr>"]
  have out: "low_output out = routed LOW LOW typed" "high_output out = routed HIGH LOW typed"
    by (simp_all add: switch_start_def)
  obtain frame where b: "borders = Inr frame" using borders_total by blast
  obtain u pixels where u: "vesa_loop polls \<lparr>low_cur = low_start, high_cur = high_start\<rparr> = Inr (u, pixels)"
      "filter (in_window 102) pixels = grid_text 102 0 (map fst polls)"
      "filter (in_window 514) pixels = grid_text 514 0 (map snd polls)"
    using vesa_loop_windows [OF vesa_at_start, of polls] by blast
  have "vesa_run 0 True True polls = Inr (u, frame @ pixels)" unfolding vesa_run_def b by (simp add: u(1))
  with t s out b u(2,3) assms(3,4) show ?thesis
    using grid_text_nonzero [of 102 0 "map fst polls"] grid_text_nonzero [of 514 0 "map snd polls"]
    by (auto simp: switch_run_def mocklinux_run_def)
qed

theorem aeroplage_pipeline_witness:
  "\<exists>t sel out s frame pixels.
     kbd_run 0 True (\<lambda>c. of_int c) (concat (map key_codes [Press 104, Release 104, Release 9, Release 105])) =
       Inr (t, [104, 9, 105]) \<and>
     switch_run True True True [104, 9, 105] = Inr (sel, out) \<and>
     mocklinux_run True True (low_output out) = Inr [104] \<and> mocklinux_run True True (high_output out) = Inr [105] \<and>
     borders = Inr frame \<and> vesa_run 0 True True [(0, 0), (104, 105)] = Inr (s, frame @ pixels) \<and>
     filter (in_window 102) pixels = grid_text 102 0 [104] \<and>
     filter (in_window 514) pixels = grid_text 514 0 [105]"
proof -
  have r: "routed LOW LOW [104, 9, 105] = [104]" "routed HIGH LOW [104, 9, 105] = [105]"
    by (simp_all add: SWITCH_CHAR_def)
  have "filter (\<lambda>c. c \<noteq> 0) (map fst [(0, 0), (104, 105)]) = [104 :: u8]"
    "filter (\<lambda>c. c \<noteq> 0) (map snd [(0, 0), (104, 105)]) = [105 :: u8]" by simp_all
  moreover have "list_all plain_event [Press 104, Release 104, Release 9, Release 105]"
    "key_chars (\<lambda>c. of_int c) [Press 104, Release 104, Release 9, Release 105] = [104, 9, 105]"
    by (simp_all add: plain_code_def)
  ultimately show ?thesis
    using aeroplage_pipeline [of "[Press 104, Release 104, Release 9, Release 105]" "\<lambda>c. of_int c" "[104, 9, 105]"
        "[(0, 0), (104, 105)]"] unfolding r by simp
qed

end
